(* ===== verification/Prelude.thy ===== *)
theory Prelude
  imports Main "HOL-Library.Word"
begin

text \<open>
  Shared vocabulary of the development: the collections of simplification rules the
  component theories extend, the string functions of the Rust standard library the sources
  call, decimal and hexadecimal rendering and parsing, and the saturating conversions
  between machine integers.

  A Rust \<^verbatim>\<open>String\<close> is its UTF-8 byte sequence, one HOL character per byte, so
  \<^verbatim>\<open>len\<close> is \<open>length\<close>.  The patterns the sources split at are all ASCII, and UTF-8 is
  self-synchronising, so a search for them in the bytes is the search in the characters.
\<close>

named_theorems frame_simps \<open>what an operation leaves unchanged\<close>
named_theorems inv_intros \<open>preservation of a component invariant by an operation\<close>
named_theorems string_simps \<open>facts on the string functions of the prelude\<close>

section \<open>Results\<close>

text \<open>\<^verbatim>\<open>Result<T, E>\<close> is a sum with the error on the left.\<close>

abbreviation Err :: "'e \<Rightarrow> 'e + 'a" where "Err \<equiv> Inl"
abbreviation Ok :: "'a \<Rightarrow> 'e + 'a" where "Ok \<equiv> Inr"

definition is_ok :: "'e + 'a \<Rightarrow> bool" where
  "is_ok r = (case r of Inl _ \<Rightarrow> False | Inr _ \<Rightarrow> True)"

lemma is_ok_simps [simp]: "is_ok (Ok x)" "\<not> is_ok (Err e)"
  by (simp_all add: is_ok_def)

lemma is_ok_iff: "is_ok r \<longleftrightarrow> (\<exists>x. r = Ok x)"
  by (cases r) simp_all

text \<open>The \<^verbatim>\<open>?\<close> operator.\<close>

definition bind_result :: "'e + 'a \<Rightarrow> ('a \<Rightarrow> 'e + 'b) \<Rightarrow> 'e + 'b" where
  "bind_result r f = (case r of Inl e \<Rightarrow> Inl e | Inr x \<Rightarrow> f x)"

lemma bind_result_simps [simp]: "bind_result (Err e) f = Err e" "bind_result (Ok x) f = f x"
  by (simp_all add: bind_result_def)

lemma bind_result_Ok_iff: "bind_result r f = Ok y \<longleftrightarrow> (\<exists>x. r = Ok x \<and> f x = Ok y)"
  by (cases r) simp_all

lemma bind_result_Err_iff: "bind_result r f = Err e \<longleftrightarrow> r = Err e \<or> (\<exists>x. r = Ok x \<and> f x = Err e)"
  by (cases r) auto

section \<open>Lists\<close>

lemma find_Some_in: "find P xs = Some x \<Longrightarrow> x \<in> set xs \<and> P x"
  by (induction xs) (auto split: if_splits)

text \<open>The greatest \<^verbatim>\<open>u64\<close> and \<^verbatim>\<open>i64\<close>, folded: proofs that do not need the numbers keep them so.\<close>

definition u64_top :: nat where
  "u64_top = 2 ^ 64 - 1"

definition i64_top :: int where
  "i64_top = 2 ^ 63 - 1"

section \<open>Strings\<close>

text \<open>\<^verbatim>\<open>str::strip_prefix\<close>, \<^verbatim>\<open>starts_with\<close> and \<^verbatim>\<open>strip_suffix\<close>.\<close>

fun strip_prefix :: "string \<Rightarrow> string \<Rightarrow> string option" where
  "strip_prefix [] s = Some s"
| "strip_prefix (p # ps) [] = None"
| "strip_prefix (p # ps) (c # cs) = (if p = c then strip_prefix ps cs else None)"

definition starts_with :: "string \<Rightarrow> string \<Rightarrow> bool" where
  "starts_with p s = (strip_prefix p s \<noteq> None)"

definition strip_suffix :: "string \<Rightarrow> string \<Rightarrow> string option" where
  "strip_suffix p s = map_option rev (strip_prefix (rev p) (rev s))"

lemma strip_prefix_Some_iff [string_simps]: "strip_prefix p s = Some r \<longleftrightarrow> s = p @ r"
  by (induction p s rule: strip_prefix.induct) auto

lemma strip_prefix_append [simp]: "strip_prefix p (p @ r) = Some r"
  by (simp add: strip_prefix_Some_iff)

lemma strip_prefix_None_iff: "strip_prefix p s = None \<longleftrightarrow> (\<forall>r. s \<noteq> p @ r)"
  by (metis option.exhaust option.distinct(1) strip_prefix_Some_iff)

lemma starts_with_iff [string_simps]: "starts_with p s \<longleftrightarrow> (\<exists>r. s = p @ r)"
  by (simp add: starts_with_def strip_prefix_None_iff)

lemma starts_with_Nil [simp]: "starts_with [] s"
  by (simp add: starts_with_iff)

lemma strip_suffix_Some_iff [string_simps]: "strip_suffix p s = Some r \<longleftrightarrow> s = r @ p"
proof -
  have "strip_suffix p s = Some r \<longleftrightarrow> strip_prefix (rev p) (rev s) = Some (rev r)"
    by (auto simp: strip_suffix_def)
  then show ?thesis by (metis rev_append rev_rev_ident strip_prefix_Some_iff)
qed

lemma strip_suffix_append [simp]: "strip_suffix p (r @ p) = Some r"
  by (simp add: strip_suffix_Some_iff)

text \<open>
  \<^verbatim>\<open>str::split_once\<close> at the first occurrence of a character, \<^verbatim>\<open>rsplit_once\<close> at the last
  one, and \<^verbatim>\<open>split\<close>.
\<close>

fun split_once :: "char \<Rightarrow> string \<Rightarrow> (string \<times> string) option" where
  "split_once d [] = None"
| "split_once d (c # cs) =
     (if c = d then Some ([], cs)
      else map_option (\<lambda>(a, b). (c # a, b)) (split_once d cs))"

definition rsplit_once :: "char \<Rightarrow> string \<Rightarrow> (string \<times> string) option" where
  "rsplit_once d s = map_option (\<lambda>(a, b). (rev b, rev a)) (split_once d (rev s))"

fun split_char :: "char \<Rightarrow> string \<Rightarrow> string list" where
  "split_char d [] = [[]]"
| "split_char d (c # cs) =
     (if c = d then [] # split_char d cs
      else (case split_char d cs of [] \<Rightarrow> [[c]] | w # ws \<Rightarrow> (c # w) # ws))"

lemma split_once_Some_iff [string_simps]:
  "split_once d s = Some (a, b) \<longleftrightarrow> s = a @ d # b \<and> d \<notin> set a"
proof (induction s arbitrary: a)
  case Nil
  then show ?case by simp
next
  case (Cons c cs)
  show ?case
  proof (cases a)
    case Nil
    then show ?thesis by (auto split: option.splits)
  next
    case (Cons x xs)
    then show ?thesis
      using Cons.IH [of xs] by (auto)
  qed
qed

lemma split_once_None_iff [string_simps]: "split_once d s = None \<longleftrightarrow> d \<notin> set s"
  by (induction s) auto

lemma split_once_append: "d \<notin> set a \<Longrightarrow> split_once d (a @ d # b) = Some (a, b)"
  by (simp add: split_once_Some_iff)

lemma rsplit_once_Some_iff [string_simps]:
  "rsplit_once d s = Some (a, b) \<longleftrightarrow> s = a @ d # b \<and> d \<notin> set b"
proof -
  have "rsplit_once d s = Some (a, b) \<longleftrightarrow> split_once d (rev s) = Some (rev b, rev a)"
    by (auto simp: rsplit_once_def)
  also have "\<dots> \<longleftrightarrow> rev s = rev b @ d # rev a \<and> d \<notin> set b"
    by (simp add: split_once_Some_iff)
  also have "\<dots> \<longleftrightarrow> s = a @ d # b \<and> d \<notin> set b"
  proof -
    have "rev s = rev b @ d # rev a \<longleftrightarrow> s = rev (rev b @ d # rev a)"
      by (metis rev_rev_ident)
    then show ?thesis by simp
  qed
  finally show ?thesis .
qed

lemma last_sep_unique:
  "a @ (d :: char) # b = a' @ d # b' \<Longrightarrow> d \<notin> set b \<Longrightarrow> d \<notin> set b' \<Longrightarrow> a = a' \<and> b = b'"
  using rsplit_once_Some_iff [of d "a @ d # b" a b] rsplit_once_Some_iff [of d "a @ d # b" a' b']
  by simp

lemma rsplit_once_None_iff [string_simps]: "rsplit_once d s = None \<longleftrightarrow> d \<notin> set s"
  by (simp add: rsplit_once_def split_once_None_iff)

lemma split_char_ne [simp]: "split_char d s \<noteq> []"
  by (induction s) (auto split: list.splits)

lemma split_char_no_sep: "w \<in> set (split_char d s) \<Longrightarrow> d \<notin> set w"
  by (induction s arbitrary: w) (auto split: list.splits if_splits)

fun join_char :: "char \<Rightarrow> string list \<Rightarrow> string" where
  "join_char d [] = []"
| "join_char d [w] = w"
| "join_char d (w # v # ws) = w @ d # join_char d (v # ws)"

lemma join_char_Cons_char: "join_char d ((c # w) # ws) = c # join_char d (w # ws)"
  by (cases ws) simp_all

lemma join_split_char [simp]: "join_char d (split_char d s) = s"
proof (induction s)
  case Nil
  then show ?case by simp
next
  case (Cons c cs)
  then show ?case
    by (cases "split_char d cs") (auto simp: join_char_Cons_char)
qed

text \<open>\<^verbatim>\<open>str::split_once\<close> at the first occurrence of a string.\<close>

fun split_once_str :: "string \<Rightarrow> string \<Rightarrow> (string \<times> string) option" where
  "split_once_str p s =
     (case strip_prefix p s of
        Some r \<Rightarrow> Some ([], r)
      | None \<Rightarrow>
          (case s of
             [] \<Rightarrow> None
           | c # cs \<Rightarrow> map_option (\<lambda>(a, b). (c # a, b)) (split_once_str p cs)))"

declare split_once_str.simps [simp del]

lemma split_once_str_Some: "split_once_str p s = Some (a, b) \<Longrightarrow> s = a @ p @ b"
proof (induction s arbitrary: a)
  case Nil
  then show ?case
    by (subst (asm) split_once_str.simps) (auto simp: strip_prefix_Some_iff split: option.splits)
next
  case (Cons c cs)
  then show ?case
    by (subst (asm) (2) split_once_str.simps)
      (auto simp: strip_prefix_Some_iff split: option.splits)
qed

lemma split_once_str_here [simp]: "split_once_str p (p @ r) = Some ([], r)"
  by (subst split_once_str.simps) simp

lemma split_once_str_skip:
  "p = q # qs \<Longrightarrow> q \<notin> set a \<Longrightarrow> split_once_str p (a @ p @ b) = Some (a, b)"
proof (induction a)
  case Nil
  then show ?case by (simp only: append_Nil split_once_str_here)
next
  case (Cons c cs)
  then have "strip_prefix p ((c # cs) @ p @ b) = None" by simp
  with Cons show ?case by (subst split_once_str.simps) simp
qed

text \<open>A match on the unit value.\<close>

lemma case_unit [simp]: "(case u of () \<Rightarrow> x) = x"
  by (simp split: unit.splits)

text \<open>The largest key of a table.\<close>

lemma fold_max_base: "b \<le> fold max xs (b :: nat)"
proof (induction xs arbitrary: b)
  case (Cons y ys)
  have "b \<le> max y b" by simp
  also have "\<dots> \<le> fold max ys (max y b)" by (rule Cons.IH)
  finally show ?case by simp
qed simp

lemma fold_max_ge: "x \<in> set xs \<Longrightarrow> x \<le> fold max xs (b :: nat)"
proof (induction xs arbitrary: b)
  case (Cons y ys)
  have "y \<le> max y b" by simp
  also have "\<dots> \<le> fold max ys (max y b)" by (rule fold_max_base)
  finally show ?case using Cons by auto
qed simp

end
