(* ===== verification/Numerals.thy ===== *)
theory Numerals
  imports Prelude
begin

text \<open>
  Rendering and parsing of integers as the Rust standard library does it
  (\<^verbatim>\<open>Display\<close> and \<^verbatim>\<open>from_str_radix\<close>), lower-case hexadecimal bytes, and Unicode white
  space over UTF-8 bytes.
\<close>

section \<open>Rendering\<close>

definition digit_char :: "nat \<Rightarrow> char" where
  "digit_char d = ''0123456789abcdef'' ! d"

fun show_nat :: "nat \<Rightarrow> string" where
  "show_nat n = (if n < 10 then [digit_char n] else show_nat (n div 10) @ [digit_char (n mod 10)])"

declare show_nat.simps [simp del]

definition show_int :: "int \<Rightarrow> string" where
  "show_int i = (if i < 0 then CHR ''-'' # show_nat (nat (- i)) else show_nat (nat i))"

text \<open>\<^verbatim>\<open>{b:02x}\<close>: two lower-case digits.\<close>

definition hex_byte :: "8 word \<Rightarrow> string" where
  "hex_byte b = [digit_char (unat b div 16), digit_char (unat b mod 16)]"

definition hex_bytes :: "8 word list \<Rightarrow> string" where
  "hex_bytes bs = concat (map hex_byte bs)"

section \<open>Parsing\<close>

text \<open>
  \<^verbatim>\<open>char::to_digit\<close> for radix 10 and 16, and \<^verbatim>\<open>uN::from_str_radix\<close>: an empty string and a lone sign are
  errors, one leading \<open>+\<close> is skipped, each digit is checked before the overflow of its
  step.
\<close>

datatype parse_int_error = PEmpty | PInvalidDigit | PPosOverflow

definition to_digit :: "nat \<Rightarrow> char \<Rightarrow> nat option" where
  "to_digit radix c =
     (let n = of_char c :: nat;
          d = (if 48 \<le> n \<and> n \<le> 57 then n - 48
               else if 97 \<le> n \<and> n \<le> 122 then n - 87
               else if 65 \<le> n \<and> n \<le> 90 then n - 55 else radix)
      in if d < radix then Some d else None)"

fun parse_digits :: "nat \<Rightarrow> nat \<Rightarrow> nat \<Rightarrow> string \<Rightarrow> parse_int_error + nat" where
  "parse_digits radix bound acc [] = Ok acc"
| "parse_digits radix bound acc (c # cs) =
     (case to_digit radix c of
        None \<Rightarrow> Err PInvalidDigit
      | Some d \<Rightarrow>
          if acc * radix + d > bound then Err PPosOverflow
          else parse_digits radix bound (acc * radix + d) cs)"

definition parse_uint :: "nat \<Rightarrow> nat \<Rightarrow> string \<Rightarrow> parse_int_error + nat" where
  "parse_uint radix bound s =
     (case s of
        [] \<Rightarrow> Err PEmpty
      | c # cs \<Rightarrow>
          if c = CHR ''+'' then (if cs = [] then Err PInvalidDigit else parse_digits radix bound 0 cs)
          else parse_digits radix bound 0 s)"

abbreviation u64_max :: nat where "u64_max \<equiv> 2 ^ 64 - 1"
abbreviation u32_max :: nat where "u32_max \<equiv> 2 ^ 32 - 1"
abbreviation u16_max :: nat where "u16_max \<equiv> 2 ^ 16 - 1"
abbreviation i64_max :: int where "i64_max \<equiv> 2 ^ 63 - 1"

text \<open>\<^verbatim>\<open>T::try_from(n).unwrap_or(T::MAX)\<close> and \<^verbatim>\<open>saturating\<close> arithmetic.\<close>

definition sat_to :: "nat \<Rightarrow> nat \<Rightarrow> nat" where
  "sat_to bound n = min n bound"

lemma sat_to_le [simp]: "sat_to b n \<le> b"
  by (simp add: sat_to_def)

lemma sat_to_id [simp]: "n \<le> b \<Longrightarrow> sat_to b n = n"
  by (simp add: sat_to_def)

section \<open>Round trips\<close>

lemma below_16: "d < 16 \<Longrightarrow> d \<in> set [0,1,2,3,4,5,6,7,8,9,10,11,12,13,14,15 :: nat]"
  by simp arith

lemma digit_char_range: "d < 16 \<Longrightarrow> digit_char d \<in> set ''0123456789abcdef''"
  unfolding digit_char_def by (rule nth_mem) simp

lemma of_char_digit_char: "d < 16 \<Longrightarrow> (of_char (digit_char d) :: nat) = (if d < 10 then 48 + d else 87 + d)"
  by (drule below_16) (auto simp: digit_char_def)

lemma to_digit_digit_char [simp]:
  "d < radix \<Longrightarrow> radix \<le> 16 \<Longrightarrow> to_digit radix (digit_char d) = Some d"
  by (simp add: to_digit_def of_char_digit_char)

lemma show_nat_ne [simp]: "show_nat n \<noteq> []"
  by (subst show_nat.simps) simp

lemma show_nat_digits: "set (show_nat n) \<subseteq> set ''0123456789''"
proof (induction n rule: show_nat.induct)
  case (1 n)
  have last: "digit_char (n mod 10) \<in> set ''0123456789''"
  proof -
    have "n mod 10 < 10" by simp
    then have "digit_char (n mod 10) = ''0123456789'' ! (n mod 10)"
      by (simp add: digit_char_def nth_append [of "''0123456789''" "''abcdef''", simplified])
    then show ?thesis using nth_mem [of "n mod 10" "''0123456789''"] by simp
  qed
  show ?case
  proof (cases "n < 10")
    case True
    with last show ?thesis by (subst show_nat.simps) simp
  next
    case False
    with "1.IH" last show ?thesis by (subst show_nat.simps) simp
  qed
qed

lemma show_nat_not_in [simp]:
  "c \<notin> set ''0123456789'' \<Longrightarrow> c \<notin> set (show_nat n)"
  using show_nat_digits by blast

lemma parse_digits_append:
  "parse_digits radix bound acc (xs @ ys) =
     (case parse_digits radix bound acc xs of Inl e \<Rightarrow> Inl e
      | Inr a \<Rightarrow> parse_digits radix bound a ys)"
  by (induction xs arbitrary: acc) (auto split: option.splits)

lemma parse_digits_show_nat: "n \<le> bound \<Longrightarrow> parse_digits 10 bound 0 (show_nat n) = Ok n"
proof (induction n rule: show_nat.induct)
  case (1 n)
  show ?case
  proof (cases "n < 10")
    case True
    with "1.prems" show ?thesis by (subst show_nat.simps) simp
  next
    case False
    have "parse_digits 10 bound 0 (show_nat (n div 10)) = Ok (n div 10)"
      using "1.IH" [OF False] "1.prems" by simp
    moreover have "n div 10 * 10 + n mod 10 = n" by simp
    ultimately show ?thesis
      using False "1.prems"
      by (subst show_nat.simps) (simp add: parse_digits_append)
  qed
qed

lemma parse_uint_show_nat [simp]:
  assumes "n \<le> bound"
  shows "parse_uint 10 bound (show_nat n) = Ok n"
proof -
  obtain c cs where s: "show_nat n = c # cs" by (meson neq_Nil_conv show_nat_ne)
  have "CHR ''+'' \<notin> set (show_nat n)" by simp
  with s have "c \<noteq> CHR ''+''" by auto
  then show ?thesis
    using parse_digits_show_nat [OF assms] by (simp add: parse_uint_def s)
qed

text \<open>A decimal text that is accepted under some bound reads as the number it was written from.\<close>

lemma parse_uint_show_nat_eq:
  assumes "parse_uint 10 bound (show_nat n) = Ok m"
  shows "m = n"
proof -
  have mono: "parse_digits 10 b acc t = Ok k \<Longrightarrow> b \<le> b' \<Longrightarrow> parse_digits 10 b' acc t = Ok k" for b b' acc t k
    by (induction t arbitrary: acc) (auto split: option.splits if_splits)
  obtain c cs where s: "show_nat n = c # cs" by (meson neq_Nil_conv show_nat_ne)
  have "CHR ''+'' \<notin> set (show_nat n)" by simp
  with s have "c \<noteq> CHR ''+''" by auto
  with assms s have "parse_digits 10 bound 0 (show_nat n) = Ok m"
    by (simp add: parse_uint_def del: parse_digits.simps)
  from mono [OF this, of "max n bound"] parse_digits_show_nat [of n "max n bound"] show ?thesis by simp
qed

lemma parse_uint_bound: "parse_uint radix bound s = Ok n \<Longrightarrow> n \<le> bound"
proof -
  have loop: "parse_digits radix bound acc t = Ok n \<Longrightarrow> acc \<le> bound \<Longrightarrow> n \<le> bound" for acc t
    by (induction t arbitrary: acc) (auto split: option.splits if_splits)
  assume "parse_uint radix bound s = Ok n"
  then show ?thesis
    by (auto simp: parse_uint_def simp del: parse_digits.simps split: list.splits if_splits intro: loop)
qed

lemma hex_byte_length [simp]: "length (hex_byte b) = 2"
  by (simp add: hex_byte_def)

lemma hex_bytes_length [simp]: "length (hex_bytes bs) = 2 * length bs"
  by (induction bs) (simp_all add: hex_bytes_def)

lemma digit_char_neq: "d < 16 \<Longrightarrow> c \<notin> set ''0123456789abcdef'' \<Longrightarrow> digit_char d \<noteq> c"
  using digit_char_range by blast

lemma hex_byte_nat: "\<exists>n < 256. unat b = n \<and> hex_byte b = [digit_char (n div 16), digit_char (n mod 16)]"
  using unsigned_less [of b] by (auto simp: hex_byte_def)

lemma hex_byte_no_tilde: "CHR ''~'' \<notin> set (hex_byte b)"
proof -
  obtain n where n: "n < 256" "hex_byte b = [digit_char (n div 16), digit_char (n mod 16)]"
    using hex_byte_nat by blast
  have "n div 16 < 16" "n mod 16 < 16" using n(1) by simp_all
  then have "digit_char (n div 16) \<noteq> CHR ''~''" "digit_char (n mod 16) \<noteq> CHR ''~''"
    by (intro digit_char_neq; simp)+
  then show ?thesis by (simp add: n(2))
qed

lemma hex_bytes_no_tilde [simp]: "CHR ''~'' \<notin> set (hex_bytes bs)"
  using hex_byte_no_tilde by (auto simp: hex_bytes_def)

text \<open>A byte rendered by \<open>hex_byte\<close> is read back by \<^verbatim>\<open>u8::from_str_radix(_, 16)\<close>.\<close>

lemma parse_uint_hex_nat:
  assumes "n < 256"
  shows "parse_uint 16 255 [digit_char (n div 16), digit_char (n mod 16)] = Ok n"
proof -
  have d: "n div 16 < 16" "n mod 16 < 16" using assms by simp_all
  have "digit_char (n div 16) \<noteq> CHR ''+''" by (rule digit_char_neq [OF d(1)]) simp
  moreover have "n div 16 * 16 + n mod 16 = n" by simp
  ultimately show ?thesis
    using assms d by (simp add: parse_uint_def)
qed

lemma parse_uint_hex_byte [simp]: "parse_uint 16 255 (hex_byte b) = Ok (unat b)"
  using hex_byte_nat [of b] parse_uint_hex_nat by auto

section \<open>Bytes\<close>

text \<open>\<^verbatim>\<open>str::as_bytes\<close> and \<^verbatim>\<open>u32::to_be_bytes\<close>.\<close>

definition string_bytes :: "string \<Rightarrow> 8 word list" where
  "string_bytes s = map (\<lambda>c. of_nat (of_char c)) s"

definition be32 :: "nat \<Rightarrow> 8 word list" where
  "be32 n = [of_nat (n div 2 ^ 24), of_nat (n div 2 ^ 16), of_nat (n div 2 ^ 8), of_nat n]"

lemma be32_length [simp]: "length (be32 n) = 4"
  by (simp add: be32_def)

lemma string_bytes_length [simp]: "length (string_bytes s) = length s"
  by (simp add: string_bytes_def)

lemma string_bytes_inj [simp]: "string_bytes s = string_bytes t \<longleftrightarrow> s = t"
proof
  have one: "inj (\<lambda>c :: char. of_nat (of_char c) :: 8 word)"
  proof (rule injI)
    fix c d :: char
    assume "(of_nat (of_char c) :: 8 word) = of_nat (of_char d)"
    then have "unat (of_nat (of_char c) :: 8 word) = unat (of_nat (of_char d) :: 8 word)" by simp
    then have "(of_char c :: nat) mod 256 = of_char d mod 256" by (simp add: unat_of_nat)
    then show "c = d" using of_char_mod_256 [of c, where 'a = nat] of_char_mod_256 [of d, where 'a = nat] by simp
  qed
  assume "string_bytes s = string_bytes t"
  with one show "s = t" by (simp add: string_bytes_def inj_map_eq_map)
qed simp

lemma be32_inj:
  assumes "a < 2 ^ 32" and "b < 2 ^ 32" and "be32 a = be32 b"
  shows "a = b"
proof -
  have e: "(of_nat (a div 2 ^ 24) :: 8 word) = of_nat (b div 2 ^ 24)"
      "(of_nat (a div 2 ^ 16) :: 8 word) = of_nat (b div 2 ^ 16)"
      "(of_nat (a div 2 ^ 8) :: 8 word) = of_nat (b div 2 ^ 8)" "(of_nat a :: 8 word) = of_nat b"
    using assms(3) unfolding be32_def list.inject by blast+
  have byte: "(of_nat x :: 8 word) = of_nat y \<Longrightarrow> x mod 256 = y mod 256" for x y
    by (drule arg_cong [where f = unat]) (simp add: unat_of_nat)
  have up: "n div k = n div (256 * k) * 256 + n div k mod 256" for n k :: nat
    by (metis div_mult_mod_eq div_mult2_eq mult.commute)
  have top: "n div 2 ^ 24 mod 256 = n div 2 ^ 24" if "n < 2 ^ 32" for n :: nat
    using that by (simp add: less_mult_imp_div_less)
  have "a div 2 ^ 24 = b div 2 ^ 24"
    using byte [OF e(1)] top [OF assms(1)] top [OF assms(2)] by (simp only:)
  moreover have "a div 2 ^ 16 mod 256 = b div 2 ^ 16 mod 256" "a div 2 ^ 8 mod 256 = b div 2 ^ 8 mod 256"
      "a mod 256 = b mod 256"
    using byte [OF e(2)] byte [OF e(3)] byte [OF e(4)] .
  ultimately show ?thesis
    using up [of a "2 ^ 16"] up [of b "2 ^ 16"] up [of a "2 ^ 8"] up [of b "2 ^ 8"] up [of a 1] up [of b 1]
    by simp
qed

section \<open>White space\<close>

text \<open>
  The UTF-8 encodings of the characters with the Unicode property \<^verbatim>\<open>White_Space\<close>
  (\<^verbatim>\<open>char::is_whitespace\<close>).  A valid UTF-8 string holds such a character exactly where one of
  the encodings occurs in its bytes.
\<close>

definition ws_codes :: "string list" where
  "ws_codes =
     [[CHR 0x09], [CHR 0x0A], [CHR 0x0B], [CHR 0x0C], [CHR 0x0D], [CHR 0x20],
      [CHR 0xC2, CHR 0x85], [CHR 0xC2, CHR 0xA0], [CHR 0xE1, CHR 0x9A, CHR 0x80],
      [CHR 0xE2, CHR 0x80, CHR 0x80], [CHR 0xE2, CHR 0x80, CHR 0x81], [CHR 0xE2, CHR 0x80, CHR 0x82],
      [CHR 0xE2, CHR 0x80, CHR 0x83], [CHR 0xE2, CHR 0x80, CHR 0x84], [CHR 0xE2, CHR 0x80, CHR 0x85],
      [CHR 0xE2, CHR 0x80, CHR 0x86], [CHR 0xE2, CHR 0x80, CHR 0x87], [CHR 0xE2, CHR 0x80, CHR 0x88],
      [CHR 0xE2, CHR 0x80, CHR 0x89], [CHR 0xE2, CHR 0x80, CHR 0x8A], [CHR 0xE2, CHR 0x80, CHR 0xA8],
      [CHR 0xE2, CHR 0x80, CHR 0xA9], [CHR 0xE2, CHR 0x80, CHR 0xAF], [CHR 0xE2, CHR 0x81, CHR 0x9F],
      [CHR 0xE3, CHR 0x80, CHR 0x80]]"

fun drop_code :: "string list \<Rightarrow> string \<Rightarrow> string option" where
  "drop_code [] s = None"
| "drop_code (w # ws) s = (case strip_prefix w s of Some r \<Rightarrow> Some r | None \<Rightarrow> drop_code ws s)"

text \<open>\<open>any(char::is_whitespace)\<close>\<close>

fun has_ws :: "string \<Rightarrow> bool" where
  "has_ws [] = False"
| "has_ws (c # cs) = (drop_code ws_codes (c # cs) \<noteq> None \<or> has_ws cs)"

lemma drop_code_shrinks:
  "drop_code ws s = Some r \<Longrightarrow> [] \<notin> set ws \<Longrightarrow> length r < length s"
  by (induction ws) (auto simp: strip_prefix_Some_iff split: option.splits)

lemma ws_codes_ne: "[] \<notin> set ws_codes" "[] \<notin> set (map rev ws_codes)"
  by (simp_all add: ws_codes_def)

function trim_codes :: "string list \<Rightarrow> string \<Rightarrow> string" where
  "trim_codes ws s =
     (if [] \<in> set ws then s
      else case drop_code ws s of None \<Rightarrow> s | Some r \<Rightarrow> trim_codes ws r)"
  by pat_completeness auto
termination
  by (relation "measure (\<lambda>(ws, s). length s)") (auto dest: drop_code_shrinks)

declare trim_codes.simps [simp del]

text \<open>\<^verbatim>\<open>str::trim\<close>\<close>

definition trim :: "string \<Rightarrow> string" where
  "trim s = rev (trim_codes (map rev ws_codes) (rev (trim_codes ws_codes s)))"

lemma drop_code_Some: "drop_code ws s = Some r \<Longrightarrow> \<exists>w \<in> set ws. s = w @ r"
  by (induction ws) (auto simp: strip_prefix_Some_iff split: option.splits)

lemma drop_code_None_iff: "drop_code ws s = None \<longleftrightarrow> (\<forall>w \<in> set ws. strip_prefix w s = None)"
  by (induction ws) (auto split: option.splits)

lemma has_ws_iff: "has_ws s \<longleftrightarrow> (\<exists>a w b. w \<in> set ws_codes \<and> s = a @ w @ b)"
proof (induction s)
  case Nil
  then show ?case using ws_codes_ne by auto
next
  case (Cons c cs)
  have "drop_code ws_codes (c # cs) \<noteq> None \<longleftrightarrow> (\<exists>w b. w \<in> set ws_codes \<and> c # cs = w @ b)"
    by (force simp: drop_code_None_iff strip_prefix_None_iff)
  then have "has_ws (c # cs) \<longleftrightarrow>
      (\<exists>w b. w \<in> set ws_codes \<and> c # cs = w @ b) \<or> (\<exists>a w b. w \<in> set ws_codes \<and> cs = a @ w @ b)"
    using Cons.IH by simp
  also have "\<dots> \<longleftrightarrow> (\<exists>a w b. w \<in> set ws_codes \<and> c # cs = a @ w @ b)"
  proof (intro iffI)
    assume "\<exists>a w b. w \<in> set ws_codes \<and> c # cs = a @ w @ b"
    then obtain a w b where w: "w \<in> set ws_codes" "c # cs = a @ w @ b" by blast
    then show "(\<exists>w b. w \<in> set ws_codes \<and> c # cs = w @ b) \<or>
      (\<exists>a w b. w \<in> set ws_codes \<and> cs = a @ w @ b)"
      by (cases a) auto
  qed (metis append_Nil append_Cons)
  finally show ?case .
qed

lemma trim_no_ws: "\<not> has_ws s \<Longrightarrow> trim s = s"
proof -
  assume no: "\<not> has_ws s"
  have 1: "drop_code ws_codes s = None"
  proof (rule ccontr)
    assume "drop_code ws_codes s \<noteq> None"
    then obtain r where "drop_code ws_codes s = Some r" by auto
    then obtain w where "w \<in> set ws_codes" "s = [] @ w @ r" using drop_code_Some by force
    with no show False unfolding has_ws_iff by blast
  qed
  have 2: "drop_code (map rev ws_codes) (rev s) = None"
  proof (rule ccontr)
    assume "drop_code (map rev ws_codes) (rev s) \<noteq> None"
    then obtain r where "drop_code (map rev ws_codes) (rev s) = Some r" by auto
    then obtain w where w: "w \<in> set ws_codes" "rev s = rev w @ r" using drop_code_Some by force
    then have "s = rev r @ w @ []" by (metis append_Nil2 rev_append rev_rev_ident)
    with no w show False unfolding has_ws_iff by blast
  qed
  from 1 2 show ?thesis by (simp add: trim_def trim_codes.simps)
qed

lemma has_ws_append_left: "has_ws a \<Longrightarrow> has_ws (a @ b)"
  unfolding has_ws_iff by (metis append.assoc)

lemma has_ws_append_right: "has_ws b \<Longrightarrow> has_ws (a @ b)"
  unfolding has_ws_iff by (metis append.assoc)

text \<open>An ASCII separator of no white space code splits the search.\<close>

definition plain_sep :: "char \<Rightarrow> bool" where
  "plain_sep c = (\<forall>w \<in> set ws_codes. c \<notin> set w)"

lemma has_ws_sep:
  assumes "plain_sep c"
  shows "has_ws (a @ c # b) \<longleftrightarrow> has_ws a \<or> has_ws b"
proof
  assume "has_ws (a @ c # b)"
  then obtain x w y where w: "w \<in> set ws_codes" and s: "a @ c # b = x @ w @ y"
    unfolding has_ws_iff by blast
  from w assms have c: "c \<notin> set w" by (auto simp: plain_sep_def)
  from s consider u where "a @ u = x" "c # b = u @ w @ y" | u where "a = x @ u" "u @ c # b = w @ y"
    by (auto simp: append_eq_append_conv2)
  then show "has_ws a \<or> has_ws b"
  proof cases
    case 1
    show ?thesis
    proof (cases u)
      case Nil
      with 1(2) have "c # b = w @ y" by simp
      with c ws_codes_ne(1) w show ?thesis by (cases w) auto
    next
      case (Cons d v)
      with 1(2) have "b = v @ w @ y" by simp
      with w show ?thesis unfolding has_ws_iff by blast
    qed
  next
    case 2
    from 2(2) consider v where "u = w @ v" | v where "u @ v = w" "c # b = v @ y"
      by (auto simp: append_eq_append_conv2)
    then show ?thesis
    proof cases
      case 1
      with 2(1) w show ?thesis unfolding has_ws_iff by blast
    next
      case (2 v)
      with c have "v = []" by (cases v) auto
      with 2 \<open>a = x @ u\<close> w show ?thesis unfolding has_ws_iff by (metis append.right_neutral)
    qed
  qed
next
  assume "has_ws a \<or> has_ws b"
  then show "has_ws (a @ c # b)"
    using has_ws_append_left has_ws_append_right [of b "a @ [c]"] by auto
qed

lemma no_ws_chars: "(\<And>x w. x \<in> set s \<Longrightarrow> w \<in> set ws_codes \<Longrightarrow> x \<noteq> hd w) \<Longrightarrow> \<not> has_ws s"
proof
  assume no: "\<And>x w. x \<in> set s \<Longrightarrow> w \<in> set ws_codes \<Longrightarrow> x \<noteq> hd w" and "has_ws s"
  then obtain a w b where w: "w \<in> set ws_codes" and s: "s = a @ w @ b" unfolding has_ws_iff by blast
  with ws_codes_ne(1) have "hd w \<in> set s" by (cases w) auto
  with no w show False by blast
qed

end
