(* ===== verification/Ip_Addr.thy ===== *)
theory Ip_Addr
  imports Numerals
begin

text \<open>
  IP addresses as the Rust standard library reads and writes them (\<^verbatim>\<open>std::net::IpAddr\<close>), which
  \<^verbatim>\<open>network.rs\<close> of the manifest crate relies on.  Addresses are the lists of their 4 octets or 8 groups; each
  parser step returns the value read and the rest of the input, \<open>None\<close> where the standard
  library's parser backtracks.  The main result is that rendering an address and reading
  it back gives the address.
\<close>

datatype ip_addr = V4 "nat list" | V6 "nat list"

fun wf_ip :: "ip_addr \<Rightarrow> bool" where
  "wf_ip (V4 os) = (length os = 4 \<and> list_all (\<lambda>n. n < 256) os)"
| "wf_ip (V6 gs) = (length gs = 8 \<and> list_all (\<lambda>n. n < 65536) gs)"

fun is_v6 :: "ip_addr \<Rightarrow> bool" where
  "is_v6 (V4 _) = False"
| "is_v6 (V6 _) = True"

section \<open>Reading\<close>

fun take_digits :: "nat \<Rightarrow> nat \<Rightarrow> nat \<Rightarrow> nat \<Rightarrow> string \<Rightarrow> (nat \<times> nat \<times> string) option" where
  "take_digits radix limit acc n [] = Some (acc, n, [])"
| "take_digits radix limit acc n (c # cs) =
     (case to_digit radix c of
        None \<Rightarrow> Some (acc, n, c # cs)
      | Some d \<Rightarrow> if n + 1 > limit then None else take_digits radix limit (acc * radix + d) (n + 1) cs)"

definition read_number :: "nat \<Rightarrow> nat \<Rightarrow> bool \<Rightarrow> nat \<Rightarrow> string \<Rightarrow> (nat \<times> string) option" where
  "read_number radix limit zero_prefix bound s =
     (case take_digits radix limit 0 0 s of
        None \<Rightarrow> None
      | Some (v, n, r) \<Rightarrow>
          if n = 0 then None
          else if \<not> zero_prefix \<and> starts_with ''0'' s \<and> n > 1 then None
          else if v \<le> bound then Some (v, r) else None)"

definition read_sep :: "char \<Rightarrow> nat \<Rightarrow> (string \<Rightarrow> 'a option) \<Rightarrow> string \<Rightarrow> 'a option" where
  "read_sep c i inner s =
     (if i = 0 then inner s
      else case strip_prefix [c] s of None \<Rightarrow> None | Some r \<Rightarrow> inner r)"

fun read_octets :: "nat \<Rightarrow> nat \<Rightarrow> string \<Rightarrow> (nat list \<times> string) option" where
  "read_octets 0 i s = Some ([], s)"
| "read_octets (Suc k) i s =
     (case read_sep CHR ''.'' i (read_number 10 3 False 255) s of
        None \<Rightarrow> None
      | Some (v, r) \<Rightarrow>
          (case read_octets k (Suc i) r of
             None \<Rightarrow> None
           | Some (vs, t) \<Rightarrow> Some (v # vs, t)))"

definition read_ipv4 :: "string \<Rightarrow> (nat list \<times> string) option" where
  "read_ipv4 s = read_octets 4 0 s"

definition octet_groups :: "nat list \<Rightarrow> nat list" where
  "octet_groups os = [os ! 0 * 256 + os ! 1, os ! 2 * 256 + os ! 3]"

text \<open>The groups read, whether they end in an embedded IPv4 address, and the rest.\<close>

fun read_groups :: "nat \<Rightarrow> nat \<Rightarrow> string \<Rightarrow> nat list \<times> bool \<times> string" where
  "read_groups 0 i s = ([], False, s)"
| "read_groups (Suc k) i s =
     (case (if k \<ge> 1 then read_sep CHR '':'' i read_ipv4 s else None) of
        Some (os, r) \<Rightarrow> (octet_groups os, True, r)
      | None \<Rightarrow>
          (case read_sep CHR '':'' i (read_number 16 4 True 65535) s of
             None \<Rightarrow> ([], False, s)
           | Some (g, r) \<Rightarrow> (case read_groups k (Suc i) r of (gs, v4, t) \<Rightarrow> (g # gs, v4, t))))"

definition read_ipv6 :: "string \<Rightarrow> (nat list \<times> string) option" where
  "read_ipv6 s =
     (case read_groups 8 0 s of (head, v4, r) \<Rightarrow>
        if length head = 8 then Some (head, r)
        else if v4 then None
        else case strip_prefix ''::'' r of
            None \<Rightarrow> None
          | Some r' \<Rightarrow>
              (case read_groups (7 - length head) 0 r' of (tail, _, t) \<Rightarrow>
                 Some (head @ replicate (8 - length head - length tail) 0 @ tail, t)))"

definition parse_ip :: "string \<Rightarrow> ip_addr option" where
  "parse_ip s =
     (case (case read_ipv4 s of
              Some (os, r) \<Rightarrow> Some (V4 os, r)
            | None \<Rightarrow> map_option (\<lambda>(gs, r). (V6 gs, r)) (read_ipv6 s)) of
        Some (ip, []) \<Rightarrow> Some ip
      | _ \<Rightarrow> None)"

section \<open>Writing\<close>

fun show_hex :: "nat \<Rightarrow> string" where
  "show_hex n = (if n < 16 then [digit_char n] else show_hex (n div 16) @ [digit_char (n mod 16)])"

declare show_hex.simps [simp del]

definition show_octets :: "nat list \<Rightarrow> string" where
  "show_octets os = join_char CHR ''.'' (map show_nat os)"

definition show_groups :: "nat list \<Rightarrow> string" where
  "show_groups gs = join_char CHR '':'' (map show_hex gs)"

text \<open>The longest run of zero groups, the first of equal ones: its start and length.\<close>

fun zero_span :: "nat \<Rightarrow> nat \<times> nat \<Rightarrow> nat \<times> nat \<Rightarrow> nat list \<Rightarrow> nat \<times> nat" where
  "zero_span i longest current [] = longest"
| "zero_span i longest current (g # gs) =
     (if g = 0 then
        (let current' = (if snd current = 0 then i else fst current, snd current + 1)
         in zero_span (i + 1) (if snd current' > snd longest then current' else longest) current' gs)
      else zero_span (i + 1) longest (0, 0) gs)"

definition v4_mapped :: "nat list \<Rightarrow> bool" where
  "v4_mapped gs = (take 6 gs = [0, 0, 0, 0, 0, 65535])"

definition group_octets :: "nat list \<Rightarrow> nat list" where
  "group_octets gs = [gs ! 6 div 256, gs ! 6 mod 256, gs ! 7 div 256, gs ! 7 mod 256]"

definition show_ipv6 :: "nat list \<Rightarrow> string" where
  "show_ipv6 gs =
     (if v4_mapped gs then ''::ffff:'' @ show_octets (group_octets gs)
      else case zero_span 0 (0, 0) (0, 0) gs of (start, len) \<Rightarrow>
        if len > 1 then show_groups (take start gs) @ ''::'' @ show_groups (drop (start + len) gs)
        else show_groups gs)"

fun show_ip :: "ip_addr \<Rightarrow> string" where
  "show_ip (V4 os) = show_octets os"
| "show_ip (V6 gs) = show_ipv6 gs"

section \<open>Reading numbers back\<close>

definition stops :: "nat \<Rightarrow> string \<Rightarrow> bool" where
  "stops radix s = (case s of [] \<Rightarrow> True | c # _ \<Rightarrow> to_digit radix c = None)"

lemma take_digits_append:
  "parse_digits radix b acc xs = Ok v \<Longrightarrow> n + length xs \<le> limit \<Longrightarrow>
     take_digits radix limit acc n (xs @ rest) = take_digits radix limit v (n + length xs) rest"
  by (induction xs arbitrary: acc n) (auto split: option.splits if_splits)

lemma take_digits_stop: "stops radix s \<Longrightarrow> take_digits radix limit acc n s = Some (acc, n, s)"
  by (cases s) (auto simp: stops_def)

lemma parse_digits_show_hex: "n \<le> bound \<Longrightarrow> parse_digits 16 bound 0 (show_hex n) = Ok n"
proof (induction n rule: show_hex.induct)
  case (1 n)
  show ?case
  proof (cases "n < 16")
    case True
    with 1(2) show ?thesis by (subst show_hex.simps) simp
  next
    case False
    have "n div 16 \<le> bound" using 1(2) by (meson div_le_dividend le_trans)
    with False 1 show ?thesis
      by (subst show_hex.simps) (simp add: parse_digits_append)
  qed
qed

lemma show_hex_ne [simp]: "show_hex n \<noteq> []"
  by (subst show_hex.simps) simp

lemma show_hex_length: "n < 16 ^ Suc k \<Longrightarrow> length (show_hex n) \<le> Suc k"
proof (induction k arbitrary: n)
  case 0
  then show ?case by (subst show_hex.simps) simp
next
  case (Suc k)
  have "n div 16 < 16 ^ Suc k" using Suc.prems by (simp add: less_mult_imp_div_less)
  with Suc.IH have "length (show_hex (n div 16)) \<le> Suc k" by blast
  then show ?case by (subst show_hex.simps) simp
qed

lemma show_nat_length: "n < 10 ^ Suc k \<Longrightarrow> length (show_nat n) \<le> Suc k"
proof (induction k arbitrary: n)
  case 0
  then show ?case by (subst show_nat.simps) simp
next
  case (Suc k)
  have "n div 10 < 10 ^ Suc k" using Suc.prems by (simp add: less_mult_imp_div_less)
  with Suc.IH have "length (show_nat (n div 10)) \<le> Suc k" by blast
  then show ?case by (subst show_nat.simps) simp
qed

lemma show_nat_no_leading_zero: "starts_with ''0'' (show_nat n @ r) \<Longrightarrow> n = 0"
proof (induction n arbitrary: r rule: show_nat.induct)
  case (1 n)
  show ?case
  proof (cases "n < 10")
    case True
    then have "n \<in> set [0,1,2,3,4,5,6,7,8,9]" by simp arith
    with 1(2) True show ?thesis
      by (subst (asm) show_nat.simps) (auto simp: starts_with_iff digit_char_def)
  next
    case False
    with 1(2) have "starts_with ''0'' (show_nat (n div 10) @ [digit_char (n mod 10)] @ r)"
      by (subst (asm) show_nat.simps) simp
    with 1(1) False have "n div 10 = 0" by blast
    with False show ?thesis by simp
  qed
qed

lemma read_octet_show:
  assumes "n < 256" and "stops 10 r"
  shows "read_number 10 3 False 255 (show_nat n @ r) = Some (n, r)"
proof -
  have len: "length (show_nat n) \<le> 3" using show_nat_length [of n 2] assms(1) by simp
  have "take_digits 10 3 0 0 (show_nat n @ r) = Some (n, length (show_nat n), r)"
    using take_digits_append [OF parse_digits_show_nat [of n 255], of 0 3 r] assms len
    by (simp add: take_digits_stop)
  moreover have "n = 0 \<Longrightarrow> length (show_nat n) = 1" by (simp add: show_nat.simps)
  ultimately show ?thesis
    using assms(1) show_nat_no_leading_zero [of n r] by (auto simp: read_number_def)
qed

lemma read_group_show:
  assumes "n < 65536" and "stops 16 r"
  shows "read_number 16 4 True 65535 (show_hex n @ r) = Some (n, r)"
proof -
  have len: "length (show_hex n) \<le> 4" using show_hex_length [of n 3] assms(1) by simp
  have "take_digits 16 4 0 0 (show_hex n @ r) = Some (n, length (show_hex n), r)"
    using take_digits_append [OF parse_digits_show_hex [of n 65535], of 0 4 r] assms len
    by (simp add: take_digits_stop)
  then show ?thesis using assms(1) by (auto simp: read_number_def)
qed

section \<open>Reading addresses back\<close>

lemma read_sep_0 [simp]: "read_sep c 0 inner s = inner s"
  by (simp add: read_sep_def)

lemma read_sep_Suc [simp]: "read_sep c (Suc i) inner (c # s) = inner s"
  by (simp add: read_sep_def)

lemma read_sep_None: "i > 0 \<Longrightarrow> \<not> starts_with [c] s \<Longrightarrow> read_sep c i inner s = None"
  by (auto simp: read_sep_def starts_with_def)

lemma stops_sep [simp]: "stops 10 (CHR ''.'' # r)" "stops 10 (CHR '':'' # r)" "stops 16 (CHR '':'' # r)"
    "stops radix []"
  by (simp_all add: stops_def to_digit_def)

lemma read_ipv4_unfold: "read_ipv4 s = read_octets (Suc (Suc (Suc (Suc 0)))) 0 s"
  by (simp add: read_ipv4_def numeral_eq_Suc)

lemma read_ipv4_show:
  assumes "wf_ip (V4 os)"
  shows "read_ipv4 (show_octets os) = Some (os, [])"
proof -
  obtain a b c d where os: "os = [a, b, c, d]"
    using assms by (auto simp: length_Suc_conv numeral_eq_Suc)
  have b: "a < 256" "b < 256" "c < 256" "d < 256" using assms os by simp_all
  have last: "read_number 10 3 False 255 (show_nat d) = Some (d, [])"
    using read_octet_show [of d "[]"] b by simp
  have s: "show_octets os = show_nat a @ CHR ''.'' # show_nat b @ CHR ''.'' # show_nat c
      @ CHR ''.'' # show_nat d"
    by (simp add: show_octets_def os)
  show ?thesis
    unfolding read_ipv4_unfold s by (simp add: read_octet_show b os last)
qed

text \<open>No dot, no IPv4 address.\<close>

lemma take_digits_rest: "take_digits radix limit acc n s = Some (v, m, r) \<Longrightarrow> set r \<subseteq> set s"
  by (induction s arbitrary: acc n) (auto split: option.splits if_splits)

lemma read_number_rest: "read_number radix limit z b s = Some (v, r) \<Longrightarrow> set r \<subseteq> set s"
  by (auto simp: read_number_def dest!: take_digits_rest split: option.splits if_splits)

lemma read_ipv4_no_dot:
  assumes "CHR ''.'' \<notin> set s"
  shows "read_ipv4 s = None"
proof (cases "read_number 10 3 False 255 s")
  case None
  then show ?thesis by (simp add: read_ipv4_def numeral_eq_Suc)
next
  case (Some p)
  obtain v r where p: "p = (v, r)" by (cases p)
  have "\<not> starts_with ''.'' r"
    using read_number_rest [OF Some [unfolded p]] assms by (auto simp: starts_with_iff)
  with Some p show ?thesis by (simp add: read_ipv4_unfold read_sep_None)
qed

lemma read_sep_ipv4_no_dot: "CHR ''.'' \<notin> set s \<Longrightarrow> read_sep c i read_ipv4 s = None"
  by (auto simp: read_sep_def read_ipv4_no_dot strip_prefix_Some_iff split: option.splits)

text \<open>What may follow the groups: the end, or the elision \<open>::\<close>.\<close>

definition group_end :: "string \<Rightarrow> bool" where
  "group_end r = (r = [] \<or> (\<exists>t. r = CHR '':'' # CHR '':'' # t \<and> CHR ''.'' \<notin> set t))"

lemma read_group_colon [simp]: "read_number 16 4 z b (CHR '':'' # t) = None"
    "read_number 16 4 z b [] = None"
  by (simp_all add: read_number_def to_digit_def)

lemma read_number_colon [simp]: "read_number 10 limit z b (CHR '':'' # t) = None"
  by (simp add: read_number_def to_digit_def)

lemma read_groups_colon: "read_groups k 0 (CHR '':'' # t) = ([], False, CHR '':'' # t)"
  by (cases k) (simp_all add: read_ipv4_unfold)

lemma group_end_stop: "group_end r \<Longrightarrow> read_groups k i r = ([], False, r)"
proof (cases k)
  case (Suc m)
  assume g: "group_end r"
  then have dot: "CHR ''.'' \<notin> set r" by (auto simp: group_end_def)
  have "read_sep CHR '':'' i (read_number 16 4 True 65535) r = None"
    using g by (cases i) (auto simp: group_end_def read_sep_def)
  then show ?thesis by (simp add: Suc read_sep_ipv4_no_dot dot)
qed simp

lemma show_hex_no_dot [simp]: "CHR ''.'' \<notin> set (show_hex n)"
proof (induction n rule: show_hex.induct)
  case (1 n)
  have "digit_char (n mod 16) \<noteq> CHR ''.''" "n < 16 \<Longrightarrow> digit_char n \<noteq> CHR ''.''"
    by (rule digit_char_neq; simp)+
  with 1 show ?case by (subst show_hex.simps) auto
qed

definition more_groups :: "nat list \<Rightarrow> string" where
  "more_groups gs = concat (map (\<lambda>g. CHR '':'' # show_hex g) gs)"

lemma more_groups_simps [simp]: "more_groups [] = []"
    "more_groups (g # gs) = CHR '':'' # show_hex g @ more_groups gs"
  by (simp_all add: more_groups_def)

lemma more_groups_no_dot [simp]: "CHR ''.'' \<notin> set (more_groups gs)"
  by (induction gs) auto

lemma show_groups_Cons: "show_groups (g # gs) = show_hex g @ more_groups gs"
  by (induction gs arbitrary: g) (simp_all add: show_groups_def)

lemma show_groups_Nil [simp]: "show_groups [] = []"
  by (simp add: show_groups_def)

lemma show_groups_no_dot [simp]: "CHR ''.'' \<notin> set (show_groups gs)"
  by (cases gs) (auto simp: show_groups_Cons)

lemma more_groups_stops: "group_end r \<Longrightarrow> stops 16 (more_groups gs @ r)"
  by (cases gs) (auto simp: group_end_def)

lemma read_more_groups:
  "list_all (\<lambda>n. n < 65536) gs \<Longrightarrow> length gs \<le> k \<Longrightarrow> group_end r \<Longrightarrow>
     read_groups k (Suc i) (more_groups gs @ r) = (gs, False, r)"
proof (induction gs arbitrary: k i)
  case Nil
  then show ?case by (simp add: group_end_stop)
next
  case (Cons g gs)
  obtain m where k: "k = Suc m" using Cons.prems(2) by (cases k) auto
  have dot: "CHR ''.'' \<notin> set (more_groups (g # gs) @ r)"
    using Cons.prems(3) by (auto simp: group_end_def)
  have "read_groups m (Suc (Suc i)) (more_groups gs @ r) = (gs, False, r)"
    using Cons.prems k by (intro Cons.IH) simp_all
  moreover have "read_number 16 4 True 65535 (show_hex g @ more_groups gs @ r) = Some (g, more_groups gs @ r)"
    using Cons.prems by (intro read_group_show more_groups_stops) simp_all
  ultimately show ?case
    unfolding k using read_sep_ipv4_no_dot [OF dot, of "CHR '':''" "Suc i"] by simp
qed

lemma read_show_groups:
  assumes "list_all (\<lambda>n. n < 65536) gs" and "length gs \<le> k" and "group_end r"
  shows "read_groups k 0 (show_groups gs @ r) = (gs, False, r)"
proof (cases gs)
  case Nil
  with assms show ?thesis by (simp add: group_end_stop)
next
  case (Cons g hs)
  obtain m where k: "k = Suc m" using assms(2) Cons by (cases k) auto
  have dot: "CHR ''.'' \<notin> set (show_groups gs @ r)"
    using assms(3) by (auto simp: group_end_def)
  have "read_groups m (Suc 0) (more_groups hs @ r) = (hs, False, r)"
    using assms Cons k by (intro read_more_groups) simp_all
  moreover have "read_number 16 4 True 65535 (show_hex g @ more_groups hs @ r) = Some (g, more_groups hs @ r)"
    using assms Cons by (intro read_group_show more_groups_stops) simp_all
  ultimately show ?thesis
    unfolding k Cons using read_ipv4_no_dot [OF dot] by (simp add: Cons show_groups_Cons)
qed

definition is_zero_span :: "nat list \<Rightarrow> nat \<times> nat \<Rightarrow> bool" where
  "is_zero_span gs sp = (fst sp + snd sp \<le> length gs \<and> (\<forall>j < snd sp. gs ! (fst sp + j) = 0))"

lemma is_zero_span_snoc: "is_zero_span gs sp \<Longrightarrow> is_zero_span (gs @ [g]) sp"
  by (auto simp: is_zero_span_def nth_append)

lemma zero_span_is_span:
  assumes "is_zero_span pre longest" and "is_zero_span pre current"
    and "snd current > 0 \<Longrightarrow> fst current + snd current = length pre"
  shows "is_zero_span (pre @ gs) (zero_span (length pre) longest current gs)"
  using assms
proof (induction gs arbitrary: pre longest current)
  case (Cons g gs)
  let ?cur = "(if snd current = 0 then length pre else fst current, snd current + 1)"
  have new: "is_zero_span (pre @ [0]) ?cur"
    using Cons.prems(2,3) by (auto simp: is_zero_span_def nth_append less_Suc_eq)
  have "fst ?cur + snd ?cur = length (pre @ [0 :: nat])" using Cons.prems(3) by auto
  moreover have "is_zero_span (pre @ [0]) (if snd ?cur > snd longest then ?cur else longest)"
    using new is_zero_span_snoc [OF Cons.prems(1)] by simp
  ultimately have "is_zero_span ((pre @ [0]) @ gs) (zero_span (length (pre @ [0 :: nat]))
      (if snd ?cur > snd longest then ?cur else longest) ?cur gs)"
    using new by (intro Cons.IH)
  moreover have "is_zero_span ((pre @ [g]) @ gs) (zero_span (length (pre @ [g])) longest (0, 0) gs)"
    using Cons.prems(1) by (intro Cons.IH is_zero_span_snoc) (simp_all add: is_zero_span_def)
  ultimately show ?case by (cases "g = 0") (simp_all only: zero_span.simps Let_def if_True if_False
        append_assoc append_Cons append_Nil length_append_singleton Suc_eq_plus1 simp_thms)
qed simp

lemma zero_span_parts:
  assumes "zero_span 0 (0, 0) (0, 0) gs = (start, len)"
  shows "start + len \<le> length gs" and "gs = take start gs @ replicate len 0 @ drop (start + len) gs"
proof -
  have sp: "is_zero_span gs (start, len)"
    using zero_span_is_span [of "[]" "(0, 0)" "(0, 0)" gs] assms by (simp add: is_zero_span_def)
  then show le: "start + len \<le> length gs" by (simp add: is_zero_span_def)
  have "take len (drop start gs) = replicate len 0"
    using sp by (intro nth_equalityI) (auto simp: is_zero_span_def)
  then show "gs = take start gs @ replicate len 0 @ drop (start + len) gs"
    by (metis append_take_drop_id drop_drop add.commute)
qed

lemma read_elided:
  assumes "list_all (\<lambda>n. n < 65536) (head @ tail)" and "length head + length tail < 8"
  shows "read_ipv6 (show_groups head @ ''::'' @ show_groups tail)
           = Some (head @ replicate (8 - length head - length tail) 0 @ tail, [])"
proof -
  have "read_groups 8 0 (show_groups head @ ''::'' @ show_groups tail)
          = (head, False, ''::'' @ show_groups tail)"
    using assms by (intro read_show_groups) (simp_all add: group_end_def)
  moreover have "read_groups (7 - length head) 0 (show_groups tail @ []) = (tail, False, [])"
    using assms by (intro read_show_groups) (simp_all add: group_end_def)
  ultimately show ?thesis
    using assms(2) by (simp only: read_ipv6_def append_Nil2 prod.case if_False strip_prefix_append
        option.case) auto
qed

lemma v4_mapped_groups:
  assumes "length gs = 8" and "v4_mapped gs"
  shows "gs = replicate 5 0 @ [65535, gs ! 6, gs ! 7]"
proof -
  have "drop 6 gs = [gs ! 6, gs ! 7]"
    using assms(1) Cons_nth_drop_Suc [of 6 gs] Cons_nth_drop_Suc [of 7 gs] by simp
  moreover have "replicate 5 (0 :: nat) = [0, 0, 0, 0, 0]" by (simp add: numeral_eq_Suc)
  ultimately show ?thesis
    using assms(2) append_take_drop_id [of 6 gs] by (simp add: v4_mapped_def)
qed

lemma read_mapped:
  assumes "length gs = 8" and "list_all (\<lambda>n. n < 65536) gs" and "v4_mapped gs"
  shows "read_ipv6 (''::ffff:'' @ show_octets (group_octets gs)) = Some (gs, [])"
proof -
  let ?os = "group_octets gs" and ?t = "show_octets (group_octets gs)"
  have b: "gs ! 6 < 65536" "gs ! 7 < 65536" using assms by (auto simp: list_all_length)
  have wf: "wf_ip (V4 ?os)"
    using b by (auto simp: group_octets_def less_mult_imp_div_less)
  have og: "octet_groups ?os = [gs ! 6, gs ! 7]"
    by (simp add: octet_groups_def group_octets_def)
  have end4: "read_groups (Suc 5) (Suc 0) (CHR '':'' # ?t) = ([gs ! 6, gs ! 7], True, [])"
    by (subst read_groups.simps) (simp add: read_ipv4_show [OF wf] og)
  have hex: "show_hex 65535 = ''ffff''"
    by (simp add: digit_char_def show_hex.simps [of 65535] show_hex.simps [of 4095]
        show_hex.simps [of 255] show_hex.simps [of 15])
  have ffff: "read_number 16 4 True 65535 (''ffff'' @ CHR '':'' # ?t) = Some (65535, CHR '':'' # ?t)"
    using read_group_show [of 65535 "CHR '':'' # ?t"] by (simp add: hex)
  have "read_ipv4 (''ffff'' @ CHR '':'' # ?t) = None"
    by (simp add: read_ipv4_unfold read_number_def to_digit_def)
  then have tl: "read_groups (Suc 6) 0 (''ffff'' @ CHR '':'' # ?t) = ([65535, gs ! 6, gs ! 7], True, [])"
    using end4 ffff by (subst read_groups.simps) simp
  note gs = v4_mapped_groups [OF assms(1,3)]
  have "read_ipv6 (''::'' @ ''ffff'' @ CHR '':'' # ?t) = Some (replicate 5 0 @ [65535, gs ! 6, gs ! 7], [])"
    using tl by (simp add: read_ipv6_def read_groups_colon)
  then show ?thesis unfolding gs [symmetric] by simp
qed

lemma parse_ip_v6:
  assumes "read_ipv6 s = Some (gs, [])" and "read_ipv4 s = None"
  shows "parse_ip s = Some (V6 gs)"
  using assms by (simp add: parse_ip_def)

theorem parse_show_ip:
  assumes "wf_ip ip"
  shows "parse_ip (show_ip ip) = Some ip"
proof (cases ip)
  case (V4 os)
  with assms show ?thesis by (simp add: parse_ip_def read_ipv4_show)
next
  case (V6 gs)
  with assms have wf: "length gs = 8" "list_all (\<lambda>n. n < 65536) gs" by simp_all
  obtain start len where span: "zero_span 0 (0, 0) (0, 0) gs = (start, len)" by fastforce
  note parts = zero_span_parts [OF span]
  consider "v4_mapped gs" | "\<not> v4_mapped gs" "len > 1" | "\<not> v4_mapped gs" "\<not> len > 1" by blast
  then show ?thesis
  proof cases
    case 1
    have "read_ipv4 (''::ffff:'' @ show_octets (group_octets gs)) = None"
      by (simp add: read_ipv4_unfold)
    with 1 show ?thesis by (simp add: V6 show_ipv6_def parse_ip_v6 read_mapped wf del: append.simps)
  next
    case 2
    let ?head = "take start gs" and ?tail = "drop (start + len) gs"
    have all: "list_all (\<lambda>n. n < 65536) (?head @ ?tail)"
      using wf(2) by (auto simp: list_all_iff dest: in_set_takeD in_set_dropD)
    have lens: "length ?head + length ?tail < 8" "8 - length ?head - length ?tail = len"
      using 2 parts(1) wf(1) by simp_all
    have "CHR ''.'' \<notin> set (show_groups ?head @ ''::'' @ show_groups ?tail)" by simp
    with read_elided [OF all lens(1)] have "parse_ip (show_groups ?head @ ''::'' @ show_groups ?tail)
        = Some (V6 (?head @ replicate len 0 @ ?tail))"
      by (intro parse_ip_v6 read_ipv4_no_dot) (simp_all only: lens not_False_eq_True)
    with 2 span parts(2) show ?thesis by (simp add: V6 show_ipv6_def)
  next
    case 3
    have "read_groups 8 0 (show_groups gs @ []) = (gs, False, [])"
      using wf by (intro read_show_groups) (simp_all add: group_end_def)
    then have "read_ipv6 (show_groups gs) = Some (gs, [])" using wf(1) by (simp add: read_ipv6_def)
    with 3 span show ?thesis by (simp add: V6 show_ipv6_def parse_ip_v6 read_ipv4_no_dot)
  qed
qed

section \<open>What is read is an address\<close>

lemma read_number_bound: "read_number radix limit z b s = Some (v, r) \<Longrightarrow> v \<le> b"
  by (auto simp: read_number_def split: option.splits if_splits)

lemma read_octets_wf:
  "read_octets k i s = Some (os, r) \<Longrightarrow> length os = k \<and> list_all (\<lambda>n. n < 256) os"
proof (induction k i s arbitrary: os r rule: read_octets.induct)
  case (2 k i s)
  then obtain v t vs where "read_sep CHR ''.'' i (read_number 10 3 False 255) s = Some (v, t)"
      "read_octets k (Suc i) t = Some (vs, r)" "os = v # vs"
    by (auto split: option.splits)
  moreover from this(1) have "v \<le> 255"
    by (auto simp: read_sep_def dest!: read_number_bound split: if_splits option.splits)
  ultimately show ?case using "2.IH" by fastforce
qed simp

lemma read_groups_wf:
  "read_groups k i s = (gs, v4, r) \<Longrightarrow> length gs \<le> k \<and> list_all (\<lambda>n. n < 65536) gs"
proof (induction k i s arbitrary: gs v4 r rule: read_groups.induct)
  case (2 k i s)
  show ?case
  proof (cases "if k \<ge> 1 then read_sep CHR '':'' i read_ipv4 s else None")
    case (Some p)
    then obtain os t where p: "p = (os, t)" and k: "k \<ge> 1" and "\<exists>s. read_ipv4 s = Some (os, t)"
      by (cases p) (auto simp: read_sep_def split: if_splits option.splits)
    then have "length os = 4" "list_all (\<lambda>n. n < 256) os"
      by (auto simp: read_ipv4_def dest!: read_octets_wf)
    then have "\<forall>j < 4. os ! j < 256" by (simp add: list_all_length)
    then have o: "os ! 0 < 256" "os ! 1 < 256" "os ! 2 < 256" "os ! 3 < 256" by simp_all
    have "list_all (\<lambda>n. n < 65536) (octet_groups os)" "length (octet_groups os) = 2"
      using o by (simp_all add: octet_groups_def)
    with 2 Some p k show ?thesis by simp
  next
    case None
    note no4 = None
    show ?thesis
    proof (cases "read_sep CHR '':'' i (read_number 16 4 True 65535) s")
      case None
      with no4 2 show ?thesis by simp
    next
      case (Some p)
      then have "fst p \<le> 65535"
        by (cases p) (auto simp: read_sep_def dest!: read_number_bound split: if_splits option.splits)
      moreover obtain hs v4' t where rec: "read_groups k (Suc i) (snd p) = (hs, v4', t)"
        by (metis prod_cases3)
      moreover have "length hs \<le> k \<and> list_all (\<lambda>n. n < 65536) hs"
        using "2.IH" [OF no4 Some surjective_pairing [symmetric, of p] rec] by simp
      ultimately show ?thesis using 2(2) no4 Some by (cases p) auto
    qed
  qed
qed simp

lemma parse_ip_wf:
  assumes "parse_ip s = Some ip"
  shows "wf_ip ip"
proof (cases ip)
  case (V4 os)
  with assms obtain r where "read_ipv4 s = Some (os, r)"
    by (auto simp: parse_ip_def split: option.splits list.splits prod.splits)
  then show ?thesis using V4 by (auto simp: read_ipv4_def dest: read_octets_wf)
next
  case (V6 gs)
  with assms obtain r where r6: "read_ipv6 s = Some (gs, r)"
    by (auto simp: parse_ip_def split: option.splits list.splits prod.splits)
  obtain head v4 r1 where h: "read_groups 8 0 s = (head, v4, r1)" by (metis prod_cases3)
  show ?thesis
  proof (cases "length head = 8")
    case True
    with r6 h V6 show ?thesis by (auto simp: read_ipv6_def dest: read_groups_wf)
  next
    case False
    obtain r2 tail w t where t: "read_groups (7 - length head) 0 r2 = (tail, w, t)"
        "gs = head @ replicate (8 - length head - length tail) 0 @ tail"
      using r6 h False by (auto simp: read_ipv6_def split: if_splits option.splits prod.splits)
    with read_groups_wf [OF h] read_groups_wf [OF t(1)] False V6 show ?thesis
      by (auto simp: list_all_iff)
  qed
qed

section \<open>The characters of an address\<close>

definition ip_chars :: string where
  "ip_chars = ''0123456789abcdef.:''"

lemma decimal_chars: "set ''0123456789'' \<subseteq> set ''0123456789abcdef''"
  by simp

lemma hex_chars: "set ''0123456789abcdef'' \<subseteq> set ip_chars" and sep_chars:
  "CHR ''.'' \<in> set ip_chars" "CHR '':'' \<in> set ip_chars"
  by (simp_all add: ip_chars_def)

lemma show_octets_chars: "set (show_octets os) \<subseteq> insert CHR ''.'' (set ''0123456789'')"
proof -
  have "set (join_char c ws) \<subseteq> insert c (\<Union> (set (map set ws)))" for c and ws :: "string list"
    by (induction c ws rule: join_char.induct) auto
  moreover have "\<Union> (set (map set (map show_nat os))) \<subseteq> set ''0123456789''"
    unfolding set_map using show_nat_digits by blast
  ultimately show ?thesis unfolding show_octets_def by blast
qed

lemma show_hex_chars: "set (show_hex n) \<subseteq> set ''0123456789abcdef''"
proof (induction n rule: show_hex.induct)
  case (1 n)
  have last: "set [digit_char (n mod 16)] \<subseteq> set ''0123456789abcdef''"
    using digit_char_range [of "n mod 16"] by (simp del: set_simps add: set_simps(1) list.set(2) [of _ "[]"])
  have one: "n < 16 \<Longrightarrow> set [digit_char n] \<subseteq> set ''0123456789abcdef''"
    using digit_char_range [of n] by (metis empty_set empty_subsetI insert_subset list.simps(15))
  show ?case
  proof (cases "n < 16")
    case True
    with one show ?thesis by (subst show_hex.simps) (simp only: if_True)
  next
    case False
    with 1 last show ?thesis by (subst show_hex.simps) (simp only: if_False set_append Un_subset_iff simp_thms)
  qed
qed

lemma more_groups_chars: "set (more_groups gs) \<subseteq> set ip_chars"
proof (induction gs)
  case (Cons g gs)
  then show ?case using show_hex_chars [of g] hex_chars sep_chars
    unfolding more_groups_simps append_Cons list.set set_append by blast
qed simp

lemma show_groups_chars: "set (show_groups gs) \<subseteq> set ip_chars"
proof (cases gs)
  case (Cons g hs)
  then show ?thesis using show_hex_chars [of g] hex_chars more_groups_chars
    unfolding Cons show_groups_Cons set_append by blast
qed simp

lemma show_ip_chars: "set (show_ip ip) \<subseteq> set ip_chars"
proof -
  have oct: "set (show_octets os) \<subseteq> set ip_chars" for os
    using show_octets_chars [of os] decimal_chars hex_chars sep_chars by blast
  have pre: "set ''::ffff:'' \<subseteq> set ip_chars" "set ''::'' \<subseteq> set ip_chars"
    by (simp_all add: ip_chars_def)
  show ?thesis
  proof (cases ip)
    case (V4 os)
    then show ?thesis using oct by (simp only: show_ip.simps)
  next
    case (V6 gs)
    obtain start len where span: "zero_span 0 (0, 0) (0, 0) gs = (start, len)" by fastforce
    show ?thesis
      unfolding V6 show_ip.simps show_ipv6_def span prod.case
      using oct pre show_groups_chars by (simp only: set_append Un_subset_iff split: if_split) blast
  qed
qed

lemma show_v4_no_colon [simp]: "CHR '':'' \<notin> set (show_ip (V4 os))"
proof -
  have "CHR '':'' \<notin> insert CHR ''.'' (set ''0123456789'')" by simp
  then show ?thesis using show_octets_chars [of os] unfolding show_ip.simps by blast
qed

lemma show_ip_ne: "wf_ip ip \<Longrightarrow> show_ip ip \<noteq> []"
proof
  assume "wf_ip ip" "show_ip ip = []"
  then have "parse_ip [] = Some ip" using parse_show_ip by fastforce
  moreover have "parse_ip [] = None"
    by (simp add: parse_ip_def read_ipv4_unfold read_number_def read_ipv6_def group_end_stop group_end_def)
  ultimately show False by simp
qed

text \<open>An IPv6 address has a colon before its last colon.\<close>

lemma show_v6_colons:
  assumes "wf_ip (V6 gs)"
  shows "\<exists>a b. show_ip (V6 gs) = a @ CHR '':'' # b \<and> CHR '':'' \<in> set a"
proof -
  obtain start len where span: "zero_span 0 (0, 0) (0, 0) gs = (start, len)" by fastforce
  consider "v4_mapped gs" | "\<not> v4_mapped gs" "len > 1" | "\<not> v4_mapped gs" "\<not> len > 1" by blast
  then show ?thesis
  proof cases
    case 1
    then have "show_ip (V6 gs) = '':'' @ CHR '':'' # (''ffff:'' @ show_octets (group_octets gs))"
      by (simp add: show_ipv6_def)
    then show ?thesis by (intro exI conjI) (assumption, simp)
  next
    case 2
    then have "show_ip (V6 gs) = (show_groups (take start gs) @ '':'')
        @ CHR '':'' # show_groups (drop (start + len) gs)"
      using span by (simp add: show_ipv6_def)
    then show ?thesis by (intro exI conjI) (assumption, simp)
  next
    case 3
    have "length gs = Suc (Suc (Suc 5))" using assms by simp
    then obtain g h k hs where "gs = g # h # k # hs"
      by (metis Suc_length_conv)
    then have "show_ip (V6 gs) = (show_hex g @ CHR '':'' # show_hex h) @ CHR '':'' # (show_hex k @ more_groups hs)"
      using 3 span by (simp add: show_ipv6_def show_groups_Cons)
    then show ?thesis by (intro exI conjI) (assumption, simp)
  qed
qed

end
