(* ===== verification/F64.thy ===== *)
theory F64
  imports Prelude "HOL-Library.Log_Nat"
begin

text \<open>
  IEEE 754 binary64 arithmetic as the sources use it.  A value is not-a-number, one of the
  infinities, or a finite rational; the two zeros are one value, which every comparison and
  every operation of the sources treats alike.  \<open>fl\<close> rounds an exact result to the nearest
  representable value, ties to even, subnormals included; results beyond the largest finite
  value do not arise from the bounded quantities it is applied to.
\<close>

section \<open>Values and comparisons\<close>

datatype f64 = NaN | PosInf | NegInf | Fin rat

definition is_finite :: "f64 \<Rightarrow> bool" where
  "is_finite x = (case x of Fin _ \<Rightarrow> True | _ \<Rightarrow> False)"

text \<open>\<^verbatim>\<open>x < y\<close>, false as soon as one side is not a number.\<close>

fun f64_less :: "f64 \<Rightarrow> f64 \<Rightarrow> bool" where
  "f64_less NaN _ = False"
| "f64_less _ NaN = False"
| "f64_less (Fin a) (Fin b) = (a < b)"
| "f64_less NegInf NegInf = False"
| "f64_less NegInf _ = True"
| "f64_less _ NegInf = False"
| "f64_less PosInf _ = False"
| "f64_less _ PosInf = True"

lemma is_finite_simps [simp]:
  "is_finite (Fin r)" "\<not> is_finite NaN" "\<not> is_finite PosInf" "\<not> is_finite NegInf"
  by (simp_all add: is_finite_def)

lemma is_finite_iff: "is_finite x \<longleftrightarrow> (\<exists>r. x = Fin r)"
  by (cases x) simp_all

section \<open>Rounding\<close>

definition round_even :: "rat \<Rightarrow> int" where
  "round_even x =
     (let k = \<lfloor>x\<rfloor>; d = x - of_int k
      in if d < 1 / 2 then k else if 1 / 2 < d then k + 1 else if even k then k else k + 1)"

definition log2_floor :: "rat \<Rightarrow> int" where
  "log2_floor x =
     (let (p, q) = quotient_of x; k = bitlen p - bitlen q
      in if 2 powi k \<le> x then k else k - 1)"

definition ulp_exp :: "rat \<Rightarrow> int" where
  "ulp_exp x = max (log2_floor \<bar>x\<bar> - 52) (- 1074)"

definition fl :: "rat \<Rightarrow> rat" where
  "fl x = (if x = 0 then 0 else of_int (round_even (x / 2 powi ulp_exp x)) * 2 powi ulp_exp x)"

text \<open>\<^verbatim>\<open>n as f64\<close> for an integer.\<close>

definition int_to_f64 :: "int \<Rightarrow> f64" where
  "int_to_f64 n = Fin (fl (of_int n))"

lemma round_even_bounds: "\<lfloor>x\<rfloor> \<le> round_even x" "round_even x \<le> \<lfloor>x\<rfloor> + 1"
  by (simp_all add: round_even_def Let_def)

lemma round_even_of_int [simp]: "round_even (of_int n) = n"
  by (simp add: round_even_def)

lemma round_even_mono: "x \<le> y \<Longrightarrow> round_even x \<le> round_even y"
proof -
  assume le: "x \<le> y"
  then have fl: "\<lfloor>x\<rfloor> \<le> \<lfloor>y\<rfloor>" by (rule floor_mono)
  show ?thesis
  proof (cases "\<lfloor>x\<rfloor> = \<lfloor>y\<rfloor>")
    case True
    with le show ?thesis by (simp add: round_even_def Let_def)
  next
    case False
    then have "\<lfloor>x\<rfloor> + 1 \<le> \<lfloor>y\<rfloor>" using fl by simp
    then show ?thesis using round_even_bounds [of x] round_even_bounds [of y] by linarith
  qed
qed

lemma log2_floor_bounds:
  assumes "0 < x"
  shows "2 powi log2_floor x \<le> x" and "x < 2 powi (log2_floor x + 1)"
proof -
  obtain p q where pq: "quotient_of x = (p, q)" by fastforce
  have q: "0 < q" using pq by (rule quotient_of_denom_pos)
  have x: "x = of_int p / of_int q" using pq by (rule quotient_of_div)
  with assms q have p: "0 < p" by (simp add: zero_less_divide_iff)
  define a b where "a = bitlen p" and "b = bitlen q"
  have ab: "0 < a" "0 < b"
    using p q bitlen_nonneg bitlen_eq_zero_iff
    by (metis a_def b_def linorder_not_less order_le_less)+
  have pw: "(2::int) ^ nat (a - 1) \<le> p" "p < 2 ^ nat a" "(2::int) ^ nat (b - 1) \<le> q" "q < 2 ^ nat b"
    using bitlen_bounds [OF p] bitlen_bounds [OF q] by (simp_all add: a_def b_def)
  have conv: "(2::rat) powi (c - d) = of_int (2 ^ nat c) / of_int (2 ^ nat d)" if "0 \<le> c" "0 \<le> d" for c d
    using that by (simp add: power_int_diff) (simp add: power_int_def)
  have lo: "2 powi (a - 1 - b) < x"
  proof -
    have "2 ^ nat (a - 1) * q < p * 2 ^ nat b"
      by (rule mult_le_less_imp_less) (use pw p q in auto)
    then have "of_int (2 ^ nat (a - 1)) * of_int q < (of_int p * of_int (2 ^ nat b) :: rat)"
      by (metis of_int_less_iff of_int_mult)
    then show ?thesis using ab q by (simp add: x conv divide_simps mult.commute)
  qed
  have hi: "x < 2 powi (a - (b - 1))"
  proof -
    have "p * 2 ^ nat (b - 1) < 2 ^ nat a * q"
      by (rule mult_less_le_imp_less) (use pw p q in auto)
    then have "of_int p * of_int (2 ^ nat (b - 1)) < (of_int (2 ^ nat a) * of_int q :: rat)"
      by (metis of_int_less_iff of_int_mult)
    then show ?thesis using ab q by (simp add: x conv divide_simps mult.commute)
  qed
  have l: "log2_floor x = (if 2 powi (a - b) \<le> x then a - b else a - b - 1)"
    by (simp add: log2_floor_def pq a_def b_def)
  have e: "a - (b - 1) = a - b + 1" "a - 1 - b = a - b - 1" by simp_all
  show "2 powi log2_floor x \<le> x" using lo l e by auto
  show "x < 2 powi (log2_floor x + 1)" using hi l e by auto
qed

lemma powi2_less_iff [simp]: "(2::rat) powi a < 2 powi b \<longleftrightarrow> a < b"
  using power_int_strict_increasing [of a b "2::rat"] power_int_increasing [of b a "2::rat"]
  by (cases "a < b") (auto simp: not_less)

lemma powi2_le_iff [simp]: "(2::rat) powi a \<le> 2 powi b \<longleftrightarrow> a \<le> b"
  using powi2_less_iff [of b a] by (simp only: linorder_not_less [symmetric])

lemma powi2_pos [simp]: "0 < (2::rat) powi a"
  by (rule zero_less_power_int) simp

lemma log2_floor_mono: "0 < x \<Longrightarrow> x \<le> y \<Longrightarrow> log2_floor x \<le> log2_floor y"
proof -
  assume x: "0 < x" and xy: "x \<le> y"
  have "2 powi log2_floor x < (2::rat) powi (log2_floor y + 1)"
    using log2_floor_bounds [OF x] log2_floor_bounds [of y] x xy by linarith
  then show ?thesis by simp
qed

lemma powi2_nat: "0 \<le> k \<Longrightarrow> (2::rat) powi k = of_int (2 ^ nat k)"
  by (simp add: power_int_def)

lemma powi2_add: "(2::rat) powi (a + b) = 2 powi a * 2 powi b"
  by (rule power_int_add) simp

lemma fl_pos: "0 < x \<Longrightarrow> 0 \<le> fl x"
proof -
  assume x: "0 < x"
  have "round_even 0 \<le> round_even (x / 2 powi ulp_exp x)"
    by (rule round_even_mono) (use x in simp)
  then have "0 \<le> round_even (x / 2 powi ulp_exp x)"
    using round_even_of_int [of 0] by simp
  then show ?thesis using x by (simp add: fl_def)
qed

lemma fl_mono_pos:
  assumes x: "0 < x" and xy: "x \<le> y"
  shows "fl x \<le> fl y"
proof -
  have y: "0 < y" using x xy by simp
  define e e' l l' where "e = ulp_exp x" and "e' = ulp_exp y"
    and "l = log2_floor x" and "l' = log2_floor y"
  have fx: "fl x = of_int (round_even (x / 2 powi e)) * 2 powi e"
    and fy: "fl y = of_int (round_even (y / 2 powi e')) * 2 powi e'"
    using x y by (simp_all add: fl_def e_def e'_def)
  have ll: "l \<le> l'" unfolding l_def l'_def using x xy by (rule log2_floor_mono)
  have ee: "e = max (l - 52) (- 1074)" "e' = max (l' - 52) (- 1074)"
    using x y by (simp_all add: e_def e'_def l_def l'_def ulp_exp_def)
  show ?thesis
  proof (cases "e = e'")
    case True
    have "round_even (x / 2 powi e) \<le> round_even (y / 2 powi e)"
      by (rule round_even_mono) (use xy in \<open>simp add: divide_right_mono\<close>)
    then show ?thesis unfolding fx fy True by (intro mult_right_mono) simp_all
  next
    case False
    then have lt: "e < e'" and e': "e' = l' - 52" and l: "l + 1 \<le> l'" using ee ll by auto
    have split: "(2::rat) powi l' = 2 powi (l' - e) * 2 powi e" "(2::rat) powi l' = 2 powi 52 * 2 powi e'"
      using powi2_add [of "l' - e" e] powi2_add [of 52 e'] e' by simp_all
    have "x \<le> 2 powi l'"
      using log2_floor_bounds(2) [OF x] l powi2_le_iff [of "l + 1" l'] unfolding l_def [symmetric]
      by linarith
    then have "x / 2 powi e \<le> of_int (2 ^ nat (l' - e))"
      using lt e' by (simp add: split(1) powi2_nat divide_le_eq)
    then have "round_even (x / 2 powi e) \<le> 2 ^ nat (l' - e)"
      using round_even_mono round_even_of_int by metis
    then have "of_int (round_even (x / 2 powi e)) \<le> (2::rat) powi (l' - e)"
      using lt e' by (subst powi2_nat) (simp, simp only: of_int_le_iff)
    then have lo: "fl x \<le> 2 powi l'"
      unfolding fx split(1) by (intro mult_right_mono) simp_all
    have "2 powi l' \<le> y" using log2_floor_bounds(1) [OF y] by (simp add: l'_def)
    then have "of_int (2 ^ nat 52) \<le> y / 2 powi e'"
      by (simp add: split(2) le_divide_eq powi2_nat)
    then have "2 ^ nat 52 \<le> round_even (y / 2 powi e')"
      using round_even_mono round_even_of_int by metis
    then have "(2::rat) powi 52 \<le> of_int (round_even (y / 2 powi e'))"
      by (subst powi2_nat) (simp, simp only: of_int_le_iff)
    then have hi: "2 powi l' \<le> fl y"
      unfolding fy split(2) by (intro mult_right_mono) simp_all
    from lo hi show ?thesis by simp
  qed
qed

lemma fl_zero [simp]: "fl 0 = 0"
  by (simp add: fl_def)

lemma fl_mono: "0 \<le> x \<Longrightarrow> x \<le> y \<Longrightarrow> fl x \<le> fl y"
  by (cases "x = 0"; cases "y = 0") (auto intro: fl_mono_pos fl_pos)

lemma fl_nonneg: "0 \<le> x \<Longrightarrow> 0 \<le> fl x"
  using fl_mono [of 0 x] by simp

text \<open>Integers up to \<open>2 ^ 53\<close> are represented exactly.\<close>

lemma fl_of_int:
  assumes "0 \<le> n" "n < 2 ^ 53"
  shows "fl (of_int n) = of_int n"
proof (cases "n = 0")
  case False
  with assms have n: "0 < (of_int n :: rat)" by simp
  define e where "e = ulp_exp (of_int n)"
  have "(2::rat) powi log2_floor (of_int n) \<le> of_int n" by (rule log2_floor_bounds(1) [OF n])
  also have "(of_int n :: rat) < of_int (2 ^ 53)"
    using assms(2) by (simp only: of_int_less_iff)
  also have "\<dots> = (2::rat) powi 53" by (simp only: powi2_nat) simp
  finally have "log2_floor (of_int n) < 53" by (simp only: powi2_less_iff)
  then have e0: "e \<le> 0" using n by (simp add: e_def ulp_exp_def)
  have inv: "inverse (2 powi e) = (of_int (2 ^ nat (- e)) :: rat)"
    using e0 powi2_nat [of "- e"] by (simp only: power_int_minus)
  have q: "of_int n / 2 powi e = (of_int (n * 2 ^ nat (- e)) :: rat)"
    unfolding divide_inverse inv by (rule of_int_mult [symmetric])
  have "fl (of_int n) = of_int (round_even (of_int n / 2 powi e)) * 2 powi e"
    using False by (simp add: fl_def e_def)
  also have "\<dots> = (of_int n / 2 powi e) * 2 powi e"
    unfolding q round_even_of_int ..
  also have "\<dots> = of_int n" by simp
  finally show ?thesis .
qed simp

end
