(* ===== verification/Maps.thy ===== *)
theory Maps
  imports Prelude "HOL-Library.AList" "HOL-Library.Char_ord" "HOL-Library.List_Lexorder"
begin

text \<open>
  The two map types of the sources.  A \<^verbatim>\<open>HashMap\<close> is an association list with distinct
  keys whose order is the (unspecified) iteration order: a statement that holds for every
  such list holds for every order.  A \<^verbatim>\<open>BTreeMap\<close> is an association list sorted by key;
  \<^verbatim>\<open>String\<close> keys compare byte by byte, which is the lexicographic order of the library.
\<close>

type_synonym ('k, 'v) hmap = "('k \<times> 'v) list"
type_synonym ('k, 'v) btree = "('k \<times> 'v) list"

section \<open>The map contract\<close>

text \<open>
  What every client relies on, whatever the representation: a lookup after an insert or a
  removal, and the representation invariant kept by both.
\<close>

locale keyed_map =
  fixes wf :: "'m \<Rightarrow> bool"
    and find :: "'m \<Rightarrow> 'k \<Rightarrow> 'v option"
    and put :: "'k \<Rightarrow> 'v \<Rightarrow> 'm \<Rightarrow> 'm"
    and drop_key :: "'k \<Rightarrow> 'm \<Rightarrow> 'm"
  assumes find_put: "wf m \<Longrightarrow> find (put k v m) = (find m)(k \<mapsto> v)"
    and find_drop: "wf m \<Longrightarrow> find (drop_key k m) = (find m)(k := None)"
    and wf_put: "wf m \<Longrightarrow> wf (put k v m)"
    and wf_drop: "wf m \<Longrightarrow> wf (drop_key k m)"
begin

lemma find_put_same: "wf m \<Longrightarrow> find (put k v m) k = Some v"
  by (simp add: find_put)

lemma find_put_other: "wf m \<Longrightarrow> k' \<noteq> k \<Longrightarrow> find (put k v m) k' = find m k'"
  by (simp add: find_put)

lemma find_drop_same: "wf m \<Longrightarrow> find (drop_key k m) k = None"
  by (simp add: find_drop)

lemma find_drop_other: "wf m \<Longrightarrow> k' \<noteq> k \<Longrightarrow> find (drop_key k m) k' = find m k'"
  by (simp add: find_drop)

lemma put_put: "wf m \<Longrightarrow> find (put k v (put k u m)) = find (put k v m)"
  by (simp add: find_put wf_put)

lemma drop_put: "wf m \<Longrightarrow> find m k = None \<Longrightarrow> find (drop_key k (put k v m)) = find m"
  by (auto simp: find_put find_drop wf_put fun_eq_iff)

end

section \<open>HashMap\<close>

definition hm_wf :: "('k, 'v) hmap \<Rightarrow> bool" where
  "hm_wf m = distinct (map fst m)"

text \<open>\<^verbatim>\<open>retain\<close> keeps the entries that satisfy a predicate.\<close>

definition hm_retain :: "('k \<Rightarrow> 'v \<Rightarrow> bool) \<Rightarrow> ('k, 'v) hmap \<Rightarrow> ('k, 'v) hmap" where
  "hm_retain p m = filter (\<lambda>(k, v). p k v) m"

interpretation hm: keyed_map hm_wf map_of AList.update AList.delete
  by unfold_locales
    (simp_all add: hm_wf_def update_conv' delete_conv' distinct_update distinct_delete)

lemma hm_wf_Nil [simp]: "hm_wf []"
  by (simp add: hm_wf_def)

lemma hm_wf_retain [inv_intros]: "hm_wf m \<Longrightarrow> hm_wf (hm_retain p m)"
  by (simp add: hm_wf_def hm_retain_def distinct_map_filter)

lemma hm_entry_iff: "hm_wf m \<Longrightarrow> (k, v) \<in> set m \<longleftrightarrow> map_of m k = Some v"
  by (simp add: hm_wf_def)

lemma map_of_retain:
  "hm_wf m \<Longrightarrow> map_of (hm_retain p m) k =
     (case map_of m k of Some v \<Rightarrow> if p k v then Some v else None | None \<Rightarrow> None)"
proof (induction m)
  case Nil
  then show ?case by (simp add: hm_retain_def)
next
  case (Cons e m)
  then have "map_of m (fst e) = None"
    by (simp add: hm_wf_def map_of_eq_None_iff)
  with Cons show ?case
    by (cases e) (auto simp: hm_wf_def hm_retain_def split: option.splits)
qed

lemmas hm_wf_put [inv_intros] = hm.wf_put
lemmas hm_wf_drop [inv_intros] = hm.wf_drop

lemma length_update_new: "map_of m k = None \<Longrightarrow> length (AList.update k v m) = Suc (length m)"
  by (induction m) (auto split: if_splits)

lemma length_update_old: "map_of m k \<noteq> None \<Longrightarrow> length (AList.update k v m) = length m"
  by (induction m) (auto split: if_splits)

lemma length_delete_old: "hm_wf m \<Longrightarrow> map_of m k \<noteq> None \<Longrightarrow> Suc (length (AList.delete k m)) = length m"
proof (induction m)
  case (Cons e m)
  show ?case
  proof (cases "fst e = k")
    case True
    then have "k \<notin> fst ` set m" using Cons.prems by (auto simp: hm_wf_def)
    then have "AList.delete k m = m" by (simp add: delete_id)
    with True show ?thesis by (cases e) (simp add: AList.delete_eq)
  next
    case False
    with Cons show ?thesis by (cases e) (auto simp: hm_wf_def AList.delete_eq)
  qed
qed simp

lemma set_update_subset: "set (AList.update k v m) \<subseteq> insert (k, v) (set m)"
  by (induction m) auto

lemma set_update_entry: "hm_wf m \<Longrightarrow> e \<in> set (AList.update k v m) \<longleftrightarrow>
    (if fst e = k then e = (k, v) else e \<in> set m)"
  by (cases e) (auto simp: hm_entry_iff hm.find_put hm_wf_put split: if_splits)

lemma set_delete_entry: "hm_wf m \<Longrightarrow> e \<in> set (AList.delete k m) \<longleftrightarrow> fst e \<noteq> k \<and> e \<in> set m"
  by (cases e) (auto simp: hm_entry_iff hm.find_drop hm_wf_drop split: if_splits)

lemma snd_set_map_of: "hm_wf l \<Longrightarrow> x \<in> snd ` set l \<longleftrightarrow> (\<exists>k. map_of l k = Some x)"
  by (metis (no_types, lifting) hm_entry_iff image_iff prod.collapse snd_conv)

lemma map_of_fold_delete:
  "map_of (fold AList.delete ks m) k = (if k \<in> set ks then None else map_of m k)"
  by (induction ks arbitrary: m) (auto simp: delete_conv')

lemma hm_wf_fold_delete [inv_intros]: "hm_wf m \<Longrightarrow> hm_wf (fold AList.delete ks m)"
  by (induction ks arbitrary: m) (simp_all add: hm_wf_drop)

text \<open>A sum over the entries of a map, after a write and after a removal.\<close>

definition entry_sum :: "('k \<Rightarrow> 'v \<Rightarrow> int) \<Rightarrow> ('k, 'v) hmap \<Rightarrow> int" where
  "entry_sum f m = sum_list (map (\<lambda>(k, v). f k v) m)"

lemma entry_sum_Nil [simp]: "entry_sum f [] = 0"
  by (simp add: entry_sum_def)

lemma entry_sum_put:
  "hm_wf m \<Longrightarrow> entry_sum f (AList.update k v m) = entry_sum f m + f k v - (case map_of m k of Some w \<Rightarrow> f k w | None \<Rightarrow> 0)"
  by (induction m) (auto simp: entry_sum_def hm_wf_def split: option.splits)

lemma entry_sum_drop:
  "hm_wf m \<Longrightarrow> entry_sum f (AList.delete k m) = entry_sum f m - (case map_of m k of Some w \<Rightarrow> f k w | None \<Rightarrow> 0)"
proof (induction m)
  case (Cons e m)
  obtain k' v' where e: "e = (k', v')" by (cases e)
  have wf: "hm_wf m" using Cons.prems by (simp add: hm_wf_def)
  show ?case
  proof (cases "k' = k")
    case True
    then have "map_of m k = None" using Cons.prems e by (simp add: hm_wf_def map_of_eq_None_iff)
    with True Cons.IH [OF wf] e show ?thesis by (simp add: entry_sum_def)
  next
    case False
    with Cons.IH [OF wf] e show ?thesis by (simp add: entry_sum_def)
  qed
qed simp

lemma entry_sum_nonneg: "(\<And>k v. 0 \<le> f k v) \<Longrightarrow> 0 \<le> entry_sum f m"
  unfolding entry_sum_def by (rule sum_list_nonneg) auto

lemma entry_sum_zero: "\<forall>(k, v) \<in> set m. f k v = 0 \<Longrightarrow> entry_sum f m = 0"
  by (induction m) (auto simp: entry_sum_def)

lemma entry_sum_retain:
  "(\<And>k v. \<not> p k v \<Longrightarrow> f k v = 0) \<Longrightarrow> entry_sum f (hm_retain p m) = entry_sum f m"
  by (induction m) (auto simp: entry_sum_def hm_retain_def)

section \<open>BTreeMap\<close>

definition bt_wf :: "('k :: linorder, 'v) btree \<Rightarrow> bool" where
  "bt_wf m = sorted_wrt (<) (map fst m)"

fun bt_insert :: "'k :: linorder \<Rightarrow> 'v \<Rightarrow> ('k, 'v) btree \<Rightarrow> ('k, 'v) btree" where
  "bt_insert k v [] = [(k, v)]"
| "bt_insert k v ((k', v') # m) =
     (if k < k' then (k, v) # (k', v') # m
      else if k = k' then (k, v) # m
      else (k', v') # bt_insert k v m)"

lemma bt_wf_Nil [simp]: "bt_wf []"
  by (simp add: bt_wf_def)

lemma bt_insert_keys: "fst ` set (bt_insert k v m) = insert k (fst ` set m)"
  by (induction k v m rule: bt_insert.induct) auto

lemma bt_wf_insert [inv_intros]: "bt_wf m \<Longrightarrow> bt_wf (bt_insert k v m)"
proof (induction k v m rule: bt_insert.induct)
  case (2 k v k' v' m)
  have keys: "\<forall>x \<in> fst ` set (bt_insert k v m). x = k \<or> x \<in> fst ` set m"
    by (simp add: bt_insert_keys)
  show ?case
  proof (cases "k < k' \<or> k = k'")
    case False
    with "2.prems" have "k' < k" and above: "\<forall>x \<in> fst ` set m. k' < x" by (auto simp: bt_wf_def)
    have "\<forall>x \<in> fst ` set (bt_insert k v m). k' < x"
    proof
      fix x
      assume "x \<in> fst ` set (bt_insert k v m)"
      with keys have "x = k \<or> x \<in> fst ` set m" by (rule bspec)
      with \<open>k' < k\<close> above show "k' < x" by blast
    qed
    with False 2 show ?thesis by (auto simp: bt_wf_def)
  next
    case True
    with "2.prems" show ?thesis by (auto simp: bt_wf_def)
  qed
qed (simp add: bt_wf_def)

lemma bt_wf_distinct: "bt_wf m \<Longrightarrow> distinct (map fst m)"
  unfolding bt_wf_def by (simp add: strict_sorted_iff)

lemma map_of_bt_insert: "bt_wf m \<Longrightarrow> map_of (bt_insert k v m) = (map_of m)(k \<mapsto> v)"
  by (induction k v m rule: bt_insert.induct) (auto simp: bt_wf_def fun_eq_iff)

lemma bt_wf_delete: "bt_wf m \<Longrightarrow> bt_wf (AList.delete k m)"
  unfolding bt_wf_def AList.delete_eq
  by (induction m) (auto simp: sorted_wrt_append)

interpretation bt: keyed_map bt_wf map_of bt_insert AList.delete
  by unfold_locales (simp_all add: map_of_bt_insert delete_conv' bt_wf_insert bt_wf_delete)

text \<open>Inserting keys in increasing order builds the sorted list itself.\<close>

lemma bt_insert_last: "\<forall>k' \<in> fst ` set m. k' < k \<Longrightarrow> bt_insert k v m = m @ [(k, v)]"
  by (induction m) (auto simp: not_less_iff_gr_or_eq)

end
