(* ===== verification/Manifest.thy ===== *)
theory Manifest
  imports Maps Ip_Addr F64
begin

text \<open>
  The data model of \<^verbatim>\<open>crates/oxidhome-manifest\<close>: the parsed \<^verbatim>\<open>manifest.toml\<close> of a plugin
  (\<^verbatim>\<open>manifest.rs\<close>), its config schema (\<^verbatim>\<open>config.rs\<close>), the validation errors
  (\<^verbatim>\<open>validate.rs\<close>), and the service-grant matcher.  A path is its string on Unix; a TOML
  value, whose type belongs to the \<^verbatim>\<open>toml\<close> crate, is given by that type's constructors.
\<close>

section \<open>The manifest\<close>

record version =
  major :: nat
  minor :: nat
  patch :: nat
  prerelease :: string

datatype restart_policy = Always | OnTrap | Never

fun restart_policy_str :: "restart_policy \<Rightarrow> string" where
  "restart_policy_str Always = ''always''"
| "restart_policy_str OnTrap = ''on-trap''"
| "restart_policy_str Never = ''never''"

datatype world = Plugin | StreamingPlugin | AiPlugin | StreamingAiPlugin

fun world_str :: "world \<Rightarrow> string" where
  "world_str Plugin = ''plugin''"
| "world_str StreamingPlugin = ''streaming-plugin''"
| "world_str AiPlugin = ''ai-plugin''"
| "world_str StreamingAiPlugin = ''streaming-ai-plugin''"

record plugin_section =
  plugin_id :: string
  plugin_name :: string
  plugin_version :: version
  authors :: "string list"
  description :: "string option"
  source :: "string option"
  license :: "string option"
  plugin_keywords :: "string list"
  plugin_world :: world
  sdk_version :: version

record runtime_section =
  wasm :: string
  singleton :: bool
  tick_interval_ms :: "nat option"
  restart :: restart_policy

record service_grant =
  grant_plugin :: string
  grant_instance :: string
  grant_service :: string
  grant_commands :: "string list"
  grant_caller_instance :: string

text \<open>
  A network rule (\<^verbatim>\<open>network.rs\<close>).  An \<^verbatim>\<open>IpNet\<close> of the \<^verbatim>\<open>ipnet\<close> crate is its address and
  prefix length; ports are \<^verbatim>\<open>u16\<close>.
\<close>

datatype proto = Tcp | Udp | Https | AnyProto

datatype host_match = HostExact string | SuffixWildcard string | Cidr ip_addr nat

datatype port_match = PortExact nat | PortRange nat nat | PortAny

record network_rule =
  rule_proto :: proto
  rule_host :: host_match
  rule_port :: port_match

record capabilities_section =
  network :: "network_rule list"
  storage_quota_kb :: nat
  blob_quota_mb :: nat
  declares_devices :: "string list"
  declares_services :: "string list"
  consumes_services :: "service_grant list"
  subscribes_events :: bool

record ui_permissions =
  perm_network :: "string option"
  perm_storage :: "string option"
  perm_scripts :: "string option"

record ui_section =
  ui_config :: "string option"
  ui_device_config :: "string option"
  ui_commands :: "string option"
  ui_widgets :: "string list"
  ui_config_schema :: "string option"
  ui_commands_schema :: "string option"
  ui_perms :: ui_permissions

section \<open>The config schema, TOML values, resolved values\<close>

text \<open>
  A config field is its \<^verbatim>\<open>ConfigFieldType\<close>; the free-text \<^verbatim>\<open>description\<close> beside it takes no part in
  validation or merging.
\<close>

datatype config_field =
    CBool "bool option"
  | CInt "int option" "int option" "int option"  \<comment> \<open>default, min, max\<close>
  | CFloat "f64 option" "f64 option" "f64 option"
  | CString "string option"
  | CEnum "string list" "string option"  \<comment> \<open>values, default\<close>
  | CNested "(string \<times> config_field) list"

text \<open>Induction on a field together with the list of its sub-fields.\<close>

lemma config_field_rule [case_names Bool Int Float String Enum Nested Nil Cons]:
  assumes "\<And>d. P (CBool d)" and "\<And>d mn mx. P (CInt d mn mx)" and "\<And>d mn mx. P (CFloat d mn mx)"
    and "\<And>d. P (CString d)" and "\<And>vals d. P (CEnum vals d)"
    and nested: "\<And>subs. Q subs \<Longrightarrow> P (CNested subs)"
    and nil: "Q []" and cons: "\<And>n f fs. P f \<Longrightarrow> Q fs \<Longrightarrow> Q ((n, f) # fs)"
  shows "P f" and "Q fs"
proof -
  have Q: "(\<And>n g. (n, g) \<in> set gs \<Longrightarrow> P g) \<Longrightarrow> Q gs" for gs
  proof (induction gs)
    case Nil
    show ?case by (rule nil)
  next
    case (Cons e gs)
    show ?case
    proof (cases e)
      case (Pair n g)
      with Cons have "P g" "Q gs" by auto
      with Pair show ?thesis by (simp add: cons)
    qed
  qed
  show P: "P f" for f
  proof (induction f)
    case (CNested subs)
    have "Q subs" by (rule Q) (use CNested in force)
    then show ?case by (rule nested)
  qed (use assms in auto)
  show "Q fs" by (rule Q) (rule P)
qed

datatype toml =
    TString string
  | TInteger int
  | TFloat f64
  | TBoolean bool
  | TDatetime string
  | TArray "toml list"
  | TTable "(string \<times> toml) list"

datatype config_value =
    VBool bool
  | VInt int
  | VFloat f64
  | VString string
  | VNested "(string \<times> config_value) list"

fun type_name :: "toml \<Rightarrow> string" where
  "type_name (TString _) = ''string''"
| "type_name (TInteger _) = ''int''"
| "type_name (TFloat _) = ''float''"
| "type_name (TBoolean _) = ''bool''"
| "type_name (TDatetime _) = ''datetime''"
| "type_name (TArray _) = ''array''"
| "type_name (TTable _) = ''table''"

record plugin_manifest =
  manifest_version :: nat
  plugin :: plugin_section
  runtime :: runtime_section
  capabilities :: capabilities_section
  config :: "(string, config_field) btree"
  ui :: "ui_section option"

section \<open>Validation errors\<close>

datatype wasm_path_problem = PathEmpty | PathAbsolute | ParentTraversal | CurrentDir | HasPrefix

datatype keyword_reason = KeywordEmpty | KeywordTooLong nat | KeywordBadCharset

datatype value_source = FromDefault | FromOverride

text \<open>
  \<open>bound_text\<close> and \<open>number_text\<close> stand for the rendered strings of
  \<^verbatim>\<open>ConfigOutOfRange\<close>: they carry the number that is printed.
\<close>

datatype number_text = IntText int | FloatText f64

datatype bound_text = AtLeast number_text | AtMost number_text | Unspecified

datatype (plugins only: code) validation_error =
    UnsupportedManifestVersion nat "nat list"
  | InvalidPluginId string
  | UnknownDeclaredDeviceCapability string
  | TooManyConsumesServicesGrants nat nat
  | TooManyCommandsPerGrant nat nat nat
  | TooManyKeywords nat nat
  | TooManyDeclaresDevices nat nat
  | InvalidKeyword nat string keyword_reason
  | ConfigEnumDefaultOutOfRange string string "string list"
  | ConfigIntDefaultOutOfRange string int "int option" "int option"
  | ConfigFloatDefaultOutOfRange string f64 "f64 option" "f64 option"
  | ConfigEnumEmpty string
  | ConfigFieldNameContainsDot string string
  | ConfigIntRangeInvalid string int int
  | ConfigFloatRangeInvalid string f64 f64
  | ConfigFloatNotFinite string string f64
  | UnknownConfigKey string
  | ConfigRequired string
  | ConfigTypeMismatch string string string
  | ConfigOutOfRange string bound_text number_text
  | ConfigEnumOutOfRange string string "string list"
  | ConfigOverrideShape string
  | RuntimeWasmPathEscapes string wasm_path_problem
  | RuntimeTickIntervalTooSmall nat nat
  | UiAssetPathEscapes string string wasm_path_problem
  | TooManyUiWidgets nat nat
  | DuplicateUiWidget nat string
  | UnknownUiPermission string string "string list"

section \<open>Service grants\<close>

definition grant_any :: string where
  "grant_any = ''*''"

definition selector_matches :: "string \<Rightarrow> string \<Rightarrow> bool" where
  "selector_matches selector value \<longleftrightarrow> selector = grant_any \<or> selector = value"

definition grant_matches ::
    "service_grant \<Rightarrow> string \<Rightarrow> string \<Rightarrow> string \<Rightarrow> string \<Rightarrow> string \<Rightarrow> bool" where
  "grant_matches g caller_instance plg target_instance service_local_id command \<longleftrightarrow>
     grant_plugin g = plg
     \<and> grant_service g = service_local_id
     \<and> selector_matches (grant_instance g) target_instance
     \<and> selector_matches (grant_caller_instance g) caller_instance
     \<and> list_ex (\<lambda>c. c = grant_any \<or> c = command) (grant_commands g)"

lemma grant_without_commands: "grant_commands g = [] \<Longrightarrow> \<not> grant_matches g ci p ti s c"
  by (simp add: grant_matches_def)

lemma grant_matches_exact:
  "grant_matches g ci p ti s c \<Longrightarrow> grant_plugin g = p \<and> grant_service g = s"
  by (simp add: grant_matches_def)

section \<open>SDK compatibility\<close>

text \<open>
  \<^verbatim>\<open>compatibility.rs\<close>.  The order of \<^verbatim>\<open>semver::Version\<close> is that crate's: the parameter
  \<open>lt\<close>.
\<close>

datatype compat_error =
    BelowMinimum version version version
  | AbiMismatch version version

definition compat_check ::
    "(version \<Rightarrow> version \<Rightarrow> bool) \<Rightarrow> version \<Rightarrow> version \<Rightarrow> version \<Rightarrow> compat_error + unit" where
  "compat_check lt plugin_sdk core_sdk min_supported =
     (if lt plugin_sdk min_supported then Err (BelowMinimum plugin_sdk core_sdk min_supported)
      else
        let abi_match =
              (if major core_sdk = 0
               then major plugin_sdk = 0 \<and> minor plugin_sdk = minor core_sdk
               else major plugin_sdk = major core_sdk)
        in if \<not> abi_match then Err (AbiMismatch plugin_sdk core_sdk) else Ok ())"

text \<open>The release part of the order, enough to run the check.\<close>

definition release_less :: "version \<Rightarrow> version \<Rightarrow> bool" where
  "release_less a b \<longleftrightarrow>
     major a < major b
     \<or> (major a = major b \<and> (minor a < minor b \<or> (minor a = minor b \<and> patch a < patch b)))"

lemma compat_check_Ok_iff:
  "compat_check lt p c m = Ok () \<longleftrightarrow>
     \<not> lt p m \<and> major p = major c \<and> (major c = 0 \<longrightarrow> minor p = minor c)"
  by (auto simp: compat_check_def Let_def)

end
