(* ===== verification/Validate.thy ===== *)
theory Validate
  imports Manifest
begin

text \<open>
  \<^verbatim>\<open>crates/oxidhome-manifest/src/validate.rs\<close>: the structural validation of a manifest.
  Every check appends to the error list it is handed, as the code pushes onto
  \<^verbatim>\<open>errors\<close>; \<open>validate\<close> runs them in the code's order.  The lemmas say that a check only
  appends, and when it appends nothing; the main theorem characterises the manifests that
  pass.
\<close>

section \<open>Error sinks\<close>

text \<open>
  The contract of every check: it appends a list that depends on its input alone.  A client
  that starts from the empty list then sees exactly the errors of the checks it runs.
\<close>

definition sink :: "('e list \<Rightarrow> 'e list) \<Rightarrow> bool" where
  "sink f \<longleftrightarrow> (\<forall>errs. f errs = errs @ f [])"

lemma sinkI: "(\<And>errs. f errs = errs @ f []) \<Longrightarrow> sink f"
  unfolding sink_def by (rule allI)

lemma sinkD: "sink f \<Longrightarrow> f errs = errs @ f []"
  unfolding sink_def by (rule spec)

lemma sink_Nil_iff: "sink f \<Longrightarrow> f errs = [] \<longleftrightarrow> errs = [] \<and> f [] = []"
  by (metis append_is_Nil_conv sinkD)

lemma sink_id: "sink (\<lambda>errs. errs)"
  and sink_push: "sink (\<lambda>errs. errs @ xs)"
  by (simp_all add: sink_def)

lemma sink_comp: "sink f \<Longrightarrow> sink g \<Longrightarrow> sink (\<lambda>errs. f (g errs))"
proof (rule sinkI)
  fix errs
  assume f: "sink f" and g: "sink g"
  have "f (g errs) = f (errs @ g [])" by (subst sinkD [OF g]) (rule refl)
  also have "\<dots> = errs @ g [] @ f []" by (subst sinkD [OF f]) simp
  also have "g [] @ f [] = f (g [])" by (rule sinkD [OF f, symmetric])
  finally show "f (g errs) = errs @ f (g [])" .
qed

lemma sink_if: "sink f \<Longrightarrow> sink g \<Longrightarrow> sink (\<lambda>errs. if b then f errs else g errs)"
  by (cases b) simp_all

lemma sink_option:
  "sink f \<Longrightarrow> (\<And>x. sink (g x)) \<Longrightarrow> sink (\<lambda>errs. case opt of None \<Rightarrow> f errs | Some x \<Rightarrow> g x errs)"
  by (cases opt) simp_all

lemmas sink_basic = sink_id sink_push sink_if sink_option

locale error_sink =
  fixes check :: "'a \<Rightarrow> 'e list \<Rightarrow> 'e list"
  assumes check_sink: "sink (check x)"
begin

lemma check_Nil_iff: "check x errs = [] \<longleftrightarrow> errs = [] \<and> check x [] = []"
  by (rule sink_Nil_iff [OF check_sink])

lemma check_mono: "set errs \<subseteq> set (check x errs)"
  by (subst sinkD [OF check_sink]) simp

lemma fold_sink: "sink (fold check xs)"
proof (induction xs)
  case Nil
  then show ?case by (simp add: sink_def)
next
  case (Cons x xs)
  have "sink (\<lambda>errs. fold check xs (check x errs))"
    by (rule sink_comp [OF Cons.IH check_sink])
  then show ?case by (simp add: comp_def)
qed

lemma fold_Nil_iff: "fold check xs errs = [] \<longleftrightarrow> errs = [] \<and> (\<forall>x \<in> set xs. check x [] = [])"
proof (induction xs arbitrary: errs)
  case (Cons x xs)
  then show ?case by (simp add: check_Nil_iff [of x errs])
qed simp

end

section \<open>Constants\<close>

definition supported_manifest_versions :: "nat list" where
  "supported_manifest_versions = [1]"

definition max_keywords :: nat where "max_keywords = 16"
definition max_keyword_len :: nat where "max_keyword_len = 50"
definition min_tick_interval_ms :: nat where "min_tick_interval_ms = 10"
definition max_consumes_services_grants :: nat where "max_consumes_services_grants = 128"
definition max_declares_devices :: nat where "max_declares_devices = 64"
definition max_commands_per_grant :: nat where "max_commands_per_grant = 64"
definition max_ui_widgets :: nat where "max_ui_widgets = 32"

definition ui_network_permissions :: "string list" where
  "ui_network_permissions = [''none'', ''self-only'', ''manifest-domains'']"

definition ui_storage_permissions :: "string list" where
  "ui_storage_permissions = [''none'', ''session-only'', ''persistent'']"

definition ui_scripts_permissions :: "string list" where
  "ui_scripts_permissions = [''none'', ''self-only'', ''inline'']"

definition known_device_capabilities :: "string list" where
  "known_device_capabilities =
     [''switch'', ''dimmer'', ''color-light'', ''sensor'', ''button'', ''video-stream'', ''audio-stream'']"

section \<open>Lexical checks\<close>

definition is_ascii_lowercase :: "char \<Rightarrow> bool" where
  "is_ascii_lowercase c \<longleftrightarrow> 97 \<le> (of_char c :: nat) \<and> (of_char c :: nat) \<le> 122"

definition is_ascii_digit :: "char \<Rightarrow> bool" where
  "is_ascii_digit c \<longleftrightarrow> 48 \<le> (of_char c :: nat) \<and> (of_char c :: nat) \<le> 57"

fun is_valid_label :: "string \<Rightarrow> bool" where
  "is_valid_label [] = False"
| "is_valid_label (c # cs) =
     (if \<not> is_ascii_lowercase c \<and> \<not> is_ascii_digit c then False
      else list_all (\<lambda>d. is_ascii_lowercase d \<or> is_ascii_digit d \<or> d = CHR ''-'') cs)"

definition is_reverse_dns :: "string \<Rightarrow> bool" where
  "is_reverse_dns s =
     (if CHR ''.'' \<notin> set s then False else list_all is_valid_label (split_char CHR ''.'' s))"

fun is_valid_keyword :: "string \<Rightarrow> bool" where
  "is_valid_keyword [] = False"
| "is_valid_keyword (c # cs) =
     (if \<not> is_ascii_lowercase c \<and> \<not> is_ascii_digit c then False
      else list_all (\<lambda>d. is_ascii_lowercase d \<or> is_ascii_digit d \<or> d = CHR ''-'') cs)"

definition keyword_problem :: "string \<Rightarrow> keyword_reason option" where
  "keyword_problem kw =
     (if kw = [] then Some KeywordEmpty
      else if \<not> is_valid_keyword kw then Some KeywordBadCharset
      else if length kw > max_keyword_len then Some (KeywordTooLong max_keyword_len)
      else None)"

definition is_known_device_capability :: "string \<Rightarrow> bool" where
  "is_known_device_capability s =
     (case Option.bind (strip_prefix ''extension('' s) (strip_suffix '')'') of
        Some payload \<Rightarrow> trim payload \<noteq> []
      | None \<Rightarrow> s \<in> set known_device_capabilities)"

text \<open>
  \<^verbatim>\<open>Path::components\<close> on Unix: a root component for a leading slash, repeated slashes
  collapse, and a \<open>.\<close> component survives only at the very start of a relative path.
\<close>

datatype component = CRootDir | CCurDir | CParentDir | CNormal string

definition name_component :: "string \<Rightarrow> component" where
  "name_component s = (if s = ''..'' then CParentDir else CNormal s)"

definition is_absolute :: "string \<Rightarrow> bool" where
  "is_absolute p = starts_with ''/'' p"

definition components :: "string \<Rightarrow> component list" where
  "components p =
     (let parts = split_char CHR ''/'' p;
          rest = map name_component (filter (\<lambda>s. s \<noteq> [] \<and> s \<noteq> ''.'') parts)
      in if is_absolute p then CRootDir # rest
         else if hd parts = ''.'' then CCurDir # rest else rest)"

fun first_bad_component :: "component list \<Rightarrow> wasm_path_problem option" where
  "first_bad_component [] = None"
| "first_bad_component (CNormal _ # cs) = first_bad_component cs"
| "first_bad_component (CRootDir # cs) = Some HasPrefix"
| "first_bad_component (CParentDir # cs) = Some ParentTraversal"
| "first_bad_component (CCurDir # cs) = Some CurrentDir"

definition wasm_path_problem :: "string \<Rightarrow> wasm_path_problem option" where
  "wasm_path_problem p =
     (if p = [] then Some PathEmpty
      else if is_absolute p then Some PathAbsolute
      else first_bad_component (components p))"

section \<open>Checks\<close>

fun check_grant_commands :: "nat \<Rightarrow> service_grant list \<Rightarrow> validation_error list \<Rightarrow> validation_error list" where
  "check_grant_commands index [] errs = errs"
| "check_grant_commands index (g # gs) errs =
     check_grant_commands (Suc index) gs
       (if length (grant_commands g) > max_commands_per_grant
        then errs @ [TooManyCommandsPerGrant index (length (grant_commands g)) max_commands_per_grant]
        else errs)"

definition check_capability_limits ::
    "capabilities_section \<Rightarrow> validation_error list \<Rightarrow> validation_error list" where
  "check_capability_limits caps errs =
     (let n = length (consumes_services caps);
          errs1 = (if n > max_consumes_services_grants
                   then errs @ [TooManyConsumesServicesGrants n max_consumes_services_grants] else errs)
      in check_grant_commands 0 (consumes_services caps) errs1)"

definition check_capability_limits_owned ::
    "capabilities_section \<Rightarrow> validation_error list + unit" where
  "check_capability_limits_owned caps =
     (let errs = check_capability_limits caps [] in if errs = [] then Ok () else Err errs)"

definition check_ui_permission ::
    "string \<Rightarrow> string option \<Rightarrow> string list \<Rightarrow> validation_error list \<Rightarrow> validation_error list" where
  "check_ui_permission fld val allowed errs =
     (case val of
        None \<Rightarrow> errs
      | Some v \<Rightarrow> if v \<notin> set allowed then errs @ [UnknownUiPermission fld v allowed] else errs)"

definition check_ui_path ::
    "string \<times> string option \<Rightarrow> validation_error list \<Rightarrow> validation_error list" where
  "check_ui_path fp errs =
     (case snd fp of
        None \<Rightarrow> errs
      | Some p \<Rightarrow>
          (case wasm_path_problem p of
             Some reason \<Rightarrow> errs @ [UiAssetPathEscapes (fst fp) p reason]
           | None \<Rightarrow> errs))"

text \<open>The widget loop: \<open>seen\<close> is the hash set of paths, which compare by component.\<close>

fun check_widgets ::
    "nat \<Rightarrow> component list set \<Rightarrow> string list \<Rightarrow> validation_error list \<Rightarrow> validation_error list" where
  "check_widgets index seen [] errs = errs"
| "check_widgets index seen (p # ps) errs =
     (let errs1 = (case wasm_path_problem p of
                     Some reason \<Rightarrow> errs @ [UiAssetPathEscapes ''widgets'' p reason]
                   | None \<Rightarrow> errs);
          errs2 = (if components p \<in> seen then errs1 @ [DuplicateUiWidget index p] else errs1)
      in check_widgets (Suc index) (insert (components p) seen) ps errs2)"

definition check_ui :: "ui_section \<Rightarrow> validation_error list \<Rightarrow> validation_error list" where
  "check_ui u errs =
     (let errs1 = fold check_ui_path
                    [(''config'', ui_config u), (''device-config'', ui_device_config u),
                     (''commands'', ui_commands u), (''config-schema'', ui_config_schema u),
                     (''commands-schema'', ui_commands_schema u)] errs;
          n = length (ui_widgets u);
          errs2 = (if n > max_ui_widgets then errs1 @ [TooManyUiWidgets n max_ui_widgets] else errs1);
          errs3 = check_widgets 0 {} (ui_widgets u) errs2;
          errs4 = check_ui_permission ''network'' (perm_network (ui_perms u)) ui_network_permissions errs3;
          errs5 = check_ui_permission ''storage'' (perm_storage (ui_perms u)) ui_storage_permissions errs4
      in check_ui_permission ''scripts'' (perm_scripts (ui_perms u)) ui_scripts_permissions errs5)"

fun check_keywords :: "nat \<Rightarrow> string list \<Rightarrow> validation_error list \<Rightarrow> validation_error list" where
  "check_keywords index [] errs = errs"
| "check_keywords index (kw # kws) errs =
     check_keywords (Suc index) kws
       (case keyword_problem kw of
          Some reason \<Rightarrow> errs @ [InvalidKeyword index kw reason]
        | None \<Rightarrow> errs)"

definition validate_keywords :: "string list \<Rightarrow> validation_error list \<Rightarrow> validation_error list" where
  "validate_keywords kws errs =
     check_keywords 0 kws
       (if length kws > max_keywords then errs @ [TooManyKeywords (length kws) max_keywords] else errs)"

text \<open>The part of \<^verbatim>\<open>validate_int_field\<close> after the range check.\<close>

definition int_default_errors ::
    "string \<Rightarrow> int option \<Rightarrow> int option \<Rightarrow> int option \<Rightarrow> validation_error list \<Rightarrow> validation_error list" where
  "int_default_errors path dflt mn mx errs =
     (case dflt of
        None \<Rightarrow> errs
      | Some d \<Rightarrow>
          let e1 = (case mn of
                      Some lo \<Rightarrow> if d < lo then errs @ [ConfigIntDefaultOutOfRange path d (Some lo) mx] else errs
                    | None \<Rightarrow> errs)
          in (case mx of
                Some hi \<Rightarrow> if d > hi then e1 @ [ConfigIntDefaultOutOfRange path d mn (Some hi)] else e1
              | None \<Rightarrow> e1))"

definition validate_int_field ::
    "string \<Rightarrow> int option \<Rightarrow> int option \<Rightarrow> int option \<Rightarrow> validation_error list \<Rightarrow> validation_error list" where
  "validate_int_field path dflt mn mx errs =
     (case (mn, mx) of
        (Some lo, Some hi) \<Rightarrow>
          if lo > hi then errs @ [ConfigIntRangeInvalid path lo hi]
          else int_default_errors path dflt mn mx errs
      | _ \<Rightarrow> int_default_errors path dflt mn mx errs)"

definition check_float_finite ::
    "string \<Rightarrow> f64 option \<Rightarrow> string \<Rightarrow> validation_error list \<Rightarrow> validation_error list" where
  "check_float_finite path v role errs =
     (case v of
        Some x \<Rightarrow> if \<not> is_finite x then errs @ [ConfigFloatNotFinite path role x] else errs
      | None \<Rightarrow> errs)"

text \<open>The part of \<^verbatim>\<open>validate_float_field\<close> after the range check.\<close>

definition float_default_errors ::
    "string \<Rightarrow> f64 option \<Rightarrow> f64 option \<Rightarrow> f64 option \<Rightarrow> validation_error list \<Rightarrow> validation_error list" where
  "float_default_errors path dflt mn mx errs =
     (case dflt of
        None \<Rightarrow> errs
      | Some d \<Rightarrow>
          if \<not> is_finite d then errs
          else
            let e1 = (case mn of
                        Some lo \<Rightarrow> if is_finite lo \<and> f64_less d lo
                                  then errs @ [ConfigFloatDefaultOutOfRange path d (Some lo) mx] else errs
                      | None \<Rightarrow> errs)
            in (case mx of
                  Some hi \<Rightarrow> if is_finite hi \<and> f64_less hi d
                            then e1 @ [ConfigFloatDefaultOutOfRange path d mn (Some hi)] else e1
                | None \<Rightarrow> e1))"

definition validate_float_field ::
    "string \<Rightarrow> f64 option \<Rightarrow> f64 option \<Rightarrow> f64 option \<Rightarrow> validation_error list \<Rightarrow> validation_error list" where
  "validate_float_field path dflt mn mx errs =
     (let e0 = check_float_finite path mx ''max''
                 (check_float_finite path mn ''min'' (check_float_finite path dflt ''default'' errs))
      in case (mn, mx) of
           (Some lo, Some hi) \<Rightarrow>
             if is_finite lo \<and> is_finite hi \<and> f64_less hi lo then e0 @ [ConfigFloatRangeInvalid path lo hi]
             else float_default_errors path dflt mn mx e0
         | _ \<Rightarrow> float_default_errors path dflt mn mx e0)"

definition validate_enum_field ::
    "string \<Rightarrow> string list \<Rightarrow> string option \<Rightarrow> validation_error list \<Rightarrow> validation_error list" where
  "validate_enum_field path vals dflt errs =
     (let e1 = (if vals = [] then errs @ [ConfigEnumEmpty path] else errs)
      in case dflt of
           Some d \<Rightarrow> if vals \<noteq> [] \<and> d \<notin> set vals
                    then e1 @ [ConfigEnumDefaultOutOfRange path d vals] else e1
         | None \<Rightarrow> e1)"

text \<open>\<^verbatim>\<open>validate_config_field\<close> and its loop over nested fields.\<close>

fun validate_config_field :: "string \<Rightarrow> config_field \<Rightarrow> validation_error list \<Rightarrow> validation_error list"
  and validate_nested_fields ::
    "string \<Rightarrow> (string \<times> config_field) list \<Rightarrow> validation_error list \<Rightarrow> validation_error list" where
  "validate_config_field path (CBool _) errs = errs"
| "validate_config_field path (CString _) errs = errs"
| "validate_config_field path (CInt d mn mx) errs = validate_int_field path d mn mx errs"
| "validate_config_field path (CFloat d mn mx) errs = validate_float_field path d mn mx errs"
| "validate_config_field path (CEnum vals d) errs = validate_enum_field path vals d errs"
| "validate_config_field path (CNested subs) errs = validate_nested_fields path subs errs"
| "validate_nested_fields path [] errs = errs"
| "validate_nested_fields path ((sub_name, sub_field) # fs) errs =
     (let e1 = (if CHR ''.'' \<in> set sub_name
                then errs @ [ConfigFieldNameContainsDot (''[config.'' @ path @ ''.fields]'') sub_name]
                else errs)
      in validate_nested_fields path fs
           (validate_config_field (path @ ''.'' @ sub_name) sub_field e1))"

definition validate_top_field ::
    "string \<times> config_field \<Rightarrow> validation_error list \<Rightarrow> validation_error list" where
  "validate_top_field nf errs =
     validate_config_field (fst nf) (snd nf)
       (if CHR ''.'' \<in> set (fst nf)
        then errs @ [ConfigFieldNameContainsDot ''[config]'' (fst nf)] else errs)"

definition check_device_capability :: "string \<Rightarrow> validation_error list \<Rightarrow> validation_error list" where
  "check_device_capability cap errs =
     (if \<not> is_known_device_capability cap then errs @ [UnknownDeclaredDeviceCapability cap] else errs)"

definition validate_errors :: "plugin_manifest \<Rightarrow> validation_error list" where
  "validate_errors m =
     (let e1 = (if manifest_version m \<notin> set supported_manifest_versions
                then [UnsupportedManifestVersion (manifest_version m) supported_manifest_versions] else []);
          pid = plugin_id (plugin m);
          e2 = (if \<not> is_reverse_dns pid then e1 @ [InvalidPluginId pid] else e1);
          w = wasm (runtime m);
          e3 = (case wasm_path_problem w of
                  Some reason \<Rightarrow> e2 @ [RuntimeWasmPathEscapes w reason] | None \<Rightarrow> e2);
          e4 = (case tick_interval_ms (runtime m) of
                  Some t \<Rightarrow> if t < min_tick_interval_ms
                           then e3 @ [RuntimeTickIntervalTooSmall t min_tick_interval_ms] else e3
                | None \<Rightarrow> e3);
          caps = capabilities m;
          n = length (declares_devices caps);
          e5 = (if n > max_declares_devices then e4 @ [TooManyDeclaresDevices n max_declares_devices] else e4);
          e6 = fold check_device_capability (declares_devices caps) e5;
          e7 = check_capability_limits caps e6;
          e8 = (case ui m of Some u \<Rightarrow> check_ui u e7 | None \<Rightarrow> e7);
          e9 = validate_keywords (plugin_keywords (plugin m)) e8
      in fold validate_top_field (config m) e9)"

definition validate :: "plugin_manifest \<Rightarrow> validation_error list + unit" where
  "validate m = (let errs = validate_errors m in if errs = [] then Ok () else Err errs)"

section \<open>The checks are error sinks\<close>

lemma grant_commands_sink: "sink (check_grant_commands i gs)"
proof (induction gs arbitrary: i)
  case (Cons g gs)
  show ?case
    by (simp only: check_grant_commands.simps)
      (rule sink_comp [OF Cons.IH], intro sink_basic)
qed (simp add: sink_def)

lemma check_keywords_sink: "sink (check_keywords i kws)"
proof (induction kws arbitrary: i)
  case (Cons kw kws)
  show ?case
    by (simp only: check_keywords.simps)
      (rule sink_comp [OF Cons.IH], intro sink_basic)
qed (simp add: sink_def)

lemma check_widgets_sink: "sink (check_widgets i seen ps)"
proof (induction ps arbitrary: i seen)
  case (Cons p ps)
  show ?case
    by (simp only: check_widgets.simps Let_def)
      (rule sink_comp [OF Cons.IH], intro sink_if sink_comp [OF sink_push] sink_basic)
qed (simp add: sink_def)

lemma int_default_sink: "sink (int_default_errors path d mn mx)"
  unfolding int_default_errors_def Let_def
  by (intro sink_option sink_if sink_comp [OF sink_push] sink_basic)

lemma int_field_sink: "sink (validate_int_field path d mn mx)"
  unfolding validate_int_field_def prod.case
  by (intro sink_basic int_default_sink)

lemma float_finite_sink: "sink (check_float_finite path v role)"
  unfolding check_float_finite_def by (intro sink_basic)

lemma float_default_sink: "sink (float_default_errors path d mn mx)"
  unfolding float_default_errors_def Let_def
  by (intro sink_option sink_if sink_comp [OF sink_push] sink_basic)

lemma float_field_sink: "sink (validate_float_field path d mn mx)"
  unfolding validate_float_field_def Let_def prod.case
  by (intro sink_option sink_if sink_comp [OF sink_push] sink_comp [OF float_default_sink]
      sink_comp [OF float_finite_sink] float_finite_sink)

lemma enum_field_sink: "sink (validate_enum_field path vals d)"
  unfolding validate_enum_field_def Let_def
  by (intro sink_option sink_if sink_comp [OF sink_push] sink_basic)

lemma config_field_sink:
  "sink (validate_config_field path f)" "sink (validate_nested_fields path fs)"
proof (induction f and fs arbitrary: path and path rule: config_field_rule)
  case (Cons n f fs)
  show ?case
    by (simp only: validate_nested_fields.simps Let_def)
      (intro sink_comp [OF Cons.IH(2)] sink_comp [OF Cons.IH(1)] sink_basic)
next
  case (Int d mn mx)
  show ?case by (simp only: validate_config_field.simps int_field_sink)
next
  case (Float d mn mx)
  show ?case by (simp only: validate_config_field.simps float_field_sink)
next
  case (Enum vals d)
  show ?case by (simp only: validate_config_field.simps enum_field_sink)
next
  case (Nested subs)
  then show ?case by (simp only: validate_config_field.simps)
qed (simp_all add: sink_def)

interpretation cap_sink: error_sink check_device_capability
  by unfold_locales (unfold check_device_capability_def, intro sink_basic)

interpretation ui_path_sink: error_sink check_ui_path
  by unfold_locales (unfold check_ui_path_def, intro sink_basic)

interpretation top_field_sink: error_sink validate_top_field
  by unfold_locales
    (unfold validate_top_field_def, intro sink_comp [OF config_field_sink(1)] sink_basic)

lemma ui_permission_sink: "sink (check_ui_permission fld val allowed)"
  unfolding check_ui_permission_def by (intro sink_basic)

interpretation caps_sink: error_sink check_capability_limits
  by unfold_locales
    (unfold check_capability_limits_def Let_def, intro sink_comp [OF grant_commands_sink] sink_basic)

interpretation keywords_sink: error_sink validate_keywords
  by unfold_locales
    (unfold validate_keywords_def, intro sink_comp [OF check_keywords_sink] sink_basic)

interpretation ui_sink: error_sink check_ui
  by unfold_locales
    (unfold check_ui_def Let_def,
      intro sink_comp [OF ui_permission_sink] sink_comp [OF check_widgets_sink]
        sink_if sink_comp [OF sink_push] ui_path_sink.fold_sink)

section \<open>When a check passes\<close>

text \<open>
  The declarative counterpart of each check: what the manifest author has to satisfy.
\<close>

definition label_ok :: "string \<Rightarrow> bool" where
  "label_ok l \<longleftrightarrow> l \<noteq> [] \<and> hd l \<noteq> CHR ''-''
     \<and> (\<forall>c \<in> set l. is_ascii_lowercase c \<or> is_ascii_digit c \<or> c = CHR ''-'')"

definition safe_path :: "string \<Rightarrow> bool" where
  "safe_path p \<longleftrightarrow>
     (\<exists>names. names \<noteq> [] \<and> components p = map CNormal names \<and> ''..'' \<notin> set names)"

definition in_bounds :: "('a \<Rightarrow> 'a \<Rightarrow> bool) \<Rightarrow> 'a option \<Rightarrow> 'a option \<Rightarrow> 'a \<Rightarrow> bool" where
  "in_bounds lt mn mx d \<longleftrightarrow>
     (\<forall>lo. mn = Some lo \<longrightarrow> \<not> lt d lo) \<and> (\<forall>hi. mx = Some hi \<longrightarrow> \<not> lt hi d)"

definition range_ok :: "('a \<Rightarrow> 'a \<Rightarrow> bool) \<Rightarrow> 'a option \<Rightarrow> 'a option \<Rightarrow> bool" where
  "range_ok lt mn mx \<longleftrightarrow> (\<forall>lo hi. mn = Some lo \<longrightarrow> mx = Some hi \<longrightarrow> \<not> lt hi lo)"

abbreviation opt_finite :: "f64 option \<Rightarrow> bool" where
  "opt_finite v \<equiv> (\<forall>x. v = Some x \<longrightarrow> is_finite x)"

fun schema_ok :: "config_field \<Rightarrow> bool" where
  "schema_ok (CBool _) = True"
| "schema_ok (CString _) = True"
| "schema_ok (CInt d mn mx) \<longleftrightarrow> range_ok (<) mn mx \<and> (\<forall>x. d = Some x \<longrightarrow> in_bounds (<) mn mx x)"
| "schema_ok (CFloat d mn mx) \<longleftrightarrow>
     opt_finite d \<and> opt_finite mn \<and> opt_finite mx
     \<and> range_ok f64_less mn mx \<and> (\<forall>x. d = Some x \<longrightarrow> in_bounds f64_less mn mx x)"
| "schema_ok (CEnum vals d) \<longleftrightarrow> vals \<noteq> [] \<and> (\<forall>x. d = Some x \<longrightarrow> x \<in> set vals)"
| "schema_ok (CNested subs) \<longleftrightarrow>
     list_all (\<lambda>nf. CHR ''.'' \<notin> set (fst nf) \<and> schema_ok (snd nf)) subs"

definition caps_ok :: "capabilities_section \<Rightarrow> bool" where
  "caps_ok caps \<longleftrightarrow> length (consumes_services caps) \<le> max_consumes_services_grants
     \<and> (\<forall>g \<in> set (consumes_services caps). length (grant_commands g) \<le> max_commands_per_grant)"

definition permission_ok :: "string option \<Rightarrow> string list \<Rightarrow> bool" where
  "permission_ok val allowed \<longleftrightarrow> (\<forall>v. val = Some v \<longrightarrow> v \<in> set allowed)"

definition ui_ok :: "ui_section \<Rightarrow> bool" where
  "ui_ok u \<longleftrightarrow>
     (\<forall>p. Some p \<in> {ui_config u, ui_device_config u, ui_commands u, ui_config_schema u, ui_commands_schema u}
            \<longrightarrow> safe_path p)
     \<and> length (ui_widgets u) \<le> max_ui_widgets
     \<and> (\<forall>p \<in> set (ui_widgets u). safe_path p)
     \<and> distinct (map components (ui_widgets u))
     \<and> permission_ok (perm_network (ui_perms u)) ui_network_permissions
     \<and> permission_ok (perm_storage (ui_perms u)) ui_storage_permissions
     \<and> permission_ok (perm_scripts (ui_perms u)) ui_scripts_permissions"

definition keywords_ok :: "string list \<Rightarrow> bool" where
  "keywords_ok kws \<longleftrightarrow> length kws \<le> max_keywords
     \<and> (\<forall>kw \<in> set kws. label_ok kw \<and> length kw \<le> max_keyword_len)"

definition reverse_dns_ok :: "string \<Rightarrow> bool" where
  "reverse_dns_ok s \<longleftrightarrow>
     (\<exists>l1 l2 ls. s = join_char CHR ''.'' (l1 # l2 # ls) \<and> (\<forall>l \<in> set (l1 # l2 # ls). label_ok l))"

definition manifest_ok :: "plugin_manifest \<Rightarrow> bool" where
  "manifest_ok m \<longleftrightarrow>
     manifest_version m = 1
     \<and> reverse_dns_ok (plugin_id (plugin m))
     \<and> safe_path (wasm (runtime m))
     \<and> (\<forall>t. tick_interval_ms (runtime m) = Some t \<longrightarrow> min_tick_interval_ms \<le> t)
     \<and> length (declares_devices (capabilities m)) \<le> max_declares_devices
     \<and> (\<forall>c \<in> set (declares_devices (capabilities m)). is_known_device_capability c)
     \<and> caps_ok (capabilities m)
     \<and> (\<forall>u. ui m = Some u \<longrightarrow> ui_ok u)
     \<and> keywords_ok (plugin_keywords (plugin m))
     \<and> (\<forall>(n, f) \<in> set (config m). CHR ''.'' \<notin> set n \<and> schema_ok f)"

text \<open>Labels and keywords.\<close>

lemma dash_not_alnum: "\<not> is_ascii_lowercase CHR ''-''" "\<not> is_ascii_digit CHR ''-''"
  by (simp_all add: is_ascii_lowercase_def is_ascii_digit_def)

lemma dot_not_label: "\<not> is_ascii_lowercase CHR ''.''" "\<not> is_ascii_digit CHR ''.''"
  by (simp_all add: is_ascii_lowercase_def is_ascii_digit_def)

lemma is_valid_label_iff: "is_valid_label l \<longleftrightarrow> label_ok l"
  using dash_not_alnum by (cases l) (auto simp: label_ok_def list_all_iff)

lemma is_valid_keyword_iff: "is_valid_keyword l \<longleftrightarrow> label_ok l"
  using dash_not_alnum by (cases l) (auto simp: label_ok_def list_all_iff)

lemma keyword_problem_None_iff:
  "keyword_problem kw = None \<longleftrightarrow> label_ok kw \<and> length kw \<le> max_keyword_len"
  by (auto simp: keyword_problem_def is_valid_keyword_iff label_ok_def)

lemma split_char_no_sep_iff: "d \<notin> set s \<Longrightarrow> split_char d s = [s]"
  by (induction s) auto

lemma split_char_append: "d \<notin> set a \<Longrightarrow> split_char d (a @ d # b) = a # split_char d b"
  by (induction a) auto

lemma split_join_char:
  "ls \<noteq> [] \<Longrightarrow> (\<forall>l \<in> set ls. d \<notin> set l) \<Longrightarrow> split_char d (join_char d ls) = ls"
  by (induction d ls rule: join_char.induct) (simp_all add: split_char_no_sep_iff split_char_append)

lemma label_ok_no_dot: "label_ok l \<Longrightarrow> CHR ''.'' \<notin> set l"
  using dot_not_label by (auto simp: label_ok_def)

lemma is_reverse_dns_iff: "is_reverse_dns s \<longleftrightarrow> reverse_dns_ok s"
proof
  assume r: "is_reverse_dns s"
  then have dot: "CHR ''.'' \<in> set s" and all: "\<forall>l \<in> set (split_char CHR ''.'' s). label_ok l"
    by (auto simp: is_reverse_dns_def list_all_iff is_valid_label_iff split: if_splits)
  have "length (split_char CHR ''.'' s) \<ge> 2"
    using dot by (induction s) (auto split: list.splits simp: Suc_le_eq)
  then obtain l1 l2 ls where "split_char CHR ''.'' s = l1 # l2 # ls"
    by (metis Suc_le_length_iff numeral_2_eq_2)
  with all join_split_char [of "CHR ''.''" s] show "reverse_dns_ok s"
    unfolding reverse_dns_ok_def by metis
next
  assume "reverse_dns_ok s"
  then obtain l1 l2 ls where s: "s = join_char CHR ''.'' (l1 # l2 # ls)"
    and ok: "\<forall>l \<in> set (l1 # l2 # ls). label_ok l"
    unfolding reverse_dns_ok_def by blast
  have "split_char CHR ''.'' s = l1 # l2 # ls"
    unfolding s by (rule split_join_char) (use ok label_ok_no_dot in auto)
  with ok s show "is_reverse_dns s"
    by (simp add: is_reverse_dns_def list_all_iff is_valid_label_iff)
qed

text \<open>Paths.\<close>

lemma first_bad_None_iff:
  "first_bad_component cs = None \<longleftrightarrow> (\<exists>names. cs = map CNormal names)"
proof (induction cs rule: first_bad_component.induct)
  case (2 s cs)
  then show ?case by (auto simp: Cons_eq_map_conv)
qed auto

lemma name_components_safe: "map name_component xs = map CNormal names \<Longrightarrow> ''..'' \<notin> set names"
  by (induction xs arbitrary: names) (auto simp: name_component_def Cons_eq_map_conv split: if_splits)

lemma wasm_path_problem_None_iff: "wasm_path_problem p = None \<longleftrightarrow> safe_path p"
proof -
  let ?parts = "split_char CHR ''/'' p"
  have abs: "safe_path p \<Longrightarrow> \<not> is_absolute p"
    by (auto simp: safe_path_def components_def)
  have empty: "\<not> safe_path []"
    by (simp add: safe_path_def components_def is_absolute_def starts_with_def)
  have "wasm_path_problem p = None \<longleftrightarrow> safe_path p" if ne: "p \<noteq> []" and rel: "\<not> is_absolute p"
  proof
    assume "wasm_path_problem p = None"
    then obtain names where names: "components p = map CNormal names"
      using ne rel by (auto simp: wasm_path_problem_def first_bad_None_iff)
    have comps: "components p = (if hd ?parts = ''.'' then [CCurDir] else [])
        @ map name_component (filter (\<lambda>s. s \<noteq> [] \<and> s \<noteq> ''.'') ?parts)"
      using rel by (simp add: components_def)
    with names have notdot: "hd ?parts \<noteq> ''.''" by (auto split: if_splits simp: Cons_eq_map_conv)
    have "''..'' \<notin> set names"
      using names comps notdot by (intro name_components_safe) simp
    moreover have "hd ?parts \<noteq> []"
      using ne rel by (cases p) (auto simp: is_absolute_def starts_with_def split: list.splits)
    then have "names \<noteq> []"
      using names comps notdot list.set_sel(1) [OF split_char_ne, of "CHR ''/''" p]
      by (fastforce simp: filter_empty_conv)
    ultimately show "safe_path p" using names by (auto simp: safe_path_def)
  next
    assume "safe_path p"
    then show "wasm_path_problem p = None"
      using ne rel by (auto simp: wasm_path_problem_def safe_path_def first_bad_None_iff)
  qed
  with abs empty show ?thesis
    by (cases "p = [] \<or> is_absolute p") (auto simp: wasm_path_problem_def)
qed

text \<open>Limits, permissions, widgets.\<close>

lemma check_grant_commands_Nil_iff:
  "check_grant_commands i gs errs = [] \<longleftrightarrow>
     errs = [] \<and> (\<forall>g \<in> set gs. length (grant_commands g) \<le> max_commands_per_grant)"
  by (induction gs arbitrary: i errs) auto

lemma check_capability_limits_Nil_iff: "check_capability_limits caps [] = [] \<longleftrightarrow> caps_ok caps"
  by (auto simp: check_capability_limits_def check_grant_commands_Nil_iff caps_ok_def Let_def)

lemma check_ui_permission_Nil_iff:
  "check_ui_permission fld val allowed errs = [] \<longleftrightarrow> errs = [] \<and> permission_ok val allowed"
  by (auto simp: check_ui_permission_def permission_ok_def split: option.split)

lemma check_ui_path_Nil_iff:
  "check_ui_path fp errs = [] \<longleftrightarrow> errs = [] \<and> (\<forall>p. snd fp = Some p \<longrightarrow> safe_path p)"
  by (auto simp: check_ui_path_def wasm_path_problem_None_iff [symmetric] split: option.split)

lemma check_widgets_Nil_iff:
  "check_widgets i seen ps errs = [] \<longleftrightarrow>
     errs = [] \<and> (\<forall>p \<in> set ps. safe_path p) \<and> distinct (map components ps)
     \<and> components ` set ps \<inter> seen = {}"
proof (induction ps arbitrary: i seen errs)
  case (Cons p ps)
  then show ?case
    by (auto simp: Let_def wasm_path_problem_None_iff [symmetric] split: option.split)
qed simp

lemma check_ui_Nil_iff: "check_ui u [] = [] \<longleftrightarrow> ui_ok u"
  by (auto simp: check_ui_def Let_def check_ui_permission_Nil_iff check_widgets_Nil_iff
      check_ui_path_Nil_iff ui_ok_def)

lemma check_keywords_Nil_iff:
  "check_keywords i kws errs = [] \<longleftrightarrow>
     errs = [] \<and> (\<forall>kw \<in> set kws. label_ok kw \<and> length kw \<le> max_keyword_len)"
proof (induction kws arbitrary: i errs)
  case (Cons kw kws)
  then show ?case
    by (auto simp: keyword_problem_None_iff [symmetric] split: option.split)
qed simp

lemma validate_keywords_Nil_iff: "validate_keywords kws [] = [] \<longleftrightarrow> keywords_ok kws"
  by (auto simp: validate_keywords_def check_keywords_Nil_iff keywords_ok_def)

text \<open>Config fields.\<close>

lemma int_field_Nil_iff:
  "validate_int_field path d mn mx [] = [] \<longleftrightarrow> schema_ok (CInt d mn mx)"
  by (auto simp: validate_int_field_def int_default_errors_def Let_def range_ok_def in_bounds_def
      split: option.split)

lemma float_field_Nil_iff:
  "validate_float_field path d mn mx [] = [] \<longleftrightarrow> schema_ok (CFloat d mn mx)"
  by (auto simp: validate_float_field_def float_default_errors_def check_float_finite_def
      Let_def range_ok_def in_bounds_def split: option.split)

lemma config_field_Nil_iff:
  "validate_config_field path f [] = [] \<longleftrightarrow> schema_ok f"
  "validate_nested_fields path fs [] = [] \<longleftrightarrow>
     list_all (\<lambda>nf. CHR ''.'' \<notin> set (fst nf) \<and> schema_ok (snd nf)) fs"
proof (induction f and fs arbitrary: path and path rule: config_field_rule)
  case (Enum vals d)
  show ?case by (auto simp: validate_enum_field_def Let_def split: option.split)
next
  case (Cons n f fs)
  show ?case
    by (simp add: Let_def Cons.IH sink_Nil_iff [OF config_field_sink(1), of _ _ "_ # _"]
        sink_Nil_iff [OF config_field_sink(2), of _ _ "validate_config_field _ _ _"])
next
  case (Int d mn mx)
  show ?case by (simp only: validate_config_field.simps int_field_Nil_iff)
next
  case (Float d mn mx)
  show ?case by (simp only: validate_config_field.simps float_field_Nil_iff)
qed simp_all

lemma validate_top_field_Nil_iff:
  "validate_top_field nf [] = [] \<longleftrightarrow> CHR ''.'' \<notin> set (fst nf) \<and> schema_ok (snd nf)"
  unfolding validate_top_field_def
  by (subst sink_Nil_iff [OF config_field_sink(1)]) (simp add: config_field_Nil_iff)

lemma validate_errors_Nil_iff: "validate_errors m = [] \<longleftrightarrow> manifest_ok m"
  unfolding validate_errors_def Let_def manifest_ok_def
  by (subst top_field_sink.fold_Nil_iff, subst keywords_sink.check_Nil_iff)
    (auto simp: ui_sink.check_Nil_iff [of _ "check_capability_limits _ _"]
      caps_sink.check_Nil_iff [of _ "fold _ _ _"]
      cap_sink.fold_Nil_iff validate_top_field_Nil_iff validate_keywords_Nil_iff
      check_ui_Nil_iff check_capability_limits_Nil_iff check_device_capability_def
      is_reverse_dns_iff wasm_path_problem_None_iff [symmetric] supported_manifest_versions_def
      split: option.split)

section \<open>Containment of the paths a manifest names\<close>

text \<open>
  \<^verbatim>\<open>Path::join\<close> on Unix, and the lexical resolution of a component list to the names
  below the root, innermost name first.
\<close>

definition path_join :: "string \<Rightarrow> string \<Rightarrow> string" where
  "path_join dir p =
     (if is_absolute p then p
      else if dir = [] \<or> last dir = CHR ''/'' then dir @ p
      else dir @ CHR ''/'' # p)"

fun resolve :: "string list \<Rightarrow> component list \<Rightarrow> string list" where
  "resolve st [] = st"
| "resolve st (CNormal n # cs) = resolve (n # st) cs"
| "resolve st (CCurDir # cs) = resolve st cs"
| "resolve st (CParentDir # cs) = resolve (tl st) cs"
| "resolve st (CRootDir # cs) = resolve [] cs"

lemma resolve_append: "resolve st (cs @ ds) = resolve (resolve st cs) ds"
  by (induction st cs rule: resolve.induct) simp_all

lemma resolve_normal: "resolve st (map CNormal names) = rev names @ st"
  by (induction names arbitrary: st) simp_all

lemma split_char_append_gen: "split_char d (a @ d # b) = split_char d a @ split_char d b"
  by (induction a) (auto split: list.splits)

lemma components_join:
  assumes rel: "\<not> is_absolute p" and hd: "hd (split_char CHR ''/'' p) \<noteq> ''.''"
  shows "components (path_join dir p) = components dir @ components p"
proof (cases "dir = []")
  case True
  with rel show ?thesis by (simp add: path_join_def components_def is_absolute_def starts_with_def)
next
  case False
  let ?f = "\<lambda>parts. map name_component (filter (\<lambda>s. s \<noteq> [] \<and> s \<noteq> ''.'') parts)"
  have abs: "is_absolute (dir @ x) \<longleftrightarrow> is_absolute dir" for x
    using False by (cases dir) (auto simp: is_absolute_def starts_with_def)
  obtain a where a: "path_join dir p = a @ CHR ''/'' # p"
    and fa: "?f (split_char CHR ''/'' a) = ?f (split_char CHR ''/'' dir)"
    and ha: "hd (split_char CHR ''/'' a) = hd (split_char CHR ''/'' dir)"
  proof (cases "last dir = CHR ''/''")
    case True
    then have dir: "dir = butlast dir @ CHR ''/'' # []" using False by (metis append_butlast_last_id)
    show ?thesis
    proof (rule that [of "butlast dir"])
      show "path_join dir p = butlast dir @ CHR ''/'' # p"
        using rel True dir by (simp add: path_join_def)
      show "?f (split_char CHR ''/'' (butlast dir)) = ?f (split_char CHR ''/'' dir)"
        by (subst (2) dir) (simp only: split_char_append_gen, simp)
      show "hd (split_char CHR ''/'' (butlast dir)) = hd (split_char CHR ''/'' dir)"
        by (subst (2) dir) (simp only: split_char_append_gen, simp)
    qed
  next
    case nolast: False
    show ?thesis by (rule that [of dir]) (use rel False nolast in \<open>simp_all add: path_join_def\<close>)
  qed
  have "is_absolute (path_join dir p) \<longleftrightarrow> is_absolute dir"
    using rel abs by (auto simp: path_join_def)
  then show ?thesis
    using rel hd by (simp add: components_def Let_def a split_char_append_gen fa ha)
qed

lemma safe_path_join:
  assumes "safe_path p"
  shows "\<exists>names. names \<noteq> [] \<and> components (path_join dir p) = components dir @ map CNormal names"
proof -
  from assms obtain names where n: "names \<noteq> []" "components p = map CNormal names"
    by (auto simp: safe_path_def)
  then have rel: "\<not> is_absolute p" "hd (split_char CHR ''/'' p) \<noteq> ''.''"
    by (auto simp: components_def Let_def Cons_eq_map_conv split: if_splits)
  from n components_join [OF rel, of dir] show ?thesis by auto
qed

section \<open>Properties\<close>

text \<open>
  Claim C29: validation accepts exactly the manifests that satisfy the declarative rules, and
  otherwise reports at least one error.
\<close>

theorem validate_iff:
  "(validate m = Ok () \<longleftrightarrow> manifest_ok m)
   \<and> (\<not> manifest_ok m \<longleftrightarrow> (\<exists>e es. validate m = Err (e # es)))"
  by (auto simp: validate_def Let_def validate_errors_Nil_iff [symmetric] neq_Nil_conv)

text \<open>
  Claim C30: the module path of a validated manifest, joined to any plugin directory, resolves to
  a place strictly below that directory.
\<close>

theorem validated_wasm_contained:
  assumes "validate m = Ok ()"
  shows "\<exists>names. names \<noteq> [] \<and>
    resolve [] (components (path_join dir (wasm (runtime m)))) = rev names @ resolve [] (components dir)"
proof -
  have "safe_path (wasm (runtime m))"
    using assms by (simp add: validate_def Let_def validate_errors_Nil_iff manifest_ok_def split: if_splits)
  from safe_path_join [OF this, of dir] show ?thesis
    by (auto simp: resolve_append resolve_normal)
qed

definition sample_manifest :: plugin_manifest where
  "sample_manifest =
     \<lparr>manifest_version = 1,
      plugin = \<lparr>plugin_id = ''example.switch'', plugin_name = ''Switch'',
                plugin_version = \<lparr>major = 0, minor = 1, patch = 0, prerelease = []\<rparr>,
                authors = [], description = None, source = None, license = None,
                plugin_keywords = [''demo''], plugin_world = Plugin,
                sdk_version = \<lparr>major = 0, minor = 1, patch = 0, prerelease = []\<rparr>\<rparr>,
      runtime = \<lparr>wasm = ''bin/p.wasm'', singleton = False, tick_interval_ms = Some 1000, restart = OnTrap\<rparr>,
      capabilities = \<lparr>network = [], storage_quota_kb = 64, blob_quota_mb = 1, declares_devices = [''switch''],
                      declares_services = [], consumes_services = [], subscribes_events = True\<rparr>,
      config = [(''limit'', CInt (Some 5) (Some 0) (Some 10)),
                (''net'', CNested [(''host'', CString (Some ''hub'')), (''mode'', CEnum [''a'', ''b''] (Some ''a''))])],
      ui = None\<rparr>"

lemma sample_manifest_ok: "validate sample_manifest = Ok ()"
  by code_simp

theorem validated_wasm_contained_witness:
  "validate sample_manifest = Ok () \<and>
   (\<exists>names. names \<noteq> [] \<and>
     resolve [] (components (path_join ''/srv/p'' (wasm (runtime sample_manifest))))
       = rev names @ resolve [] (components ''/srv/p''))"
  using validated_wasm_contained [OF sample_manifest_ok, of "''/srv/p''"] sample_manifest_ok by blast

text \<open>
  A current-directory component is reported exactly when it is the first component of a
  relative path; one further inside is normalised away by \<^verbatim>\<open>Path::components\<close> and accepted.
\<close>

theorem current_dir_reported_iff:
  "(wasm_path_problem p = Some CurrentDir \<longleftrightarrow>
      \<not> is_absolute p \<and> hd (split_char CHR ''/'' p) = ''.'')
   \<and> wasm_path_problem ''bin/./p.wasm'' = None"
proof
  have "wasm_path_problem p = Some CurrentDir \<longleftrightarrow> \<not> is_absolute p \<and> hd (split_char CHR ''/'' p) = ''.''"
  proof (cases "p = [] \<or> is_absolute p")
    case True
    then show ?thesis by (auto simp: wasm_path_problem_def)
  next
    case False
    have no: "first_bad_component (map name_component xs) \<noteq> Some CurrentDir" for xs
      by (induction xs) (auto simp: name_component_def)
    with False show ?thesis
      by (auto simp: wasm_path_problem_def components_def Let_def)
  qed
  then show "wasm_path_problem p = Some CurrentDir \<longleftrightarrow>
      \<not> is_absolute p \<and> hd (split_char CHR ''/'' p) = ''.''" .
  show "wasm_path_problem ''bin/./p.wasm'' = None" by code_simp
qed

end
