(* ===== verification/Config_Merge.thy ===== *)
theory Config_Merge
  imports Validate
begin

text \<open>
  \<^verbatim>\<open>crates/oxidhome-manifest/src/config.rs\<close>: reading one config field of a manifest from its
  deserialised keys, and \<open>merge\<close>, which folds a user's override table into the schema's
  defaults.  Every resolver returns the value it found, if any, together with the extended
  error list.
\<close>

section \<open>Reading a config field\<close>

record field_helper =
  kind :: string
  h_default :: "toml option"
  h_min :: "toml option"
  h_max :: "toml option"
  h_values :: "string list option"
  h_fields :: "(string, config_field) btree option"

datatype field_error =
    NotValidForType string string  \<comment> \<open>the declared type, the offending key\<close>
  | WrongValueType string string string  \<comment> \<open>the declared type, the key, the type found\<close>
  | MissingKey string string
  | UnknownFieldType string

definition key_present :: "field_helper \<Rightarrow> string \<Rightarrow> bool" where
  "key_present h key =
     (if key = ''default'' then h_default h \<noteq> None
      else if key = ''min'' then h_min h \<noteq> None
      else if key = ''max'' then h_max h \<noteq> None
      else if key = ''values'' then h_values h \<noteq> None
      else if key = ''fields'' then h_fields h \<noteq> None
      else False)"

fun ensure_unset :: "field_helper \<Rightarrow> string list \<Rightarrow> string \<Rightarrow> field_error + unit" where
  "ensure_unset h [] knd = Ok ()"
| "ensure_unset h (key # keys) knd =
     (if key_present h key then Err (NotValidForType knd key) else ensure_unset h keys knd)"

fun take_int :: "toml option \<Rightarrow> string \<Rightarrow> field_error + int option" where
  "take_int None key = Ok None"
| "take_int (Some (TInteger n)) key = Ok (Some n)"
| "take_int (Some other) key = Err (WrongValueType ''int'' key (type_name other))"

fun take_float :: "toml option \<Rightarrow> string \<Rightarrow> field_error + f64 option" where
  "take_float None key = Ok None"
| "take_float (Some (TFloat n)) key = Ok (Some n)"
| "take_float (Some (TInteger n)) key = Ok (Some (int_to_f64 n))"
| "take_float (Some other) key = Err (WrongValueType ''float'' key (type_name other))"

fun take_bool :: "toml option \<Rightarrow> string \<Rightarrow> field_error + bool option" where
  "take_bool None key = Ok None"
| "take_bool (Some (TBoolean b)) key = Ok (Some b)"
| "take_bool (Some other) key = Err (WrongValueType ''bool'' key (type_name other))"

fun take_string :: "string \<Rightarrow> toml option \<Rightarrow> string \<Rightarrow> field_error + string option" where
  "take_string knd None key = Ok None"
| "take_string knd (Some (TString s)) key = Ok (Some s)"
| "take_string knd (Some other) key = Err (WrongValueType knd key (type_name other))"

definition deserialize_field :: "field_helper \<Rightarrow> field_error + config_field" where
  "deserialize_field h =
     (if kind h = ''bool'' then
        bind_result (ensure_unset h [''values'', ''fields'', ''min'', ''max''] ''bool'') (\<lambda>_.
        bind_result (take_bool (h_default h) ''default'') (\<lambda>d. Ok (CBool d)))
      else if kind h = ''int'' then
        bind_result (ensure_unset h [''values'', ''fields''] ''int'') (\<lambda>_.
        bind_result (take_int (h_default h) ''default'') (\<lambda>d.
        bind_result (take_int (h_min h) ''min'') (\<lambda>mn.
        bind_result (take_int (h_max h) ''max'') (\<lambda>mx. Ok (CInt d mn mx)))))
      else if kind h = ''float'' then
        bind_result (ensure_unset h [''values'', ''fields''] ''float'') (\<lambda>_.
        bind_result (take_float (h_default h) ''default'') (\<lambda>d.
        bind_result (take_float (h_min h) ''min'') (\<lambda>mn.
        bind_result (take_float (h_max h) ''max'') (\<lambda>mx. Ok (CFloat d mn mx)))))
      else if kind h = ''string'' then
        bind_result (ensure_unset h [''values'', ''fields'', ''min'', ''max''] ''string'') (\<lambda>_.
        bind_result (take_string ''string'' (h_default h) ''default'') (\<lambda>d. Ok (CString d)))
      else if kind h = ''enum'' then
        bind_result (ensure_unset h [''fields'', ''min'', ''max''] ''enum'') (\<lambda>_.
        (case h_values h of
           None \<Rightarrow> Err (MissingKey ''enum'' ''values'')
         | Some vals \<Rightarrow>
             bind_result (take_string ''enum'' (h_default h) ''default'') (\<lambda>d. Ok (CEnum vals d))))
      else if kind h = ''nested'' then
        bind_result (ensure_unset h [''default'', ''values'', ''min'', ''max''] ''nested'') (\<lambda>_.
        (case h_fields h of
           None \<Rightarrow> Err (MissingKey ''nested'' ''fields'')
         | Some subs \<Rightarrow> Ok (CNested subs)))
      else Err (UnknownFieldType (kind h)))"

section \<open>Resolvers\<close>

type_synonym errors = "validation_error list"

definition resolve_bool ::
    "string \<Rightarrow> bool option \<Rightarrow> toml option \<Rightarrow> errors \<Rightarrow> config_value option \<times> errors" where
  "resolve_bool path dflt ov errs =
     (case ov of
        Some v \<Rightarrow>
          (case v of TBoolean b \<Rightarrow> (Some (VBool b), errs)
           | _ \<Rightarrow> (None, errs @ [ConfigTypeMismatch path ''bool'' (type_name v)]))
      | None \<Rightarrow>
          (case dflt of Some d \<Rightarrow> (Some (VBool d), errs)
           | None \<Rightarrow> (None, errs @ [ConfigRequired path])))"

definition int_out_of_range ::
    "string \<Rightarrow> int \<Rightarrow> int option \<Rightarrow> int option \<Rightarrow> value_source \<Rightarrow> validation_error" where
  "int_out_of_range path val mn mx src =
     (case src of
        FromDefault \<Rightarrow> ConfigIntDefaultOutOfRange path val mn mx
      | FromOverride \<Rightarrow>
          let upper = (case mx of Some hi \<Rightarrow> AtMost (IntText hi) | None \<Rightarrow> Unspecified);
              bound = (case mn of
                         Some lo \<Rightarrow> if val < lo then AtLeast (IntText lo) else upper
                       | None \<Rightarrow> upper)
          in ConfigOutOfRange path bound (IntText val))"

definition check_range ::
    "string \<Rightarrow> int \<Rightarrow> int option \<Rightarrow> int option \<Rightarrow> value_source \<Rightarrow> errors \<Rightarrow> errors" where
  "check_range path val mn mx src errs =
     (let bounds =
            (\<lambda>errs.
               let e1 = (case mn of
                           Some lo \<Rightarrow> if val < lo then errs @ [int_out_of_range path val (Some lo) mx src] else errs
                         | None \<Rightarrow> errs)
               in (case mx of
                     Some hi \<Rightarrow> if val > hi then e1 @ [int_out_of_range path val mn (Some hi) src] else e1
                   | None \<Rightarrow> e1))
      in case (mn, mx) of
           (Some lo, Some hi) \<Rightarrow> if lo > hi then errs @ [ConfigIntRangeInvalid path lo hi] else bounds errs
         | _ \<Rightarrow> bounds errs)"

definition resolve_int ::
    "string \<Rightarrow> int option \<Rightarrow> int option \<Rightarrow> int option \<Rightarrow> toml option \<Rightarrow> errors
      \<Rightarrow> config_value option \<times> errors" where
  "resolve_int path dflt mn mx ov errs =
     (case ov of
        Some v \<Rightarrow>
          (case v of
             TInteger n \<Rightarrow> (Some (VInt n), check_range path n mn mx FromOverride errs)
           | _ \<Rightarrow> (None, errs @ [ConfigTypeMismatch path ''int'' (type_name v)]))
      | None \<Rightarrow>
          (case dflt of
             None \<Rightarrow> (None, errs @ [ConfigRequired path])
           | Some d \<Rightarrow> (Some (VInt d), check_range path d mn mx FromDefault errs)))"

definition float_out_of_range ::
    "string \<Rightarrow> f64 \<Rightarrow> f64 option \<Rightarrow> f64 option \<Rightarrow> value_source \<Rightarrow> validation_error" where
  "float_out_of_range path val mn mx src =
     (case src of
        FromDefault \<Rightarrow> ConfigFloatDefaultOutOfRange path val mn mx
      | FromOverride \<Rightarrow>
          let upper = (case mx of Some hi \<Rightarrow> AtMost (FloatText hi) | None \<Rightarrow> Unspecified);
              bound = (case mn of
                         Some lo \<Rightarrow> if f64_less val lo then AtLeast (FloatText lo) else upper
                       | None \<Rightarrow> upper)
          in ConfigOutOfRange path bound (FloatText val))"

definition check_range_f ::
    "string \<Rightarrow> f64 \<Rightarrow> f64 option \<Rightarrow> f64 option \<Rightarrow> value_source \<Rightarrow> errors \<Rightarrow> errors" where
  "check_range_f path val mn mx src errs =
     (let bad = (\<lambda>b. case b of Some x \<Rightarrow> \<not> is_finite x | None \<Rightarrow> False);
          e1 = (if bad mn then errs @ [ConfigFloatNotFinite path ''min'' (the mn)] else errs);
          e2 = (if bad mx then e1 @ [ConfigFloatNotFinite path ''max'' (the mx)] else e1);
          bounds =
            (\<lambda>errs.
               let b1 = (case mn of
                           Some lo \<Rightarrow> if f64_less val lo
                                     then errs @ [float_out_of_range path val (Some lo) mx src] else errs
                         | None \<Rightarrow> errs)
               in (case mx of
                     Some hi \<Rightarrow> if f64_less hi val
                               then b1 @ [float_out_of_range path val mn (Some hi) src] else b1
                   | None \<Rightarrow> b1))
      in if bad mn \<or> bad mx then e2
         else case (mn, mx) of
                (Some lo, Some hi) \<Rightarrow>
                  if f64_less hi lo then e2 @ [ConfigFloatRangeInvalid path lo hi] else bounds e2
              | _ \<Rightarrow> bounds e2)"

definition finish_float ::
    "string \<Rightarrow> f64 \<Rightarrow> f64 option \<Rightarrow> f64 option \<Rightarrow> value_source \<Rightarrow> errors \<Rightarrow> config_value option \<times> errors" where
  "finish_float path val mn mx src errs =
     (if \<not> is_finite val
      then (None, errs @ [ConfigFloatNotFinite path
                            (case src of FromDefault \<Rightarrow> ''default'' | FromOverride \<Rightarrow> ''override'') val])
      else (Some (VFloat val), check_range_f path val mn mx src errs))"

definition resolve_float ::
    "string \<Rightarrow> f64 option \<Rightarrow> f64 option \<Rightarrow> f64 option \<Rightarrow> toml option \<Rightarrow> errors
      \<Rightarrow> config_value option \<times> errors" where
  "resolve_float path dflt mn mx ov errs =
     (case ov of
        Some v \<Rightarrow>
          (case v of
             TFloat n \<Rightarrow> finish_float path n mn mx FromOverride errs
           | TInteger n \<Rightarrow> finish_float path (int_to_f64 n) mn mx FromOverride errs
           | _ \<Rightarrow> (None, errs @ [ConfigTypeMismatch path ''float'' (type_name v)]))
      | None \<Rightarrow>
          (case dflt of
             None \<Rightarrow> (None, errs @ [ConfigRequired path])
           | Some d \<Rightarrow> finish_float path d mn mx FromDefault errs))"

definition resolve_string ::
    "string \<Rightarrow> string option \<Rightarrow> toml option \<Rightarrow> errors \<Rightarrow> config_value option \<times> errors" where
  "resolve_string path dflt ov errs =
     (case ov of
        Some v \<Rightarrow>
          (case v of TString s \<Rightarrow> (Some (VString s), errs)
           | _ \<Rightarrow> (None, errs @ [ConfigTypeMismatch path ''string'' (type_name v)]))
      | None \<Rightarrow>
          (case dflt of Some d \<Rightarrow> (Some (VString d), errs)
           | None \<Rightarrow> (None, errs @ [ConfigRequired path])))"

definition finish_enum ::
    "string \<Rightarrow> string list \<Rightarrow> string \<Rightarrow> value_source \<Rightarrow> errors \<Rightarrow> config_value option \<times> errors" where
  "finish_enum path vals val src errs =
     (if val \<notin> set vals
      then (None, errs @ [case src of
                            FromDefault \<Rightarrow> ConfigEnumDefaultOutOfRange path val vals
                          | FromOverride \<Rightarrow> ConfigEnumOutOfRange path val vals])
      else (Some (VString val), errs))"

definition resolve_enum ::
    "string \<Rightarrow> string list \<Rightarrow> string option \<Rightarrow> toml option \<Rightarrow> errors \<Rightarrow> config_value option \<times> errors" where
  "resolve_enum path vals dflt ov errs =
     (if vals = [] then (None, errs @ [ConfigEnumEmpty path])
      else case ov of
             Some v \<Rightarrow>
               (case v of
                  TString s \<Rightarrow> finish_enum path vals s FromOverride errs
                | _ \<Rightarrow> (None, errs @ [ConfigTypeMismatch path ''string'' (type_name v)]))
           | None \<Rightarrow>
               (case dflt of
                  None \<Rightarrow> (None, errs @ [ConfigRequired path])
                | Some d \<Rightarrow> finish_enum path vals d FromDefault errs))"

text \<open>The loop that rejects override keys the schema does not declare.\<close>

fun unknown_keys :: "(string \<Rightarrow> string) \<Rightarrow> string list \<Rightarrow> string list \<Rightarrow> errors \<Rightarrow> errors" where
  "unknown_keys mk declared [] errs = errs"
| "unknown_keys mk declared (k # ks) errs =
     unknown_keys mk declared ks
       (if k \<notin> set declared then errs @ [UnknownConfigKey (mk k)] else errs)"

text \<open>
  \<^verbatim>\<open>resolve_field\<close>, \<^verbatim>\<open>resolve_nested\<close> and their loop over the declared fields in key order;
  \<open>mk\<close> makes the dotted path of a field from its name.
\<close>

fun resolve_field :: "string \<Rightarrow> config_field \<Rightarrow> toml option \<Rightarrow> errors \<Rightarrow> config_value option \<times> errors"
  and resolve_fields ::
    "(string \<Rightarrow> string) \<Rightarrow> (string \<times> config_field) list \<Rightarrow> (string \<times> toml) list \<Rightarrow> errors
      \<Rightarrow> (string, config_value) btree \<Rightarrow> (string, config_value) btree \<times> errors" where
  "resolve_field path (CBool d) ov errs = resolve_bool path d ov errs"
| "resolve_field path (CInt d mn mx) ov errs = resolve_int path d mn mx ov errs"
| "resolve_field path (CFloat d mn mx) ov errs = resolve_float path d mn mx ov errs"
| "resolve_field path (CString d) ov errs = resolve_string path d ov errs"
| "resolve_field path (CEnum vals d) ov errs = resolve_enum path vals d ov errs"
| "resolve_field path (CNested subs) ov errs =
     (let nested = (\<lambda>sub_table.
            let mk = (\<lambda>n. path @ ''.'' @ n);
                (out, e) = resolve_fields mk subs sub_table
                             (unknown_keys mk (map fst subs) (map fst sub_table) errs) []
            in (Some (VNested out), e))
      in case ov of
           None \<Rightarrow> nested []
         | Some v \<Rightarrow>
             (case v of TTable t \<Rightarrow> nested t
              | _ \<Rightarrow> (None, errs @ [ConfigTypeMismatch path ''table'' (type_name v)])))"
| "resolve_fields mk [] tbl errs out = (out, errs)"
| "resolve_fields mk ((n, f) # fs) tbl errs out =
     (case resolve_field (mk n) f (map_of tbl n) errs of
        (Some v, e) \<Rightarrow> resolve_fields mk fs tbl e (bt_insert n v out)
      | (None, e) \<Rightarrow> resolve_fields mk fs tbl e out)"

definition merge :: "plugin_manifest \<Rightarrow> toml \<Rightarrow> errors + (string, config_value) btree" where
  "merge m overrides =
     (case overrides of
        TTable t \<Rightarrow>
          (let e1 = unknown_keys id (map fst (config m)) (map fst t) [];
               (out, errs) = resolve_fields id (config m) t e1 []
           in if errs = [] then Ok out else Err errs)
      | _ \<Rightarrow> Err [ConfigOverrideShape ''<root>''])"

section \<open>The declarative meaning of a merge\<close>

text \<open>
  \<open>accepts f ov\<close>: the field \<open>f\<close> has a value under the override \<open>ov\<close>, and the value is legal;
  \<open>result\<close> is that value.
\<close>

definition int_legal :: "int option \<Rightarrow> int option \<Rightarrow> int \<Rightarrow> bool" where
  "int_legal mn mx x \<longleftrightarrow> range_ok (<) mn mx \<and> in_bounds (<) mn mx x"

definition float_legal :: "f64 option \<Rightarrow> f64 option \<Rightarrow> f64 \<Rightarrow> bool" where
  "float_legal mn mx x \<longleftrightarrow>
     is_finite x \<and> opt_finite mn \<and> opt_finite mx \<and> range_ok f64_less mn mx \<and> in_bounds f64_less mn mx x"

fun as_float :: "toml \<Rightarrow> f64 option" where
  "as_float (TFloat x) = Some x"
| "as_float (TInteger n) = Some (int_to_f64 n)"
| "as_float _ = None"

fun as_int :: "toml \<Rightarrow> int option" where
  "as_int (TInteger n) = Some n"
| "as_int _ = None"

fun as_bool :: "toml \<Rightarrow> bool option" where
  "as_bool (TBoolean b) = Some b"
| "as_bool _ = None"

fun as_str :: "toml \<Rightarrow> string option" where
  "as_str (TString s) = Some s"
| "as_str _ = None"

fun as_table :: "toml \<Rightarrow> (string \<times> toml) list option" where
  "as_table (TTable t) = Some t"
| "as_table _ = None"

text \<open>The value of a leaf: the override when there is one, else the default.\<close>

definition chosen :: "(toml \<Rightarrow> 'a option) \<Rightarrow> 'a option \<Rightarrow> toml option \<Rightarrow> 'a option" where
  "chosen as_a dflt ov = (case ov of Some v \<Rightarrow> as_a v | None \<Rightarrow> dflt)"

fun accepts :: "config_field \<Rightarrow> toml option \<Rightarrow> bool" where
  "accepts (CBool d) ov \<longleftrightarrow> chosen as_bool d ov \<noteq> None"
| "accepts (CInt d mn mx) ov \<longleftrightarrow> (\<exists>x. chosen as_int d ov = Some x \<and> int_legal mn mx x)"
| "accepts (CFloat d mn mx) ov \<longleftrightarrow> (\<exists>x. chosen as_float d ov = Some x \<and> float_legal mn mx x)"
| "accepts (CString d) ov \<longleftrightarrow> chosen as_str d ov \<noteq> None"
| "accepts (CEnum vals d) ov \<longleftrightarrow> (\<exists>x. chosen as_str d ov = Some x \<and> x \<in> set vals)"
| "accepts (CNested subs) ov \<longleftrightarrow>
     (\<exists>t. chosen as_table (Some []) ov = Some t
        \<and> fst ` set t \<subseteq> fst ` set subs
        \<and> list_all (\<lambda>nf. accepts (snd nf) (map_of t (fst nf))) subs)"

fun result :: "config_field \<Rightarrow> toml option \<Rightarrow> config_value" where
  "result (CBool d) ov = VBool (the (chosen as_bool d ov))"
| "result (CInt d mn mx) ov = VInt (the (chosen as_int d ov))"
| "result (CFloat d mn mx) ov = VFloat (the (chosen as_float d ov))"
| "result (CString d) ov = VString (the (chosen as_str d ov))"
| "result (CEnum vals d) ov = VString (the (chosen as_str d ov))"
| "result (CNested subs) ov =
     VNested (map (\<lambda>nf. (fst nf, result (snd nf) (map_of (the (chosen as_table (Some []) ov)) (fst nf)))) subs)"

text \<open>Every map of sub-fields is a \<^verbatim>\<open>BTreeMap\<close>, so sorted by name.\<close>

fun sorted_schema :: "config_field \<Rightarrow> bool" where
  "sorted_schema (CNested subs) \<longleftrightarrow> bt_wf subs \<and> list_all (\<lambda>nf. sorted_schema (snd nf)) subs"
| "sorted_schema _ = True"

lemma unknown_keys_Nil_iff:
  "unknown_keys mk declared ks errs = [] \<longleftrightarrow> errs = [] \<and> set ks \<subseteq> set declared"
  by (induction ks arbitrary: errs) auto

lemma resolve_bool_spec:
  "snd (resolve_bool path d ov errs) = [] \<longleftrightarrow> errs = [] \<and> accepts (CBool d) ov"
  "accepts (CBool d) ov \<Longrightarrow> fst (resolve_bool path d ov errs) = Some (result (CBool d) ov)"
  by (auto simp: resolve_bool_def chosen_def split: option.splits toml.splits)

lemma resolve_string_spec:
  "snd (resolve_string path d ov errs) = [] \<longleftrightarrow> errs = [] \<and> accepts (CString d) ov"
  "accepts (CString d) ov \<Longrightarrow> fst (resolve_string path d ov errs) = Some (result (CString d) ov)"
  by (auto simp: resolve_string_def chosen_def split: option.splits toml.splits)

lemma check_range_Nil_iff: "check_range path val mn mx src errs = [] \<longleftrightarrow> errs = [] \<and> int_legal mn mx val"
  by (auto simp: check_range_def Let_def int_legal_def range_ok_def in_bounds_def split: option.split)

lemma resolve_int_spec:
  "snd (resolve_int path d mn mx ov errs) = [] \<longleftrightarrow> errs = [] \<and> accepts (CInt d mn mx) ov"
  "accepts (CInt d mn mx) ov \<Longrightarrow> fst (resolve_int path d mn mx ov errs) = Some (result (CInt d mn mx) ov)"
  by (auto simp: resolve_int_def chosen_def check_range_Nil_iff split: option.splits toml.splits)

lemma check_range_f_Nil_iff:
  "is_finite val \<Longrightarrow> check_range_f path val mn mx src errs = [] \<longleftrightarrow> errs = [] \<and> float_legal mn mx val"
  by (cases mn; cases mx) (auto simp: check_range_f_def Let_def float_legal_def range_ok_def in_bounds_def)

lemma finish_float_spec:
  "snd (finish_float path val mn mx src errs) = [] \<longleftrightarrow> errs = [] \<and> float_legal mn mx val"
  "float_legal mn mx val \<Longrightarrow> fst (finish_float path val mn mx src errs) = Some (VFloat val)"
  by (auto simp: finish_float_def check_range_f_Nil_iff float_legal_def)

lemma resolve_float_spec:
  "snd (resolve_float path d mn mx ov errs) = [] \<longleftrightarrow> errs = [] \<and> accepts (CFloat d mn mx) ov"
  "accepts (CFloat d mn mx) ov \<Longrightarrow> fst (resolve_float path d mn mx ov errs) = Some (result (CFloat d mn mx) ov)"
  by (auto simp: resolve_float_def chosen_def finish_float_spec split: option.splits toml.splits)

lemma resolve_enum_spec:
  "snd (resolve_enum path vals d ov errs) = [] \<longleftrightarrow> errs = [] \<and> accepts (CEnum vals d) ov"
  "accepts (CEnum vals d) ov \<Longrightarrow> fst (resolve_enum path vals d ov errs) = Some (result (CEnum vals d) ov)"
  by (auto simp: resolve_enum_def finish_enum_def chosen_def split: option.splits toml.splits)

text \<open>The characteristic facts of the two mutually recursive functions, proved together.\<close>

definition fields_result :: "(string \<times> config_field) list \<Rightarrow> (string \<times> toml) list \<Rightarrow> (string \<times> config_value) list" where
  "fields_result fs t = map (\<lambda>nf. (fst nf, result (snd nf) (map_of t (fst nf)))) fs"

definition fields_accept :: "(string \<times> config_field) list \<Rightarrow> (string \<times> toml) list \<Rightarrow> bool" where
  "fields_accept fs t \<longleftrightarrow> list_all (\<lambda>nf. accepts (snd nf) (map_of t (fst nf))) fs"

lemma resolve_errors_Nil_iff:
  "snd (resolve_field path f ov errs) = [] \<longleftrightarrow> errs = [] \<and> accepts f ov"
  "snd (resolve_fields mk fs tbl errs out) = [] \<longleftrightarrow> errs = [] \<and> fields_accept fs tbl"
proof (induction f and fs arbitrary: path ov errs and mk tbl errs out rule: config_field_rule)
  case (Nested subs)
  then show ?case
    by (auto simp: Let_def chosen_def fields_accept_def unknown_keys_Nil_iff case_prod_unfold
        split: option.splits toml.splits)
next
  case (Cons n f fs)
  then show ?case
    by (cases "resolve_field (mk n) f (map_of tbl n) errs")
      (auto simp: fields_accept_def split: option.split, (metis snd_conv)+)
qed (simp_all only: resolve_field.simps resolve_fields.simps resolve_bool_spec resolve_int_spec
    resolve_float_spec resolve_string_spec resolve_enum_spec, simp add: fields_accept_def)

lemma resolve_value:
  "accepts f ov \<Longrightarrow> sorted_schema f \<Longrightarrow> fst (resolve_field path f ov errs) = Some (result f ov)"
  "fields_accept fs tbl \<Longrightarrow> bt_wf fs \<Longrightarrow> list_all (\<lambda>nf. sorted_schema (snd nf)) fs \<Longrightarrow>
     (\<forall>k' \<in> fst ` set out. \<forall>k \<in> fst ` set fs. k' < k) \<Longrightarrow>
     fst (resolve_fields mk fs tbl errs out) = out @ fields_result fs tbl"
proof (induction f and fs arbitrary: path ov errs and mk tbl errs out rule: config_field_rule)
  case (Nested subs)
  then show ?case
    by (auto simp: Let_def chosen_def fields_accept_def fields_result_def case_prod_unfold
        split: option.splits toml.splits)
next
  case (Cons n f fs)
  have acc: "accepts f (map_of tbl n)" "fields_accept fs tbl" and srt: "sorted_schema f"
    "list_all (\<lambda>nf. sorted_schema (snd nf)) fs" "bt_wf fs" "\<forall>k \<in> fst ` set fs. n < k"
    using Cons.prems by (auto simp: fields_accept_def bt_wf_def)
  obtain e where r: "resolve_field (mk n) f (map_of tbl n) errs = (Some (result f (map_of tbl n)), e)"
    using Cons.IH(1) [OF acc(1) srt(1), of "mk n" errs] by (metis prod.collapse)
  have last: "bt_insert n v out = out @ [(n, v)]" for v
    by (rule bt_insert_last) (use Cons.prems(4) in auto)
  have "\<forall>k' \<in> fst ` set (out @ [(n, v)]). \<forall>k \<in> fst ` set fs. k' < k" for v
    using Cons.prems(4) srt(4) by auto
  from Cons.IH(2) [OF acc(2) srt(3) srt(2) this] show ?case
    by (simp add: r last fields_result_def)
qed (simp_all only: resolve_field.simps resolve_bool_spec resolve_int_spec
    resolve_float_spec resolve_string_spec resolve_enum_spec, simp add: fields_result_def)

lemma merge_characterised:
  assumes "sorted_schema (CNested (config m))"
  shows "merge m ov = Ok cfg \<longleftrightarrow>
    (\<exists>t. ov = TTable t \<and> fst ` set t \<subseteq> fst ` set (config m)
       \<and> fields_accept (config m) t \<and> cfg = fields_result (config m) t)"
proof (cases "\<exists>t. ov = TTable t")
  case True
  then obtain t where ov: "ov = TTable t" by blast
  let ?e = "unknown_keys id (map fst (config m)) (map fst t) []"
  have srt: "bt_wf (config m)" "list_all (\<lambda>nf. sorted_schema (snd nf)) (config m)" using assms by auto
  have "fields_accept (config m) t \<Longrightarrow>
      fst (resolve_fields id (config m) t ?e []) = fields_result (config m) t"
    using resolve_value(2) [OF _ srt, of t "[]" id ?e] by simp
  then show ?thesis
    using resolve_errors_Nil_iff(2) [of id "config m" t ?e "[]"]
    by (auto simp: merge_def ov Let_def case_prod_unfold unknown_keys_Nil_iff)
next
  case False
  then show ?thesis by (cases ov) (auto simp: merge_def)
qed

section \<open>Conformance\<close>

text \<open>The legal values of a schema, whatever the override they came from.\<close>

fun conforms :: "config_field \<Rightarrow> config_value \<Rightarrow> bool"
  and conforms_all :: "(string \<times> config_field) list \<Rightarrow> (string \<times> config_value) list \<Rightarrow> bool" where
  "conforms (CBool _) (VBool _) = True"
| "conforms (CInt _ mn mx) (VInt x) = int_legal mn mx x"
| "conforms (CFloat _ mn mx) (VFloat x) = float_legal mn mx x"
| "conforms (CString _) (VString _) = True"
| "conforms (CEnum vals _) (VString s) = (s \<in> set vals)"
| "conforms (CNested subs) (VNested vs) = conforms_all subs vs"
| "conforms _ _ = False"
| "conforms_all [] [] = True"
| "conforms_all ((n, f) # fs) ((k, v) # vs) = (n = k \<and> conforms f v \<and> conforms_all fs vs)"
| "conforms_all _ _ = False"

lemma accepts_conforms:
  "accepts f ov \<Longrightarrow> conforms f (result f ov)"
  "fields_accept fs t \<Longrightarrow> conforms_all fs (fields_result fs t)"
proof (induction f and fs arbitrary: ov and t rule: config_field_rule)
  case (Nested subs)
  then show ?case by (auto simp: fields_accept_def fields_result_def)
qed (auto simp: fields_accept_def fields_result_def)

text \<open>Every leaf of the schema declares a default.\<close>

fun has_default :: "config_field \<Rightarrow> bool" where
  "has_default (CBool d) \<longleftrightarrow> d \<noteq> None"
| "has_default (CInt d _ _) \<longleftrightarrow> d \<noteq> None"
| "has_default (CFloat d _ _) \<longleftrightarrow> d \<noteq> None"
| "has_default (CString d) \<longleftrightarrow> d \<noteq> None"
| "has_default (CEnum _ d) \<longleftrightarrow> d \<noteq> None"
| "has_default (CNested subs) \<longleftrightarrow> list_all (\<lambda>nf. has_default (snd nf)) subs"

lemma default_accepted:
  "schema_ok f \<Longrightarrow> has_default f \<Longrightarrow> accepts f None"
  "list_all (\<lambda>nf. schema_ok (snd nf) \<and> has_default (snd nf)) fs \<Longrightarrow> fields_accept fs []"
proof (induction f and fs rule: config_field_rule)
  case (Nested subs)
  then show ?case by (auto simp: chosen_def fields_accept_def list_all_iff)
qed (auto simp: chosen_def int_legal_def float_legal_def fields_accept_def)

text \<open>\<^verbatim>\<open>Serialize\<close> of a field: the tag and the keys of its variant.\<close>

fun serialize_field :: "config_field \<Rightarrow> field_helper" where
  "serialize_field (CBool d) =
     \<lparr>kind = ''bool'', h_default = map_option TBoolean d, h_min = None, h_max = None,
      h_values = None, h_fields = None\<rparr>"
| "serialize_field (CInt d mn mx) =
     \<lparr>kind = ''int'', h_default = map_option TInteger d, h_min = map_option TInteger mn,
      h_max = map_option TInteger mx, h_values = None, h_fields = None\<rparr>"
| "serialize_field (CFloat d mn mx) =
     \<lparr>kind = ''float'', h_default = map_option TFloat d, h_min = map_option TFloat mn,
      h_max = map_option TFloat mx, h_values = None, h_fields = None\<rparr>"
| "serialize_field (CString d) =
     \<lparr>kind = ''string'', h_default = map_option TString d, h_min = None, h_max = None,
      h_values = None, h_fields = None\<rparr>"
| "serialize_field (CEnum vals d) =
     \<lparr>kind = ''enum'', h_default = map_option TString d, h_min = None, h_max = None,
      h_values = Some vals, h_fields = None\<rparr>"
| "serialize_field (CNested subs) =
     \<lparr>kind = ''nested'', h_default = None, h_min = None, h_max = None,
      h_values = None, h_fields = Some subs\<rparr>"

lemma take_bool_map [simp]: "take_bool (map_option TBoolean b) k = Ok b"
  by (cases b) simp_all

lemma take_int_map [simp]: "take_int (map_option TInteger i) k = Ok i"
  by (cases i) simp_all

lemma take_float_map [simp]: "take_float (map_option TFloat x) k = Ok x"
  by (cases x) simp_all

lemma take_string_map [simp]: "take_string knd (map_option TString s) k = Ok s"
  by (cases s) simp_all

section \<open>Properties\<close>

text \<open>
  Claim C31: \<^verbatim>\<open>merge\<close> succeeds exactly when the override is a table of declared keys whose every
  field has a legal value, the override's where it is given and the default otherwise; the
  result is then the map of those values, and a failure always reports an error.
\<close>

theorem merge_ok_iff:
  assumes "sorted_schema (CNested (config m))"
  shows "(merge m ov = Ok cfg \<longleftrightarrow>
      (\<exists>t. ov = TTable t \<and> fst ` set t \<subseteq> fst ` set (config m)
         \<and> fields_accept (config m) t \<and> cfg = fields_result (config m) t))
    \<and> merge m ov \<noteq> Err []"
  using merge_characterised [OF assms]
  by (auto simp: merge_def Let_def case_prod_unfold split: toml.splits if_splits)

lemma sample_sorted: "sorted_schema (CNested (config sample_manifest))"
  by code_simp

theorem merge_ok_iff_witness:
  "merge sample_manifest (TTable [(''limit'', TInteger 7)]) =
     Ok [(''limit'', VInt 7), (''net'', VNested [(''host'', VString ''hub''), (''mode'', VString ''a'')])]
   \<and> merge sample_manifest (TTable []) \<noteq> Err []"
proof -
  have "merge sample_manifest (TTable [(''limit'', TInteger 7)]) =
     Ok [(''limit'', VInt 7), (''net'', VNested [(''host'', VString ''hub''), (''mode'', VString ''a'')])]"
    by code_simp
  then show ?thesis using merge_ok_iff [OF sample_sorted] by blast
qed

text \<open>
  Claim C40: whatever the overrides, a merged configuration conforms to the schema: the declared
  names in order, each value of the declared type, in its range or among its enum values.
\<close>

theorem merge_conforms:
  assumes "sorted_schema (CNested (config m))" and "merge m ov = Ok cfg"
  shows "conforms_all (config m) cfg"
  using assms by (auto simp: merge_characterised accepts_conforms(2))

theorem merge_conforms_witness:
  "conforms_all (config sample_manifest)
     [(''limit'', VInt 7), (''net'', VNested [(''host'', VString ''hub''), (''mode'', VString ''b'')])]"
proof (rule merge_conforms [OF sample_sorted])
  show "merge sample_manifest
      (TTable [(''limit'', TInteger 7), (''net'', TTable [(''mode'', TString ''b'')])]) =
    Ok [(''limit'', VInt 7), (''net'', VNested [(''host'', VString ''hub''), (''mode'', VString ''b'')])]"
    by code_simp
qed

text \<open>
  A manifest that passed validation and declares a default for every leaf can be merged
  with no overrides at all.
\<close>

theorem validated_defaults_merge:
  assumes "validate m = Ok ()" and "sorted_schema (CNested (config m))"
    and "has_default (CNested (config m))"
  shows "\<exists>cfg. merge m (TTable []) = Ok cfg"
proof -
  have "\<forall>nf \<in> set (config m). schema_ok (snd nf)"
    using assms(1) by (auto simp: validate_def Let_def validate_errors_Nil_iff manifest_ok_def split: if_splits)
  then have "fields_accept (config m) []"
    using assms(3) by (intro default_accepted(2)) (simp add: list_all_iff)
  then show ?thesis using merge_characterised [OF assms(2)] by auto
qed

theorem validated_defaults_merge_witness:
  "\<exists>cfg. merge sample_manifest (TTable []) = Ok cfg"
  by (rule validated_defaults_merge [OF sample_manifest_ok sample_sorted]) code_simp

text \<open>Reading back a serialised config field gives the same field.\<close>

theorem config_field_roundtrip: "deserialize_field (serialize_field f) = Ok f"
  by (cases f) (simp_all add: deserialize_field_def bind_result_def key_present_def)

end
