(* ===== verification/Network_Rules.thy ===== *)
theory Network_Rules
  imports Manifest
begin

text \<open>
  \<^verbatim>\<open>crates/oxidhome-manifest/src/network.rs\<close>: the parser of one outbound network rule and its
  renderer.  A string is its UTF-8 bytes.  The \<^verbatim>\<open>ipnet\<close> crate is the parameter \<open>parse_net\<close>, which
  gives the address and prefix length of a CIDR; \<open>net_laws\<close> is what the code relies on.
\<close>

section \<open>The parser\<close>

datatype 'e network_rule_parse_error =
    MissingScheme string
  | UnknownProto string
  | EmptyHost string
  | InvalidCidr string 'e
  | InvalidWildcard string
  | InvalidPort string parse_int_error
  | InvalidPortRange string
  | MissingPort string
  | InvalidHost string
  | WhitespaceInToken string string

fun proto_str :: "proto \<Rightarrow> string" where
  "proto_str Tcp = ''tcp''"
| "proto_str Udp = ''udp''"
| "proto_str Https = ''https''"
| "proto_str AnyProto = ''any''"

definition parse_proto :: "string \<Rightarrow> 'e network_rule_parse_error + proto" where
  "parse_proto s =
     (if s = ''tcp'' then Ok Tcp
      else if s = ''udp'' then Ok Udp
      else if s = ''https'' then Ok Https
      else if s = ''any'' then Ok AnyProto
      else Err (UnknownProto s))"

definition reject_whitespace :: "string \<Rightarrow> string \<Rightarrow> 'e network_rule_parse_error + unit" where
  "reject_whitespace token raw = (if has_ws token then Err (WhitespaceInToken token raw) else Ok ())"

definition split_host_port :: "string \<Rightarrow> string \<times> string option" where
  "split_host_port rest =
     (case rsplit_once CHR '':'' rest of
        Some (host, port) \<Rightarrow>
          if CHR '':'' \<in> set host \<or> CHR ''/'' \<in> set port then (rest, None) else (host, Some port)
      | None \<Rightarrow> (rest, None))"

text \<open>The host, the port if any, and whether the host was bracketed.\<close>

definition split_authority :: "string \<Rightarrow> 'e network_rule_parse_error + (string \<times> string option \<times> bool)" where
  "split_authority rest =
     (case strip_prefix ''['' rest of
        Some after_open \<Rightarrow>
          (case split_once CHR '']'' after_open of
             None \<Rightarrow> Err (InvalidHost rest)
           | Some (host, after_close) \<Rightarrow>
               if after_close = [] then Ok (host, None, True)
               else (case strip_prefix '':'' after_close of
                       Some p \<Rightarrow> Ok (host, Some p, True)
                     | None \<Rightarrow> Err (InvalidHost rest)))
      | None \<Rightarrow> (case split_host_port rest of (h, p) \<Rightarrow> Ok (h, p, False)))"

definition parse_host ::
  "(string \<Rightarrow> 'e + (ip_addr \<times> nat)) \<Rightarrow> string \<Rightarrow> string \<Rightarrow> bool \<Rightarrow> 'e network_rule_parse_error + host_match" where
  "parse_host parse_net host_str full bracketed =
     (if host_str = [] then Err (EmptyHost full)
      else if bracketed then
        (if CHR ''/'' \<in> set host_str then
           (case parse_net host_str of
              Inl e \<Rightarrow> Err (InvalidCidr host_str e)
            | Inr (a, n) \<Rightarrow> if \<not> is_v6 a then Err (InvalidHost host_str) else Ok (Cidr a n))
         else
           (case parse_ip host_str of
              None \<Rightarrow> Err (InvalidHost host_str)
            | Some ip \<Rightarrow> if \<not> is_v6 ip then Err (InvalidHost host_str) else Ok (HostExact (show_ip ip))))
      else
        (case strip_prefix ''*.'' host_str of
           Some suffix \<Rightarrow>
             if suffix = [] \<or> starts_with ''.'' suffix then Err (InvalidWildcard host_str)
             else Ok (SuffixWildcard (CHR ''.'' # suffix))
         | None \<Rightarrow>
             if CHR ''/'' \<in> set host_str then
               (case parse_net host_str of
                  Inl e \<Rightarrow> Err (InvalidCidr host_str e)
                | Inr (a, n) \<Rightarrow> Ok (Cidr a n))
             else
               (case parse_ip host_str of
                  Some ip \<Rightarrow> Ok (HostExact (show_ip ip))
                | None \<Rightarrow>
                    if CHR '':'' \<in> set host_str then Err (InvalidHost host_str)
                    else Ok (HostExact host_str))))"

definition parse_u16 :: "string \<Rightarrow> 'e network_rule_parse_error + nat" where
  "parse_u16 s = (case parse_uint 10 u16_max s of Inl e \<Rightarrow> Err (InvalidPort s e) | Inr n \<Rightarrow> Ok n)"

definition parse_port :: "string \<Rightarrow> string \<Rightarrow> 'e network_rule_parse_error + port_match" where
  "parse_port port_str full =
     (if port_str = ''*'' then Ok PortAny
      else case split_once CHR ''-'' port_str of
          Some (lo, hi) \<Rightarrow>
            bind_result (parse_u16 lo) (\<lambda>l.
            bind_result (parse_u16 hi) (\<lambda>h.
              if l > h then Err (InvalidPortRange full) else Ok (PortRange l h)))
        | None \<Rightarrow> bind_result (parse_u16 port_str) (\<lambda>p. Ok (PortExact p)))"

fun default_port :: "proto \<Rightarrow> 'e network_rule_parse_error + port_match" where
  "default_port Https = Ok (PortExact 443)"
| "default_port Tcp = Err (MissingPort ''tcp'')"
| "default_port Udp = Err (MissingPort ''udp'')"
| "default_port AnyProto = Err (MissingPort ''any'')"

definition parse_rule ::
  "(string \<Rightarrow> 'e + (ip_addr \<times> nat)) \<Rightarrow> string \<Rightarrow> 'e network_rule_parse_error + network_rule" where
  "parse_rule parse_net untrimmed =
     (let raw = trim untrimmed in
      case split_once_str ''://'' raw of
        None \<Rightarrow> Err (MissingScheme raw)
      | Some (proto_part, rest) \<Rightarrow>
          bind_result (parse_proto proto_part) (\<lambda>pr.
          bind_result (split_authority rest) (\<lambda>(host_str, port_opt, bracketed).
          bind_result (reject_whitespace host_str raw) (\<lambda>_.
          bind_result (case port_opt of Some p \<Rightarrow> reject_whitespace p raw | None \<Rightarrow> Ok ()) (\<lambda>_.
          bind_result (parse_host parse_net host_str raw bracketed) (\<lambda>host.
          bind_result (case port_opt of Some p \<Rightarrow> parse_port p raw | None \<Rightarrow> default_port pr) (\<lambda>port.
            Ok \<lparr>rule_proto = pr, rule_host = host, rule_port = port\<rparr>)))))))"

section \<open>The renderer\<close>

definition show_net :: "ip_addr \<Rightarrow> nat \<Rightarrow> string" where
  "show_net a n = show_ip a @ CHR ''/'' # show_nat n"

fun host_raw :: "host_match \<Rightarrow> string" where
  "host_raw (HostExact s) = s"
| "host_raw (SuffixWildcard suffix) = CHR ''*'' # suffix"
| "host_raw (Cidr a n) = show_net a n"

definition show_rule :: "network_rule \<Rightarrow> string" where
  "show_rule r =
     (let raw = host_raw (rule_host r);
          emit_port = \<not> (rule_proto r = Https \<and> rule_port r = PortExact 443);
          host = (if emit_port \<and> CHR '':'' \<in> set raw then CHR ''['' # raw @ '']'' else raw);
          start = proto_str (rule_proto r) @ ''://'' @ host
      in case rule_port r of
           PortAny \<Rightarrow> start @ '':*''
         | PortExact p \<Rightarrow> if rule_proto r = Https \<and> p = 443 then start else start @ CHR '':'' # show_nat p
         | PortRange lo hi \<Rightarrow> start @ CHR '':'' # show_nat lo @ CHR ''-'' # show_nat hi)"

section \<open>The CIDR library\<close>

text \<open>
  What the code relies on in \<^verbatim>\<open>ipnet\<close>: the parser returns real addresses, and reads its own rendering, the
  address, a slash and the prefix length, back.
\<close>

definition net_laws :: "(string \<Rightarrow> 'e + (ip_addr \<times> nat)) \<Rightarrow> bool" where
  "net_laws parse_net =
     (\<forall>s a n. parse_net s = Ok (a, n) \<longrightarrow> wf_ip a \<and> parse_net (show_net a n) = Ok (a, n))"

text \<open>A parser with these laws, for the witnesses.\<close>

definition cidr_reader :: "string \<Rightarrow> unit + (ip_addr \<times> nat)" where
  "cidr_reader s =
     (case split_once CHR ''/'' s of
        None \<Rightarrow> Err ()
      | Some (addr, len) \<Rightarrow>
          (case (parse_ip addr, parse_uint 10 255 len) of
             (Some ip, Inr n) \<Rightarrow> if n \<le> (if is_v6 ip then 128 else 32) then Ok (ip, n) else Err ()
           | _ \<Rightarrow> Err ()))"

lemma ip_chars_not [simp]:
  "c \<notin> set ip_chars \<Longrightarrow> c \<notin> set (show_ip ip)"
  using show_ip_chars by blast

lemma cidr_reader_laws: "net_laws cidr_reader"
  unfolding net_laws_def
proof (intro allI impI)
  fix s a n
  assume "cidr_reader s = Ok (a, n)"
  then obtain addr where "parse_ip addr = Some a" and n: "n \<le> (if is_v6 a then 128 else 32)"
    by (auto simp: cidr_reader_def split: option.splits sum.splits if_splits)
  then have wf: "wf_ip a" by (simp add: parse_ip_wf)
  have "n \<le> 255" using n by (simp split: if_splits)
  moreover have "CHR ''/'' \<notin> set (show_ip a)" by (rule ip_chars_not) (simp add: ip_chars_def)
  ultimately have "cidr_reader (show_net a n) = Ok (a, n)"
    using n by (simp add: cidr_reader_def show_net_def split_once_append parse_show_ip wf)
  with wf show "wf_ip a \<and> cidr_reader (show_net a n) = Ok (a, n)" by simp
qed

section \<open>No white space in a rendered rule\<close>

lemma plain_seps [simp]: "plain_sep CHR '':''" "plain_sep CHR ''/''" "plain_sep CHR ''[''"
    "plain_sep CHR '']''" "plain_sep CHR ''-''" "plain_sep CHR ''*''"
  by (simp_all add: plain_sep_def ws_codes_def)

lemma has_ws_Nil [simp]: "\<not> has_ws []"
  by simp

lemma has_ws_Cons_sep: "plain_sep c \<Longrightarrow> has_ws (c # s) \<longleftrightarrow> has_ws s"
  using has_ws_sep [of c "[]" s] by simp

lemma ip_chars_no_ws: "set s \<subseteq> set ip_chars \<Longrightarrow> \<not> has_ws s"
proof (rule no_ws_chars)
  fix x w
  assume "set s \<subseteq> set ip_chars" "x \<in> set s" "w \<in> set ws_codes"
  moreover have "\<forall>x \<in> set ip_chars. x \<notin> set (map hd ws_codes)"
    by (simp add: ip_chars_def ws_codes_def)
  ultimately show "x \<noteq> hd w" by fastforce
qed

lemma show_ip_no_ws [simp]: "\<not> has_ws (show_ip ip)"
  by (rule ip_chars_no_ws [OF show_ip_chars])

lemma show_nat_ip_chars: "set (show_nat n) \<subseteq> set ip_chars"
  using show_nat_digits decimal_chars hex_chars by blast

lemma show_nat_no_ws [simp]: "\<not> has_ws (show_nat n)"
  by (rule ip_chars_no_ws [OF show_nat_ip_chars])

lemma proto_str_no_ws [simp]: "\<not> has_ws (proto_str p)"
  by (cases p) (simp_all add: ws_codes_def)

declare has_ws.simps(2) [simp del]

section \<open>Ports\<close>

fun port_ok :: "port_match \<Rightarrow> bool" where
  "port_ok PortAny = True"
| "port_ok (PortExact p) = (p \<le> u16_max)"
| "port_ok (PortRange lo hi) = (lo \<le> hi \<and> hi \<le> u16_max)"

fun port_text :: "port_match \<Rightarrow> string" where
  "port_text PortAny = ''*''"
| "port_text (PortExact p) = show_nat p"
| "port_text (PortRange lo hi) = show_nat lo @ CHR ''-'' # show_nat hi"

lemma parse_u16_show: "n \<le> u16_max \<Longrightarrow> parse_u16 (show_nat n) = Ok n"
  by (simp add: parse_u16_def)

lemma show_nat_not_star: "show_nat n \<noteq> ''*''" "show_nat n @ CHR ''-'' # t \<noteq> ''*''"
  using show_nat_not_in [of "CHR ''*''" n] by (auto simp: append_eq_Cons_conv simp del: show_nat_not_in)

lemma parse_port_text: "port_ok po \<Longrightarrow> parse_port (port_text po) full = Ok po"
proof (cases po)
  case (PortExact p)
  moreover have "split_once CHR ''-'' (show_nat p) = None" by (simp add: split_once_None_iff)
  moreover assume "port_ok po"
  ultimately show ?thesis by (simp add: parse_port_def parse_u16_show show_nat_not_star)
next
  case (PortRange lo hi)
  moreover have "split_once CHR ''-'' (show_nat lo @ CHR ''-'' # show_nat hi) = Some (show_nat lo, show_nat hi)"
    by (simp add: split_once_append)
  moreover assume "port_ok po"
  ultimately show ?thesis by (simp add: parse_port_def parse_u16_show show_nat_not_star)
next
  case PortAny
  then show ?thesis by (simp add: parse_port_def)
qed

lemma parse_u16_bound: "parse_u16 s = Ok n \<Longrightarrow> n \<le> u16_max"
  by (auto simp: parse_u16_def dest: parse_uint_bound split: sum.splits)

lemma parse_port_ok:
  assumes "parse_port s full = Ok po"
  shows "port_ok po"
proof (cases po)
  case (PortExact p)
  with assms obtain t where "parse_u16 t = (Ok p :: 'a network_rule_parse_error + nat)"
    by (auto simp: parse_port_def bind_result_Ok_iff split: if_splits option.splits)
  with PortExact show ?thesis by (simp only: port_ok.simps parse_u16_bound)
next
  case (PortRange lo hi)
  with assms obtain t where "parse_u16 t = (Ok hi :: 'a network_rule_parse_error + nat)" "lo \<le> hi"
    by (auto simp: parse_port_def bind_result_Ok_iff split: if_splits option.splits)
  with PortRange show ?thesis using parse_u16_bound by (simp only: port_ok.simps simp_thms)
qed simp

lemma default_port_ok: "default_port pr = Ok po \<longleftrightarrow> pr = Https \<and> po = PortExact 443"
  by (cases pr) auto

lemma port_text_plain: "CHR '':'' \<notin> set (port_text po)" "CHR ''/'' \<notin> set (port_text po)"
    "\<not> has_ws (port_text po)"
  by (cases po; simp add: has_ws_sep has_ws_Cons_sep)+

section \<open>Hosts\<close>

text \<open>
  What the round trip needs of a host: its text survives the splitting of the authority, is read
  back without brackets, and where it has a colon and a port follows, inside them.
\<close>

definition host_ok ::
  "(string \<Rightarrow> 'e + (ip_addr \<times> nat)) \<Rightarrow> proto \<Rightarrow> port_match \<Rightarrow> host_match \<Rightarrow> bool" where
  "host_ok parse_net pr po h =
     (let t = host_raw h in
        \<not> has_ws t \<and> \<not> starts_with ''['' t \<and> split_host_port t = (t, None)
        \<and> (\<forall>full. parse_host parse_net t full False = Ok h)
        \<and> (CHR '':'' \<in> set t \<longrightarrow> (pr = Https \<and> po = PortExact 443) \<or>
             (CHR '']'' \<notin> set t \<and> (\<forall>full. parse_host parse_net t full True = Ok h))))"

lemma split_host_port_None_iff:
  "split_host_port t = (t, None) \<longleftrightarrow>
     (\<forall>a b. t = a @ CHR '':'' # b \<longrightarrow> CHR '':'' \<notin> set b \<longrightarrow> CHR '':'' \<in> set a \<or> CHR ''/'' \<in> set b)"
proof -
  have eq: "split_host_port t = (t, None) \<longleftrightarrow>
      (\<forall>a b. rsplit_once CHR '':'' t = Some (a, b) \<longrightarrow> CHR '':'' \<in> set a \<or> CHR ''/'' \<in> set b)"
    by (auto simp: split_host_port_def split: option.splits)
  show ?thesis unfolding eq rsplit_once_Some_iff by blast
qed

lemma ip_chars_cases: "set t \<subseteq> set ip_chars \<Longrightarrow> c \<notin> set ip_chars \<Longrightarrow> \<not> starts_with (c # r) t"
  by (auto simp: starts_with_iff)

lemma strip_ip_star [simp]:
  assumes "wf_ip ip"
  shows "strip_prefix ''*.'' (show_ip ip @ t) = None"
proof -
  obtain c cs where t: "show_ip ip = c # cs" using show_ip_ne [OF assms] by (meson neq_Nil_conv)
  moreover have "c \<noteq> CHR ''*''"
    using show_ip_chars [of ip] t by (auto simp: ip_chars_def)
  ultimately show ?thesis by simp
qed

lemma ip_host_ok:
  assumes "wf_ip ip"
  shows "host_ok parse_net pr po (HostExact (show_ip ip))"
proof -
  let ?t = "show_ip ip"
  have ne: "?t \<noteq> []" by (rule show_ip_ne [OF assms])
  have no: "CHR ''/'' \<notin> set ?t" "CHR '']'' \<notin> set ?t" "CHR ''['' \<notin> set ?t"
    by (rule ip_chars_not, simp add: ip_chars_def)+
  have colon: "is_v6 ip" if "CHR '':'' \<in> set ?t"
    using that show_v4_no_colon by (cases ip) (simp_all del: show_ip.simps)
  have split: "split_host_port ?t = (?t, None)"
  proof (cases "is_v6 ip")
    case True
    then obtain a b where t: "?t = a @ CHR '':'' # b" "CHR '':'' \<in> set a"
      using show_v6_colons assms by (cases ip) (simp, blast)
    show ?thesis unfolding split_host_port_None_iff
    proof (intro allI impI)
      fix u v
      assume uv: "?t = u @ CHR '':'' # v" "CHR '':'' \<notin> set v"
      have "CHR '':'' \<in> set u"
      proof (rule ccontr)
        assume "CHR '':'' \<notin> set u"
        with uv(1) t(1) obtain us where us: "a = u @ us" "us @ CHR '':'' # b = CHR '':'' # v"
          by (auto simp: append_eq_append_conv2 Cons_eq_append_conv)
        with t(2) \<open>CHR '':'' \<notin> set u\<close> obtain us' where "us = CHR '':'' # us'" by (cases us) auto
        with us(2) uv(2) show False by auto
      qed
      then show "CHR '':'' \<in> set u \<or> CHR ''/'' \<in> set v" ..
    qed
  next
    case False
    with colon show ?thesis unfolding split_host_port_None_iff by auto
  qed
  have star: "strip_prefix ''*.'' ?t = None" using strip_ip_star [OF assms, of "[]"] by simp
  have "parse_host parse_net ?t full False = Ok (HostExact ?t)" for full
    using ne no assms star by (simp add: parse_host_def parse_show_ip)
  moreover have "parse_host parse_net ?t full True = Ok (HostExact ?t)" if "CHR '':'' \<in> set ?t" for full
    using ne no assms colon [OF that] by (simp add: parse_host_def parse_show_ip)
  ultimately show ?thesis
    using no split by (auto simp: host_ok_def Let_def starts_with_iff)
qed

lemma net_host_ok:
  assumes "wf_ip a" and "parse_net (show_net a n) = Ok (a, n)"
  shows "host_ok parse_net pr po (Cidr a n)"
proof -
  let ?t = "show_net a n"
  have no: "CHR '']'' \<notin> set ?t" "CHR ''['' \<notin> set ?t"
    by (simp_all add: show_net_def ip_chars_def)
  have colon: "is_v6 a" if "CHR '':'' \<in> set ?t"
    using that show_v4_no_colon by (cases a) (simp_all add: show_net_def del: show_ip.simps)
  have split: "split_host_port ?t = (?t, None)"
    unfolding split_host_port_None_iff
  proof (intro allI impI)
    fix u v
    assume uv: "?t = u @ CHR '':'' # v" "CHR '':'' \<notin> set v"
    have "show_nat n \<noteq> x @ CHR '':'' # y" for x y
    proof
      assume eq: "show_nat n = x @ CHR '':'' # y"
      have "CHR '':'' \<notin> set (show_nat n)" by simp
      with eq show False by (simp del: show_nat_not_in)
    qed
    with uv have "CHR ''/'' \<in> set v"
      unfolding show_net_def
      by (auto simp: append_eq_append_conv2 append_eq_Cons_conv Cons_eq_append_conv)
    then show "CHR '':'' \<in> set u \<or> CHR ''/'' \<in> set v" ..
  qed
  have ne: "?t \<noteq> []" and slash: "CHR ''/'' \<in> set ?t" by (simp_all add: show_net_def)
  have ws: "\<not> has_ws ?t" unfolding show_net_def by (simp add: has_ws_sep)
  have "parse_host parse_net ?t full False = Ok (Cidr a n)" for full
    using ne slash assms strip_ip_star [OF assms(1)] by (simp add: parse_host_def show_net_def)
  moreover have "parse_host parse_net ?t full True = Ok (Cidr a n)" if "CHR '':'' \<in> set ?t" for full
    using ne slash assms colon [OF that] by (simp add: parse_host_def)
  ultimately show ?thesis
    using no split ws by (auto simp: host_ok_def Let_def starts_with_iff)
qed

section \<open>A parsed rule is well formed\<close>

text \<open>The tokens of an accepted rule.\<close>

lemma parse_rule_OkE:
  assumes "parse_rule parse_net s = Ok r"
  obtains pp rest host_str port_opt bracketed where
    "split_once_str ''://'' (trim s) = Some (pp, rest)"
    "parse_proto pp = (Ok (rule_proto r) :: 'e network_rule_parse_error + proto)"
    "split_authority rest = (Ok (host_str, port_opt, bracketed) :: 'e network_rule_parse_error + _)"
    "\<not> has_ws host_str"
    "parse_host parse_net host_str (trim s) bracketed = (Ok (rule_host r) :: 'e network_rule_parse_error + host_match)"
    "(case port_opt of Some p \<Rightarrow> parse_port p (trim s) | None \<Rightarrow> default_port (rule_proto r))
       = (Ok (rule_port r) :: 'e network_rule_parse_error + port_match)"
  using assms
  by (auto simp: parse_rule_def Let_def bind_result_Ok_iff reject_whitespace_def
      split: option.splits if_splits)

lemma bracketed_host:
  assumes "net_laws parse_net" and "parse_host parse_net t full True = Ok h"
  shows "host_ok parse_net pr po h"
proof -
  from assms(2) consider ip where "parse_ip t = Some ip" "h = HostExact (show_ip ip)"
    | a n where "parse_net t = Ok (a, n)" "h = Cidr a n"
    by (auto simp: parse_host_def split: if_splits option.splits sum.splits)
  then show ?thesis
    using assms(1) by cases (auto simp: net_laws_def intro: ip_host_ok net_host_ok parse_ip_wf)
qed

lemma split_host_port_cases:
  assumes "split_host_port rest = (t, port_opt)"
  shows "(port_opt = None \<and> t = rest \<and> split_host_port t = (t, None))
    \<or> (port_opt \<noteq> None \<and> CHR '':'' \<notin> set t \<and> split_host_port t = (t, None) \<and> starts_with t rest)"
proof (cases "rsplit_once CHR '':'' rest")
  case None
  with assms show ?thesis by (auto simp: split_host_port_def)
next
  case (Some p)
  obtain a b where p: "p = (a, b)" by (cases p)
  show ?thesis
  proof (cases "CHR '':'' \<in> set a \<or> CHR ''/'' \<in> set b")
    case True
    with assms Some p show ?thesis by (auto simp: split_host_port_def)
  next
    case False
    with assms Some p have t: "t = a" "port_opt = Some b" by (auto simp: split_host_port_def)
    have "rsplit_once CHR '':'' a = None" using False by (simp add: rsplit_once_None_iff)
    moreover have "starts_with a rest"
      using Some p by (auto simp: rsplit_once_Some_iff starts_with_iff)
    ultimately show ?thesis using False t by (simp add: split_host_port_def)
  qed
qed

lemma starts_with_trans: "starts_with p a \<Longrightarrow> starts_with a s \<Longrightarrow> starts_with p s"
  by (auto simp: starts_with_iff)

lemma plain_host:
  assumes laws: "net_laws parse_net"
    and parsed: "parse_host parse_net t full False = Ok h"
    and ws: "\<not> has_ws t" and br: "\<not> starts_with ''['' t" and split: "split_host_port t = (t, None)"
    and colon: "CHR '':'' \<in> set t \<Longrightarrow> pr = Https \<and> po = PortExact 443"
  shows "host_ok parse_net pr po h"
proof -
  have ne: "t \<noteq> []" using parsed by (auto simp: parse_host_def)
  from parsed consider
      suffix where "t = ''*.'' @ suffix" "suffix \<noteq> []" "\<not> starts_with ''.'' suffix" "h = SuffixWildcard (CHR ''.'' # suffix)"
    | a n where "parse_net t = Ok (a, n)" "h = Cidr a n"
    | ip where "parse_ip t = Some ip" "h = HostExact (show_ip ip)"
    | "strip_prefix ''*.'' t = None" "CHR ''/'' \<notin> set t" "parse_ip t = None" "CHR '':'' \<notin> set t" "h = HostExact t"
    by (auto simp: parse_host_def strip_prefix_Some_iff split: if_splits option.splits sum.splits)
  then show ?thesis
  proof cases
    case 1
    then have "parse_host parse_net t full' False = Ok h" for full' by (simp add: parse_host_def)
    moreover have "host_raw h = t" using 1 by simp
    ultimately show ?thesis using ws br split colon by (simp add: host_ok_def Let_def)
  next
    case 2
    with laws show ?thesis by (auto simp: net_laws_def intro: net_host_ok)
  next
    case 3
    then show ?thesis by (auto intro: ip_host_ok parse_ip_wf)
  next
    case 4
    then have "parse_host parse_net t full' False = Ok h" for full' using ne by (simp add: parse_host_def)
    with 4 show ?thesis using ws br split by (simp add: host_ok_def Let_def)
  qed
qed

definition rule_ok :: "(string \<Rightarrow> 'e + (ip_addr \<times> nat)) \<Rightarrow> network_rule \<Rightarrow> bool" where
  "rule_ok parse_net r =
     (port_ok (rule_port r) \<and> host_ok parse_net (rule_proto r) (rule_port r) (rule_host r))"

lemma parsed_rule_ok:
  assumes laws: "net_laws parse_net" and parsed: "parse_rule parse_net s = Ok r"
  shows "rule_ok parse_net r"
proof -
  from parsed obtain pp rest t port_opt bracketed where
    auth: "split_authority rest = (Ok (t, port_opt, bracketed) :: 'a network_rule_parse_error + _)"
    and ws: "\<not> has_ws t"
    and host: "parse_host parse_net t (trim s) bracketed = Ok (rule_host r)"
    and port: "(case port_opt of Some p \<Rightarrow> parse_port p (trim s) | None \<Rightarrow> default_port (rule_proto r))
       = (Ok (rule_port r) :: 'a network_rule_parse_error + port_match)"
    by (rule parse_rule_OkE)
  have "port_ok (rule_port r)"
    using port parse_port_ok by (cases port_opt) (auto simp: default_port_ok)
  moreover have "host_ok parse_net (rule_proto r) (rule_port r) (rule_host r)"
  proof (cases bracketed)
    case True
    with host laws show ?thesis by (auto intro: bracketed_host)
  next
    case False
    with auth have shp: "split_host_port rest = (t, port_opt)" and nb: "\<not> starts_with ''['' rest"
      by (auto simp: split_authority_def starts_with_def split: option.splits prod.splits if_splits)
    show ?thesis
    proof (rule plain_host [OF laws _ ws])
      show "parse_host parse_net t (trim s) False = Ok (rule_host r)" using host False by simp
      show "\<not> starts_with ''['' t" "split_host_port t = (t, None)"
        using split_host_port_cases [OF shp] nb starts_with_trans by blast+
      show "rule_proto r = Https \<and> rule_port r = PortExact 443" if "CHR '':'' \<in> set t"
        using split_host_port_cases [OF shp] that port by (auto simp: default_port_ok)
    qed
  qed
  ultimately show ?thesis by (simp add: rule_ok_def)
qed

section \<open>Reading a rendered rule\<close>

lemma trim_proto: "\<not> has_ws rest \<Longrightarrow> trim (proto_str pr @ ''://'' @ rest) = proto_str pr @ ''://'' @ rest"
  by (rule trim_no_ws) (simp add: has_ws_sep has_ws_Cons_sep)

lemma proto_no_colon: "CHR '':'' \<notin> set (proto_str pr)"
  by (cases pr) simp_all

lemma parse_proto_str [simp]: "parse_proto (proto_str pr) = Ok pr"
  by (cases pr) (simp_all add: parse_proto_def)

lemma parse_rule_text:
  assumes "\<not> has_ws rest"
    and "split_authority rest = (Ok (t, port_opt, br) :: 'e network_rule_parse_error + _)"
    and "\<not> has_ws t" and "\<And>p. port_opt = Some p \<Longrightarrow> \<not> has_ws p"
    and "\<And>full. parse_host parse_net t full br = Ok h"
    and "\<And>full. (case port_opt of Some p \<Rightarrow> parse_port p full | None \<Rightarrow> default_port pr) = (Ok po :: 'e network_rule_parse_error + port_match)"
  shows "parse_rule (parse_net :: string \<Rightarrow> 'e + (ip_addr \<times> nat)) (proto_str pr @ ''://'' @ rest)
           = Ok \<lparr>rule_proto = pr, rule_host = h, rule_port = po\<rparr>"
proof -
  have "split_once_str ''://'' (proto_str pr @ ''://'' @ rest) = Some (proto_str pr, rest)"
    by (rule split_once_str_skip [OF refl]) (rule proto_no_colon)
  then show ?thesis
    using assms by (auto simp: parse_rule_def trim_proto reject_whitespace_def split: option.splits
        simp del: append.simps)
qed

lemma show_rule_port:
  "\<not> (rule_proto r = Https \<and> rule_port r = PortExact 443) \<Longrightarrow>
     show_rule r = proto_str (rule_proto r) @ ''://'' @
       (if CHR '':'' \<in> set (host_raw (rule_host r)) then CHR ''['' # host_raw (rule_host r) @ '']'' else host_raw (rule_host r))
       @ CHR '':'' # port_text (rule_port r)"
  by (cases "rule_port r") (auto simp: show_rule_def Let_def)

lemma show_rule_no_port:
  "rule_proto r = Https \<and> rule_port r = PortExact 443 \<Longrightarrow>
     show_rule r = proto_str (rule_proto r) @ ''://'' @ host_raw (rule_host r)"
  by (auto simp: show_rule_def Let_def)

lemma split_authority_plain:
  "\<not> starts_with ''['' rest \<Longrightarrow> split_host_port rest = (h, p) \<Longrightarrow> split_authority rest = Ok (h, p, False)"
  by (simp add: split_authority_def starts_with_def split: option.splits)

lemma parse_show_rule_ok:
  assumes ok: "rule_ok (parse_net :: string \<Rightarrow> 'e + (ip_addr \<times> nat)) r"
  shows "parse_rule parse_net (show_rule r) = Ok r"
proof -
  let ?t = "host_raw (rule_host r)" and ?p = "port_text (rule_port r)"
  from ok have port: "port_ok (rule_port r)" and ws: "\<not> has_ws ?t" and br: "\<not> starts_with ''['' ?t"
    and split: "split_host_port ?t = (?t, None)"
    and host: "\<And>full. parse_host parse_net ?t full False = Ok (rule_host r)"
    and colon: "CHR '':'' \<in> set ?t \<Longrightarrow> (rule_proto r = Https \<and> rule_port r = PortExact 443) \<or>
          (CHR '']'' \<notin> set ?t \<and> (\<forall>full. parse_host parse_net ?t full True = Ok (rule_host r)))"
    by (auto simp: rule_ok_def host_ok_def Let_def)
  have r: "\<lparr>rule_proto = rule_proto r, rule_host = rule_host r, rule_port = rule_port r\<rparr> = r" by simp
  consider "rule_proto r = Https \<and> rule_port r = PortExact 443"
    | "\<not> (rule_proto r = Https \<and> rule_port r = PortExact 443)" "CHR '':'' \<in> set ?t"
    | "\<not> (rule_proto r = Https \<and> rule_port r = PortExact 443)" "CHR '':'' \<notin> set ?t" by blast
  then show ?thesis
  proof cases
    case 1
    show ?thesis
      unfolding show_rule_no_port [OF 1]
      by (subst parse_rule_text [where t = ?t and br = False and port_opt = None and h = "rule_host r" and po = "rule_port r"])
        (use ws br split host 1 in \<open>simp_all add: split_authority_plain\<close>)
  next
    case 2
    have nc: "CHR '']'' \<notin> set ?t" and hb: "\<And>full. parse_host parse_net ?t full True = Ok (rule_host r)"
      using colon 2 by blast+
    have "split_authority (CHR ''['' # ?t @ CHR '']'' # CHR '':'' # ?p)
        = (Ok (?t, Some ?p, True) :: 'e network_rule_parse_error + _)"
      using nc by (simp add: split_authority_def split_once_append)
    then show ?thesis
      unfolding show_rule_port [OF 2(1)]
      by (subst parse_rule_text [where t = ?t and br = True and port_opt = "Some ?p" and h = "rule_host r" and po = "rule_port r"])
        (use ws hb 2 port in \<open>auto simp: has_ws_sep has_ws_Cons_sep port_text_plain parse_port_text\<close>)
  next
    case 3
    have "rsplit_once CHR '':'' (?t @ CHR '':'' # ?p) = Some (?t, ?p)"
      by (simp add: rsplit_once_Some_iff port_text_plain)
    then have "split_host_port (?t @ CHR '':'' # ?p) = (?t, Some ?p)"
      using 3 by (simp add: split_host_port_def port_text_plain)
    moreover have "\<not> starts_with ''['' (?t @ CHR '':'' # ?p)"
      using br by (cases ?t) (auto simp: starts_with_iff)
    ultimately have "split_authority (?t @ CHR '':'' # ?p) = (Ok (?t, Some ?p, False) :: 'e network_rule_parse_error + _)"
      by (simp add: split_authority_plain)
    then show ?thesis
      unfolding show_rule_port [OF 3(1)]
      by (subst parse_rule_text [where t = ?t and br = False and port_opt = "Some ?p" and h = "rule_host r" and po = "rule_port r"])
        (use ws host 3 port in \<open>auto simp: has_ws_sep has_ws_Cons_sep port_text_plain parse_port_text\<close>)
  qed
qed

section \<open>The properties\<close>

text \<open>
  Claim C33: round trip of network rules.  Every rule the parser accepts is
  rendered to a text that the parser reads back as the same rule, for any CIDR library
  that reads its own rendering back.
\<close>

theorem rule_roundtrip:
  assumes "net_laws parse_net" and "parse_rule parse_net s = Ok r"
  shows "parse_rule parse_net (show_rule r) = Ok r"
  using assms by (intro parse_show_rule_ok parsed_rule_ok)

text \<open>
  Colons in hosts.  An accepted host whose text holds a colon is an IPv6 address, a CIDR, or a
  suffix wildcard of an \<^verbatim>\<open>https\<close> rule on the default port; ports are at most 65535 and ranges are
  ordered.  The third case does occur: \<^verbatim>\<open>https://*.example.com:80:90\<close> is accepted.
\<close>

theorem parsed_rule_shape:
  assumes "net_laws parse_net" and "parse_rule parse_net s = Ok r"
  shows "port_ok (rule_port r)
    \<and> (CHR '':'' \<in> set (host_raw (rule_host r)) \<longrightarrow>
        (\<exists>gs. rule_host r = HostExact (show_ip (V6 gs))) \<or> (\<exists>gs n. rule_host r = Cidr (V6 gs) n)
        \<or> (\<exists>w. rule_host r = SuffixWildcard w \<and> rule_proto r = Https \<and> rule_port r = PortExact 443))"
proof -
  let ?t = "host_raw (rule_host r)"
  have ok: "rule_ok parse_net r" by (rule parsed_rule_ok [OF assms])
  then have host: "parse_host parse_net ?t [] False = Ok (rule_host r)"
    and colon: "CHR '':'' \<in> set ?t \<Longrightarrow> (rule_proto r = Https \<and> rule_port r = PortExact 443) \<or>
          parse_host parse_net ?t [] True = Ok (rule_host r)"
    by (auto simp: rule_ok_def host_ok_def Let_def)
  have "(\<exists>gs. rule_host r = HostExact (show_ip (V6 gs))) \<or> (\<exists>gs n. rule_host r = Cidr (V6 gs) n)
      \<or> (\<exists>w. rule_host r = SuffixWildcard w \<and> rule_proto r = Https \<and> rule_port r = PortExact 443)"
    if c: "CHR '':'' \<in> set ?t"
  proof (cases "rule_host r")
    case (HostExact s)
    with host c obtain ip where "s = show_ip ip"
      by (auto simp: parse_host_def split: if_splits option.splits sum.splits)
    with HostExact c show ?thesis using show_v4_no_colon by (cases ip) (auto simp del: show_ip.simps)
  next
    case (SuffixWildcard w)
    have "parse_host parse_net ?t [] True \<noteq> Ok (SuffixWildcard w)"
      by (auto simp: parse_host_def split: option.splits sum.splits)
    with colon [OF c] SuffixWildcard show ?thesis by auto
  next
    case (Cidr a n)
    with c show ?thesis
      using show_v4_no_colon by (cases a) (auto simp: show_net_def simp del: show_ip.simps)
  qed
  with ok show ?thesis by (simp add: rule_ok_def)
qed

section \<open>Witnesses\<close>

lemma read_double_port_rule:
  "parse_rule cidr_reader ''https://*.example.com:80:90''
     = Ok \<lparr>rule_proto = Https, rule_host = SuffixWildcard ''.example.com:80:90'', rule_port = PortExact 443\<rparr>"
proof -
  let ?h = "''*.example.com:80:90''"
  have ws: "\<not> has_ws ?h" by (simp add: has_ws.simps ws_codes_def)
  have "split_authority ?h = (Ok (?h, None, False) :: unit network_rule_parse_error + _)"
    by (simp add: split_authority_def split_host_port_def rsplit_once_def)
  moreover have "parse_host cidr_reader ?h full False = Ok (SuffixWildcard ''.example.com:80:90'')" for full
    by (simp add: parse_host_def starts_with_def)
  ultimately show ?thesis
    using parse_rule_text [of ?h ?h None False cidr_reader "SuffixWildcard ''.example.com:80:90''" Https "PortExact 443"] ws
    by simp
qed

theorem parsed_rule_shape_witness:
  "\<exists>r. parse_rule cidr_reader ''https://*.example.com:80:90'' = Ok r \<and> CHR '':'' \<in> set (host_raw (rule_host r))
     \<and> rule_proto r = Https \<and> rule_port r = PortExact 443"
  using parsed_rule_shape [OF cidr_reader_laws read_double_port_rule] read_double_port_rule by simp

lemma read_bracketed_rule:
  "parse_rule cidr_reader ''tcp://[2001:db8::1]:1883''
     = Ok \<lparr>rule_proto = Tcp, rule_host = HostExact ''2001:db8::1'', rule_port = PortExact 1883\<rparr>"
proof -
  let ?ip = "V6 [8193, 3512, 0, 0, 0, 0, 0, 1]"
  let ?r = "\<lparr>rule_proto = Tcp, rule_host = HostExact (show_ip ?ip), rule_port = PortExact 1883\<rparr>"
  have "rule_ok cidr_reader ?r" by (simp add: rule_ok_def ip_host_ok del: show_ip.simps)
  then have "parse_rule cidr_reader (show_rule ?r) = Ok ?r" by (rule parse_show_rule_ok)
  moreover have ip: "show_ip ?ip = ''2001:db8::1''"
    by (simp add: show_ipv6_def v4_mapped_def show_groups_def show_hex.simps digit_char_def)
  moreover have "show_nat 1883 = ''1883''" by (simp add: show_nat.simps digit_char_def)
  ultimately show ?thesis by (simp add: show_rule_def del: show_ip.simps)
qed

theorem rule_roundtrip_witness:
  "parse_rule cidr_reader (show_rule \<lparr>rule_proto = Tcp, rule_host = HostExact ''2001:db8::1'', rule_port = PortExact 1883\<rparr>)
     = Ok \<lparr>rule_proto = Tcp, rule_host = HostExact ''2001:db8::1'', rule_port = PortExact 1883\<rparr>"
  by (rule rule_roundtrip [OF cidr_reader_laws read_bracketed_rule])

end
