(* ===== verification/Base64.thy ===== *)
theory Base64
  imports Prelude
begin

text \<open>
  The base64url codec of \<^verbatim>\<open>state/auth_token.rs\<close> (no padding, canonical only), on 32-bit words as
  in the code.  A string is its bytes.  The main results: decoding accepts exactly the text the encoder
  produces.
\<close>
unbundle bit_operations_syntax

definition b64url :: string where
  "b64url = ''ABCDEFGHIJKLMNOPQRSTUVWXYZabcdefghijklmnopqrstuvwxyz0123456789-_''"

definition b64_char :: "32 word \<Rightarrow> char" where
  "b64_char v = b64url ! unat v"

fun b64_encode :: "8 word list \<Rightarrow> string" where
  "b64_encode (a # b # c # rest) =
     (let n = push_bit 16 (ucast a) OR push_bit 8 (ucast b) OR (ucast c :: 32 word)
      in [b64_char (drop_bit 18 n AND 0x3F), b64_char (drop_bit 12 n AND 0x3F),
          b64_char (drop_bit 6 n AND 0x3F), b64_char (n AND 0x3F)] @ b64_encode rest)"
| "b64_encode [a, b] =
     (let n = push_bit 16 (ucast a) OR push_bit 8 (ucast b) :: 32 word
      in [b64_char (drop_bit 18 n AND 0x3F), b64_char (drop_bit 12 n AND 0x3F),
          b64_char (drop_bit 6 n AND 0x3F)])"
| "b64_encode [a] =
     (let n = push_bit 16 (ucast a) :: 32 word
      in [b64_char (drop_bit 18 n AND 0x3F), b64_char (drop_bit 12 n AND 0x3F)])"
| "b64_encode [] = []"

definition b64_value :: "char \<Rightarrow> 32 word option" where
  "b64_value c =
     (let n = of_char c :: nat in
      if 65 \<le> n \<and> n \<le> 90 then Some (of_nat (n - 65))
      else if 97 \<le> n \<and> n \<le> 122 then Some (of_nat (n - 97 + 26))
      else if 48 \<le> n \<and> n \<le> 57 then Some (of_nat (n - 48 + 52))
      else if n = 45 then Some 62
      else if n = 95 then Some 63
      else None)"

fun b64_loop :: "32 word \<Rightarrow> nat \<Rightarrow> 8 word list \<Rightarrow> string \<Rightarrow> (32 word \<times> nat \<times> 8 word list) option" where
  "b64_loop buf bits out [] = Some (buf, bits, out)"
| "b64_loop buf bits out (c # cs) =
     (case b64_value c of
        None \<Rightarrow> None
      | Some v \<Rightarrow>
          (let buf = push_bit 6 buf OR v; bits = bits + 6 in
           if bits \<ge> 8 then
             b64_loop buf (bits - 8) (out @ [ucast (drop_bit (bits - 8) buf AND 0xFF)]) cs
           else b64_loop buf bits out cs))"

definition b64_decode :: "string \<Rightarrow> 8 word list option" where
  "b64_decode s =
     (if s = [] then Some []
      else if length s mod 4 = 1 then None
      else case b64_loop 0 0 [] s of
          None \<Rightarrow> None
        | Some (buf, bits, out) \<Rightarrow> if buf AND (push_bit bits 1 - 1) \<noteq> 0 then None else Some out)"

lemma and_63: "(x :: 32 word) AND 0x3F = take_bit 6 x"
  by (simp add: take_bit_eq_mask mask_eq_exp_minus_1)

lemma and_255: "(x :: 32 word) AND 0xFF = take_bit 8 x"
  by (simp add: take_bit_eq_mask mask_eq_exp_minus_1)

lemma byte_eqI:
  fixes x y :: "8 word"
  assumes "list_all (\<lambda>k. bit x k = bit y k) [0, 1, 2, 3, 4, 5, 6, 7]"
  shows "x = y"
proof (rule bit_word_eqI)
  fix k
  assume "k < LENGTH(8)"
  then have "k \<in> set [0, 1, 2, 3, 4, 5, 6, 7]" by simp arith
  with assms show "bit x k = bit y k" by (simp only: list_all_iff)
qed

lemma sextet_eqI:
  fixes x y :: "32 word"
  assumes "list_all (\<lambda>k. bit x k = bit y k) [0, 1, 2, 3, 4, 5]" and "take_bit 6 x = x" and "take_bit 6 y = y"
  shows "x = y"
proof (rule bit_word_eqI)
  fix k
  have high: "k \<ge> 6 \<Longrightarrow> \<not> bit z k" if "take_bit 6 z = z" for z :: "32 word"
    using that by (metis bit_take_bit_iff linorder_not_less)
  have "k < 6 \<Longrightarrow> k \<in> set [0, 1, 2, 3, 4, 5]" by simp arith
  with assms high show "bit x k = bit y k" by (cases "k < 6") (auto simp only: list_all_iff not_less)
qed

lemma byte_high: "8 \<le> k \<Longrightarrow> \<not> bit (x :: 8 word) k"
  by (simp add: bit_word_of_int_iff impossible_bit)

lemma sextet_high: "take_bit 6 v = v \<Longrightarrow> 6 \<le> k \<Longrightarrow> \<not> bit (v :: 32 word) k"
  by (metis bit_take_bit_iff linorder_not_less)

lemma small_numerals:
  "(2 :: nat) = Suc (Suc 0)" "(3 :: nat) = Suc (Suc (Suc 0))" "(4 :: nat) = Suc (Suc (Suc (Suc 0)))"
  "(5 :: nat) = Suc (Suc (Suc (Suc (Suc 0))))"
  "(6 :: nat) = Suc (Suc (Suc (Suc (Suc (Suc 0)))))"
  "(7 :: nat) = Suc (Suc (Suc (Suc (Suc (Suc (Suc 0))))))"
  by simp_all

lemmas b64_bits = and_63 and_255 bit_simps byte_high sextet_high

definition group3 :: "8 word \<Rightarrow> 8 word \<Rightarrow> 8 word \<Rightarrow> 32 word" where
  "group3 a b c = push_bit 16 (ucast a) OR push_bit 8 (ucast b) OR ucast c"

definition group2 :: "8 word \<Rightarrow> 8 word \<Rightarrow> 32 word" where
  "group2 a b = push_bit 16 (ucast a) OR push_bit 8 (ucast b)"

definition group1 :: "8 word \<Rightarrow> 32 word" where
  "group1 a = push_bit 16 (ucast a)"

lemmas group_defs = group3_def group2_def group1_def

lemma sextet_take [simp]: "take_bit 6 (x AND 0x3F) = x AND (0x3F :: 32 word)"
  by (simp add: and_63)

text \<open>The byte taken after the second, third and fourth character of a group.\<close>

definition b64_acc :: "32 word \<Rightarrow> 32 word \<Rightarrow> 32 word" where
  "b64_acc buf v = push_bit 6 buf OR v"

definition byte_1 :: "32 word \<Rightarrow> 32 word \<Rightarrow> 32 word \<Rightarrow> 8 word" where
  "byte_1 buf v1 v2 = ucast (drop_bit 4 (b64_acc (b64_acc buf v1) v2) AND 0xFF)"

definition byte_2 :: "32 word \<Rightarrow> 32 word \<Rightarrow> 32 word \<Rightarrow> 8 word" where
  "byte_2 buf v2 v3 = ucast (drop_bit 2 (b64_acc (b64_acc buf v2) v3) AND 0xFF)"

definition byte_3 :: "32 word \<Rightarrow> 32 word \<Rightarrow> 32 word \<Rightarrow> 8 word" where
  "byte_3 buf v3 v4 = ucast (drop_bit 0 (b64_acc (b64_acc buf v3) v4) AND 0xFF)"

lemmas byte_defs = byte_1_def byte_2_def byte_3_def b64_acc_def

lemma bytes_of_group3:
  "byte_1 buf (drop_bit 18 (group3 a b c) AND 0x3F) (drop_bit 12 (group3 a b c) AND 0x3F) = a"
  "byte_2 buf (drop_bit 12 (group3 a b c) AND 0x3F) (drop_bit 6 (group3 a b c) AND 0x3F) = b"
  "byte_3 buf (drop_bit 6 (group3 a b c) AND 0x3F) (group3 a b c AND 0x3F) = c"
  by (rule byte_eqI; (simp add: b64_bits byte_defs group_defs)?; (simp add: small_numerals)?)+

lemma bytes_of_group2:
  "byte_1 buf (drop_bit 18 (group2 a b) AND 0x3F) (drop_bit 12 (group2 a b) AND 0x3F) = a"
  "byte_2 buf (drop_bit 12 (group2 a b) AND 0x3F) (drop_bit 6 (group2 a b) AND 0x3F) = b"
  by (rule byte_eqI; (simp add: b64_bits byte_defs group_defs)?; (simp add: small_numerals)?)+

lemma bytes_of_group1:
  "byte_1 buf (drop_bit 18 (group1 a) AND 0x3F) (drop_bit 12 (group1 a) AND 0x3F) = a"
  by (rule byte_eqI; (simp add: b64_bits byte_defs group_defs)?; (simp add: small_numerals)?)

text \<open>Conversely, the sextets of a decoded group.\<close>

lemma group3_of_bytes:
  assumes "take_bit 6 v1 = v1" "take_bit 6 v2 = v2" "take_bit 6 v3 = v3" "take_bit 6 v4 = v4"
  shows "drop_bit 18 (group3 (byte_1 buf v1 v2) (byte_2 buf' v2 v3) (byte_3 buf'' v3 v4)) AND 0x3F = v1"
    "drop_bit 12 (group3 (byte_1 buf v1 v2) (byte_2 buf' v2 v3) (byte_3 buf'' v3 v4)) AND 0x3F = v2"
    "drop_bit 6 (group3 (byte_1 buf v1 v2) (byte_2 buf' v2 v3) (byte_3 buf'' v3 v4)) AND 0x3F = v3"
    "group3 (byte_1 buf v1 v2) (byte_2 buf' v2 v3) (byte_3 buf'' v3 v4) AND 0x3F = v4"
  by (rule sextet_eqI; (simp add: assms b64_bits byte_defs group_defs)?; (simp add: small_numerals)?)+

text \<open>The bits left over.\<close>

definition low_clear :: "nat \<Rightarrow> 32 word \<Rightarrow> bool" where
  "low_clear bits buf = (buf AND (push_bit bits 1 - 1) = 0)"

lemma low_clear_iff: "low_clear bits buf \<longleftrightarrow> (\<forall>k < bits. \<not> bit buf k)"
proof -
  have eq: "buf AND (push_bit bits 1 - 1) = take_bit bits buf"
    by (simp add: take_bit_eq_mask mask_eq_exp_minus_1)
  show ?thesis
    unfolding low_clear_def eq
  proof (intro iffI allI impI)
    fix k assume "take_bit bits buf = 0" "k < bits"
    moreover from this(2) have "bit (take_bit bits buf) k = bit buf k" by (simp add: bit_take_bit_iff)
    ultimately show "\<not> bit buf k" by simp
  next
    assume "\<forall>k < bits. \<not> bit buf k"
    then show "take_bit bits buf = 0" by (intro bit_word_eqI) (simp add: bit_take_bit_iff)
  qed
qed

lemma group2_of_bytes:
  assumes "take_bit 6 v1 = v1" "take_bit 6 v2 = v2" "take_bit 6 v3 = v3" and "\<not> bit v3 0" "\<not> bit v3 (Suc 0)"
  shows "drop_bit 18 (group2 (byte_1 buf v1 v2) (byte_2 buf' v2 v3)) AND 0x3F = v1"
    "drop_bit 12 (group2 (byte_1 buf v1 v2) (byte_2 buf' v2 v3)) AND 0x3F = v2"
    "drop_bit 6 (group2 (byte_1 buf v1 v2) (byte_2 buf' v2 v3)) AND 0x3F = v3"
  by (rule sextet_eqI; (simp add: assms b64_bits byte_defs group_defs)?; (simp add: small_numerals)?)+

lemma group1_of_bytes:
  assumes "take_bit 6 v1 = v1" "take_bit 6 v2 = v2" and "\<not> bit v2 0" "\<not> bit v2 (Suc 0)" "\<not> bit v2 2" "\<not> bit v2 3"
  shows "drop_bit 18 (group1 (byte_1 buf v1 v2)) AND 0x3F = v1"
    "drop_bit 12 (group1 (byte_1 buf v1 v2)) AND 0x3F = v2"
  by (rule sextet_eqI; (simp add: assms b64_bits byte_defs group_defs)?; (simp add: small_numerals)?)+

lemma sextet_lt: "take_bit 6 (v :: 32 word) = v \<Longrightarrow> unat v < 64"
proof -
  assume "take_bit 6 v = v"
  then have "unat v = take_bit 6 (unat v)" by (metis unsigned_take_bit_eq)
  then show ?thesis using take_bit_nat_less_exp [of 6 "unat v"] by simp
qed

lemma b64url_values: "list_all (\<lambda>i. b64_value (b64url ! i) = Some (of_nat i)) (0 # 1 # [2..<64])"
  by (simp add: upt_rec_numeral b64url_def b64_value_def)

lemma b64_value_char: "take_bit 6 v = v \<Longrightarrow> b64_value (b64_char v) = Some v"
proof -
  assume "take_bit 6 v = v"
  then have "unat v \<in> set (0 # 1 # [2..<64])" using sextet_lt [OF \<open>take_bit 6 v = v\<close>]
    by (simp only: list.set set_upt insert_iff atLeastLessThan_iff simp_thms) linarith
  then have "b64_value (b64url ! unat v) = Some (of_nat (unat v))"
    using b64url_values by (simp only: list_all_iff)
  then show ?thesis by (simp add: b64_char_def)
qed

lemma b64_codes:
  "list_all (\<lambda>i. of_char (b64url ! i) = (65 + i :: nat)) (0 # 1 # [2..<26])"
  "list_all (\<lambda>i. of_char (b64url ! i) = (71 + i :: nat)) [26..<52]"
  "list_all (\<lambda>i. of_char (b64url ! i) = (i - 4 :: nat)) [52..<62]"
  by (simp_all add: upt_rec_numeral b64url_def)

lemma b64_code:
  "i < 26 \<Longrightarrow> of_char (b64url ! i) = (65 + i :: nat)"
  "26 \<le> i \<Longrightarrow> i < 52 \<Longrightarrow> of_char (b64url ! i) = (71 + i :: nat)"
  "52 \<le> i \<Longrightarrow> i < 62 \<Longrightarrow> of_char (b64url ! i) = (i - 4 :: nat)"
proof -
  assume "i < 26"
  then have "i \<in> set (0 # 1 # [2..<26])"
    by (simp only: list.set set_upt insert_iff atLeastLessThan_iff simp_thms) linarith
  with b64_codes(1) show "of_char (b64url ! i) = (65 + i :: nat)" by (simp only: list_all_iff)
next
  assume "26 \<le> i" "i < 52"
  then have "i \<in> set [26..<52]" by (simp only: set_upt atLeastLessThan_iff simp_thms)
  with b64_codes(2) show "of_char (b64url ! i) = (71 + i :: nat)" by (simp only: list_all_iff)
next
  assume "52 \<le> i" "i < 62"
  then have "i \<in> set [52..<62]" by (simp only: set_upt atLeastLessThan_iff simp_thms)
  with b64_codes(3) show "of_char (b64url ! i) = (i - 4 :: nat)" by (simp only: list_all_iff)
qed

lemma b64_char_value: "b64_value c = Some v \<Longrightarrow> b64_char v = c \<and> take_bit 6 v = v"
proof -
  assume "b64_value c = Some v"
  then have "\<exists>i < 64. v = of_nat i \<and> (of_char (b64url ! i) = (of_char c :: nat))"
  proof -
    let ?n = "of_char c :: nat"
    consider "65 \<le> ?n" "?n \<le> 90" | "97 \<le> ?n" "?n \<le> 122" | "48 \<le> ?n" "?n \<le> 57" | "?n = 45" | "?n = 95"
      using \<open>b64_value c = Some v\<close> by (auto simp: b64_value_def Let_def split: if_splits)
    then show ?thesis
    proof cases
      case 1
      then show ?thesis using \<open>b64_value c = Some v\<close>
        by (intro exI [of _ "?n - 65"]) (auto simp: b64_value_def Let_def b64_code)
    next
      case 2
      then show ?thesis using \<open>b64_value c = Some v\<close>
        by (intro exI [of _ "?n - 97 + 26"]) (auto simp: b64_value_def Let_def b64_code)
    next
      case 3
      then show ?thesis using \<open>b64_value c = Some v\<close>
        by (intro exI [of _ "?n - 48 + 52"]) (auto simp: b64_value_def Let_def b64_code)
    next
      case 4
      then show ?thesis using \<open>b64_value c = Some v\<close>
        by (intro exI [of _ 62]) (auto simp: b64_value_def Let_def b64url_def)
    next
      case 5
      then show ?thesis using \<open>b64_value c = Some v\<close>
        by (intro exI [of _ 63]) (auto simp: b64_value_def Let_def b64url_def)
    qed
  qed
  then obtain i where i: "i < 64" "v = of_nat i" "b64url ! i = c" by (auto simp: of_char_eq_iff)
  have "take_bit 6 v = v" using i(1,2) by (simp add: take_bit_of_nat take_bit_nat_eq_self)
  moreover have "unat v = i" using i by (simp add: unat_of_nat)
  ultimately show ?thesis using i by (simp add: b64_char_def)
qed

lemma b64_encode_groups:
  "b64_encode (a # b # c # rest) =
     [b64_char (drop_bit 18 (group3 a b c) AND 0x3F), b64_char (drop_bit 12 (group3 a b c) AND 0x3F),
      b64_char (drop_bit 6 (group3 a b c) AND 0x3F), b64_char (group3 a b c AND 0x3F)] @ b64_encode rest"
  "b64_encode [a, b] =
     [b64_char (drop_bit 18 (group2 a b) AND 0x3F), b64_char (drop_bit 12 (group2 a b) AND 0x3F),
      b64_char (drop_bit 6 (group2 a b) AND 0x3F)]"
  "b64_encode [a] =
     [b64_char (drop_bit 18 (group1 a) AND 0x3F), b64_char (drop_bit 12 (group1 a) AND 0x3F)]"
  by (simp_all add: group_defs Let_def)

lemma b64_loop_step:
  "b64_value c = Some v \<Longrightarrow> b64_loop buf bits out (c # cs) =
     (if bits + 6 \<ge> 8 then
        b64_loop (b64_acc buf v) (bits + 6 - 8) (out @ [ucast (drop_bit (bits + 6 - 8) (b64_acc buf v) AND 0xFF)]) cs
      else b64_loop (b64_acc buf v) (bits + 6) out cs)"
  by (simp add: b64_acc_def)

lemma b64_loop_two:
  assumes "b64_value c1 = Some v1" "b64_value c2 = Some v2"
  shows "b64_loop buf 0 out (c1 # c2 # cs)
     = b64_loop (b64_acc (b64_acc buf v1) v2) 4 (out @ [byte_1 buf v1 v2]) cs"
  using assms by (simp only: b64_loop_step) (simp add: byte_1_def)

lemma b64_loop_three:
  assumes "b64_value c1 = Some v1" "b64_value c2 = Some v2" "b64_value c3 = Some v3"
  shows "b64_loop buf 0 out (c1 # c2 # c3 # cs)
     = b64_loop (b64_acc (b64_acc (b64_acc buf v1) v2) v3) 2
         (out @ [byte_1 buf v1 v2, byte_2 (b64_acc buf v1) v2 v3]) cs"
  using assms by (simp only: b64_loop_two b64_loop_step) (simp add: byte_1_def byte_2_def)

lemma b64_loop_four:
  assumes "b64_value c1 = Some v1" "b64_value c2 = Some v2" "b64_value c3 = Some v3" "b64_value c4 = Some v4"
  shows "b64_loop buf 0 out (c1 # c2 # c3 # c4 # cs)
     = b64_loop (b64_acc (b64_acc (b64_acc (b64_acc buf v1) v2) v3) v4) 0
         (out @ [byte_1 buf v1 v2, byte_2 (b64_acc buf v1) v2 v3, byte_3 (b64_acc (b64_acc buf v1) v2) v3 v4]) cs"
  using assms by (simp only: b64_loop_three b64_loop_step) (simp add: byte_1_def byte_2_def byte_3_def)

lemmas b64_loop_groups =
  b64_loop_four b64_loop_three [where cs = "[]"] b64_loop_two [where cs = "[]"]

declare b64_loop.simps(2) [simp del] b64_encode.simps(1-3) [simp del]

lemma low_clear_acc:
  "low_clear 4 (b64_acc buf v) \<longleftrightarrow> \<not> bit v 0 \<and> \<not> bit v (Suc 0) \<and> \<not> bit v 2 \<and> \<not> bit v 3"
  "low_clear 2 (b64_acc buf v) \<longleftrightarrow> \<not> bit v 0 \<and> \<not> bit v (Suc 0)"
proof -
  have "(\<forall>k < 4. P k) \<longleftrightarrow> P 0 \<and> P (Suc 0) \<and> P 2 \<and> P (3 :: nat)" for P
    by (auto simp: small_numerals less_Suc_eq)
  then show "low_clear 4 (b64_acc buf v) \<longleftrightarrow> \<not> bit v 0 \<and> \<not> bit v (Suc 0) \<and> \<not> bit v 2 \<and> \<not> bit v 3"
    by (simp add: low_clear_iff b64_acc_def bit_simps)
  have "(\<forall>k < 2. P k) \<longleftrightarrow> P 0 \<and> P (Suc (0 :: nat))" for P
    by (auto simp: small_numerals less_Suc_eq)
  then show "low_clear 2 (b64_acc buf v) \<longleftrightarrow> \<not> bit v 0 \<and> \<not> bit v (Suc 0)"
    by (simp add: low_clear_iff b64_acc_def bit_simps)
qed

lemma low_clear_0 [simp]: "low_clear 0 buf"
  by (simp add: low_clear_iff)

lemma b64_value_sextet: "b64_value (b64_char (x AND 0x3F)) = Some (x AND 0x3F)"
  by (rule b64_value_char) (rule sextet_take)

lemma b64_loop_encode:
  "\<exists>buf' bits. b64_loop buf 0 out (b64_encode bs) = Some (buf', bits, out @ bs) \<and> low_clear bits buf'"
proof (induction bs arbitrary: buf out rule: b64_encode.induct)
  case (1 a b c rest)
  obtain buf' bits where "b64_loop (b64_acc (b64_acc (b64_acc (b64_acc buf (drop_bit 18 (group3 a b c) AND 0x3F))
        (drop_bit 12 (group3 a b c) AND 0x3F)) (drop_bit 6 (group3 a b c) AND 0x3F)) (group3 a b c AND 0x3F)) 0
        (out @ [a, b, c]) (b64_encode rest) = Some (buf', bits, (out @ [a, b, c]) @ rest)" "low_clear bits buf'"
    using "1.IH" [OF refl] by blast
  then show ?case
    unfolding b64_encode_groups append.simps b64_loop_four [OF b64_value_sextet b64_value_sextet b64_value_sextet b64_value_sextet]
      bytes_of_group3 by simp
next
  case (2 a b)
  have "\<not> bit (drop_bit 6 (group2 a b) AND 0x3F) 0" "\<not> bit (drop_bit 6 (group2 a b) AND 0x3F) (Suc 0)"
    by (simp_all add: b64_bits group_defs)
  then show ?case
    unfolding b64_encode_groups b64_loop_three [OF b64_value_sextet b64_value_sextet b64_value_sextet]
      bytes_of_group2 by (simp add: low_clear_acc)
next
  case (3 a)
  have "\<not> bit (drop_bit 12 (group1 a) AND 0x3F) 0" "\<not> bit (drop_bit 12 (group1 a) AND 0x3F) (Suc 0)"
      "\<not> bit (drop_bit 12 (group1 a) AND 0x3F) 2" "\<not> bit (drop_bit 12 (group1 a) AND 0x3F) 3"
    by (simp_all add: b64_bits group_defs)
  then show ?case
    unfolding b64_encode_groups b64_loop_two [OF b64_value_sextet b64_value_sextet] bytes_of_group1
    by (simp add: low_clear_acc)
qed simp

lemma b64_encode_length: "length (b64_encode bs) mod 4 \<noteq> 1"
  by (induction bs rule: b64_encode.induct) (simp_all add: b64_encode_groups)

lemma b64_decode_encode [simp]: "b64_decode (b64_encode bs) = Some bs"
proof (cases "b64_encode bs")
  case Nil
  then have "bs = []" by (cases bs rule: b64_encode.cases) (simp_all add: b64_encode_groups)
  then show ?thesis by (simp add: b64_decode_def)
next
  case (Cons c cs)
  then show ?thesis
    using b64_loop_encode [of 0 "[]" bs] b64_encode_length [of bs]
    by (auto simp: b64_decode_def low_clear_def)
qed

text \<open>The decoder accepts nothing but encodings.\<close>

lemma b64_loop_values:
  "b64_loop buf bits out s = Some r \<Longrightarrow> c \<in> set s \<Longrightarrow> \<exists>v. b64_value c = Some v"
proof (induction s arbitrary: buf bits out)
  case (Cons d ds)
  then show ?case
    by (cases "b64_value d") (auto simp: b64_loop.simps(2) Let_def split: if_splits)
qed simp

lemma quad_cases:
  obtains "s = []" | c where "s = [c]" | c1 c2 where "s = [c1, c2]" | c1 c2 c3 where "s = [c1, c2, c3]"
    | c1 c2 c3 c4 r where "s = c1 # c2 # c3 # c4 # r"
  by (metis list.exhaust)

lemma b64_loop_canonical:
  assumes "b64_loop buf 0 out s = Some (buf', bits, out')" and "length s mod 4 \<noteq> 1" and "low_clear bits buf'"
  shows "\<exists>bs. out' = out @ bs \<and> b64_encode bs = s"
  using assms
proof (induction s arbitrary: buf out rule: length_induct)
  case (1 s)
  have val: "\<exists>v. b64_value c = Some v \<and> b64_char v = c \<and> take_bit 6 v = v" if "c \<in> set s" for c
    using b64_loop_values [OF "1.prems"(1) that] b64_char_value by blast
  show ?case
  proof (cases s rule: quad_cases)
    case 1
    with "1.prems"(1) show ?thesis by auto
  next
    case (2 c)
    with "1.prems"(2) show ?thesis by simp
  next
    case (3 c1 c2)
    with val obtain v1 v2 where v: "b64_value c1 = Some v1" "b64_char v1 = c1" "take_bit 6 v1 = v1"
        "b64_value c2 = Some v2" "b64_char v2 = c2" "take_bit 6 v2 = v2"
      by (metis list.set_intros)
    with "1.prems" 3 have "out' = out @ [byte_1 buf v1 v2]" and "low_clear 4 (b64_acc (b64_acc buf v1) v2)"
      by (auto simp: b64_loop_groups)
    with v 3 show ?thesis
      by (auto simp: b64_encode_groups group1_of_bytes low_clear_acc)
  next
    case (4 c1 c2 c3)
    with val obtain v1 v2 v3 where v: "b64_value c1 = Some v1" "b64_char v1 = c1" "take_bit 6 v1 = v1"
        "b64_value c2 = Some v2" "b64_char v2 = c2" "take_bit 6 v2 = v2"
        "b64_value c3 = Some v3" "b64_char v3 = c3" "take_bit 6 v3 = v3"
      by (metis list.set_intros)
    with "1.prems" 4 have "out' = out @ [byte_1 buf v1 v2, byte_2 (b64_acc buf v1) v2 v3]"
      and "low_clear 2 (b64_acc (b64_acc (b64_acc buf v1) v2) v3)"
      by (auto simp: b64_loop_groups)
    with v 4 show ?thesis
      by (auto simp: b64_encode_groups group2_of_bytes low_clear_acc)
  next
    case (5 c1 c2 c3 c4 r)
    with val obtain v1 v2 v3 v4 where v: "b64_value c1 = Some v1" "b64_char v1 = c1" "take_bit 6 v1 = v1"
        "b64_value c2 = Some v2" "b64_char v2 = c2" "take_bit 6 v2 = v2"
        "b64_value c3 = Some v3" "b64_char v3 = c3" "take_bit 6 v3 = v3"
        "b64_value c4 = Some v4" "b64_char v4 = c4" "take_bit 6 v4 = v4"
      by (metis list.set_intros)
    let ?x = "byte_1 buf v1 v2" and ?y = "byte_2 (b64_acc buf v1) v2 v3"
      and ?z = "byte_3 (b64_acc (b64_acc buf v1) v2) v3 v4"
    have "b64_loop (b64_acc (b64_acc (b64_acc (b64_acc buf v1) v2) v3) v4) 0 (out @ [?x, ?y, ?z]) r
        = Some (buf', bits, out')"
      using "1.prems"(1) 5 v by (simp only: b64_loop_four)
    moreover have "length r mod 4 \<noteq> 1" "length r < length s" using "1.prems"(2) 5 by simp_all
    ultimately obtain bs where bs: "out' = (out @ [?x, ?y, ?z]) @ bs" "b64_encode bs = r"
      using "1.IH" "1.prems"(3) by blast
    have "b64_encode (?x # ?y # ?z # bs) = s"
      unfolding b64_encode_groups(1) by (simp add: group3_of_bytes v bs 5)
    then show ?thesis using bs(1) by (intro exI [of _ "?x # ?y # ?z # bs"]) simp
  qed
qed

text \<open>Decoding succeeds exactly on the canonical encoding.\<close>

lemma b64_decode_iff: "b64_decode s = Some bs \<longleftrightarrow> b64_encode bs = s"
proof
  assume dec: "b64_decode s = Some bs"
  show "b64_encode bs = s"
  proof (cases "s = []")
    case True
    with dec show ?thesis by (simp add: b64_decode_def)
  next
    case False
    with dec obtain buf bits where "b64_loop 0 0 [] s = Some (buf, bits, bs)" "length s mod 4 \<noteq> 1"
        "low_clear bits buf"
      by (auto simp: b64_decode_def low_clear_def split: if_splits option.splits)
    from b64_loop_canonical [OF this] show ?thesis by auto
  qed
qed (use b64_decode_encode in blast)

lemma b64_encode_inj [simp]: "b64_encode a = b64_encode b \<longleftrightarrow> a = b"
  by (metis b64_decode_encode option.inject)

end
