(* ===== verification/Auth_Token.thy ===== *)
theory Auth_Token
  imports Base64
begin

text \<open>
  \<^verbatim>\<open>crates/oxidhome-core/src/state/auth_token.rs\<close>: the bearer-token store.  The table
  \<^verbatim>\<open>auth_token\<close> is the list of its rows, in insertion order; \<^verbatim>\<open>id\<close> is its primary key and \<^verbatim>\<open>hash\<close>
  has a unique index.  SHA-256 is the parameter \<open>sha\<close>, the CSPRNG's bytes and the clock are arguments, and
  so is the outcome of each database call (\<open>io\<close>): a failed write leaves the table as it was.
\<close>

section \<open>State\<close>

record token_record =
  tok_id :: string
  tok_label :: string
  tok_hash :: "8 word list"
  scope_json :: string
  created_ms :: int
  last_used_ms :: "int option"
  revoked_ms :: "int option"

record issued_token =
  issued_id :: string
  plaintext :: string

datatype token_error = Sqlite | Malformed | Unknown | Revoked

type_synonym sha = "8 word list \<Rightarrow> 8 word list"
type_synonym token_table = "token_record list"

definition token_wf :: "token_table \<Rightarrow> bool" where
  "token_wf db = (distinct (map tok_id db) \<and> distinct (map tok_hash db))"

section \<open>Token text\<close>

definition format_token :: "8 word list \<Rightarrow> string" where
  "format_token secret = ''oxh_'' @ b64_encode secret"

definition parse_token :: "string \<Rightarrow> 8 word list option" where
  "parse_token presented =
     (case strip_prefix ''oxh_'' presented of
        None \<Rightarrow> None
      | Some body \<Rightarrow>
          (case b64_decode body of
             None \<Rightarrow> None
           | Some bytes \<Rightarrow> if length bytes = 32 then Some bytes else None))"

definition derive_id :: "8 word list \<Rightarrow> string" where
  "derive_id hash = b64_encode (take 12 hash)"

section \<open>Operations\<close>

definition insert_token :: "token_record \<Rightarrow> token_table \<Rightarrow> token_table option" where
  "insert_token r db =
     (if tok_id r \<in> tok_id ` set db \<or> tok_hash r \<in> tok_hash ` set db then None else Some (db @ [r]))"

definition new_token :: "sha \<Rightarrow> 8 word list \<Rightarrow> int \<Rightarrow> string \<Rightarrow> string \<Rightarrow> token_record" where
  "new_token sha secret now label scope =
     \<lparr>tok_id = derive_id (sha secret), tok_label = label, tok_hash = sha secret, scope_json = scope,
      created_ms = now, last_used_ms = None, revoked_ms = None\<rparr>"

definition create_token ::
  "sha \<Rightarrow> bool \<Rightarrow> 8 word list \<Rightarrow> int \<Rightarrow> string \<Rightarrow> string \<Rightarrow> token_table
     \<Rightarrow> token_table \<times> (token_error + issued_token)" where
  "create_token sha io secret now label scope db =
     (let r = new_token sha secret now label scope in
      case (if io then insert_token r db else None) of
        None \<Rightarrow> (db, Err Sqlite)
      | Some db' \<Rightarrow> (db', Ok \<lparr>issued_id = tok_id r, plaintext = format_token secret\<rparr>))"

definition get_token :: "bool \<Rightarrow> string \<Rightarrow> token_table \<Rightarrow> token_error + token_record option" where
  "get_token io i db = (if io then Ok (find (\<lambda>r. tok_id r = i) db) else Err Sqlite)"

definition list_tokens :: "bool \<Rightarrow> token_table \<Rightarrow> token_error + token_record list" where
  "list_tokens io db = (if io then Ok (sort_key created_ms db) else Err Sqlite)"

definition verify_read_only :: "sha \<Rightarrow> bool \<Rightarrow> string \<Rightarrow> token_table \<Rightarrow> token_error + token_record" where
  "verify_read_only sha io presented db =
     (case parse_token presented of
        None \<Rightarrow> Err Malformed
      | Some secret \<Rightarrow>
          if \<not> io then Err Sqlite
          else case find (\<lambda>r. tok_hash r = sha secret) db of
              None \<Rightarrow> Err Unknown
            | Some r \<Rightarrow> if revoked_ms r \<noteq> None then Err Revoked else Ok r)"

definition touch_last_used :: "bool \<Rightarrow> int \<Rightarrow> string \<Rightarrow> token_table \<Rightarrow> token_table" where
  "touch_last_used io now i db =
     (if io then map (\<lambda>r. if tok_id r = i then r\<lparr>last_used_ms := Some now\<rparr> else r) db else db)"

definition verify ::
  "sha \<Rightarrow> bool \<Rightarrow> bool \<Rightarrow> int \<Rightarrow> string \<Rightarrow> token_table \<Rightarrow> token_table \<times> (token_error + token_record)" where
  "verify sha io io_touch now presented db =
     (case verify_read_only sha io presented db of
        Inl e \<Rightarrow> (db, Err e)
      | Inr r \<Rightarrow> (touch_last_used io_touch now (tok_id r) db, Ok (r\<lparr>last_used_ms := Some now\<rparr>)))"

definition revoke :: "bool \<Rightarrow> int \<Rightarrow> string \<Rightarrow> token_table \<Rightarrow> token_table \<times> (token_error + bool)" where
  "revoke io now i db =
     (if \<not> io then (db, Err Sqlite)
      else (map (\<lambda>r. if tok_id r = i \<and> revoked_ms r = None then r\<lparr>revoked_ms := Some now\<rparr> else r) db,
            Ok (\<exists>r \<in> set db. tok_id r = i \<and> revoked_ms r = None)))"

definition count_tokens :: "bool \<Rightarrow> token_table \<Rightarrow> token_error + nat" where
  "count_tokens io db = (if io then Ok (length db) else Err Sqlite)"

definition create_if_empty ::
  "sha \<Rightarrow> bool \<Rightarrow> 8 word list \<Rightarrow> int \<Rightarrow> string \<Rightarrow> string \<Rightarrow> token_table
     \<Rightarrow> token_table \<times> (token_error + issued_token option)" where
  "create_if_empty sha io secret now label scope db =
     (if \<not> io then (db, Err Sqlite)
      else if length db > 0 then (db, Ok None)
      else (let r = new_token sha secret now label scope in
            case insert_token r db of
              None \<Rightarrow> (db, Err Sqlite)
            | Some db' \<Rightarrow> (db', Ok (Some \<lparr>issued_id = tok_id r, plaintext = format_token secret\<rparr>))))"

section \<open>The text of a token\<close>

lemma parse_token_iff: "parse_token s = Some secret \<longleftrightarrow> s = format_token secret \<and> length secret = 32"
  by (auto simp: parse_token_def format_token_def strip_prefix_Some_iff b64_decode_iff
      split: option.splits)

lemma format_token_inj: "format_token a = format_token b \<Longrightarrow> a = b"
  by (simp add: format_token_def)

section \<open>The table\<close>

lemma find_key: "distinct (map f db) \<Longrightarrow> r \<in> set db \<Longrightarrow> find (\<lambda>x. f x = f r) db = Some r"
  by (induction db) auto

lemma find_key_Some: "find (\<lambda>x. f x = k) db = Some r \<Longrightarrow> r \<in> set db \<and> f r = k"
  by (auto simp: find_Some_iff)

lemma insert_token_wf [inv_intros]: "token_wf db \<Longrightarrow> insert_token r db = Some db' \<Longrightarrow> token_wf db'"
  by (auto simp: insert_token_def token_wf_def split: if_splits)

text \<open>Verification succeeds exactly for the text of a secret whose live row is stored.\<close>

lemma verify_read_only_Ok:
  assumes "token_wf db"
  shows "verify_read_only sha io s db = Ok r \<longleftrightarrow>
    io \<and> r \<in> set db \<and> revoked_ms r = None \<and> (\<exists>secret. length secret = 32 \<and> s = format_token secret \<and> tok_hash r = sha secret)"
  (is "?L \<longleftrightarrow> ?R")
proof
  assume ?L
  then show ?R
    by (auto simp: verify_read_only_def parse_token_iff dest!: find_key_Some
        split: option.splits if_splits)
next
  assume ?R
  then obtain secret where s: "parse_token s = Some secret" "tok_hash r = sha secret" and r: "r \<in> set db"
      "revoked_ms r = None" "io"
    by (auto simp: parse_token_iff)
  have "find (\<lambda>x. tok_hash x = sha secret) db = Some r"
    using find_key [of tok_hash db r] r assms s by (simp add: token_wf_def)
  with s r show ?L by (simp add: verify_read_only_def)
qed

section \<open>Runs of the store\<close>

datatype token_op =
    Create bool "8 word list" int string string
  | CreateIfEmpty bool "8 word list" int string string
  | Verify bool bool int string
  | Touch bool int string
  | Revoke bool int string

fun token_step :: "sha \<Rightarrow> token_op \<Rightarrow> token_table \<Rightarrow> token_table" where
  "token_step sha (Create io secret now label scope) db = fst (create_token sha io secret now label scope db)"
| "token_step sha (CreateIfEmpty io secret now label scope) db =
     fst (create_if_empty sha io secret now label scope db)"
| "token_step sha (Verify io io' now s) db = fst (verify sha io io' now s db)"
| "token_step sha (Touch io now i) db = touch_last_used io now i db"
| "token_step sha (Revoke io now i) db = fst (revoke io now i db)"

definition token_run :: "sha \<Rightarrow> token_op list \<Rightarrow> token_table \<Rightarrow> token_table" where
  "token_run sha ops db = fold (token_step sha) ops db"

lemma map_rows_wf: "(\<And>r. tok_id (f r) = tok_id r \<and> tok_hash (f r) = tok_hash r) \<Longrightarrow> token_wf (map f db) = token_wf db"
  by (simp add: token_wf_def comp_def)

lemma touch_wf [simp]: "token_wf (touch_last_used io now i db) = token_wf db"
  by (simp add: touch_last_used_def map_rows_wf)

lemma revoke_wf [simp]: "token_wf (fst (revoke io now i db)) = token_wf db"
  by (simp add: revoke_def map_rows_wf)

lemma token_step_wf [inv_intros]: "token_wf db \<Longrightarrow> token_wf (token_step sha op db)"
  by (cases op)
    (auto simp: create_token_def create_if_empty_def verify_def Let_def insert_token_wf
      split: option.splits sum.splits)

lemma token_run_wf [inv_intros]: "token_wf db \<Longrightarrow> token_wf (token_run sha ops db)"
  unfolding token_run_def by (induction ops arbitrary: db) (simp_all add: token_step_wf)

text \<open>Rows are never removed, and revocation is final.\<close>

definition later_row :: "token_record \<Rightarrow> token_record \<Rightarrow> bool" where
  "later_row r r' = (tok_id r' = tok_id r \<and> tok_hash r' = tok_hash r \<and> scope_json r' = scope_json r
     \<and> (revoked_ms r \<noteq> None \<longrightarrow> revoked_ms r' = revoked_ms r))"

lemma later_row_refl [simp]: "later_row r r"
  by (simp add: later_row_def)

lemma map_later: "r \<in> set db \<Longrightarrow> later_row r (f r) \<Longrightarrow> \<exists>r' \<in> set (map f db). later_row r r'"
  by (metis image_eqI list.set_map)

lemma same_later: "r \<in> set db \<Longrightarrow> set db \<subseteq> set db' \<Longrightarrow> \<exists>r' \<in> set db'. later_row r r'"
  using later_row_refl by blast

lemma touch_later: "r \<in> set db \<Longrightarrow> \<exists>r' \<in> set (touch_last_used io now i db). later_row r r'"
proof (cases io)
  case True
  assume "r \<in> set db"
  then show ?thesis unfolding touch_last_used_def if_P [OF True]
    by (rule map_later) (simp add: later_row_def)
qed (simp add: touch_last_used_def same_later)

lemma revoke_later: "r \<in> set db \<Longrightarrow> \<exists>r' \<in> set (fst (revoke io now i db)). later_row r r'"
proof (cases io)
  case True
  assume "r \<in> set db"
  then have "\<exists>r' \<in> set (map (\<lambda>r. if tok_id r = i \<and> revoked_ms r = None then r\<lparr>revoked_ms := Some now\<rparr> else r) db).
      later_row r r'"
    by (rule map_later) (simp add: later_row_def)
  with True show ?thesis by (simp only: revoke_def not_True_eq_False if_False fst_conv)
qed (simp add: revoke_def same_later)

lemma insert_later: "insert_token r0 db = Some db' \<Longrightarrow> set db \<subseteq> set db'"
  by (auto simp: insert_token_def split: if_splits)

lemma token_step_later:
  assumes "r \<in> set db"
  shows "\<exists>r' \<in> set (token_step sha op db). later_row r r'"
proof (cases op)
  case (Verify io io' now s)
  with assms show ?thesis
    by (cases "verify_read_only sha io s db") (simp_all add: verify_def touch_later same_later)
next
  case (Create io secret now label scope)
  have "set db \<subseteq> set (token_step sha op db)"
    by (simp add: Create create_token_def Let_def insert_later split: option.splits)
  with assms show ?thesis by (rule same_later)
next
  case (CreateIfEmpty io secret now label scope)
  have "set db \<subseteq> set (token_step sha op db)"
    by (simp add: CreateIfEmpty create_if_empty_def Let_def insert_later split: option.splits)
  with assms show ?thesis by (rule same_later)
qed (use assms touch_later revoke_later in simp_all)

lemma token_run_later:
  "r \<in> set db \<Longrightarrow> \<exists>r' \<in> set (token_run sha ops db). later_row r r'"
proof (induction ops arbitrary: r db)
  case Nil
  then show ?case using same_later [of r db db] by (simp add: token_run_def)
next
  case (Cons op ops)
  then obtain r1 where r1: "r1 \<in> set (token_step sha op db)" "later_row r r1"
    using token_step_later by blast
  with Cons.IH obtain r2 where "r2 \<in> set (token_run sha ops (token_step sha op db))" "later_row r1 r2" by blast
  with r1(2) show ?case by (auto simp: token_run_def later_row_def)
qed

section \<open>Properties\<close>

text \<open>
  Claim C36: what a bearer token proves.  The store verifies a presented text exactly when the database answers and the text is the
  canonical rendering of a 32-byte secret whose hash has a live row, and returns that row; an issued token verifies at once.
\<close>

theorem verify_iff:
  assumes "token_wf db"
  shows "(snd (verify sha io io' now s db) = Ok r' \<longleftrightarrow>
      (\<exists>r secret. io \<and> r \<in> set db \<and> revoked_ms r = None \<and> length secret = 32 \<and> s = format_token secret
         \<and> tok_hash r = sha secret \<and> r' = r\<lparr>last_used_ms := Some now\<rparr>))
    \<and> (\<forall>secret label scope t db'. length secret = 32 \<longrightarrow> create_token sha True secret now label scope db = (db', Ok t) \<longrightarrow>
         (\<exists>r. snd (verify sha True io' now (plaintext t) db') = Ok r \<and> tok_id r = issued_id t \<and> scope_json r = scope))"
proof (intro conjI allI impI)
  show "snd (verify sha io io' now s db) = Ok r' \<longleftrightarrow>
      (\<exists>r secret. io \<and> r \<in> set db \<and> revoked_ms r = None \<and> length secret = 32 \<and> s = format_token secret
         \<and> tok_hash r = sha secret \<and> r' = r\<lparr>last_used_ms := Some now\<rparr>)"
  proof -
    have "snd (verify sha io io' now s db) = Ok r' \<longleftrightarrow>
        (\<exists>r. verify_read_only sha io s db = Ok r \<and> r' = r\<lparr>last_used_ms := Some now\<rparr>)"
      by (auto simp: verify_def split: sum.splits)
    then show ?thesis unfolding verify_read_only_Ok [OF assms] by blast
  qed
next
  fix secret label scope t db'
  let ?r = "new_token sha secret now label scope"
  assume len: "length secret = 32" and new: "create_token sha True secret now label scope db = (db', Ok t)"
  then have ins: "insert_token ?r db = Some db'" and t: "t = \<lparr>issued_id = tok_id ?r, plaintext = format_token secret\<rparr>"
    by (auto simp: create_token_def Let_def split: option.splits)
  have "?r \<in> set db'" using ins by (auto simp: insert_token_def split: if_splits)
  then have "verify_read_only sha True (plaintext t) db' = Ok ?r"
    using len t verify_read_only_Ok [OF insert_token_wf [OF assms ins]] by (auto simp: new_token_def)
  then show "\<exists>r. snd (verify sha True io' now (plaintext t) db') = Ok r \<and> tok_id r = issued_id t \<and> scope_json r = scope"
    by (simp add: verify_def t new_token_def)
qed

text \<open>
  Claim C6: revocation is final.  Once a successful \<^verbatim>\<open>revoke\<close> has found a live token, its text is refused by every later
  verification, whatever operations run in between and whatever fails.
\<close>

theorem revoked_stays_refused:
  assumes "token_wf db" and "r \<in> set db" and "tok_hash r = sha secret"
    and "revoke True now (tok_id r) db = (db', Ok b)"
  shows "verify_read_only sha io (format_token secret) (token_run sha ops db') \<noteq> Ok r'"
proof
  let ?last = "token_run sha ops db'"
  assume ok: "verify_read_only sha io (format_token secret) ?last = Ok r'"
  from assms(4) have db': "db' = fst (revoke True now (tok_id r) db)" by simp
  with assms(1) have wf: "token_wf ?last" by (simp add: token_run_wf)
  have "\<exists>r1 \<in> set db'. tok_hash r1 = sha secret \<and> revoked_ms r1 \<noteq> None"
    unfolding db' using assms(2,3)
    by (intro bexI [of _ "if revoked_ms r = None then r\<lparr>revoked_ms := Some now\<rparr> else r"])
      (auto simp: revoke_def)
  then obtain r1 where "r1 \<in> set db'" and r1: "tok_hash r1 = sha secret" "revoked_ms r1 \<noteq> None" by blast
  then obtain r2 where r2: "r2 \<in> set ?last" "later_row r1 r2" using token_run_later by blast
  from ok wf have live: "r' \<in> set ?last" "revoked_ms r' = None" "tok_hash r' = sha secret"
    by (auto simp: verify_read_only_Ok dest: format_token_inj)
  with r2 r1 have "tok_hash r' = tok_hash r2" by (simp add: later_row_def)
  moreover have "inj_on tok_hash (set ?last)" using wf by (simp add: token_wf_def distinct_map)
  ultimately have "r' = r2" using live(1) r2(1) by (simp add: inj_on_def)
  with live(2) r1 r2 show False by (auto simp: later_row_def)
qed

text \<open>
  The bootstrap token is issued once.  If \<^verbatim>\<open>create_if_empty\<close> issued a token, no later call does, whatever ran in between.
\<close>

theorem bootstrap_once:
  assumes "create_if_empty sha io secret now label scope db = (db', Ok (Some t))"
  shows "\<nexists>db'' t'. create_if_empty sha io' secret' now' label' scope' (token_run sha ops db') = (db'', Ok (Some t'))"
proof -
  from assms obtain r where "r \<in> set db'"
    by (auto simp: create_if_empty_def insert_token_def Let_def split: if_splits)
  then obtain r' where "r' \<in> set (token_run sha ops db')" using token_run_later by blast
  then have "token_run sha ops db' \<noteq> []" by auto
  then show ?thesis by (auto simp: create_if_empty_def)
qed

section \<open>Witnesses\<close>

definition sample_secret :: "8 word list" where
  "sample_secret = replicate 32 7"

definition sample_row :: token_record where
  "sample_row = new_token (\<lambda>x. x) sample_secret 5 ''cli'' ''[]''"

lemma sample_wf: "token_wf [sample_row]"
  by (simp add: token_wf_def)

theorem verify_iff_witness:
  "snd (verify (\<lambda>x. x) True True 9 (format_token sample_secret) [sample_row])
     = Ok (sample_row\<lparr>last_used_ms := Some 9\<rparr>)"
  using verify_iff [OF sample_wf, of "\<lambda>x. x" True True 9 "format_token sample_secret" "sample_row\<lparr>last_used_ms := Some 9\<rparr>"]
  by (auto simp: sample_row_def new_token_def sample_secret_def)

theorem revoked_stays_refused_witness:
  "\<exists>db'. revoke True 9 (tok_id sample_row) [sample_row] = (db', Ok True)
     \<and> verify_read_only (\<lambda>x. x) True (format_token sample_secret)
          (token_run (\<lambda>x. x) [Touch True 10 (tok_id sample_row)] db') \<noteq> Ok sample_row"
proof -
  have "revoke True 9 (tok_id sample_row) [sample_row] = ([sample_row\<lparr>revoked_ms := Some 9\<rparr>], Ok True)"
    by (simp add: revoke_def sample_row_def new_token_def)
  moreover have "tok_hash sample_row = sample_secret" by (simp add: sample_row_def new_token_def)
  ultimately show ?thesis
    using revoked_stays_refused [OF sample_wf, of sample_row "\<lambda>x. x" sample_secret] by fastforce
qed

theorem bootstrap_once_witness:
  "\<exists>db' t. create_if_empty (\<lambda>x. x) True sample_secret 1 ''a'' ''[]'' [] = (db', Ok (Some t))
     \<and> \<not> (\<exists>db'' t'. create_if_empty (\<lambda>x. x) True sample_secret 2 ''b'' ''[]''
            (token_run (\<lambda>x. x) [Revoke True 2 (issued_id t)] db') = (db'', Ok (Some t')))"
proof -
  obtain db' t where c: "create_if_empty (\<lambda>x. x) True sample_secret 1 ''a'' ''[]'' [] = (db', Ok (Some t))"
    by (simp add: create_if_empty_def insert_token_def Let_def)
  with bootstrap_once [OF c] show ?thesis by blast
qed

end
