(* ===== verification/Audit_Log.thy ===== *)
theory Audit_Log
  imports Numerals "HOL-Library.Product_Lexorder"
begin

text \<open>
  \<^verbatim>\<open>crates/oxidhome-core/src/state/audit_log.rs\<close>: the audit ledger.  The table \<^verbatim>\<open>audit_event\<close> is the list of its rows in
  insertion order; \<^verbatim>\<open>id\<close> is its integer primary key, which SQLite sets to one more than the largest in use.  The
  clock is an argument, and so is the outcome of each database call (\<open>io\<close>).
\<close>

section \<open>State\<close>

record audit_entry =
  audit_id :: nat
  intent_ms :: int
  finalized_ms :: "int option"
  audit_token :: string
  audit_kind :: string
  audit_method :: string
  audit_path :: string
  audit_status :: nat
  decision :: string
  required_scope :: "string option"
  execution_outcome :: "string option"
  domain_error :: "string option"
  credential_fp :: "string option"

record audit_query =
  since_ms :: "int option"
  until_ms :: "int option"
  by_token :: "string option"
  by_decision :: "string option"
  by_path :: "string option"
  before :: "(int \<times> nat) option"
  exclude_id :: "nat option"

datatype audit_error = AuditSql | AuditNotFound nat

type_synonym audit_table = "audit_entry list"

definition next_rowid :: "audit_table \<Rightarrow> nat" where
  "next_rowid db = fold max (map audit_id db) 0 + 1"

definition audit_wf :: "audit_table \<Rightarrow> bool" where
  "audit_wf db = (distinct (map audit_id db) \<and> (\<forall>e \<in> set db. audit_id e < 2 ^ 63))"

section \<open>Writes\<close>

definition record_intent :: "bool \<Rightarrow> int \<Rightarrow> audit_entry \<Rightarrow> audit_table \<Rightarrow> audit_table \<times> (audit_error + nat)" where
  "record_intent io now entry db =
     (if \<not> io then (db, Err AuditSql)
      else (db @ [entry\<lparr>audit_id := next_rowid db, intent_ms := now, finalized_ms := None, audit_status := 0,
              decision := ''pending'', required_scope := None, execution_outcome := None, domain_error := None\<rparr>],
            Ok (next_rowid db)))"

definition finalize ::
  "bool \<Rightarrow> int \<Rightarrow> nat \<Rightarrow> nat \<Rightarrow> string \<Rightarrow> string option \<Rightarrow> string option \<Rightarrow> string option \<Rightarrow> audit_table
     \<Rightarrow> audit_table \<times> (audit_error + unit)" where
  "finalize io now i status dec scope outcome derr db =
     (if \<not> io then (db, Err AuditSql)
      else (map (\<lambda>e. if audit_id e = i
                     then e\<lparr>finalized_ms := Some now, audit_status := status, decision := dec, required_scope := scope,
                            execution_outcome := outcome, domain_error := derr\<rparr>
                     else e) db,
            if \<exists>e \<in> set db. audit_id e = i then Ok () else Err (AuditNotFound i)))"

definition record_completed :: "bool \<Rightarrow> int \<Rightarrow> audit_entry \<Rightarrow> audit_table \<Rightarrow> audit_table \<times> (audit_error + nat)" where
  "record_completed io now entry db =
     (if \<not> io then (db, Err AuditSql)
      else (db @ [entry\<lparr>audit_id := next_rowid db, intent_ms := now, finalized_ms := Some now\<rparr>], Ok (next_rowid db)))"

section \<open>Reads\<close>

text \<open>\<^verbatim>\<open>as i64\<close> on a \<^verbatim>\<open>u64\<close>.\<close>

definition as_i64 :: "nat \<Rightarrow> int" where
  "as_i64 n = (if n < 2 ^ 63 then int n else int n - 2 ^ 64)"

definition holds_opt :: "('a \<Rightarrow> bool) \<Rightarrow> 'a option \<Rightarrow> bool" where
  "holds_opt p x = (case x of None \<Rightarrow> True | Some v \<Rightarrow> p v)"

definition row_key :: "audit_entry \<Rightarrow> int \<times> int" where
  "row_key e = (intent_ms e, int (audit_id e))"

definition matches :: "audit_query \<Rightarrow> audit_entry \<Rightarrow> bool" where
  "matches q e =
     (holds_opt (\<lambda>t. t \<le> intent_ms e) (since_ms q)
      \<and> holds_opt (\<lambda>t. intent_ms e \<le> t) (until_ms q)
      \<and> holds_opt (\<lambda>t. audit_token e = t) (by_token q)
      \<and> holds_opt (\<lambda>d. decision e = d) (by_decision q)
      \<and> holds_opt (\<lambda>p. audit_path e = p) (by_path q)
      \<and> holds_opt (\<lambda>(ms, i). row_key e < (ms, as_i64 i)) (before q)
      \<and> holds_opt (\<lambda>i. int (audit_id e) \<noteq> as_i64 i) (exclude_id q))"

text \<open>A negative \<^verbatim>\<open>LIMIT\<close>, which a limit of at least \<open>2 ^ 63\<close> becomes, is none.\<close>

definition sql_limit :: "nat \<Rightarrow> 'a list \<Rightarrow> 'a list" where
  "sql_limit n xs = (if as_i64 n < 0 then xs else take n xs)"

definition query :: "bool \<Rightarrow> audit_query \<Rightarrow> nat \<Rightarrow> audit_table \<Rightarrow> audit_error + audit_entry list" where
  "query io q limit db =
     (if \<not> io then Err AuditSql
      else Ok (sql_limit limit (rev (sort_key row_key (filter (matches q) db)))))"

definition count_rows :: "bool \<Rightarrow> audit_table \<Rightarrow> audit_error + nat" where
  "count_rows io db = (if io then Ok (length db) else Err AuditSql)"

text \<open>The first four bytes of the digest, in hexadecimal.\<close>

definition credential_fingerprint :: "(string \<Rightarrow> 8 word list) \<Rightarrow> string \<Rightarrow> string" where
  "credential_fingerprint digest bearer = hex_bytes (take 4 (digest bearer))"

section \<open>Row ids\<close>

lemma next_rowid_fresh: "e \<in> set db \<Longrightarrow> audit_id e < next_rowid db"
  unfolding next_rowid_def using fold_max_ge [of "audit_id e" "map audit_id db" 0] by simp

lemma finalize_ids: "map audit_id (fst (finalize io now i st dec sc oc de db)) = map audit_id db"
  by (simp add: finalize_def)

lemma distinct_new_row:
  "distinct (map audit_id db) \<Longrightarrow> audit_id e = next_rowid db \<Longrightarrow> distinct (map audit_id (db @ [e]))"
  using next_rowid_fresh by (fastforce simp: image_iff)

section \<open>Pages\<close>

text \<open>The rows a filter selects, newest first.\<close>

definition selected :: "audit_query \<Rightarrow> audit_table \<Rightarrow> audit_entry list" where
  "selected q db = rev (sort_key row_key (filter (matches q) db))"

lemma set_selected: "set (selected q db) = {e \<in> set db. matches q e}"
  by (simp add: selected_def)

lemma row_key_inj: "distinct (map audit_id db) \<Longrightarrow> inj_on row_key (set db)"
  by (auto simp: row_key_def distinct_map inj_on_def)

lemma selected_sorted:
  assumes "distinct (map audit_id db)"
  shows "sorted_wrt (\<lambda>e f. row_key f < row_key e) (selected q db)"
proof -
  let ?s = "sort_key row_key (filter (matches q) db)"
  have "distinct (map row_key ?s)"
    using assms row_key_inj [OF assms] by (auto simp: distinct_map intro: inj_on_subset)
  moreover have "sorted (map row_key ?s)" by simp
  ultimately have "sorted_wrt (<) (map row_key ?s)" by (simp add: strict_sorted_iff)
  then show ?thesis unfolding selected_def sorted_wrt_rev by (simp add: sorted_wrt_map)
qed

lemma sorted_wrt_unique:
  fixes key :: "'a \<Rightarrow> 'k :: linorder"
  assumes "sorted_wrt (\<lambda>e f. key f < key e) xs" and "sorted_wrt (\<lambda>e f. key f < key e) ys" and "set xs = set ys"
  shows "xs = ys"
proof -
  have "sorted_wrt (<) (map key (rev xs))" "sorted_wrt (<) (map key (rev ys))"
    using assms(1,2) by (simp_all add: sorted_wrt_map sorted_wrt_rev)
  then have s: "sorted (map key (rev xs))" "sorted (map key (rev ys))"
      and d: "distinct (map key (rev xs))" "distinct (map key (rev ys))"
    by (simp_all only: strict_sorted_iff)
  have "inj_on key (set xs)" using d(1) by (simp add: distinct_map)
  then have "rev xs = rev ys"
    using s d assms(3) by (intro map_sorted_distinct_set_unique [of key]) (simp_all add: distinct_map)
  then show ?thesis by simp
qed

text \<open>A cursor at the last row of a page selects the rest.\<close>

lemma selected_before:
  assumes wf: "audit_wf db" and none: "before q = None"
    and split: "selected q db = page @ [e] @ rest"
  shows "selected (q\<lparr>before := Some (intent_ms e, audit_id e)\<rparr>) db = rest"
proof (rule sorted_wrt_unique [of row_key])
  have d: "distinct (map audit_id db)" using wf by (simp add: audit_wf_def)
  let ?q = "q\<lparr>before := Some (intent_ms e, audit_id e)\<rparr>"
  show "sorted_wrt (\<lambda>e f. row_key f < row_key e) (selected ?q db)" by (rule selected_sorted [OF d])
  have s: "sorted_wrt (\<lambda>e f. row_key f < row_key e) (page @ [e] @ rest)"
    using selected_sorted [OF d, of q] split by simp
  then show "sorted_wrt (\<lambda>e f. row_key f < row_key e) rest" by (simp add: sorted_wrt_append)
  have e: "e \<in> set db" using split set_selected [of q db] by auto
  have key: "(intent_ms e, as_i64 (audit_id e)) = row_key e"
    using wf e by (simp add: audit_wf_def as_i64_def row_key_def)
  have "f \<in> set rest \<longleftrightarrow> f \<in> set db \<and> matches q f \<and> row_key f < row_key e" for f
  proof -
    have "f \<in> set db \<and> matches q f \<longleftrightarrow> f \<in> set page \<or> f = e \<or> f \<in> set rest"
      using set_selected [of q db] split by auto
    then show ?thesis using s by (auto simp: sorted_wrt_append)
  qed
  moreover have "matches ?q f \<longleftrightarrow> matches q f \<and> row_key f < row_key e" for f
    using key none by (auto simp: matches_def holds_opt_def)
  ultimately show "set (selected ?q db) = set rest" by (auto simp: set_selected)
qed

section \<open>Properties\<close>

text \<open>
  Keyset paging of the ledger.  With ids and limit in the range of \<^verbatim>\<open>i64\<close>, a query returns the newest
  matching rows, and asking again with the cursor at the last row of a full page returns exactly the rows that follow: page
  after page, the matching rows appear newest first, none skipped or repeated, and a short page is the last.
\<close>

theorem audit_paging:
  assumes "audit_wf db" and "before q = None" and "0 < n" and "n < 2 ^ 63"
    and "query True q n db = Ok page" and "length page = n"
    and "query True (q\<lparr>before := Some (intent_ms (last page), audit_id (last page))\<rparr>) n db = Ok page'"
  shows "\<exists>rest. sorted_wrt (\<lambda>e f. row_key f < row_key e) (page @ page' @ rest)
      \<and> distinct (page @ page' @ rest)
      \<and> set (page @ page' @ rest) = {e \<in> set db. matches q e}
      \<and> length page' \<le> n \<and> (length page' < n \<longrightarrow> rest = [])"
proof -
  have pos: "\<not> as_i64 n < 0" using assms(4) by (simp add: as_i64_def)
  let ?all = "selected q db" and ?tail = "drop n (selected q db)"
  have page: "page = take n ?all" using assms(5) pos by (simp add: query_def sql_limit_def selected_def)
  then have "page \<noteq> []" using assms(3,6) by auto
  then have "?all = butlast page @ [last page] @ ?tail"
    using page by (metis append.assoc append_butlast_last_id append_take_drop_id)
  then have "selected (q\<lparr>before := Some (intent_ms (last page), audit_id (last page))\<rparr>) db = ?tail"
    by (rule selected_before [OF assms(1,2)])
  then have page': "page' = take n ?tail" using assms(7) pos by (simp add: query_def sql_limit_def selected_def)
  have all: "page @ page' @ drop n ?tail = ?all" by (simp only: page page' append_take_drop_id)
  have d: "distinct (map audit_id db)" using assms(1) by (simp add: audit_wf_def)
  have "distinct ?all"
    using d unfolding selected_def by (simp add: distinct_map)
  moreover have "length page' < n \<longrightarrow> drop n ?tail = []" by (auto simp: page')
  moreover have "length page' \<le> n" by (simp add: page')
  ultimately show ?thesis
    using selected_sorted [OF d, of q] set_selected [of q db]
    by (intro exI [of _ "drop n ?tail"]) (simp only: all simp_thms)
qed

definition sample_entry :: "nat \<Rightarrow> int \<Rightarrow> audit_entry" where
  "sample_entry i ms = \<lparr>audit_id = i, intent_ms = ms, finalized_ms = None, audit_token = ''t'', audit_kind = ''api'',
     audit_method = ''GET'', audit_path = ''/'', audit_status = 0, decision = ''pending'', required_scope = None,
     execution_outcome = None, domain_error = None, credential_fp = None\<rparr>"

definition no_filter :: audit_query where
  "no_filter = \<lparr>since_ms = None, until_ms = None, by_token = None, by_decision = None, by_path = None,
     before = None, exclude_id = None\<rparr>"

lemmas query_eval = query_def sql_limit_def as_i64_def matches_def holds_opt_def no_filter_def sample_entry_def row_key_def

theorem audit_paging_witness:
  "\<exists>rest. set ([sample_entry 3 9, sample_entry 2 5] @ [sample_entry 1 5] @ rest)
     = {e \<in> {sample_entry 1 5, sample_entry 2 5, sample_entry 3 9}. matches no_filter e}"
proof -
  let ?db = "[sample_entry 1 5, sample_entry 2 5, sample_entry 3 9]"
    and ?p = "[sample_entry 3 9, sample_entry 2 5]"
  have wf: "audit_wf ?db" by (simp add: audit_wf_def sample_entry_def)
  have bef: "before no_filter = None" by (simp add: no_filter_def)
  have q1: "query True no_filter 2 ?db = Ok ?p"
    by (simp add: query_eval)
  have q2: "query True (no_filter\<lparr>before := Some (intent_ms (last ?p), audit_id (last ?p))\<rparr>) 2 ?db = Ok [sample_entry 1 5]"
    by (simp add: query_eval)
  have "0 < (2 :: nat)" "(2 :: nat) < 2 ^ 63" "length ?p = 2" by simp_all
  from audit_paging [OF wf bef this(1,2) q1 this(3) q2] obtain rest where
      r: "set (?p @ [sample_entry 1 5] @ rest) = {e \<in> set ?db. matches no_filter e}" by blast
  have "set ?db = {sample_entry 1 5, sample_entry 2 5, sample_entry 3 9}" by simp
  from r [unfolded this] show ?thesis by (rule exI)
qed

end
