(* ===== verification/Auth_Policy.thy ===== *)
theory Auth_Policy
  imports Maps
begin

text \<open>
  What a verified token may do: actors (\<^verbatim>\<open>crates/oxidhome-core/src/auth.rs\<close>), the token policy and its per-tool
  constraints (\<^verbatim>\<open>auth/policy.rs\<close>), the scope check (\<^verbatim>\<open>api/scopes.rs\<close>), and the refusal of constraints a
  transport does not enforce (\<^verbatim>\<open>api/auth.rs\<close>).  The JSON parser of \<^verbatim>\<open>serde_json\<close> is the parameter
  \<open>read_json\<close>; an object is the list of its members in document order, repeated keys included.
\<close>

section \<open>Actors\<close>

datatype actor_kind = PluginActor | ApiActor | CliActor | McpActor | AutomationActor

fun actor_kind_str :: "actor_kind \<Rightarrow> string" where
  "actor_kind_str PluginActor = ''plugin''"
| "actor_kind_str ApiActor = ''api''"
| "actor_kind_str CliActor = ''cli''"
| "actor_kind_str McpActor = ''mcp''"
| "actor_kind_str AutomationActor = ''automation''"

record tool_constraint =
  devices :: "string list option"
  plugins :: "string list option"

record token_policy =
  policy_scopes :: "string list"
  policy_constraints :: "(string, tool_constraint) hmap"

record actor =
  actor_kind :: actor_kind
  actor_id :: string
  scopes :: "string list"
  constraints :: "(string, tool_constraint) hmap"

definition plugin_actor :: "string \<Rightarrow> actor" where
  "plugin_actor i = \<lparr>actor_kind = PluginActor, actor_id = i, scopes = [], constraints = []\<rparr>"

definition api_with_policy :: "string \<Rightarrow> string list \<Rightarrow> (string, tool_constraint) hmap \<Rightarrow> actor" where
  "api_with_policy i sc cs = \<lparr>actor_kind = ApiActor, actor_id = i, scopes = sc, constraints = cs\<rparr>"

definition api_actor :: "string \<Rightarrow> string list \<Rightarrow> actor" where
  "api_actor i sc = api_with_policy i sc []"

definition constraint :: "actor \<Rightarrow> string \<Rightarrow> tool_constraint option" where
  "constraint a tool = map_of (constraints a) tool"

definition is_constrained :: "actor \<Rightarrow> bool" where
  "is_constrained a = (constraints a \<noteq> [])"

definition constraint_keys :: "actor \<Rightarrow> string list" where
  "constraint_keys a = map fst (constraints a)"

section \<open>Patterns\<close>

definition match_pattern :: "string \<Rightarrow> string \<Rightarrow> bool" where
  "match_pattern pattern i =
     (case strip_suffix ''*'' pattern of
        Some prefix \<Rightarrow> starts_with prefix i
      | None \<Rightarrow> pattern = i)"

definition allows :: "string list option \<Rightarrow> string \<Rightarrow> bool" where
  "allows patterns i =
     (case patterns of None \<Rightarrow> True | Some ps \<Rightarrow> list_ex (\<lambda>p. match_pattern p i) ps)"

definition allows_device :: "tool_constraint \<Rightarrow> string \<Rightarrow> bool" where
  "allows_device c i = allows (devices c) i"

definition allows_plugin :: "tool_constraint \<Rightarrow> string \<Rightarrow> bool" where
  "allows_plugin c i = allows (plugins c) i"

section \<open>Scopes\<close>

definition satisfied_by :: "string \<Rightarrow> string list \<Rightarrow> bool" where
  "satisfied_by scope authorized = list_ex (\<lambda>s. s = ''*'' \<or> s = scope) authorized"

definition require_scope :: "actor \<Rightarrow> string \<Rightarrow> string + unit" where
  "require_scope a required = (if satisfied_by required (scopes a) then Ok () else Err required)"

section \<open>Reading a policy\<close>

datatype (plugins only: code) json =
    JNull
  | JBool bool
  | JNumber string
  | JString string
  | JArray "json list"
  | JObject "(string \<times> json) list"

fun json_strings :: "json list \<Rightarrow> string list option" where
  "json_strings [] = Some []"
| "json_strings (JString s # js) = map_option ((#) s) (json_strings js)"
| "json_strings (_ # js) = None"

text \<open>\<^verbatim>\<open>Vec<String>\<close> and \<^verbatim>\<open>Option<Vec<String>>\<close>.\<close>

fun read_strings :: "json \<Rightarrow> string list option" where
  "read_strings (JArray js) = json_strings js"
| "read_strings _ = None"

definition read_opt_strings :: "json \<Rightarrow> string list option option" where
  "read_opt_strings j = (if j = JNull then Some None else map_option Some (read_strings j))"

text \<open>
  A derived struct reader takes an object, each field at most once and no unknown one, or an array of the fields in
  order; a field with a default may be missing.
\<close>

definition read_tool_constraint :: "json \<Rightarrow> tool_constraint option" where
  "read_tool_constraint j =
     (let field = (\<lambda>x. case x of None \<Rightarrow> Some None | Some v \<Rightarrow> read_opt_strings v);
          build = (\<lambda>d p. case (field d, field p) of
             (Some ds, Some ps) \<Rightarrow> Some \<lparr>devices = ds, plugins = ps\<rparr>
           | _ \<Rightarrow> None)
      in case j of
           JObject ms \<Rightarrow>
             if distinct (map fst ms) \<and> set (map fst ms) \<subseteq> {''devices'', ''plugins''}
             then build (map_of ms ''devices'') (map_of ms ''plugins'') else None
         | JArray [] \<Rightarrow> build None None
         | JArray [d] \<Rightarrow> build (Some d) None
         | JArray [d, p] \<Rightarrow> build (Some d) (Some p)
         | _ \<Rightarrow> None)"

fun visit_map :: "(string, tool_constraint) hmap \<Rightarrow> (string \<times> json) list \<Rightarrow> (string, tool_constraint) hmap option" where
  "visit_map m [] = Some m"
| "visit_map m ((key, v) # ms) =
     (case read_tool_constraint v of
        None \<Rightarrow> None
      | Some c \<Rightarrow> if map_of m key \<noteq> None then None else visit_map (AList.update key c m) ms)"

definition deserialize_unique_map :: "json \<Rightarrow> (string, tool_constraint) hmap option" where
  "deserialize_unique_map j = (case j of JObject ms \<Rightarrow> visit_map [] ms | _ \<Rightarrow> None)"

definition extended_policy :: "json option \<Rightarrow> json option \<Rightarrow> token_policy option" where
  "extended_policy sc cs =
     (case (sc, case cs of None \<Rightarrow> Some [] | Some v \<Rightarrow> deserialize_unique_map v) of
        (Some s, Some m) \<Rightarrow> map_option (\<lambda>ss. \<lparr>policy_scopes = ss, policy_constraints = m\<rparr>) (read_strings s)
      | _ \<Rightarrow> None)"

definition read_extended :: "json \<Rightarrow> token_policy option" where
  "read_extended j =
     (case j of
        JObject ms \<Rightarrow>
          if distinct (map fst ms) \<and> set (map fst ms) \<subseteq> {''scopes'', ''constraints''}
          then extended_policy (map_of ms ''scopes'') (map_of ms ''constraints'') else None
      | JArray [s] \<Rightarrow> extended_policy (Some s) None
      | JArray [s, c] \<Rightarrow> extended_policy (Some s) (Some c)
      | _ \<Rightarrow> None)"

definition parse_policy :: "(string \<Rightarrow> json option) \<Rightarrow> string \<Rightarrow> token_policy option" where
  "parse_policy read_json blob =
     (case read_json blob of
        None \<Rightarrow> None
      | Some j \<Rightarrow>
          (case read_strings j of
             Some ss \<Rightarrow> Some \<lparr>policy_scopes = ss, policy_constraints = []\<rparr>
           | None \<Rightarrow> read_extended j))"

text \<open>An unreadable policy grants nothing (\<^verbatim>\<open>actor_from_record\<close>).\<close>

definition actor_of_policy :: "(string \<Rightarrow> json option) \<Rightarrow> string \<Rightarrow> string \<Rightarrow> actor" where
  "actor_of_policy read_json i blob =
     (case parse_policy read_json blob of
        Some p \<Rightarrow> api_with_policy i (policy_scopes p) (policy_constraints p)
      | None \<Rightarrow> api_with_policy i [] [])"

section \<open>Constraints the transport enforces\<close>

record enforced_constraint =
  enforced_key :: string
  enforce_devices :: bool
  enforce_plugins :: bool

definition first_unenforced_field :: "enforced_constraint \<Rightarrow> tool_constraint \<Rightarrow> string option" where
  "first_unenforced_field e c =
     (if devices c \<noteq> None \<and> \<not> enforce_devices e then Some ''devices''
      else if plugins c \<noteq> None \<and> \<not> enforce_plugins e then Some ''plugins''
      else None)"

text \<open>The keys come from the actor's own map, so the lookup of a key's constraint does not fail.\<close>

datatype constraint_refusal = KeyNotEnforced string | FieldNotEnforced string string

fun audit_sentinel :: "constraint_refusal \<Rightarrow> string" where
  "audit_sentinel (KeyNotEnforced key) = ''<constraint-key-unenforced:'' @ key @ ''>''"
| "audit_sentinel (FieldNotEnforced key field) =
     ''<constraint-field-unenforced:'' @ key @ CHR '':'' # field @ ''>''"

fun refusal_among :: "actor \<Rightarrow> enforced_constraint list \<Rightarrow> string list \<Rightarrow> constraint_refusal option" where
  "refusal_among a enforced [] = None"
| "refusal_among a enforced (key # ks) =
     (case find (\<lambda>e. enforced_key e = key) enforced of
        None \<Rightarrow> Some (KeyNotEnforced key)
      | Some entry \<Rightarrow>
          (case constraint a key of
             None \<Rightarrow> refusal_among a enforced ks
           | Some c \<Rightarrow>
               (case first_unenforced_field entry c of
                  Some field \<Rightarrow> Some (FieldNotEnforced key field)
                | None \<Rightarrow> refusal_among a enforced ks)))"

definition first_constraint_refusal :: "actor \<Rightarrow> enforced_constraint list \<Rightarrow> constraint_refusal option" where
  "first_constraint_refusal a enforced = refusal_among a enforced (constraint_keys a)"

text \<open>What the MCP transport enforces.\<close>

definition mcp_enforced :: "enforced_constraint list" where
  "mcp_enforced =
     \<lparr>enforced_key = ''device.send_command'', enforce_devices = True, enforce_plugins = False\<rparr>
     # map (\<lambda>k. \<lparr>enforced_key = k, enforce_devices = False, enforce_plugins = True\<rparr>)
         [''plugins.show'', ''plugins.stop'', ''plugins.uninstall'', ''plugins.start'', ''plugins.install'']"

section \<open>Lemmas\<close>

lemma match_pattern_iff:
  "match_pattern p i \<longleftrightarrow> (\<exists>pre. p = pre @ ''*'' \<and> starts_with pre i) \<or> (last p \<noteq> CHR ''*'' \<or> p = []) \<and> p = i"
proof (cases "strip_suffix ''*'' p")
  case None
  then have "\<nexists>pre. p = pre @ ''*''" using strip_suffix_Some_iff by fastforce
  moreover from this have "last p \<noteq> CHR ''*'' \<or> p = []" by (metis append_butlast_last_id)
  ultimately show ?thesis using None by (auto simp: match_pattern_def)
next
  case (Some pre)
  then have "p = pre @ ''*''" by (simp add: strip_suffix_Some_iff)
  with Some show ?thesis by (auto simp: match_pattern_def)
qed

lemma visit_map_wf: "visit_map m ms = Some m' \<Longrightarrow> hm_wf m \<Longrightarrow> hm_wf m'"
  by (induction m ms rule: visit_map.induct) (auto simp: hm_wf_put split: option.splits if_splits)

lemma visit_map_iff:
  "hm_wf m \<Longrightarrow> visit_map m ms = Some m' \<Longrightarrow>
     distinct (map fst ms) \<and> fst ` set ms \<inter> fst ` set m = {} \<and>
     (\<forall>k. map_of m' k = (case map_of ms k of Some v \<Rightarrow> read_tool_constraint v | None \<Rightarrow> map_of m k))"
proof (induction m ms rule: visit_map.induct)
  case (2 m key v ms)
  then obtain c where c: "read_tool_constraint v = Some c" "map_of m key = None"
      "visit_map (AList.update key c m) ms = Some m'"
    by (auto split: option.splits if_splits)
  have wf: "hm_wf (AList.update key c m)" using 2(2) by (rule hm_wf_put)
  have new: "\<not> map_of m key \<noteq> None" using c(2) by simp
  note IH = "2.IH" [OF c(1) new wf c(3)]
  have keys: "fst ` set (AList.update key c m) = insert key (fst ` set m)" by (metis dom_map_of_conv_image_fst dom_update insert_is_Un)
  have fresh: "key \<notin> fst ` set ms" "key \<notin> fst ` set m"
    using IH keys c(2) by (auto simp: map_of_eq_None_iff)
  then have none: "map_of ms key = None" by (simp add: map_of_eq_None_iff)
  have "map_of m' k = (case map_of ((key, v) # ms) k of Some v \<Rightarrow> read_tool_constraint v | None \<Rightarrow> map_of m k)" for k
    using IH c(1) none 2(2) by (cases "k = key") (simp_all add: hm.find_put split: option.splits)
  with IH keys fresh show ?case by auto
qed (simp split: option.splits)

lemma parse_policy_wf: "parse_policy read_json blob = Some p \<Longrightarrow> hm_wf (policy_constraints p)"
  by (auto simp: parse_policy_def read_extended_def extended_policy_def deserialize_unique_map_def
      dest!: visit_map_wf split: option.splits if_splits json.splits list.splits)

lemma refusal_among_None_iff:
  "refusal_among a enforced ks = None \<longleftrightarrow>
     (\<forall>k \<in> set ks. \<exists>e. find (\<lambda>e. enforced_key e = k) enforced = Some e
        \<and> (\<forall>c. constraint a k = Some c \<longrightarrow> first_unenforced_field e c = None))"
  by (induction ks) (auto split: option.splits)

section \<open>Properties\<close>

text \<open>
  Patterns of a constraint.  An id is allowed exactly when there is no list, or one of its patterns
  equals the id or ends in a star whose stem the id starts with; an empty list allows nothing.
\<close>

theorem allows_iff:
  "allows ps i \<longleftrightarrow>
     (case ps of
        None \<Rightarrow> True
      | Some l \<Rightarrow> (\<exists>p \<in> set l. (\<exists>stem rest. p = stem @ ''*'' \<and> i = stem @ rest)
                                \<or> (\<nexists>stem. p = stem @ ''*'') \<and> p = i))"
proof -
  have "(p = [] \<or> last p \<noteq> CHR ''*'') \<longleftrightarrow> (\<nexists>stem. p = stem @ ''*'')" for p
    by (cases p rule: rev_cases) auto
  then show ?thesis by (auto simp: allows_def list_ex_iff match_pattern_iff starts_with_iff split: option.splits)
qed

text \<open>
  Claim C37: constraints are never dropped.  An actor read from a stored policy object that passes any scope check carries every
  constraint of the document, under its key; a document that repeats a key gives an actor that passes none.
\<close>

theorem policy_constraints_kept:
  assumes "read_json blob = Some (JObject ms)" and "map_of ms ''constraints'' = Some v"
    and "require_scope (actor_of_policy read_json i blob) s = Ok ()"
  shows "\<exists>cs. v = JObject cs \<and> distinct (map fst ms) \<and> distinct (map fst cs)
    \<and> (\<forall>(k, j) \<in> set cs. \<exists>c. read_tool_constraint j = Some c
          \<and> constraint (actor_of_policy read_json i blob) k = Some c)"
proof -
  have "\<not> satisfied_by s []" by (simp add: satisfied_by_def)
  with assms(3) obtain p where p: "parse_policy read_json blob = Some p"
    by (auto simp: require_scope_def actor_of_policy_def api_with_policy_def split: option.splits if_splits)
  with assms(1,2) obtain m where m: "deserialize_unique_map v = Some m" "policy_constraints p = m" "distinct (map fst ms)"
    by (auto simp: parse_policy_def read_extended_def extended_policy_def split: option.splits if_splits)
  then obtain cs where v: "v = JObject cs" and vm: "visit_map [] cs = Some m"
    by (auto simp: deserialize_unique_map_def split: json.splits)
  note iff = visit_map_iff [OF hm_wf_Nil vm]
  have look: "constraint (actor_of_policy read_json i blob) k = map_of m k" for k
    using p m(2) by (simp add: actor_of_policy_def api_with_policy_def constraint_def)
  have some: "visit_map m0 l = Some m1 \<Longrightarrow> (k, j) \<in> set l \<Longrightarrow> read_tool_constraint j \<noteq> None" for m0 l m1 k j
    by (induction m0 l rule: visit_map.induct) (auto split: option.splits if_splits)
  have "\<exists>c. read_tool_constraint j = Some c \<and> map_of m k = Some c" if "(k, j) \<in> set cs" for k j
  proof -
    have "map_of cs k = Some j" using iff that by simp
    with iff some [OF vm that] show ?thesis by auto
  qed
  with v m(3) iff look show ?thesis by auto
qed

text \<open>
  Nothing unenforced is let through.  A transport raises no refusal exactly when each constraint of the actor has an entry
  whose enforced fields include every field the constraint sets.
\<close>

theorem no_refusal_iff:
  assumes "hm_wf (constraints a)"
  shows "first_constraint_refusal a enforced = None \<longleftrightarrow>
    (\<forall>k c. constraint a k = Some c \<longrightarrow>
       (\<exists>e. find (\<lambda>e. enforced_key e = k) enforced = Some e
          \<and> (devices c \<noteq> None \<longrightarrow> enforce_devices e) \<and> (plugins c \<noteq> None \<longrightarrow> enforce_plugins e)))"
proof -
  have keys: "k \<in> set (constraint_keys a) \<longleftrightarrow> (\<exists>c. constraint a k = Some c)" for k
    using assms by (force simp: constraint_keys_def constraint_def hm_entry_iff [symmetric])
  have field: "first_unenforced_field e c = None \<longleftrightarrow>
      (devices c \<noteq> None \<longrightarrow> enforce_devices e) \<and> (plugins c \<noteq> None \<longrightarrow> enforce_plugins e)" for e c
    by (auto simp: first_unenforced_field_def)
  show ?thesis
    unfolding first_constraint_refusal_def refusal_among_None_iff field
    using keys by fastforce
qed

section \<open>Witnesses\<close>

definition sample_policy :: json where
  "sample_policy = JObject [(''scopes'', JArray [JString ''devices:command'']),
     (''constraints'', JObject [(''device.send_command'', JObject [(''devices'', JArray [JString ''dev-a*''])])])]"

theorem policy_constraints_kept_witness:
  "constraint (actor_of_policy (\<lambda>_. Some sample_policy) ''t'' []) ''device.send_command''
     = Some \<lparr>devices = Some [''dev-a*''], plugins = None\<rparr>
   \<and> require_scope (actor_of_policy (\<lambda>_. Some sample_policy) ''t'' []) ''devices:command'' = Ok ()"
proof -
  let ?cs = "JObject [(''device.send_command'', JObject [(''devices'', JArray [JString ''dev-a*''])])]"
  have ok: "require_scope (actor_of_policy (\<lambda>_. Some sample_policy) ''t'' []) ''devices:command'' = Ok ()"
    by (simp add: sample_policy_def actor_of_policy_def parse_policy_def read_extended_def extended_policy_def
        deserialize_unique_map_def read_tool_constraint_def read_opt_strings_def require_scope_def satisfied_by_def
        api_with_policy_def)
  from policy_constraints_kept [OF _ _ ok, of "[(''scopes'', JArray [JString ''devices:command'']), (''constraints'', ?cs)]" ?cs]
  have "constraint (actor_of_policy (\<lambda>_. Some sample_policy) ''t'' []) ''device.send_command''
     = read_tool_constraint (JObject [(''devices'', JArray [JString ''dev-a*''])])"
    by (auto simp: sample_policy_def)
  with ok show ?thesis by (simp add: read_tool_constraint_def read_opt_strings_def)
qed

theorem no_refusal_iff_witness:
  "first_constraint_refusal (api_with_policy ''t'' [''*''] [(''plugins.stop'', \<lparr>devices = Some [], plugins = None\<rparr>)])
     mcp_enforced = Some (FieldNotEnforced ''plugins.stop'' ''devices'')
   \<and> first_constraint_refusal (api_with_policy ''t'' [''*''] [(''plugins.stop'', \<lparr>devices = None, plugins = Some []\<rparr>)])
     mcp_enforced = None"
  using no_refusal_iff [of "api_with_policy ''t'' [''*''] [(''plugins.stop'', \<lparr>devices = None, plugins = Some []\<rparr>)]" mcp_enforced]
  by (simp add: api_with_policy_def hm_wf_def constraint_def mcp_enforced_def first_constraint_refusal_def
      constraint_keys_def first_unenforced_field_def)

end
