(* ===== verification/Auth_Guard.thy ===== *)
theory Auth_Guard
  imports Auth_Token Auth_Policy Audit_Log
begin

text \<open>
  \<^verbatim>\<open>crates/oxidhome-core/src/api/auth.rs\<close>: the middleware every API request passes.  It reads the bearer token, verifies it (or takes the
  verification the ingress limiter has already made), refuses constraints the transport does not enforce, commits a pending
  audit row, runs the handler, and finalises the row.  The handler is a parameter over the whole state; the
  outcomes of database calls and of the permit gate, and the clock, are the record \<open>guard_env\<close>.
\<close>

section \<open>State and inputs\<close>

datatype pre_verified = Verified token_record | Denied | Internal

record http_request =
  authorization :: "string option"
  req_method :: string
  req_path :: string
  pre_verified :: "pre_verified option"
  has_gate :: bool

record response =
  status :: nat
  denied_scope :: "string option"
  domain_outcome :: "string option"

record 'w api_state =
  tokens :: token_table
  ledger :: audit_table
  world :: 'w

record guard_env =
  now_ms :: int
  verify_io :: bool
  touch_gate :: bool
  touch_io :: bool
  probe_gate :: bool
  probe_io :: bool
  denial_gate :: bool
  denial_io :: bool
  intent_gate :: bool
  intent_io :: bool
  finalize_io :: bool

type_synonym 'w handler = "actor \<Rightarrow> nat \<Rightarrow> 'w api_state \<Rightarrow> 'w api_state \<times> response"

definition empty_response :: "nat \<Rightarrow> response" where
  "empty_response s = \<lparr>status = s, denied_scope = None, domain_outcome = None\<rparr>"

section \<open>The bearer\<close>

definition ascii_lower :: "char \<Rightarrow> char" where
  "ascii_lower c = (let n = of_char c :: nat in if 65 \<le> n \<and> n \<le> 90 then ''abcdefghijklmnopqrstuvwxyz'' ! (n - 65) else c)"

definition eq_ignore_ascii_case :: "string \<Rightarrow> string \<Rightarrow> bool" where
  "eq_ignore_ascii_case a b = (map ascii_lower a = map ascii_lower b)"

text \<open>\<^verbatim>\<open>HeaderValue::to_str\<close> accepts visible ASCII, space and tab.\<close>

definition header_to_str :: "string \<Rightarrow> string option" where
  "header_to_str h =
     (if list_all (\<lambda>c. let n = of_char c :: nat in n = 9 \<or> (32 \<le> n \<and> n < 127)) h then Some h else None)"

definition extract_bearer :: "http_request \<Rightarrow> string option" where
  "extract_bearer req =
     (case Option.bind (authorization req) header_to_str of
        None \<Rightarrow> None
      | Some s \<Rightarrow>
          (case split_once CHR '' '' s of
             None \<Rightarrow> None
           | Some (scheme, rest) \<Rightarrow>
               if \<not> eq_ignore_ascii_case scheme ''Bearer'' then None
               else (let trimmed = dropWhile (\<lambda>c. c = CHR '' '') rest
                     in if trimmed = [] then None else Some trimmed)))"

section \<open>Audit rows\<close>

definition anonymous :: string where
  "anonymous = ''anonymous''"

definition audit_row :: "string \<Rightarrow> string \<Rightarrow> http_request \<Rightarrow> nat \<Rightarrow> string \<Rightarrow> string option \<Rightarrow> string option \<Rightarrow> audit_entry" where
  "audit_row tok knd req s dec scope fp =
     \<lparr>audit_id = 0, intent_ms = 0, finalized_ms = None, audit_token = tok, audit_kind = knd,
      audit_method = req_method req, audit_path = req_path req, audit_status = s, decision = dec,
      required_scope = scope, execution_outcome = None, domain_error = None, credential_fp = fp\<rparr>"

definition try_probe :: "guard_env \<Rightarrow> http_request \<Rightarrow> string option \<Rightarrow> 'w api_state \<Rightarrow> 'w api_state" where
  "try_probe env req fp st =
     (if has_gate req \<and> \<not> probe_gate env then st
      else st\<lparr>ledger := fst (record_completed (probe_io env) (now_ms env)
                              (audit_row anonymous anonymous req 401 ''deny'' None fp) (ledger st))\<rparr>)"

definition try_touch :: "guard_env \<Rightarrow> http_request \<Rightarrow> string \<Rightarrow> 'w api_state \<Rightarrow> 'w api_state" where
  "try_touch env req i st =
     (if has_gate req \<and> \<not> touch_gate env then st
      else st\<lparr>tokens := touch_last_used (touch_io env) (now_ms env) i (tokens st)\<rparr>)"

definition record_denial :: "guard_env \<Rightarrow> http_request \<Rightarrow> audit_entry \<Rightarrow> 'w api_state \<Rightarrow> 'w api_state" where
  "record_denial env req entry st =
     (if has_gate req \<and> \<not> denial_gate env then st
      else st\<lparr>ledger := fst (record_completed (denial_io env) (now_ms env) entry (ledger st))\<rparr>)"

definition record_intent_blocking ::
  "guard_env \<Rightarrow> http_request \<Rightarrow> audit_entry \<Rightarrow> 'w api_state \<Rightarrow> 'w api_state \<times> nat option" where
  "record_intent_blocking env req entry st =
     (if has_gate req \<and> \<not> intent_gate env then (st, None)
      else case record_intent (intent_io env) (now_ms env) entry (ledger st) of
          (l, Inl e) \<Rightarrow> (st\<lparr>ledger := l\<rparr>, None)
        | (l, Inr i) \<Rightarrow> (st\<lparr>ledger := l\<rparr>, Some i))"

definition decision_of :: "nat \<Rightarrow> string" where
  "decision_of s =
     (if 200 \<le> s \<and> s < 300 then ''allow''
      else if 500 \<le> s \<and> s < 600 then ''error''
      else ''deny'')"

definition finalize_audit :: "guard_env \<Rightarrow> nat \<Rightarrow> response \<Rightarrow> 'w api_state \<Rightarrow> 'w api_state" where
  "finalize_audit env i resp st =
     (let s = status resp;
          outcome = (if 200 \<le> s \<and> s < 300 then domain_outcome resp else None)
      in st\<lparr>ledger := fst (finalize (finalize_io env) (now_ms env) i s (decision_of s) (denied_scope resp)
                             (map_option (\<lambda>_. ''failed'') outcome) outcome (ledger st))\<rparr>)"

section \<open>The middleware\<close>

datatype verdict = Accepted token_record | Refused | Broken

definition verify_bearer :: "sha \<Rightarrow> guard_env \<Rightarrow> http_request \<Rightarrow> string \<Rightarrow> 'w api_state \<Rightarrow> 'w api_state \<times> verdict" where
  "verify_bearer sha env req bearer st =
     (case pre_verified req of
        Some (Verified r) \<Rightarrow> (try_touch env req (tok_id r) st, Accepted r)
      | Some Denied \<Rightarrow> (st, Refused)
      | Some Internal \<Rightarrow> (st, Broken)
      | None \<Rightarrow>
          (case verify sha (verify_io env) (touch_io env) (now_ms env) bearer (tokens st) of
             (db, Inr r) \<Rightarrow> (st\<lparr>tokens := db\<rparr>, Accepted r)
           | (db, Inl Sqlite) \<Rightarrow> (st\<lparr>tokens := db\<rparr>, Broken)
           | (db, Inl _) \<Rightarrow> (st\<lparr>tokens := db\<rparr>, Refused)))"

definition require_token ::
  "(string \<Rightarrow> json option) \<Rightarrow> sha \<Rightarrow> enforced_constraint list \<Rightarrow> 'w handler \<Rightarrow> guard_env \<Rightarrow> http_request
     \<Rightarrow> 'w api_state \<Rightarrow> 'w api_state \<times> response" where
  "require_token read_json sha enforced handler env req st =
     (case extract_bearer req of
        None \<Rightarrow> (try_probe env req None st, empty_response 401)
      | Some bearer \<Rightarrow>
          (case verify_bearer sha env req bearer st of
             (st1, Broken) \<Rightarrow> (st1, empty_response 500)
           | (st1, Refused) \<Rightarrow>
               (try_probe env req (Some (credential_fingerprint (\<lambda>s. sha (string_bytes s)) bearer)) st1,
                empty_response 401)
           | (st1, Accepted r) \<Rightarrow>
               (let a = actor_of_policy read_json (tok_id r) (scope_json r);
                    knd = actor_kind_str (actor_kind a)
                in case first_constraint_refusal a enforced of
                     Some refusal \<Rightarrow>
                       (record_denial env req
                          (audit_row (actor_id a) knd req 403 ''deny'' (Some (audit_sentinel refusal)) None) st1,
                        empty_response 403)
                   | None \<Rightarrow>
                       (case record_intent_blocking env req
                               (audit_row (actor_id a) knd req 0 ''pending'' None None) st1 of
                          (st2, None) \<Rightarrow> (st2, empty_response 500)
                        | (st2, Some i) \<Rightarrow>
                            (case handler a i st2 of
                               (st3, resp) \<Rightarrow> (finalize_audit env i resp st3, resp))))))"

section \<open>Lemmas\<close>

lemma world_frames [simp, frame_simps]:
  "world (try_probe env req fp st) = world st"
  "world (try_touch env req i st) = world st"
  "world (record_denial env req e st) = world st"
  "world (fst (record_intent_blocking env req e st)) = world st"
  by (simp_all add: try_probe_def try_touch_def record_denial_def record_intent_blocking_def
      split: prod.splits sum.splits)

lemma verify_bearer_world: "verify_bearer sha env req b st = (st1, v) \<Longrightarrow> world st1 = world st \<and> ledger st1 = ledger st"
  by (auto simp: verify_bearer_def try_touch_def
      split: option.splits pre_verified.splits prod.splits sum.splits token_error.splits if_splits)

lemma verify_bearer_accepted:
  "verify_bearer sha env req b st = (st1, Accepted r) \<Longrightarrow>
     pre_verified req = Some (Verified r)
     \<or> pre_verified req = None \<and> (\<exists>r0. verify_read_only sha True b (tokens st) = Ok r0
           \<and> r = r0\<lparr>last_used_ms := Some (now_ms env)\<rparr>)"
  by (auto simp: verify_bearer_def verify_def verify_read_only_def
      split: option.splits pre_verified.splits prod.splits sum.splits token_error.splits if_splits)

lemma intent_row:
  assumes "record_intent_blocking env req e st = (st2, Some i)"
  shows "\<exists>row \<in> set (ledger st2). audit_id row = i \<and> audit_token row = audit_token e \<and> decision row = ''pending''
      \<and> finalized_ms row = None"
    and "world st2 = world st"
  using assms by (auto simp: record_intent_blocking_def record_intent_def split: if_splits prod.splits sum.splits)

lemma finalize_audit_row:
  assumes "e \<in> set (ledger st)" and "audit_id e = i" and "finalize_io env"
  shows "\<exists>e' \<in> set (ledger (finalize_audit env i resp st)). audit_id e' = i \<and> audit_token e' = audit_token e
      \<and> audit_status e' = status resp \<and> decision e' = decision_of (status resp) \<and> finalized_ms e' = Some (now_ms env)"
proof -
  let ?o = "if 200 \<le> status resp \<and> status resp < 300 then domain_outcome resp else None"
  let ?e = "e\<lparr>finalized_ms := Some (now_ms env), audit_status := status resp, decision := decision_of (status resp),
      required_scope := denied_scope resp, execution_outcome := map_option (\<lambda>_. ''failed'') ?o, domain_error := ?o\<rparr>"
  have "?e \<in> set (ledger (finalize_audit env i resp st))"
    using assms by (force simp: finalize_audit_def finalize_def Let_def)
  with assms(2) show ?thesis by (intro bexI [of _ ?e]) simp_all
qed

section \<open>Properties\<close>

text \<open>What it takes to reach the handler: the state it starts from, the actor, the audit id.\<close>

definition admitted ::
  "(string \<Rightarrow> json option) \<Rightarrow> sha \<Rightarrow> enforced_constraint list \<Rightarrow> guard_env \<Rightarrow> http_request \<Rightarrow> 'w api_state
     \<Rightarrow> actor \<Rightarrow> nat \<Rightarrow> 'w api_state \<Rightarrow> bool" where
  "admitted read_json sha enforced env req st a i st2 =
     (\<exists>bearer r. extract_bearer req = Some bearer
        \<and> (pre_verified req = Some (Verified r)
           \<or> pre_verified req = None \<and> (\<exists>r0. verify_read_only sha True bearer (tokens st) = Ok r0
               \<and> r = r0\<lparr>last_used_ms := Some (now_ms env)\<rparr>))
        \<and> a = actor_of_policy read_json (tok_id r) (scope_json r)
        \<and> first_constraint_refusal a enforced = None
        \<and> world st2 = world st
        \<and> (\<exists>row \<in> set (ledger st2). audit_id row = i \<and> audit_token row = tok_id r \<and> decision row = ''pending''
              \<and> finalized_ms row = None))"

lemma require_token_cases:
  obtains (refused) st' s where "require_token read_json sha enforced handler env req st = (st', empty_response s)"
      "s \<in> {401, 403, 500}" "world st' = world st"
    | (handled) a i st2 where "admitted read_json sha enforced env req st a i st2"
      "require_token read_json sha enforced handler env req st
           = (finalize_audit env i (snd (handler a i st2)) (fst (handler a i st2)), snd (handler a i st2))"
proof (cases "extract_bearer req")
  case None
  then show ?thesis
    by (intro refused [of "try_probe env req None st" 401]) (simp_all add: require_token_def)
next
  case (Some bearer)
  obtain st1 v where vb: "verify_bearer sha env req bearer st = (st1, v)" by fastforce
  note w1 = verify_bearer_world [OF vb]
  show ?thesis
  proof (cases v)
    case Broken
    with Some vb w1 show ?thesis by (intro refused [of st1 500]) (simp_all add: require_token_def)
  next
    case Refused
    with Some vb w1 show ?thesis by (intro refused [of "try_probe env req
          (Some (credential_fingerprint (\<lambda>s. sha (string_bytes s)) bearer)) st1" 401]) (simp_all add: require_token_def)
  next
    case (Accepted r)
    define a where "a = actor_of_policy read_json (tok_id r) (scope_json r)"
    have aid: "actor_id a = tok_id r"
      by (simp add: a_def actor_of_policy_def api_with_policy_def split: option.splits)
    show ?thesis
    proof (cases "first_constraint_refusal a enforced")
      case refusal: (Some refusal)
      with Some vb Accepted w1 show ?thesis
        by (intro refused [of "record_denial env req (audit_row (actor_id a) (actor_kind_str (actor_kind a)) req 403
              ''deny'' (Some (audit_sentinel refusal)) None) st1" 403])
          (simp_all add: require_token_def a_def [symmetric] Let_def)
    next
      case ok: None
      let ?row = "audit_row (actor_id a) (actor_kind_str (actor_kind a)) req 0 ''pending'' None None"
      obtain st2 io where rib: "record_intent_blocking env req ?row st1 = (st2, io)" by fastforce
      have w2: "world st2 = world st" using world_frames(4) [of env req ?row st1] rib w1 by simp
      show ?thesis
      proof (cases io)
        case None
        with Some vb Accepted w2 ok rib show ?thesis
          by (intro refused [of st2 500]) (simp_all add: require_token_def a_def [symmetric] Let_def)
      next
        case (Some i)
        have tok: "audit_token ?row = tok_id r" by (simp add: audit_row_def aid)
        have "admitted read_json sha enforced env req st a i st2"
          unfolding admitted_def
          using verify_bearer_accepted [OF vb [unfolded Accepted]] \<open>extract_bearer req = Some bearer\<close> ok w2
            intent_row(1) [OF rib [unfolded Some]] tok a_def by metis
        moreover have "require_token read_json sha enforced handler env req st
           = (finalize_audit env i (snd (handler a i st2)) (fst (handler a i st2)), snd (handler a i st2))"
          using \<open>extract_bearer req = Some bearer\<close> vb Accepted ok rib Some
          by (simp add: require_token_def a_def [symmetric] Let_def split: prod.splits)
        ultimately show ?thesis by (rule handled)
      qed
    qed
  qed
qed

lemma admitted_row:
  "admitted read_json sha enforced env req st a i st2 \<Longrightarrow>
     \<exists>row \<in> set (ledger st2). audit_id row = i \<and> audit_token row = actor_id a"
  by (auto simp: admitted_def actor_of_policy_def api_with_policy_def split: option.splits)

text \<open>
  Claim C2: the middleware fails closed.  Whatever the handler is, a request is either refused with 401, 403 or 500 and leaves the
  application's state as it was, or the handler ran once, for the actor of a verified token none of whose
  constraints the transport ignores, after a pending audit row for that token was committed.
\<close>

theorem guard_fails_closed:
  "(\<exists>st' s. require_token read_json sha enforced handler env req st = (st', empty_response s)
       \<and> s \<in> {401, 403, 500} \<and> world st' = world st)
   \<or> (\<exists>a i st2. admitted read_json sha enforced env req st a i st2
       \<and> require_token read_json sha enforced handler env req st
           = (finalize_audit env i (snd (handler a i st2)) (fst (handler a i st2)), snd (handler a i st2)))"
  by (rule require_token_cases [of read_json sha enforced handler env req st]) blast+

text \<open>
  Claim C17: every answered request is accounted for.  If the handler keeps the ids and tokens of ledger rows and the final
  write succeeds, then after any response other than a refusal the ledger holds a finalised row of the actor's token
  with the response's status and the decision that status means.
\<close>

theorem admitted_request_audited:
  assumes "require_token read_json sha enforced handler env req st = (st', resp)"
    and "\<forall>a i s. \<forall>e \<in> set (ledger s). \<exists>e' \<in> set (ledger (fst (handler a i s))). audit_id e' = audit_id e \<and> audit_token e' = audit_token e"
    and "finalize_io env" and "status resp \<notin> {401, 403, 500}"
  shows "\<exists>a i st2. admitted read_json sha enforced env req st a i st2
    \<and> (\<exists>e \<in> set (ledger st'). audit_id e = i \<and> audit_token e = actor_id a \<and> audit_status e = status resp
          \<and> decision e = decision_of (status resp) \<and> finalized_ms e = Some (now_ms env))"
proof (rule require_token_cases [of read_json sha enforced handler env req st])
  fix s1 s
  assume "require_token read_json sha enforced handler env req st = (s1, empty_response s)" "s \<in> {401, 403, 500}"
  with assms(1,4) show ?thesis by (auto simp: empty_response_def)
next
  fix a i st2
  assume adm: "admitted read_json sha enforced env req st a i st2"
    and eq: "require_token read_json sha enforced handler env req st
           = (finalize_audit env i (snd (handler a i st2)) (fst (handler a i st2)), snd (handler a i st2))"
  from admitted_row [OF adm] obtain row where row: "row \<in> set (ledger st2)" "audit_id row = i" "audit_token row = actor_id a"
    by blast
  then obtain e where e: "e \<in> set (ledger (fst (handler a i st2)))" "audit_id e = i" "audit_token e = actor_id a"
    using assms(2) by metis
  from finalize_audit_row [OF e(1,2) assms(3)] adm e(3) eq assms(1) show ?thesis by fastforce
qed

section \<open>Witness\<close>

definition sample_env :: guard_env where
  "sample_env = \<lparr>now_ms = 50, verify_io = True, touch_gate = True, touch_io = True, probe_gate = True, probe_io = True,
     denial_gate = True, denial_io = True, intent_gate = True, intent_io = True, finalize_io = True\<rparr>"

definition sample_request :: http_request where
  "sample_request = \<lparr>authorization = Some ''bearer t'', req_method = ''GET'', req_path = ''/api/v1/devices'',
     pre_verified = Some (Verified (sample_row\<lparr>scope_json := []\<rparr>)), has_gate = True\<rparr>"

definition ok_handler :: "nat handler" where
  "ok_handler a i s = (s\<lparr>world := world s + 1\<rparr>, empty_response 200)"

theorem admitted_request_audited_witness:
  "\<exists>st'. require_token (\<lambda>_. Some (JArray [])) (\<lambda>x. x) mcp_enforced ok_handler sample_env sample_request
       \<lparr>tokens = [], ledger = [], world = 0\<rparr> = (st', empty_response 200)
     \<and> (\<exists>e \<in> set (ledger st'). audit_status e = 200 \<and> decision e = ''allow'')"
proof -
  let ?run = "require_token (\<lambda>_. Some (JArray [])) (\<lambda>x. x) mcp_enforced ok_handler sample_env sample_request
       \<lparr>tokens = [], ledger = [], world = 0\<rparr>"
  have "snd ?run = empty_response 200"
    by (simp add: require_token_def sample_request_def extract_bearer_def header_to_str_def eq_ignore_ascii_case_def
        ascii_lower_def verify_bearer_def first_constraint_refusal_def constraint_keys_def actor_of_policy_def
        parse_policy_def api_with_policy_def sample_env_def record_intent_blocking_def record_intent_def ok_handler_def)
  then obtain st' where run: "?run = (st', empty_response 200)" by (cases ?run) simp
  have keeps: "\<forall>a i s. \<forall>e \<in> set (ledger s). \<exists>e' \<in> set (ledger (fst (ok_handler a i s))).
      audit_id e' = audit_id e \<and> audit_token e' = audit_token e"
    by (auto simp: ok_handler_def)
  have "finalize_io sample_env" "status (empty_response 200) \<notin> {401, 403, 500}"
    by (simp_all add: sample_env_def empty_response_def)
  from admitted_request_audited [OF run keeps this] run show ?thesis
    by (auto simp: empty_response_def decision_of_def)
qed

end
