(* ===== verification/Owned_Store.thy ===== *)
theory Owned_Store
  imports Prelude
begin

text \<open>
  The contract of a registry shared by plugin instances: what one owner sees of it is not changed by
  operations of the others.  A store whose operations moreover act on their owner's part only by what that
  part holds is isolated: every other owner's operations can be dropped from a run.  The invariant may
  mention the number of operations so far, and be kept only while there is room for another (a counter of fixed
  width has not wrapped) and by admissible operations.
\<close>

locale owned_store =
  fixes inv :: "nat \<Rightarrow> 's \<Rightarrow> bool"
    and room :: "nat \<Rightarrow> bool"
    and ok :: "'op \<Rightarrow> bool"
    and step :: "'op \<Rightarrow> 's \<Rightarrow> 's"
    and actor :: "'op \<Rightarrow> 'o option"
    and view :: "'s \<Rightarrow> 'o \<Rightarrow> 'v"
  assumes inv_step: "inv n s \<Longrightarrow> room n \<Longrightarrow> ok op \<Longrightarrow> inv (Suc n) (step op s)"
    and local_respect: "inv n s \<Longrightarrow> room n \<Longrightarrow> ok op \<Longrightarrow> actor op \<noteq> Some o' \<Longrightarrow> view (step op s) o' = view s o'"
begin

definition room_for :: "nat \<Rightarrow> 'op list \<Rightarrow> bool" where
  "room_for n ops = (\<forall>k < length ops. room (n + k))"

lemma room_for_simps [simp]: "room_for n []" "room_for n (op # ops) \<longleftrightarrow> room n \<and> room_for (Suc n) ops"
  unfolding room_for_def by (simp_all add: less_Suc_eq_0_disj all_conj_distrib) force

lemma inv_run: "inv n s \<Longrightarrow> room_for n ops \<Longrightarrow> list_all ok ops \<Longrightarrow> inv (n + length ops) (fold step ops s)"
proof (induction ops arbitrary: n s)
  case (Cons op ops)
  then show ?case using Cons.IH [of "Suc n" "step op s"] inv_step by simp
qed simp

lemma view_run:
  "inv n s \<Longrightarrow> room_for n ops \<Longrightarrow> list_all ok ops \<Longrightarrow> \<forall>op \<in> set ops. actor op \<noteq> Some o' \<Longrightarrow>
     view (fold step ops s) o' = view s o'"
proof (induction ops arbitrary: n s)
  case (Cons op ops)
  then have "view (fold step ops (step op s)) o' = view (step op s) o'"
    using inv_step by (intro Cons.IH [of "Suc n"]) simp_all
  with Cons.prems local_respect show ?case by simp
qed simp

end

locale isolated_store = owned_store +
  assumes room_any: "room n"
    and step_consistent: "inv n s \<Longrightarrow> inv m t \<Longrightarrow> ok op \<Longrightarrow> actor op = Some o' \<Longrightarrow> view s o' = view t o'
      \<Longrightarrow> view (step op s) o' = view (step op t) o'"
begin

lemma view_runs_agree:
  assumes "inv n s" and "inv m t" and "list_all ok ops" and "view s o' = view t o'"
  shows "view (fold step ops s) o' = view (fold step (filter (\<lambda>op. actor op = Some o') ops) t) o'"
  using assms
proof (induction ops arbitrary: n m s t)
  case (Cons op ops)
  have ok: "ok op" "list_all ok ops" using Cons.prems(3) by simp_all
  have inv': "inv (Suc n) (step op s)" "inv (Suc m) (step op t)"
    using Cons.prems inv_step room_any ok by blast+
  show ?case
  proof (cases "actor op = Some o'")
    case True
    then have "view (step op s) o' = view (step op t) o'"
      using Cons.prems ok by (intro step_consistent)
    from Cons.IH [OF inv' ok(2) this] True show ?thesis by simp
  next
    case False
    then have "view (step op s) o' = view t o'"
      using local_respect [OF Cons.prems(1) room_any ok(1)] Cons.prems(4) by metis
    from Cons.IH [OF inv'(1) Cons.prems(2) ok(2) this] False show ?thesis by simp
  qed
qed simp

lemma noninterference:
  "inv n s \<Longrightarrow> list_all ok ops \<Longrightarrow>
     view (fold step ops s) o' = view (fold step (filter (\<lambda>op. actor op = Some o') ops) s) o'"
  by (rule view_runs_agree) simp_all

end

end
