(* ===== verification/Services.thy ===== *)
theory Services
  imports Maps Numerals Owned_Store
begin

text \<open>
  \<^verbatim>\<open>crates/oxidhome-core/src/state/services.rs\<close>: the service registry and its in-flight call counts.  A run
  of the registry also keeps the live \<^verbatim>\<open>CallGuard\<close>s, which callers hold and drop at any time.  The record
  \<^verbatim>\<open>ServiceInfo\<close> is generated from the WIT; the code reads its \<^verbatim>\<open>local_id\<close> only, the rest is the type
  parameter.
\<close>

section \<open>State\<close>

record 'x service_info =
  local_id :: string
  service_rest :: 'x

record 'x service_meta =
  service_id :: string
  owner_instance :: string
  owner_plugin_id :: string
  service_info :: "'x service_info"

record 'x service_registry =
  services :: "(string, 'x service_meta) hmap"
  active_calls :: "(string, nat) hmap"
  next_id :: nat

datatype wit_error =
    NotFound string
  | InvalidArgument string
  | PermissionDenied string
  | Unavailable string
  | InternalError string

definition empty_services :: "'x service_registry" where
  "empty_services = \<lparr>services = [], active_calls = [], next_id = 0\<rparr>"

definition service_name :: "nat \<Rightarrow> string" where
  "service_name n = ''svc-'' @ show_nat n"

definition mint_id :: "'x service_registry \<Rightarrow> 'x service_registry \<times> string" where
  "mint_id r = (r\<lparr>next_id := (next_id r + 1) mod 2 ^ 64\<rparr>, service_name (next_id r))"

section \<open>Operations\<close>

definition register ::
  "string \<Rightarrow> string \<Rightarrow> 'x service_info \<Rightarrow> 'x service_registry \<Rightarrow> 'x service_registry \<times> (wit_error + string)" where
  "register owner plugin info r =
     (if \<exists>m \<in> snd ` set (services r). owner_instance m = owner \<and> local_id (service_info m) = local_id info
      then (r, Err (InvalidArgument (local_id info)))
      else (case mint_id r of (r', i) \<Rightarrow>
        (r'\<lparr>services := AList.update i
               \<lparr>service_id = i, owner_instance = owner, owner_plugin_id = plugin, service_info = info\<rparr> (services r')\<rparr>,
         Ok i)))"

definition update_service ::
  "string \<Rightarrow> string \<Rightarrow> 'x service_info \<Rightarrow> 'x service_registry \<Rightarrow> 'x service_registry \<times> (wit_error + unit)" where
  "update_service owner i info r =
     (case map_of (services r) i of
        Some m \<Rightarrow>
          if owner_instance m \<noteq> owner then (r, Err (NotFound i))
          else if local_id (service_info m) \<noteq> local_id info then (r, Err (InvalidArgument i))
          else (r\<lparr>services := AList.update i (m\<lparr>service_info := info\<rparr>) (services r)\<rparr>, Ok ())
      | None \<Rightarrow> (r, Err (NotFound i)))"

definition call_count :: "'x service_registry \<Rightarrow> string \<Rightarrow> nat" where
  "call_count r i = (case map_of (active_calls r) i of Some n \<Rightarrow> n | None \<Rightarrow> 0)"

definition remove_service :: "string \<Rightarrow> string \<Rightarrow> 'x service_registry \<Rightarrow> 'x service_registry \<times> (wit_error + unit)" where
  "remove_service owner i r =
     (case map_of (services r) i of
        Some m \<Rightarrow>
          if owner_instance m \<noteq> owner then (r, Err (NotFound i))
          else if call_count r i > 0 then (r, Err (Unavailable i))
          else (r\<lparr>services := AList.delete i (services r), active_calls := AList.delete i (active_calls r)\<rparr>, Ok ())
      | None \<Rightarrow> (r, Err (NotFound i)))"

definition get_service :: "string \<Rightarrow> string \<Rightarrow> 'x service_registry \<Rightarrow> wit_error + 'x service_meta" where
  "get_service owner i r =
     (case map_of (services r) i of
        Some m \<Rightarrow> if owner_instance m = owner then Ok m else Err (NotFound i)
      | None \<Rightarrow> Err (NotFound i))"

definition get_any_service :: "string \<Rightarrow> 'x service_registry \<Rightarrow> wit_error + 'x service_meta" where
  "get_any_service i r = (case map_of (services r) i of Some m \<Rightarrow> Ok m | None \<Rightarrow> Err (NotFound i))"

definition get_owner_plugin_and_local_id :: "string \<Rightarrow> 'x service_registry \<Rightarrow> (string \<times> string \<times> string) option" where
  "get_owner_plugin_and_local_id i r =
     map_option (\<lambda>m. (owner_instance m, owner_plugin_id m, local_id (service_info m))) (map_of (services r) i)"

definition resolve_by_local_id :: "string \<Rightarrow> string \<Rightarrow> string \<Rightarrow> 'x service_registry \<Rightarrow> string option" where
  "resolve_by_local_id plugin inst lid r =
     map_option service_id (find (\<lambda>m. owner_plugin_id m = plugin \<and> owner_instance m = inst
        \<and> local_id (service_info m) = lid) (map snd (services r)))"

definition acquire_call :: "string \<Rightarrow> 'x service_registry \<Rightarrow> 'x service_registry \<times> (wit_error + string)" where
  "acquire_call i r =
     (if map_of (services r) i = None then (r, Err (NotFound i))
      else (r\<lparr>active_calls := AList.update i ((call_count r i + 1) mod 2 ^ 32) (active_calls r)\<rparr>, Ok i))"

definition release_call :: "string \<Rightarrow> 'x service_registry \<Rightarrow> 'x service_registry" where
  "release_call i r =
     (case map_of (active_calls r) i of
        None \<Rightarrow> r
      | Some n \<Rightarrow>
          if n - 1 = 0 then r\<lparr>active_calls := AList.delete i (active_calls r)\<rparr>
          else r\<lparr>active_calls := AList.update i (n - 1) (active_calls r)\<rparr>)"

definition remove_services_by_owner :: "string \<Rightarrow> 'x service_registry \<Rightarrow> 'x service_registry \<times> nat" where
  "remove_services_by_owner inst r =
     (let removed = map fst (filter (\<lambda>(i, m). owner_instance m = inst) (services r))
      in (r\<lparr>services := hm_retain (\<lambda>i m. owner_instance m \<noteq> inst) (services r),
            active_calls := fold AList.delete removed (active_calls r)\<rparr>,
          length removed))"

section \<open>Runs\<close>

text \<open>The registry with the ids of the live guards; dropping one releases its call.\<close>

type_synonym 'x service_system = "'x service_registry \<times> string list"

datatype 'x service_op =
    Register string string "'x service_info"
  | Update string string "'x service_info"
  | Remove string string
  | RemoveByOwner string
  | Acquire string
  | DropGuard nat

fun remove_nth :: "nat \<Rightarrow> 'a list \<Rightarrow> 'a list" where
  "remove_nth n [] = []"
| "remove_nth 0 (x # xs) = xs"
| "remove_nth (Suc n) (x # xs) = x # remove_nth n xs"

fun service_step :: "'x service_op \<Rightarrow> 'x service_system \<Rightarrow> 'x service_system" where
  "service_step (Register o' p info) (r, gs) = (fst (register o' p info r), gs)"
| "service_step (Update o' i info) (r, gs) = (fst (update_service o' i info r), gs)"
| "service_step (Remove o' i) (r, gs) = (fst (remove_service o' i r), gs)"
| "service_step (RemoveByOwner o') (r, gs) = (fst (remove_services_by_owner o' r), gs)"
| "service_step (Acquire i) (r, gs) =
     (case acquire_call i r of (r', Inr g) \<Rightarrow> (r', g # gs) | (r', Inl e) \<Rightarrow> (r', gs))"
| "service_step (DropGuard n) (r, gs) =
     (if n < length gs then (release_call (gs ! n) r, remove_nth n gs) else (r, gs))"

definition service_run :: "'x service_op list \<Rightarrow> 'x service_system" where
  "service_run ops = fold service_step ops (empty_services, [])"

fun service_actor :: "'x service_op \<Rightarrow> string option" where
  "service_actor (Register o' p info) = Some o'"
| "service_actor (Update o' i info) = Some o'"
| "service_actor (Remove o' i) = Some o'"
| "service_actor (RemoveByOwner o') = Some o'"
| "service_actor (Acquire i) = None"
| "service_actor (DropGuard n) = None"

definition service_view :: "'x service_system \<Rightarrow> string \<Rightarrow> string \<Rightarrow> 'x service_meta option" where
  "service_view s o' i =
     (case map_of (services (fst s)) i of
        Some m \<Rightarrow> if owner_instance m = o' then Some m else None
      | None \<Rightarrow> None)"

section \<open>The invariant\<close>

definition minted :: "nat \<Rightarrow> string \<Rightarrow> bool" where
  "minted n i = (\<exists>k < n. i = service_name k)"

definition ids_ok :: "'x service_registry \<Rightarrow> bool" where
  "ids_ok r = (\<forall>i m. map_of (services r) i = Some m \<longrightarrow> service_id m = i \<and> minted (next_id r) i)"

definition local_ids_unique :: "'x service_registry \<Rightarrow> bool" where
  "local_ids_unique r = (\<forall>i j m m'. map_of (services r) i = Some m \<longrightarrow> map_of (services r) j = Some m' \<longrightarrow>
     owner_instance m = owner_instance m' \<longrightarrow> local_id (service_info m) = local_id (service_info m') \<longrightarrow> i = j)"

text \<open>The counts are those of the live guards of registered services; no guard outlives the minting of its id.\<close>

definition calls_ok :: "'x service_registry \<Rightarrow> string list \<Rightarrow> bool" where
  "calls_ok r gs = ((\<forall>i \<in> set gs. minted (next_id r) i) \<and> (\<forall>i. map_of (active_calls r) i =
     (if map_of (services r) i \<noteq> None \<and> i \<in> set gs then Some (count_list gs i) else None)))"

text \<open>Another call can be counted.\<close>

definition call_room :: "nat \<Rightarrow> bool" where
  "call_room b = (Suc b < 2 ^ 32)"

text \<open>After \<open>b\<close> operations, \<open>b\<close> below the range of the call counters.\<close>

definition service_inv :: "nat \<Rightarrow> 'x service_system \<Rightarrow> bool" where
  "service_inv b s = (case s of (r, gs) \<Rightarrow>
     hm_wf (services r) \<and> hm_wf (active_calls r) \<and> next_id r \<le> b \<and> length gs \<le> b
     \<and> ids_ok r \<and> local_ids_unique r \<and> calls_ok r gs)"

lemma show_nat_inj [simp]: "show_nat a = show_nat b \<longleftrightarrow> a = b"
proof
  assume "show_nat a = show_nat b"
  then have "parse_uint 10 (max a b) (show_nat a) = parse_uint 10 (max a b) (show_nat b)" by simp
  then show "a = b" by (simp only: parse_uint_show_nat max.cobounded1 max.cobounded2 sum.inject)
qed simp

lemma service_name_inj [simp]: "service_name a = service_name b \<longleftrightarrow> a = b"
  by (simp add: service_name_def)

lemma minted_next [simp]: "minted (Suc n) (service_name n)" "\<not> minted n (service_name n)"
  by (auto simp: minted_def)

lemma minted_Suc: "minted n i \<Longrightarrow> minted (Suc n) i"
  by (auto simp: minted_def less_Suc_eq)

lemma next_fresh: "ids_ok r \<Longrightarrow> map_of (services r) (service_name (next_id r)) = None"
  unfolding ids_ok_def using minted_next(2) by (metis option.exhaust)

lemma count_list_length: "count_list xs x \<le> length xs"
  by (induction xs) auto

lemma count_remove_nth:
  "n < length xs \<Longrightarrow> count_list xs x = count_list (remove_nth n xs) x + (if x = xs ! n then 1 else 0)"
  by (induction n xs rule: remove_nth.induct) auto

lemma remove_nth_length: "length (remove_nth n xs) \<le> length xs"
  by (induction n xs rule: remove_nth.induct) auto

lemma remove_nth_subset: "set (remove_nth n xs) \<subseteq> set xs"
  by (induction n xs rule: remove_nth.induct) auto

lemma in_set_count: "x \<in> set xs \<longleftrightarrow> count_list xs x > 0"
  by (induction xs) auto

subsection \<open>Each operation keeps it\<close>

lemma register_inv:
  assumes inv: "service_inv b (r, gs)" and "call_room b"
  shows "service_inv (Suc b) (fst (register o' p info r), gs)"
proof (cases "\<exists>m \<in> snd ` set (services r). owner_instance m = o' \<and> local_id (service_info m) = local_id info")
  case True
  then show ?thesis using inv by (simp add: register_def service_inv_def)
next
  case False
  let ?i = "service_name (next_id r)"
  let ?m = "\<lparr>service_id = ?i, owner_instance = o', owner_plugin_id = p, service_info = info\<rparr>"
  let ?r = "r\<lparr>next_id := Suc (next_id r), services := AList.update ?i ?m (services r)\<rparr>"
  have wf: "hm_wf (services r)" "next_id r \<le> b" and ids: "ids_ok r" and calls: "calls_ok r gs"
    and loc: "local_ids_unique r"
    using inv by (simp_all add: service_inv_def)
  have "Suc (next_id r) < 2 ^ 64" using wf(2) \<open>call_room b\<close> by (simp add: call_room_def)
  then have r: "fst (register o' p info r) = ?r"
    unfolding register_def if_not_P [OF False] by (simp add: mint_id_def)
  have look: "map_of (services ?r) = (map_of (services r))(?i \<mapsto> ?m)" using wf by (simp add: hm.find_put)
  have fresh: "map_of (services r) ?i = None"
    by (rule next_fresh [OF ids])
  have "ids_ok ?r"
    using ids unfolding ids_ok_def look by (auto intro: minted_Suc)
  moreover have "local_ids_unique ?r"
  proof -
    have none: "owner_instance m = o' \<Longrightarrow> local_id (service_info m) \<noteq> local_id info"
      if "map_of (services r) j = Some m" for j m
    proof -
      have "m \<in> snd ` set (services r)" using that snd_set_map_of [OF wf(1)] by blast
      with False show "owner_instance m = o' \<Longrightarrow> local_id (service_info m) \<noteq> local_id info" by blast
    qed
    show ?thesis using loc unfolding local_ids_unique_def look by (auto split: if_splits dest: none)
  qed
  moreover have "calls_ok ?r gs"
  proof -
    have "?i \<notin> set gs" using calls minted_next(2) unfolding calls_ok_def by blast
    then show ?thesis using calls fresh unfolding calls_ok_def look by (auto intro: minted_Suc)
  qed
  ultimately show ?thesis using inv unfolding r by (simp add: service_inv_def hm_wf_put)
qed

lemma update_inv:
  assumes inv: "service_inv b (r, gs)"
  shows "service_inv (Suc b) (fst (update_service o' i info r), gs)"
proof (cases "\<exists>m. map_of (services r) i = Some m \<and> owner_instance m = o' \<and> local_id (service_info m) = local_id info")
  case False
  then have "fst (update_service o' i info r) = r" by (auto simp: update_service_def split: option.splits)
  with inv show ?thesis by (simp add: service_inv_def)
next
  case True
  then obtain m where m: "map_of (services r) i = Some m" "owner_instance m = o'" "local_id (service_info m) = local_id info"
    by blast
  let ?r = "r\<lparr>services := AList.update i (m\<lparr>service_info := info\<rparr>) (services r)\<rparr>"
  have wf: "hm_wf (services r)" and ids: "ids_ok r" and calls: "calls_ok r gs" and loc: "local_ids_unique r"
    using inv by (simp_all add: service_inv_def)
  have look: "map_of (services ?r) = (map_of (services r))(i \<mapsto> m\<lparr>service_info := info\<rparr>)"
    using wf by (simp add: hm.find_put)
  have "ids_ok ?r" using ids m unfolding ids_ok_def look by auto
  moreover have "local_ids_unique ?r"
    using loc m unfolding local_ids_unique_def look by (auto split: if_splits)
  moreover have "calls_ok ?r gs" using calls m unfolding calls_ok_def look by auto
  ultimately show ?thesis using inv m by (simp add: update_service_def service_inv_def hm_wf_put)
qed

text \<open>Removing services that no guard holds, or all of an owner's with their counts.\<close>

lemma shrink_inv:
  assumes inv: "service_inv b (r, gs)"
    and look: "\<And>i. map_of (services r') i = (if i \<in> gone then None else map_of (services r) i)"
    and calls': "\<And>i. map_of (active_calls r') i = (if i \<in> gone then None else map_of (active_calls r) i)"
    and "hm_wf (services r')" and "hm_wf (active_calls r')" and "next_id r' = next_id r"
  shows "service_inv (Suc b) (r', gs)"
proof -
  have ids: "ids_ok r" and calls: "calls_ok r gs" and loc: "local_ids_unique r"
    using inv by (simp_all add: service_inv_def)
  have "ids_ok r'" using ids assms(6) unfolding ids_ok_def look by (auto split: if_splits)
  moreover have "local_ids_unique r'" using loc unfolding local_ids_unique_def look by (auto split: if_splits)
  moreover have "calls_ok r' gs" using calls assms(6) unfolding calls_ok_def look calls' by auto
  ultimately show ?thesis using inv assms(4-6) by (simp add: service_inv_def)
qed

lemma remove_inv:
  assumes inv: "service_inv b (r, gs)"
  shows "service_inv (Suc b) (fst (remove_service o' i r), gs)"
proof (cases "\<exists>m. map_of (services r) i = Some m \<and> owner_instance m = o' \<and> call_count r i = 0")
  case False
  then have "fst (remove_service o' i r) = r" by (auto simp: remove_service_def split: option.splits)
  with inv show ?thesis by (simp add: service_inv_def)
next
  case True
  then have r: "fst (remove_service o' i r)
      = r\<lparr>services := AList.delete i (services r), active_calls := AList.delete i (active_calls r)\<rparr>"
    by (auto simp: remove_service_def)
  show ?thesis unfolding r
    by (rule shrink_inv [OF inv, where gone = "{i}"])
      (use inv in \<open>simp_all add: service_inv_def hm.find_drop hm_wf_drop\<close>)
qed

lemma remove_by_owner_inv:
  assumes inv: "service_inv b (r, gs)"
  shows "service_inv (Suc b) (fst (remove_services_by_owner o' r), gs)"
proof -
  let ?gone = "{i. \<exists>m. map_of (services r) i = Some m \<and> owner_instance m = o'}"
  have wf: "hm_wf (services r)" using inv by (simp add: service_inv_def)
  have removed: "i \<in> set (map fst (filter (\<lambda>(i, m). owner_instance m = o') (services r))) \<longleftrightarrow> i \<in> ?gone" for i
    using hm_entry_iff [OF wf] by force
  show ?thesis
  proof (rule shrink_inv [OF inv, where gone = ?gone])
    fix i
    show "map_of (services (fst (remove_services_by_owner o' r))) i = (if i \<in> ?gone then None else map_of (services r) i)"
      by (auto simp: remove_services_by_owner_def Let_def map_of_retain [OF wf] split: option.splits)
    show "map_of (active_calls (fst (remove_services_by_owner o' r))) i = (if i \<in> ?gone then None else map_of (active_calls r) i)"
      unfolding removed [symmetric] by (simp add: remove_services_by_owner_def Let_def map_of_fold_delete)
  qed (use inv in \<open>simp_all add: remove_services_by_owner_def Let_def service_inv_def hm_wf_retain hm_wf_fold_delete\<close>)
qed

lemma call_count_guards: "calls_ok r gs \<Longrightarrow> map_of (services r) i \<noteq> None \<Longrightarrow> call_count r i = count_list gs i"
  by (auto simp: calls_ok_def call_count_def in_set_count)

lemma acquire_inv:
  assumes inv: "service_inv b (r, gs)" and "call_room b"
  shows "service_inv (Suc b) (service_step (Acquire i) (r, gs))"
proof (cases "map_of (services r) i = None")
  case True
  with inv show ?thesis by (simp add: acquire_call_def service_inv_def)
next
  case False
  have calls: "calls_ok r gs" and ids: "ids_ok r" and len: "length gs \<le> b" and wf: "hm_wf (active_calls r)"
    using inv by (simp_all add: service_inv_def)
  have "count_list gs i + 1 < 2 ^ 32" using count_list_length [of gs i] len \<open>call_room b\<close>
    unfolding call_room_def by linarith
  then have r: "acquire_call i r
      = (r\<lparr>active_calls := AList.update i (count_list gs i + 1) (active_calls r)\<rparr>, Ok i)"
    using False call_count_guards [OF calls False] by (simp add: acquire_call_def)
  have "minted (next_id r) i" using False ids by (auto simp: ids_ok_def)
  then have "calls_ok (fst (acquire_call i r)) (i # gs)"
    using calls False wf unfolding calls_ok_def r by (auto simp: hm.find_put)
  with inv show ?thesis by (simp add: r service_inv_def ids_ok_def local_ids_unique_def hm_wf_put)
qed

lemma drop_inv:
  assumes inv: "service_inv b (r, gs)" and n: "n < length gs"
  shows "service_inv (Suc b) (release_call (gs ! n) r, remove_nth n gs)"
proof -
  let ?i = "gs ! n" and ?gs = "remove_nth n gs"
  have calls: "calls_ok r gs" and wf: "hm_wf (active_calls r)" using inv by (simp_all add: service_inv_def)
  have i: "?i \<in> set gs" using n by simp
  note cnt = count_remove_nth [OF n]
  have mem: "x \<in> set ?gs \<longleftrightarrow> count_list gs x > (if x = ?i then 1 else 0)" for x
    using cnt [of x] in_set_count [of x ?gs] by simp
  have frame: "services (release_call ?i r) = services r" "next_id (release_call ?i r) = next_id r"
    by (simp_all add: release_call_def split: option.splits)
  have "calls_ok (release_call ?i r) ?gs"
    unfolding calls_ok_def frame
  proof (intro conjI ballI allI)
    fix x assume "x \<in> set ?gs"
    then show "minted (next_id r) x" using calls remove_nth_subset by (fastforce simp: calls_ok_def)
  next
    fix x
    show "map_of (active_calls (release_call ?i r)) x =
        (if map_of (services r) x \<noteq> None \<and> x \<in> set ?gs then Some (count_list ?gs x) else None)"
      using calls i wf cnt [of x] mem [of x] in_set_count [of x gs]
      by (auto simp: calls_ok_def release_call_def hm.find_put hm.find_drop split: if_splits)
  qed
  moreover have "hm_wf (active_calls (release_call ?i r))"
    using wf by (simp add: release_call_def hm_wf_put hm_wf_drop split: option.splits)
  ultimately show ?thesis
    using inv remove_nth_length [of n gs] frame by (simp add: service_inv_def ids_ok_def local_ids_unique_def)
qed

lemma service_step_inv:
  assumes "service_inv b s" and "call_room b"
  shows "service_inv (Suc b) (service_step op s)"
proof -
  obtain r gs where s: "s = (r, gs)" by (cases s)
  have keep: "service_inv (Suc b) (r, gs)" using assms(1) s by (simp add: service_inv_def)
  show ?thesis
  proof (cases op)
    case (DropGuard n)
    with keep show ?thesis using drop_inv [of b r gs n] assms(1) s by (cases "n < length gs") simp_all
  next
    case (Acquire i)
    with acquire_inv assms s show ?thesis by blast
  qed (use assms s register_inv update_inv remove_inv remove_by_owner_inv in simp_all)
qed

subsection \<open>Ownership\<close>

lemma service_local_respect:
  assumes inv: "service_inv b s" and other: "service_actor op \<noteq> Some o'"
  shows "service_view (service_step op s) o' = service_view s o'"
proof -
  obtain r gs where s: "s = (r, gs)" by (cases s)
  have wf: "hm_wf (services r)" and ids: "ids_ok r" and n: "next_id r \<le> b" using inv s by (simp_all add: service_inv_def)
  show ?thesis
  proof (cases op)
    case (Register o'' p info)
    have "map_of (services r) (service_name (next_id r)) = None"
      by (rule next_fresh [OF ids])
    with Register other s wf show ?thesis
      by (auto simp: service_view_def register_def mint_id_def hm.find_put fun_eq_iff)
  next
    case (Update o'' i info)
    with other s wf show ?thesis
      by (auto simp: service_view_def update_service_def hm.find_put fun_eq_iff split: option.splits)
  next
    case (Remove o'' i)
    with other s wf show ?thesis
      by (auto simp: service_view_def remove_service_def hm.find_drop fun_eq_iff split: option.splits)
  next
    case (RemoveByOwner o'')
    with other s wf show ?thesis
      by (auto simp: service_view_def remove_services_by_owner_def Let_def map_of_retain fun_eq_iff split: option.splits)
  next
    case (Acquire i)
    with s show ?thesis by (simp add: service_view_def acquire_call_def fun_eq_iff)
  next
    case (DropGuard n)
    with s show ?thesis by (auto simp: service_view_def release_call_def fun_eq_iff split: option.splits)
  qed
qed

interpretation srv: owned_store service_inv call_room "\<lambda>_. True" service_step service_actor service_view
  by unfold_locales (simp_all add: service_step_inv service_local_respect)

lemma service_inv_empty: "service_inv 0 (empty_services, [])"
  by (simp add: service_inv_def empty_services_def ids_ok_def local_ids_unique_def calls_ok_def)

lemma service_run_inv: "length ops < 2 ^ 32 \<Longrightarrow> service_inv (length ops) (service_run ops)"
  unfolding service_run_def
  using srv.inv_run [OF service_inv_empty, of ops] by (simp add: srv.room_for_def call_room_def list_all_iff)

section \<open>Properties\<close>

text \<open>
  Claim C28: removing a service.  After any run of fewer than \<open>2 ^ 32\<close> operations, guards acquired and dropped in any order,
  \<^verbatim>\<open>remove\<close> succeeds exactly when the caller owns the service and no guard of it is live; it reports an active call
  only to the owner, and anything else as not found.
\<close>

theorem remove_iff_idle:
  assumes "length ops < 2 ^ 32" and "service_run ops = (r, gs)"
  shows "(snd (remove_service o' i r) = Ok () \<longleftrightarrow> service_view (r, gs) o' i \<noteq> None \<and> i \<notin> set gs)
    \<and> (snd (remove_service o' i r) = Err (Unavailable i) \<longleftrightarrow> service_view (r, gs) o' i \<noteq> None \<and> i \<in> set gs)
    \<and> (snd (remove_service o' i r) = Err (NotFound i) \<longleftrightarrow> service_view (r, gs) o' i = None)"
proof -
  have calls: "calls_ok r gs" using service_run_inv [OF assms(1)] assms(2) by (simp add: service_inv_def)
  show ?thesis
    using call_count_guards [OF calls, of i] in_set_count [of i gs]
    by (auto simp: remove_service_def service_view_def split: option.splits if_splits)
qed

text \<open>
  Services belong to their instance.  Operations of other instances, and calls made to it, leave the services
  an instance has registered as they are.
\<close>

theorem services_isolated:
  assumes "length ops + length ops' < 2 ^ 32" and "\<forall>op \<in> set ops'. service_actor op \<noteq> Some o'"
  shows "service_view (service_run (ops @ ops')) o' = service_view (service_run ops) o'"
proof -
  have "service_inv (length ops) (service_run ops)" using assms(1) by (intro service_run_inv) simp
  from srv.view_run [OF this _ _ assms(2)] show ?thesis
    using assms(1) by (simp add: service_run_def srv.room_for_def call_room_def list_all_iff)
qed

text \<open>
  Logical keys.  In every reachable registry the key (plugin, instance, local id) resolves to at most one service, and
  \<^verbatim>\<open>resolve_by_local_id\<close> returns the id under which exactly that service is stored.
\<close>

theorem resolve_iff:
  assumes "length ops < 2 ^ 32" and "service_run ops = (r, gs)"
  shows "resolve_by_local_id p inst lid r = Some i \<longleftrightarrow>
    get_owner_plugin_and_local_id i r = Some (inst, p, lid)"
proof -
  have inv: "hm_wf (services r)" "ids_ok r" "local_ids_unique r"
    using service_run_inv [OF assms(1)] assms(2) by (simp_all add: service_inv_def)
  let ?P = "\<lambda>m. owner_plugin_id m = p \<and> owner_instance m = inst \<and> local_id (service_info m) = lid"
  have key: "map_of (services r) j = Some m \<Longrightarrow> service_id m = j" for j m using inv(2) by (simp add: ids_ok_def)
  show ?thesis
  proof
    assume "resolve_by_local_id p inst lid r = Some i"
    then obtain m where m: "find ?P (map snd (services r)) = Some m" "service_id m = i"
      by (auto simp: resolve_by_local_id_def)
    then have "m \<in> snd ` set (services r)" "?P m" by (auto simp: find_Some_iff in_set_conv_nth image_iff) force
    with key m(2) have "map_of (services r) i = Some m" using snd_set_map_of [OF inv(1)] by blast
    with \<open>?P m\<close> show "get_owner_plugin_and_local_id i r = Some (inst, p, lid)"
      by (simp add: get_owner_plugin_and_local_id_def)
  next
    assume "get_owner_plugin_and_local_id i r = Some (inst, p, lid)"
    then obtain m where m: "map_of (services r) i = Some m" "?P m"
      by (auto simp: get_owner_plugin_and_local_id_def)
    then have "m \<in> set (map snd (services r))" using snd_set_map_of [OF inv(1)] by auto
    with m(2) obtain m' where m': "find ?P (map snd (services r)) = Some m'"
      by (cases "find ?P (map snd (services r))") (auto simp: find_None_iff)
    then have "m' \<in> snd ` set (services r)" "?P m'" by (auto simp: find_Some_iff in_set_conv_nth image_iff) force
    then obtain j where "map_of (services r) j = Some m'" using snd_set_map_of [OF inv(1)] by blast
    with inv(3) m \<open>?P m'\<close> have "j = i" unfolding local_ids_unique_def by metis
    with \<open>map_of (services r) j = Some m'\<close> key m' show "resolve_by_local_id p inst lid r = Some i"
      by (simp add: resolve_by_local_id_def)
  qed
qed

section \<open>Witnesses\<close>

definition sample_info :: "unit service_info" where
  "sample_info = \<lparr>local_id = ''ring'', service_rest = ()\<rparr>"

definition sample_calls :: "unit service_op list" where
  "sample_calls = [Register ''alpha'' ''com.example'' sample_info, Acquire (service_name 0)]"

definition sample_registry :: "unit service_registry" where
  "sample_registry =
     \<lparr>services = [(service_name 0, \<lparr>service_id = service_name 0, owner_instance = ''alpha'',
        owner_plugin_id = ''com.example'', service_info = sample_info\<rparr>)],
      active_calls = [(service_name 0, 1)], next_id = 1\<rparr>"

lemma run_sample_calls: "service_run sample_calls = (sample_registry, [service_name 0])"
  by (simp add: service_run_def sample_calls_def sample_registry_def empty_services_def register_def mint_id_def
      acquire_call_def call_count_def)

theorem remove_iff_idle_witness:
  "snd (remove_service ''alpha'' (service_name 0) sample_registry) = Err (Unavailable (service_name 0))
   \<and> snd (remove_service ''beta'' (service_name 0) sample_registry) = Err (NotFound (service_name 0))"
  using remove_iff_idle [OF _ run_sample_calls, of "''alpha''" "service_name 0"]
    remove_iff_idle [OF _ run_sample_calls, of "''beta''" "service_name 0"]
  by (simp add: sample_calls_def service_view_def sample_registry_def)

theorem services_isolated_witness:
  "service_view (service_run (sample_calls @ [RemoveByOwner ''beta'', Remove ''beta'' (service_name 0)])) ''alpha''
     = service_view (sample_registry, [service_name 0]) ''alpha''"
  using services_isolated [of sample_calls "[RemoveByOwner ''beta'', Remove ''beta'' (service_name 0)]" "''alpha''"]
    run_sample_calls by (simp add: sample_calls_def)

theorem resolve_iff_witness:
  "resolve_by_local_id ''com.example'' ''alpha'' ''ring'' sample_registry = Some (service_name 0)"
  using resolve_iff [OF _ run_sample_calls, of "''com.example''" "''alpha''" "''ring''" "service_name 0"]
  by (simp add: sample_calls_def sample_registry_def sample_info_def get_owner_plugin_and_local_id_def)

end
