(* ===== verification/Devices.thy ===== *)
theory Devices
  imports Maps Numerals Owned_Store Services
begin

text \<open>
  \<^verbatim>\<open>crates/oxidhome-core/src/state/devices.rs\<close>: the device registry and its stable device ids.  SHA-256 is the parameter
  \<open>sha\<close>.  The record \<^verbatim>\<open>DeviceInfo\<close> is generated from the WIT; the code reads its \<^verbatim>\<open>local_id\<close> only, the rest is the
  type parameter.
\<close>

section \<open>Device ids\<close>

text \<open>A field of the hashed input: its length in four bytes (\<^verbatim>\<open>as u32\<close>), then its bytes.\<close>

definition framed :: "string \<Rightarrow> 8 word list" where
  "framed s = be32 (length s mod 2 ^ 32) @ string_bytes s"

definition device_preimage :: "string \<Rightarrow> string \<Rightarrow> string \<Rightarrow> 8 word list" where
  "device_preimage uuid inst lid = framed ''oxidhome:device-id:v2'' @ framed uuid @ framed inst @ framed lid"

definition stable_device_id :: "(8 word list \<Rightarrow> 8 word list) \<Rightarrow> string \<Rightarrow> string \<Rightarrow> string \<Rightarrow> string" where
  "stable_device_id sha uuid inst lid = ''dev-'' @ hex_bytes (take 8 (sha (device_preimage uuid inst lid)))"

section \<open>State and operations\<close>

record 'x device_info =
  dev_local_id :: string
  device_rest :: 'x

record 'x device_meta =
  device_id :: string
  dev_owner :: string
  dev_info :: "'x device_info"

type_synonym 'x device_registry = "(string, 'x device_meta) hmap"

definition max_devices_per_instance :: nat where
  "max_devices_per_instance = 1024"

definition new_meta :: "(8 word list \<Rightarrow> 8 word list) \<Rightarrow> string \<Rightarrow> string \<Rightarrow> 'x device_info \<Rightarrow> 'x device_meta" where
  "new_meta sha uuid owner info =
     \<lparr>device_id = stable_device_id sha uuid owner (dev_local_id info), dev_owner = owner, dev_info = info\<rparr>"

definition register_device ::
  "(8 word list \<Rightarrow> 8 word list) \<Rightarrow> string \<Rightarrow> string \<Rightarrow> 'x device_info \<Rightarrow> 'x device_registry
     \<Rightarrow> 'x device_registry \<times> string" where
  "register_device sha uuid owner info r =
     (let m = new_meta sha uuid owner info in (AList.update (device_id m) m r, device_id m))"

definition owned_count :: "string \<Rightarrow> 'x device_registry \<Rightarrow> nat" where
  "owned_count owner r = length (filter (\<lambda>(i, m). dev_owner m = owner) r)"

definition try_register ::
  "(8 word list \<Rightarrow> 8 word list) \<Rightarrow> string \<Rightarrow> string \<Rightarrow> 'x device_info \<Rightarrow> 'x device_registry
     \<Rightarrow> 'x device_registry \<times> (wit_error + string)" where
  "try_register sha uuid owner info r =
     (let m = new_meta sha uuid owner info in
      if map_of r (device_id m) = None \<and> owned_count owner r \<ge> max_devices_per_instance
      then (r, Err (Unavailable owner))
      else (AList.update (device_id m) m r, Ok (device_id m)))"

definition update_device ::
  "string \<Rightarrow> string \<Rightarrow> 'x device_info \<Rightarrow> 'x device_registry \<Rightarrow> 'x device_registry \<times> (wit_error + unit)" where
  "update_device owner i info r =
     (case map_of r i of
        Some m \<Rightarrow>
          if dev_owner m \<noteq> owner then (r, Err (NotFound i))
          else if dev_local_id (dev_info m) \<noteq> dev_local_id info then (r, Err (InvalidArgument i))
          else (AList.update i (m\<lparr>dev_info := info\<rparr>) r, Ok ())
      | None \<Rightarrow> (r, Err (NotFound i)))"

definition remove_device :: "string \<Rightarrow> string \<Rightarrow> 'x device_registry \<Rightarrow> 'x device_registry \<times> (wit_error + unit)" where
  "remove_device owner i r =
     (case map_of r i of
        Some m \<Rightarrow> if dev_owner m = owner then (AList.delete i r, Ok ()) else (r, Err (NotFound i))
      | None \<Rightarrow> (r, Err (NotFound i)))"

definition get_device :: "string \<Rightarrow> string \<Rightarrow> 'x device_registry \<Rightarrow> wit_error + 'x device_meta" where
  "get_device owner i r =
     (case map_of r i of
        Some m \<Rightarrow> if dev_owner m = owner then Ok m else Err (NotFound i)
      | None \<Rightarrow> Err (NotFound i))"

definition get_any_device :: "string \<Rightarrow> 'x device_registry \<Rightarrow> 'x device_meta option" where
  "get_any_device i r = map_of r i"

definition get_device_owner :: "string \<Rightarrow> 'x device_registry \<Rightarrow> string option" where
  "get_device_owner i r = map_option dev_owner (map_of r i)"

definition list_devices :: "'x device_registry \<Rightarrow> 'x device_meta list" where
  "list_devices r = map snd r"

definition remove_devices_by_owner :: "string \<Rightarrow> 'x device_registry \<Rightarrow> 'x device_registry \<times> nat" where
  "remove_devices_by_owner inst r =
     (let r' = hm_retain (\<lambda>i m. dev_owner m \<noteq> inst) r in (r', length r - length r'))"

section \<open>Runs\<close>

datatype 'x device_op =
    RegisterDevice string string "'x device_info"
  | TryRegister string string "'x device_info"
  | UpdateDevice string string "'x device_info"
  | RemoveDevice string string
  | RemoveDevices string

fun device_step :: "(8 word list \<Rightarrow> 8 word list) \<Rightarrow> 'x device_op \<Rightarrow> 'x device_registry \<Rightarrow> 'x device_registry" where
  "device_step sha (RegisterDevice uuid o' info) r = fst (register_device sha uuid o' info r)"
| "device_step sha (TryRegister uuid o' info) r = fst (try_register sha uuid o' info r)"
| "device_step sha (UpdateDevice o' i info) r = fst (update_device o' i info r)"
| "device_step sha (RemoveDevice o' i) r = fst (remove_device o' i r)"
| "device_step sha (RemoveDevices o') r = fst (remove_devices_by_owner o' r)"

fun device_actor :: "'x device_op \<Rightarrow> string option" where
  "device_actor (RegisterDevice uuid o' info) = Some o'"
| "device_actor (TryRegister uuid o' info) = Some o'"
| "device_actor (UpdateDevice o' i info) = Some o'"
| "device_actor (RemoveDevice o' i) = Some o'"
| "device_actor (RemoveDevices o') = Some o'"

text \<open>The keys (installation, instance, local id) an operation hashes.\<close>

fun device_keys :: "'x device_op \<Rightarrow> (string \<times> string \<times> string) list" where
  "device_keys (RegisterDevice uuid o' info) = [(uuid, o', dev_local_id info)]"
| "device_keys (TryRegister uuid o' info) = [(uuid, o', dev_local_id info)]"
| "device_keys _ = []"

definition device_view :: "'x device_registry \<Rightarrow> string \<Rightarrow> string \<Rightarrow> 'x device_meta option" where
  "device_view r o' i = (case map_of r i of Some m \<Rightarrow> if dev_owner m = o' then Some m else None | None \<Rightarrow> None)"

text \<open>No two of the keys in use hash to one id.\<close>

definition no_collision :: "(8 word list \<Rightarrow> 8 word list) \<Rightarrow> (string \<times> string \<times> string) set \<Rightarrow> bool" where
  "no_collision sha K = inj_on (\<lambda>(uuid, inst, lid). stable_device_id sha uuid inst lid) K"

definition device_inv ::
  "(8 word list \<Rightarrow> 8 word list) \<Rightarrow> (string \<times> string \<times> string) set \<Rightarrow> nat \<Rightarrow> 'x device_registry \<Rightarrow> bool" where
  "device_inv sha K n r =
     (no_collision sha K \<and> hm_wf r \<and> (\<forall>i m. map_of r i = Some m \<longrightarrow>
        (\<exists>uuid. (uuid, dev_owner m, dev_local_id (dev_info m)) \<in> K
              \<and> i = stable_device_id sha uuid (dev_owner m) (dev_local_id (dev_info m)))))"

lemma device_inv_wf: "device_inv sha K n r \<Longrightarrow> hm_wf r"
  by (simp add: device_inv_def)

text \<open>An id already taken by a key in use belongs to that key's instance.\<close>

lemma same_owner:
  assumes "device_inv sha K n r" and "(uuid, o', lid) \<in> K" and "map_of r (stable_device_id sha uuid o' lid) = Some m"
  shows "dev_owner m = o'"
proof -
  from assms obtain u where u: "(u, dev_owner m, dev_local_id (dev_info m)) \<in> K"
      "stable_device_id sha uuid o' lid = stable_device_id sha u (dev_owner m) (dev_local_id (dev_info m))"
    unfolding device_inv_def by blast
  moreover have "inj_on (\<lambda>(uuid, inst, lid). stable_device_id sha uuid inst lid) K"
    using assms(1) by (simp add: device_inv_def no_collision_def)
  ultimately have "(uuid, o', lid) = (u, dev_owner m, dev_local_id (dev_info m))"
    using assms(2) by (intro inj_onD [of "\<lambda>(uuid, inst, lid). stable_device_id sha uuid inst lid" K]) simp_all
  then show ?thesis by simp
qed

lemma owned_count_view: "hm_wf r \<Longrightarrow> owned_count o' r = card {i. device_view r o' i \<noteq> None}"
proof -
  assume wf: "hm_wf r"
  let ?l = "filter (\<lambda>(i, m). dev_owner m = o') r"
  have "distinct (map fst ?l)" using wf by (simp add: hm_wf_def distinct_map_filter)
  then have "owned_count o' r = card (fst ` set ?l)"
    unfolding owned_count_def using distinct_card [of "map fst ?l"] by simp
  also have "fst ` set ?l = {i. device_view r o' i \<noteq> None}"
  proof (rule set_eqI)
    fix i
    have "i \<in> fst ` set ?l \<longleftrightarrow> (\<exists>m. (i, m) \<in> set r \<and> dev_owner m = o')" by force
    also have "\<dots> \<longleftrightarrow> (\<exists>m. map_of r i = Some m \<and> dev_owner m = o')" by (simp only: hm_entry_iff [OF wf])
    finally show "i \<in> fst ` set ?l \<longleftrightarrow> i \<in> {i. device_view r o' i \<noteq> None}"
      by (auto simp: device_view_def split: option.splits)
  qed
  finally show ?thesis .
qed

lemma insert_device_inv:
  assumes inv: "device_inv sha K n r" and key: "(uuid, o', dev_local_id info) \<in> K"
  shows "device_inv sha K (Suc n) (AList.update (device_id (new_meta sha uuid o' info)) (new_meta sha uuid o' info) r)"
  using assms unfolding device_inv_def by (auto simp: hm.find_put hm_wf_put new_meta_def)

lemma device_step_inv:
  assumes inv: "device_inv sha K n r" and keys: "set (device_keys op) \<subseteq> K"
  shows "device_inv sha K (Suc n) (device_step sha op r)"
proof (cases op)
  case (RegisterDevice uuid o' info)
  with insert_device_inv [OF inv] keys show ?thesis by (simp add: register_device_def Let_def)
next
  case (TryRegister uuid o' info)
  have keep: "device_inv sha K (Suc n) r" using inv by (simp add: device_inv_def)
  with TryRegister insert_device_inv [OF inv] keys show ?thesis by (simp add: try_register_def Let_def)
next
  case (UpdateDevice o' i info)
  have keep: "device_inv sha K (Suc n) r" using inv by (simp add: device_inv_def)
  show ?thesis
  proof (cases "\<exists>m. map_of r i = Some m \<and> dev_owner m = o' \<and> dev_local_id (dev_info m) = dev_local_id info")
    case True
    then obtain m where m: "map_of r i = Some m" "dev_owner m = o'" "dev_local_id info = dev_local_id (dev_info m)" by auto
    have "device_inv sha K (Suc n) (AList.update i (m\<lparr>dev_info := info\<rparr>) r)"
      using inv m(1,3) unfolding device_inv_def by (auto simp: hm.find_put hm_wf_put)
    with UpdateDevice m show ?thesis by (simp add: update_device_def)
  next
    case False
    with UpdateDevice keep show ?thesis by (auto simp: update_device_def split: option.splits)
  qed
next
  case (RemoveDevice o' i)
  with inv show ?thesis
    unfolding device_inv_def by (auto simp: remove_device_def hm.find_drop hm_wf_drop split: option.splits)
next
  case (RemoveDevices o')
  with inv show ?thesis
    unfolding device_inv_def
    by (auto simp: remove_devices_by_owner_def Let_def map_of_retain hm_wf_retain split: option.splits if_splits)
qed

lemma device_view_put [simp]:
  "hm_wf r \<Longrightarrow> device_view (AList.update i m r) o' = (device_view r o')(i := if dev_owner m = o' then Some m else None)"
  by (auto simp: device_view_def hm.find_put fun_eq_iff)

lemma device_view_drop [simp]: "hm_wf r \<Longrightarrow> device_view (AList.delete i r) o' = (device_view r o')(i := None)"
  by (auto simp: device_view_def hm.find_drop fun_eq_iff)

text \<open>What each operation does to what an instance sees.\<close>

lemma view_update_device:
  assumes "hm_wf r"
  shows "device_view (fst (update_device p i info r)) o' =
    (case device_view r p i of
       Some m \<Rightarrow> if p = o' \<and> dev_local_id (dev_info m) = dev_local_id info
                then (device_view r o')(i := Some (m\<lparr>dev_info := info\<rparr>)) else device_view r o'
     | None \<Rightarrow> device_view r o')"
proof (cases "map_of r i")
  case None
  then show ?thesis by (simp add: update_device_def device_view_def)
next
  case (Some m)
  have "device_view r o' i = None" if "dev_owner m \<noteq> o'" using Some that by (simp add: device_view_def)
  moreover have "device_view r p i = (if dev_owner m = p then Some m else None)" using Some by (simp add: device_view_def)
  ultimately show ?thesis using Some assms by (simp add: update_device_def fun_upd_idem)
qed

lemma view_remove_device:
  assumes "hm_wf r"
  shows "device_view (fst (remove_device p i r)) o' = (if p = o' then (device_view r o')(i := None) else device_view r o')"
proof (cases "\<exists>m. map_of r i = Some m \<and> dev_owner m = p")
  case True
  then show ?thesis using assms by (auto simp: remove_device_def fun_upd_idem device_view_def [of r o' i])
next
  case False
  then have "device_view r p i = None" by (auto simp: device_view_def split: option.splits)
  with False show ?thesis by (auto simp: remove_device_def fun_upd_idem split: option.splits)
qed

lemma view_remove_devices:
  assumes "hm_wf r"
  shows "device_view (fst (remove_devices_by_owner p r)) o' = (if p = o' then (\<lambda>_. None) else device_view r o')"
  using assms by (auto simp: remove_devices_by_owner_def Let_def device_view_def map_of_retain fun_eq_iff split: option.splits)

lemma view_insert_device:
  assumes inv: "device_inv sha K n r" and key: "(uuid, p, dev_local_id info) \<in> K"
  defines "m \<equiv> new_meta sha uuid p info"
  shows "device_view (AList.update (device_id m) m r) o' =
    (if p = o' then (device_view r o')(device_id m := Some m) else device_view r o')"
proof -
  have owner: "dev_owner m = p" by (simp add: m_def new_meta_def)
  have "device_view r o' (device_id m) = None" if "p \<noteq> o'"
    using same_owner [OF inv key] that by (auto simp: device_view_def m_def new_meta_def split: option.splits)
  with owner device_inv_wf [OF inv] show ?thesis by (auto simp: fun_upd_idem)
qed

lemma taken_iff:
  assumes "device_inv sha K n r" and "(uuid, p, dev_local_id info) \<in> K"
  shows "map_of r (device_id (new_meta sha uuid p info)) = None \<longleftrightarrow> device_view r p (device_id (new_meta sha uuid p info)) = None"
  using same_owner [OF assms] by (auto simp: device_view_def new_meta_def split: option.splits)

lemma device_local_respect:
  assumes inv: "device_inv sha K n r" and keys: "set (device_keys op) \<subseteq> K" and other: "device_actor op \<noteq> Some o'"
  shows "device_view (device_step sha op r) o' = device_view r o'"
  using other keys view_insert_device [OF inv] device_inv_wf [OF inv]
  by (cases op) (simp_all add: register_device_def try_register_def Let_def
      view_update_device view_remove_device view_remove_devices split: option.splits)

lemma device_step_consistent:
  assumes inv: "device_inv sha K n r" "device_inv sha K m t" and keys: "set (device_keys op) \<subseteq> K"
    and own: "device_actor op = Some o'" and same: "device_view r o' = device_view t o'"
  shows "device_view (device_step sha op r) o' = device_view (device_step sha op t) o'"
proof -
  have wf: "hm_wf r" "hm_wf t" using inv device_inv_wf by blast+
  show ?thesis
  proof (cases op)
    case (TryRegister uuid p info)
    then have p: "p = o'" and k: "(uuid, o', dev_local_id info) \<in> K" using own keys by simp_all
    have "owned_count o' r = owned_count o' t" using owned_count_view wf same by metis
    with TryRegister p k view_insert_device [OF inv(1) k] view_insert_device [OF inv(2) k]
      taken_iff [OF inv(1) k] taken_iff [OF inv(2) k] same
    show ?thesis by (simp add: try_register_def Let_def)
  next
    case (UpdateDevice p i info)
    with own same show ?thesis
      by (simp add: view_update_device [OF wf(1)] view_update_device [OF wf(2)] split: option.split)
  qed (use own keys same wf view_insert_device [OF inv(1)] view_insert_device [OF inv(2)] in
      \<open>simp_all add: register_device_def Let_def view_remove_device view_remove_devices\<close>)
qed

interpretation dev: isolated_store "device_inv sha K" "\<lambda>_. True" "\<lambda>op. set (device_keys op) \<subseteq> K"
    "device_step sha" device_actor device_view for sha K
  by unfold_locales (rule device_step_inv device_local_respect device_step_consistent TrueI; assumption)+

definition device_run :: "(8 word list \<Rightarrow> 8 word list) \<Rightarrow> 'x device_op list \<Rightarrow> 'x device_registry" where
  "device_run sha ops = fold (device_step sha) ops []"

definition run_keys :: "'x device_op list \<Rightarrow> (string \<times> string \<times> string) set" where
  "run_keys ops = set (concat (map device_keys ops))"

lemma run_keys_ok: "list_all (\<lambda>op. set (device_keys op) \<subseteq> run_keys ops) ops"
  by (auto simp: list_all_iff run_keys_def)

lemma device_inv_empty: "no_collision sha K \<Longrightarrow> device_inv sha K 0 []"
  by (simp add: device_inv_def hm_wf_def)

section \<open>Properties\<close>

text \<open>
  The hashed input separates its fields.  Installations, instances and local ids of less than four gigabytes
  have the same hashed input only if all three agree, whatever separators their names contain.
\<close>

theorem device_preimage_inj:
  assumes "length u < 2 ^ 32" "length i < 2 ^ 32" "length l < 2 ^ 32"
    and "length u' < 2 ^ 32" "length i' < 2 ^ 32" "length l' < 2 ^ 32"
  shows "device_preimage u i l = device_preimage u' i' l' \<longleftrightarrow> u = u' \<and> i = i' \<and> l = l'"
proof -
  have framed: "framed a @ x = framed b @ y \<longleftrightarrow> a = b \<and> x = y" if "length a < 2 ^ 32" "length b < 2 ^ 32" for a b x y
  proof
    assume eq: "framed a @ x = framed b @ y"
    then have "take 4 (framed a @ x) = take 4 (framed b @ y)" by (rule arg_cong)
    then have "be32 (length a) = be32 (length b)" using that by (simp add: framed_def)
    then have len: "length a = length b" using that be32_inj by blast
    then have "string_bytes a = string_bytes b" and xy: "x = y" using eq by (simp_all add: framed_def)
    then have "a = b" using string_bytes_inj by blast
    with xy show "a = b \<and> x = y" by blast
  qed simp
  have last: "framed l = framed l' \<longleftrightarrow> l = l'" using framed [OF assms(3,6), of "[]" "[]"] by simp
  show ?thesis by (simp only: device_preimage_def append_assoc same_append_eq framed [OF assms(1,4)] framed [OF assms(2,5)] last)
qed


text \<open>
  Instances do not see each other's devices.  As long as the keys in use hash to different ids, what an instance sees of
  the registry after any run is what it would see had only its own operations run.
\<close>

theorem devices_noninterfering:
  assumes "no_collision sha (run_keys ops)"
  shows "device_view (device_run sha ops) o'
    = device_view (device_run sha (filter (\<lambda>op. device_actor op = Some o') ops)) o'"
  unfolding device_run_def using device_inv_empty [OF assms] run_keys_ok by (rule dev.noninterference)

lemma owned_put:
  assumes "hm_wf r" and "dev_owner m = p"
  shows "owned_count o' (AList.update i m r) \<le> (if p = o' \<and> device_view r o' i = None then Suc (owned_count o' r) else owned_count o' r)"
proof -
  have fin: "finite {j. device_view r o' j \<noteq> None}"
    by (rule finite_subset [of _ "dom (map_of r)"]) (auto simp: device_view_def finite_dom_map_of split: option.splits)
  have "{j. device_view (AList.update i m r) o' j \<noteq> None} \<subseteq>
      (if p = o' then insert i {j. device_view r o' j \<noteq> None} else {j. device_view r o' j \<noteq> None})"
    using assms by (auto split: if_splits)
  then have "card {j. device_view (AList.update i m r) o' j \<noteq> None} \<le>
      card (if p = o' then insert i {j. device_view r o' j \<noteq> None} else {j. device_view r o' j \<noteq> None})"
    using fin by (intro card_mono) simp_all
  also have "\<dots> \<le> (if p = o' \<and> device_view r o' i = None then Suc (card {j. device_view r o' j \<noteq> None})
      else card {j. device_view r o' j \<noteq> None})"
    using fin by (simp add: card_insert_if)
  finally show ?thesis by (simp only: owned_count_view [OF assms(1)] owned_count_view [OF hm_wf_put [OF assms(1)]])
qed

lemma length_filter_twice: "length (filter P (filter Q xs)) \<le> length (filter P xs)"
  by (induction xs) simp_all

lemma owned_filter: "owned_count o' (hm_retain P r) \<le> owned_count o' r" "owned_count o' (AList.delete i r) \<le> owned_count o' r"
  unfolding owned_count_def hm_retain_def AList.delete_eq by (rule length_filter_twice)+

fun uncapped_op :: "'x device_op \<Rightarrow> bool" where
  "uncapped_op (RegisterDevice uuid o' info) = True"
| "uncapped_op _ = False"

lemma cap_step:
  assumes inv: "device_inv sha K n r" and keys: "set (device_keys op) \<subseteq> K" and "\<not> uncapped_op op"
    and cap: "owned_count o' r \<le> max_devices_per_instance"
  shows "owned_count o' (device_step sha op r) \<le> max_devices_per_instance"
proof (cases op)
  case (TryRegister uuid p info)
  let ?m = "new_meta sha uuid p info"
  have "device_view r p (device_id ?m) = None \<longleftrightarrow> map_of r (device_id ?m) = None"
    using taken_iff [OF inv, of uuid p info] keys TryRegister by auto
  moreover have "owned_count o' (AList.update (device_id ?m) ?m r) \<le>
      (if p = o' \<and> device_view r o' (device_id ?m) = None then Suc (owned_count o' r) else owned_count o' r)"
    by (rule owned_put [OF device_inv_wf [OF inv]]) (simp add: new_meta_def)
  ultimately show ?thesis using TryRegister cap by (auto simp: try_register_def Let_def split: if_splits)
next
  case (UpdateDevice p i info)
  show ?thesis
  proof (cases "\<exists>m. map_of r i = Some m \<and> dev_owner m = p \<and> dev_local_id (dev_info m) = dev_local_id info")
    case True
    then obtain m where m: "map_of r i = Some m" "dev_owner m = p" by blast
    then have "owned_count o' (AList.update i (m\<lparr>dev_info := info\<rparr>) r) \<le> owned_count o' r"
      using owned_put [OF device_inv_wf [OF inv], of "m\<lparr>dev_info := info\<rparr>" p o' i]
      by (cases "p = o'") (simp_all add: device_view_def)
    with UpdateDevice True m cap show ?thesis by (auto simp: update_device_def)
  next
    case False
    with UpdateDevice cap show ?thesis by (auto simp: update_device_def split: option.splits)
  qed
next
  case (RemoveDevice p i)
  with cap owned_filter(2) [of o' i r] show ?thesis by (auto simp: remove_device_def split: option.splits)
next
  case (RemoveDevices p)
  with cap show ?thesis
    using order_trans [OF owned_filter(1) cap] by (simp add: remove_devices_by_owner_def Let_def)
qed (use assms(3) in simp)

text \<open>
  The cap.  However registrations through \<^verbatim>\<open>try_register\<close>, updates and removals of all instances interleave, no instance ever
  owns more than 1024 devices.
\<close>

theorem devices_capped:
  assumes "no_collision sha (run_keys ops)" and "\<forall>op \<in> set ops. \<not> uncapped_op op"
  shows "owned_count o' (device_run sha ops) \<le> 1024"
proof -
  have "owned_count o' (fold (device_step sha) os r) \<le> max_devices_per_instance"
    if "device_inv sha K n r" "\<forall>op \<in> set os. set (device_keys op) \<subseteq> K \<and> \<not> uncapped_op op"
      "owned_count o' r \<le> max_devices_per_instance" for K n r and os :: "'a device_op list"
    using that
  proof (induction os arbitrary: n r)
    case (Cons op os)
    then show ?case using device_step_inv [OF Cons.prems(1)] cap_step [OF Cons.prems(1)]
      by (simp add: Cons.IH [of "Suc n"])
  qed simp
  from this [OF device_inv_empty [OF assms(1)], of ops] show ?thesis
    using assms(2) run_keys_ok [of ops] by (simp add: device_run_def list_all_iff owned_count_def max_devices_per_instance_def)
qed

section \<open>Witnesses\<close>

definition len_hash :: "8 word list \<Rightarrow> 8 word list" where
  "len_hash bs = [of_nat (length bs)]"

definition sample_ops :: "unit device_op list" where
  "sample_ops = [TryRegister ''u'' ''alpha'' \<lparr>dev_local_id = ''lamp'', device_rest = ()\<rparr>,
     TryRegister ''u'' ''beta'' \<lparr>dev_local_id = ''lamp'', device_rest = ()\<rparr>, RemoveDevices ''beta'']"

lemma sample_ids:
  "stable_device_id len_hash ''u'' ''alpha'' ''lamp'' = ''dev-2f''"
  "stable_device_id len_hash ''u'' ''beta'' ''lamp'' = ''dev-2e''"
  by (simp_all add: stable_device_id_def len_hash_def device_preimage_def framed_def hex_bytes_def hex_byte_def digit_char_def)

lemma sample_no_collision: "no_collision len_hash (run_keys sample_ops)"
  by (simp add: no_collision_def run_keys_def sample_ops_def sample_ids)

theorem device_preimage_inj_witness:
  "device_preimage ''ab'' ''c'' ''d'' \<noteq> device_preimage ''a'' ''bc'' ''d''"
  by (subst device_preimage_inj) simp_all

theorem devices_noninterfering_witness:
  "device_view (device_run len_hash sample_ops) ''alpha'' =
     device_view (device_run len_hash (take 1 sample_ops)) ''alpha''"
  using devices_noninterfering [OF sample_no_collision, of "''alpha''"] by (simp add: sample_ops_def)

theorem devices_capped_witness: "owned_count ''alpha'' (device_run len_hash sample_ops) \<le> 1024"
  by (rule devices_capped [OF sample_no_collision]) (simp add: sample_ops_def)

end
