(* ===== verification/Durations.thy ===== *)
theory Durations
  imports F64
begin

text \<open>
  The parts of \<^verbatim>\<open>std::time::Duration\<close> the sources compute with.  A \<^verbatim>\<open>Duration\<close> is its number of
  nanoseconds, at most \<^verbatim>\<open>Duration::MAX\<close>; an \<^verbatim>\<open>Instant\<close> is one too, counted from the start of the clock, so
  \<^verbatim>\<open>duration_since\<close> is subtraction that stops at zero.
\<close>

definition nanos_per_sec :: nat where
  "nanos_per_sec = 1000000000"

definition duration_max :: nat where
  "duration_max = 2 ^ 64 * nanos_per_sec - 1"

definition duration_saturating_mul :: "nat \<Rightarrow> nat \<Rightarrow> nat" where
  "duration_saturating_mul d k = min (d * k) duration_max"

definition as_secs_f64 :: "nat \<Rightarrow> rat" where
  "as_secs_f64 d = fl (fl (of_nat (d div nanos_per_sec)) + fl (of_nat (d mod nanos_per_sec) / of_nat nanos_per_sec))"

definition from_secs_f64 :: "rat \<Rightarrow> nat" where
  "from_secs_f64 x = nat (round_even (x * of_nat nanos_per_sec))"

definition duration_mul_f64 :: "nat \<Rightarrow> rat \<Rightarrow> nat" where
  "duration_mul_f64 d x = from_secs_f64 (fl (x * as_secs_f64 d))"

lemma from_secs_mono: "x \<le> y \<Longrightarrow> from_secs_f64 x \<le> from_secs_f64 y"
  unfolding from_secs_f64_def by (intro nat_mono round_even_mono mult_right_mono) simp_all

lemma whole_seconds:
  assumes "c < 2 ^ 53"
  shows "as_secs_f64 (c * nanos_per_sec) = of_nat c"
proof -
  have "fl (of_nat c) = of_nat c" using fl_of_int [of "int c"] assms by simp
  then show ?thesis by (simp add: as_secs_f64_def nanos_per_sec_def)
qed

section \<open>Rounding errors\<close>

definition ulp :: rat where
  "ulp = 1 / 2 ^ 52"

lemma ulp_pos [simp]: "0 < ulp" "0 \<le> ulp"
  by (simp_all add: ulp_def)

lemma powi_ulp: "(2::rat) powi (- 52) = ulp"
  by (simp add: ulp_def power_int_def power_divide)

definition tiny :: rat where
  "tiny = 2 powi (- 1074)"

text \<open>Rounding adds at most a unit in the last place, or the spacing of the subnormal numbers.\<close>

lemma fl_upper:
  assumes "0 \<le> x"
  shows "fl x \<le> x + max (x * ulp) tiny"
proof (cases "x = 0")
  case False
  with assms have x: "0 < x" by simp
  define e where "e = ulp_exp x"
  have "fl x = of_int (round_even (x / 2 powi e)) * 2 powi e" using False by (simp add: fl_def e_def)
  also have "\<dots> \<le> (x / 2 powi e + 1) * 2 powi e"
  proof (rule mult_right_mono)
    have "of_int (round_even (x / 2 powi e)) \<le> (of_int (\<lfloor>x / 2 powi e\<rfloor> + 1) :: rat)"
      using round_even_bounds(2) [of "x / 2 powi e"] by (simp only: of_int_le_iff)
    also have "\<dots> \<le> x / 2 powi e + 1" by (simp add: of_int_floor_le)
    finally show "of_int (round_even (x / 2 powi e)) \<le> x / 2 powi e + 1" .
  qed (simp add: less_imp_le)
  also have "\<dots> = x + 2 powi e" using powi2_pos [of e] by (simp add: distrib_right)
  also have "2 powi e \<le> max (x * ulp) tiny"
  proof (cases "log2_floor x - 52 \<le> - 1074")
    case True
    then have "e = - 1074" using x by (simp add: e_def ulp_exp_def max_def)
    then show ?thesis by (simp add: tiny_def)
  next
    case False
    then have "e = log2_floor x + - 52" using x by (simp add: e_def ulp_exp_def max_def)
    then have "2 powi e = 2 powi log2_floor x * ulp" by (simp only: powi2_add powi_ulp)
    also have "\<dots> \<le> x * ulp" using log2_floor_bounds(1) [OF x] by (intro mult_right_mono) simp_all
    finally show ?thesis by simp
  qed
  finally show ?thesis by simp
qed simp

text \<open>Away from the subnormal numbers the error is relative.\<close>

lemma fl_relative:
  assumes "x = 0 \<or> 1 / 10 ^ 9 \<le> x"
  shows "fl x \<le> x * (1 + ulp)"
proof (cases "x = 0")
  case False
  with assms have x: "1 / 10 ^ 9 \<le> x" by simp
  have "tiny \<le> 2 powi (- 30 + - 52)" unfolding tiny_def by (simp only: powi2_le_iff)
  also have "\<dots> = 1 / 2 ^ 30 * ulp"
    unfolding powi2_add powi_ulp by (simp add: power_int_def power_divide)
  also have "\<dots> \<le> x * ulp" using x by (intro mult_right_mono) simp_all
  finally have "max (x * ulp) tiny = x * ulp" by simp
  moreover have "0 \<le> x" using x by (rule order_trans [rotated]) simp
  ultimately show ?thesis using fl_upper [of x] by (simp add: distrib_left)
qed simp

lemma fl_absolute:
  assumes "0 \<le> x" and "x \<le> 2 * c" and "1 \<le> c"
  shows "fl x \<le> x + 2 * c * ulp"
proof -
  have "tiny \<le> ulp" unfolding tiny_def powi_ulp [symmetric] by (simp only: powi2_le_iff)
  also have "\<dots> \<le> 2 * c * ulp" using mult_right_mono [of 1 "2 * c" ulp] assms(3) by simp
  finally have "max (x * ulp) tiny \<le> 2 * c * ulp" using mult_right_mono [OF assms(2), of ulp] by simp
  then have "x + max (x * ulp) tiny \<le> x + 2 * c * ulp" by (rule add_left_mono)
  with fl_upper [OF assms(1)] show ?thesis by (rule order_trans)
qed

lemma as_secs_nonneg: "0 \<le> as_secs_f64 d"
  unfolding as_secs_f64_def by (intro fl_nonneg add_nonneg_nonneg) simp_all

text \<open>The measured time is the elapsed time, up to a relative error.\<close>

lemma as_secs_upper: "as_secs_f64 d \<le> of_nat d / 10 ^ 9 * (1 + ulp) ^ 2"
proof -
  let ?s = "of_nat (d div nanos_per_sec) :: rat" and ?f = "of_nat (d mod nanos_per_sec) / of_nat nanos_per_sec :: rat"
  have n: "(of_nat nanos_per_sec :: rat) = 10 ^ 9" by (simp add: nanos_per_sec_def)
  have "of_nat d = ?s * of_nat nanos_per_sec + (of_nat (d mod nanos_per_sec) :: rat)"
    by (metis div_mult_mod_eq of_nat_add of_nat_mult)
  then have d: "of_nat d / 10 ^ 9 = ?s + ?f" unfolding n by (simp add: add_divide_distrib)
  have s: "?s = 0 \<or> 1 / 10 ^ 9 \<le> ?s" by (cases "d div nanos_per_sec") simp_all
  have f: "?f = 0 \<or> 1 / 10 ^ 9 \<le> ?f" by (cases "d mod nanos_per_sec") (simp_all add: nanos_per_sec_def divide_right_mono)
  have "fl ?s + fl ?f \<le> (?s + ?f) * (1 + ulp)" using fl_relative [OF s] fl_relative [OF f] by (simp add: distrib_right)
  moreover have "0 \<le> fl ?s + fl ?f" by (intro add_nonneg_nonneg fl_nonneg) simp_all
  ultimately have "as_secs_f64 d \<le> fl ((?s + ?f) * (1 + ulp))"
    unfolding as_secs_f64_def by (intro fl_mono)
  also have "(?s + ?f) * (1 + ulp) = 0 \<or> 1 / 10 ^ 9 \<le> (?s + ?f) * (1 + ulp)"
  proof -
    have "?s + ?f = 0 \<or> 1 / 10 ^ 9 \<le> ?s + ?f" using s f by auto
    moreover have "1 / 10 ^ 9 \<le> z \<Longrightarrow> 1 / 10 ^ 9 \<le> z * (1 + ulp)" for z :: rat
      using mult_mono [of "1 / 10 ^ 9" z 1 "1 + ulp"] by simp
    ultimately show ?thesis by auto
  qed
  then have "fl ((?s + ?f) * (1 + ulp)) \<le> (?s + ?f) * (1 + ulp) * (1 + ulp)" by (rule fl_relative)
  finally show ?thesis unfolding d power2_eq_square by (simp only: mult.assoc)
qed

end
