(* ===== verification/Lifecycle.thy ===== *)
theory Lifecycle
  imports Manifest Durations
begin

text \<open>
  \<^verbatim>\<open>crates/oxidhome-core/src/runtime/lifecycle.rs\<close> and the deadline arithmetic of \<^verbatim>\<open>watchdog.rs\<close>: the supervisor task of
  one plugin instance.  The task is a function of its script: for every attempt how the load, the guest calls and the
  waits turned out.  Its result is the trace of what it published and answered, in order, and whether the task has
  ended; a script that stops early is a task still running.
\<close>

section \<open>States, traps and the restart decision\<close>

datatype instance_state =
    Loading
  | Inited
  | Running
  | Crashed string nat
  | Restarting nat
  | Stopping
  | Stopped
  | Failed string

fun is_terminal :: "instance_state \<Rightarrow> bool" where
  "is_terminal Stopped = True"
| "is_terminal (Failed _) = True"
| "is_terminal _ = False"

datatype trap_reason =
    Trap string
  | InitFailed string
  | Unresponsive string

fun show_trap_reason :: "trap_reason \<Rightarrow> string" where
  "show_trap_reason (Trap m) = ''trap: '' @ m"
| "show_trap_reason (InitFailed m) = ''init failed: '' @ m"
| "show_trap_reason (Unresponsive m) = ''unresponsive (watchdog): '' @ m"

text \<open>An \<^verbatim>\<open>anyhow::Error\<close>: its rendering and its chain of causes.\<close>

datatype cause = WasmInterrupt | WasmTrap | OtherCause

record guest_error =
  error_text :: string
  causes :: "cause list"

definition is_watchdog_trap :: "guest_error \<Rightarrow> bool" where
  "is_watchdog_trap e = list_ex (\<lambda>c. c = WasmInterrupt) (causes e)"

definition classify_post_init_trap :: "guest_error \<Rightarrow> trap_reason" where
  "classify_post_init_trap e = (if is_watchdog_trap e then Unresponsive (error_text e) else Trap (error_text e))"

datatype init_error = InitPlugin string | InitTrap string | InitUnresponsive string

fun init_reason :: "init_error \<Rightarrow> trap_reason" where
  "init_reason (InitPlugin m) = InitFailed m"
| "init_reason (InitTrap m) = Trap m"
| "init_reason (InitUnresponsive m) = Unresponsive m"

datatype restart_decision = Restart | GiveUp

fun policy_allows :: "restart_policy \<Rightarrow> trap_reason \<Rightarrow> bool" where
  "policy_allows Never _ = False"
| "policy_allows Always _ = True"
| "policy_allows OnTrap r = (case r of Trap _ \<Rightarrow> True | Unresponsive _ \<Rightarrow> True | InitFailed _ \<Rightarrow> False)"

definition restart_decision :: "restart_policy \<Rightarrow> trap_reason \<Rightarrow> nat \<Rightarrow> nat \<Rightarrow> restart_decision" where
  "restart_decision policy reason restarts_done max_restarts =
     (if policy_allows policy reason \<and> restarts_done < max_restarts then Restart else GiveUp)"

section \<open>The backoff and the watchdog deadline\<close>

record backoff_policy =
  backoff_from :: nat
  backoff_cap :: nat

definition ceiling_delay :: "backoff_policy \<Rightarrow> nat \<Rightarrow> nat" where
  "ceiling_delay b attempt =
     (let shift = min (attempt - 1) 31 in min (duration_saturating_mul (backoff_from b) (2 ^ shift)) (backoff_cap b))"

text \<open>\<open>nanos\<close> is the sub-second part of the system clock.\<close>

definition jitter :: "nat \<Rightarrow> rat" where
  "jitter nanos = fl (1 / 2 + fl (1 / 2 * fl (of_nat nanos / 1000000000)))"

definition next_delay :: "backoff_policy \<Rightarrow> nat \<Rightarrow> nat \<Rightarrow> nat" where
  "next_delay b nanos attempt = duration_mul_f64 (ceiling_delay b attempt) (jitter nanos)"

record tuning =
  backoff_base :: nat
  backoff_max :: nat
  max_restarts :: nat
  healthy_reset :: nat
  watchdog :: nat

definition default_tuning :: tuning where
  "default_tuning = \<lparr>backoff_base = nanos_per_sec, backoff_max = 60 * nanos_per_sec, max_restarts = 10,
     healthy_reset = 300 * nanos_per_sec, watchdog = 30 * nanos_per_sec\<rparr>"

definition epoch_tick_ms :: nat where
  "epoch_tick_ms = 100"

definition deadline_ticks :: "nat \<Rightarrow> nat" where
  "deadline_ticks timeout =
     (let ms = min (timeout div 1000000) (2 ^ 64 - 1) in max (ms div epoch_tick_ms) 1 + 1)"

section \<open>The run loop\<close>

text \<open>
  What a \<^verbatim>\<open>select!\<close> arm received, with the outcome of the guest call the arm makes.  A number names the reply
  channel of a command; \<open>Closed\<close> is \<^verbatim>\<open>recv\<close> returning \<^verbatim>\<open>None\<close>.
\<close>

datatype 'r control_input =
    Closed "guest_error + unit"
  | ShutdownCmd nat "guest_error + unit"
  | Execute nat "guest_error + 'r"
  | ExecuteService nat "guest_error + 'r"

datatype 'r serve_input =
    Control "'r control_input"
  | TickFired "guest_error + unit"
  | Woken

datatype 'r backoff_input =
    SleepElapsed
  | BackoffClosed
  | BackoffShutdown nat
  | BackoffExecute nat
  | BackoffService nat

datatype 'r sup_event =
    Published instance_state
  | Reply nat "string + 'r"
  | StopAck nat
  | GuardDropped nat
  | ClearedOwner
  | UuidPinned
  | SleepFor nat

datatype loop_action = ContinueLoop | StopLoop | StopFailed string

datatype serve_outcome = ServeStopped | ServeStoppedFailed string | ServeCrashed trap_reason

datatype lifecycle_outcome =
    LifecycleStopped
  | LifecycleStoppedFailed string
  | LoadFailed string
  | LifecycleCrashed restart_policy trap_reason bool

datatype backoff_outcome = BackoffElapsed | BackoffStop

fun handle_control :: "string \<Rightarrow> 'r control_input \<Rightarrow> 'r sup_event list \<times> (guest_error + loop_action)" where
  "handle_control inst (Closed res) = ([Published Stopping], bind_result res (\<lambda>_. Ok StopLoop))"
| "handle_control inst (ShutdownCmd k res) =
     ([Published Stopping, StopAck k],
      case res of Ok _ \<Rightarrow> Ok StopLoop | Err e \<Rightarrow> Ok (StopFailed (''shutdown trapped: '' @ error_text e)))"
| "handle_control inst (Execute k res) =
     (case res of
        Ok r \<Rightarrow> ([Reply k (Ok r)], Ok ContinueLoop)
      | Err e \<Rightarrow> ([Reply k (Err (''instance `'' @ inst @ ''` crashed during execute-command: '' @ error_text e))], Err e))"
| "handle_control inst (ExecuteService k res) =
     (case res of
        Ok r \<Rightarrow> ([GuardDropped k, Reply k (Ok r)], Ok ContinueLoop)
      | Err e \<Rightarrow> ([GuardDropped k,
          Reply k (Err (''instance `'' @ inst @ ''` crashed during execute-service-command: '' @ error_text e))], Err e))"

fun serve_arm :: "string \<Rightarrow> 'r serve_input \<Rightarrow> 'r sup_event list \<times> (guest_error + loop_action)" where
  "serve_arm inst (Control c) = handle_control inst c"
| "serve_arm inst (TickFired res) = ([], bind_result res (\<lambda>_. Ok ContinueLoop))"
| "serve_arm inst Woken = ([], Ok ContinueLoop)"

text \<open>Each turn of the loop: an arm, and the outcome of the event drain after it.\<close>

fun serve_loop :: "string \<Rightarrow> ('r serve_input \<times> (guest_error + unit)) list \<Rightarrow> 'r sup_event list \<times> serve_outcome option" where
  "serve_loop inst [] = ([], None)"
| "serve_loop inst ((inp, drained) # turns) =
     (case serve_arm inst inp of
        (es, Ok ContinueLoop) \<Rightarrow>
          (case drained of
             Err e \<Rightarrow> (es, Some (ServeCrashed (classify_post_init_trap e)))
           | Ok _ \<Rightarrow> (let (es', out) = serve_loop inst turns in (es @ es', out)))
      | (es, Ok StopLoop) \<Rightarrow> (es @ [Published Stopped], Some ServeStopped)
      | (es, Ok (StopFailed r)) \<Rightarrow> (es, Some (ServeStoppedFailed r))
      | (es, Err e) \<Rightarrow> (es, Some (ServeCrashed (classify_post_init_trap e))))"

section \<open>One attempt\<close>

text \<open>The script of one attempt; \<open>ran_for\<close> is the time spent in the run loop.\<close>

record 'r attempt =
  load_result :: "string + restart_policy"
  init_result :: "init_error + unit"
  first_drain :: "guest_error + unit"
  turns :: "('r serve_input \<times> (guest_error + unit)) list"
  ran_for :: nat

definition run_one_lifecycle ::
  "string \<Rightarrow> nat \<Rightarrow> 'r attempt \<Rightarrow> 'r sup_event list \<times> lifecycle_outcome option" where
  "run_one_lifecycle inst healthy a =
     (case load_result a of
        Err e \<Rightarrow> ([ClearedOwner, Published Loading], Some (LoadFailed e))
      | Ok policy \<Rightarrow>
          (case init_result a of
             Err e \<Rightarrow> ([ClearedOwner, Published Loading, UuidPinned], Some (LifecycleCrashed policy (init_reason e) False))
           | Ok _ \<Rightarrow>
               (case first_drain a of
                  Err e \<Rightarrow> ([ClearedOwner, Published Loading, UuidPinned, Published Inited],
                     Some (LifecycleCrashed policy (classify_post_init_trap e) False))
                | Ok _ \<Rightarrow>
                    (let (es, out) = serve_loop inst (turns a) in
                     ([ClearedOwner, Published Loading, UuidPinned, Published Inited, Published Running] @ es,
                      map_option (\<lambda>s. case s of
                          ServeStopped \<Rightarrow> LifecycleStopped
                        | ServeStoppedFailed r \<Rightarrow> LifecycleStoppedFailed r
                        | ServeCrashed r \<Rightarrow> LifecycleCrashed policy r (ran_for a \<ge> healthy)) out)))))"

fun backoff_wait :: "string \<Rightarrow> 'r backoff_input list \<Rightarrow> 'r sup_event list \<times> backoff_outcome option" where
  "backoff_wait inst [] = ([], None)"
| "backoff_wait inst (SleepElapsed # _) = ([], Some BackoffElapsed)"
| "backoff_wait inst (BackoffClosed # _) = ([], Some BackoffStop)"
| "backoff_wait inst (BackoffShutdown k # _) = ([StopAck k], Some BackoffStop)"
| "backoff_wait inst (BackoffExecute k # ins) =
     (let (es, out) = backoff_wait inst ins in
      (Reply k (Err (''instance `'' @ inst @ ''` is restarting after a crash'')) # es, out))"
| "backoff_wait inst (BackoffService k # ins) =
     (let (es, out) = backoff_wait inst ins in
      (Reply k (Err (''instance `'' @ inst @ ''` is restarting after a crash'')) # GuardDropped k # es, out))"

section \<open>The supervisor\<close>

text \<open>One pass of the supervisor's loop: an attempt, the backoff after it and the clock read by the jitter.\<close>

type_synonym 'r sup_turn = "'r attempt \<times> 'r backoff_input list \<times> nat"

definition give_up_error :: "tuning \<Rightarrow> restart_policy \<Rightarrow> trap_reason \<Rightarrow> nat \<Rightarrow> string" where
  "give_up_error t policy reason restarts =
     (if restarts \<ge> max_restarts t
      then ''gave up after '' @ show_nat (max_restarts t) @ '' consecutive restarts; last crash: '' @ show_trap_reason reason
      else ''not restarting under `'' @ restart_policy_str policy @ ''` policy: '' @ show_trap_reason reason)"

fun run_supervisor :: "tuning \<Rightarrow> string \<Rightarrow> nat \<Rightarrow> 'r sup_turn list \<Rightarrow> 'r sup_event list \<times> bool" where
  "run_supervisor t inst restarts [] = ([], False)"
| "run_supervisor t inst restarts ((a, waits, nanos) # script) =
     (case run_one_lifecycle inst (healthy_reset t) a of
        (es, None) \<Rightarrow> (es, False)
      | (es, Some LifecycleStopped) \<Rightarrow> (es, True)
      | (es, Some (LifecycleStoppedFailed r)) \<Rightarrow> (es @ [Published (Failed r)], True)
      | (es, Some (LoadFailed m)) \<Rightarrow> (es @ [Published (Failed (''load failed: '' @ m))], True)
      | (es, Some (LifecycleCrashed policy reason ran_healthy)) \<Rightarrow>
          (let n = (if ran_healthy then 0 else restarts) in
           if restart_decision policy reason n (max_restarts t) = GiveUp
           then (es @ [Published (Failed (give_up_error t policy reason n))], True)
           else
             (let delay = next_delay \<lparr>backoff_from = backoff_base t, backoff_cap = backoff_max t\<rparr> nanos (n + 1);
                  es' = es @ [Published (Crashed (show_trap_reason reason) n), Published (Restarting (n + 1)), SleepFor delay] in
              case backoff_wait inst waits of
                (ws, None) \<Rightarrow> (es' @ ws, False)
              | (ws, Some BackoffStop) \<Rightarrow> (es' @ ws @ [Published Stopped], True)
              | (ws, Some BackoffElapsed) \<Rightarrow>
                  (let (es'', ended) = run_supervisor t inst (n + 1) script in (es' @ ws @ es'', ended)))))"

definition supervise :: "tuning \<Rightarrow> string \<Rightarrow> 'r sup_turn list \<Rightarrow> 'r sup_event list \<times> bool" where
  "supervise t inst script = run_supervisor t inst 0 script"

section \<open>The published states\<close>

fun published :: "'r sup_event list \<Rightarrow> instance_state list" where
  "published [] = []"
| "published (Published s # es) = s # published es"
| "published (_ # es) = published es"

lemma published_append [simp]: "published (es @ es') = published es @ published es'"
  by (induction es rule: published.induct) simp_all

text \<open>The transitions of the life cycle.\<close>

fun follows :: "instance_state \<Rightarrow> instance_state \<Rightarrow> bool" where
  "follows Loading s = (case s of Inited \<Rightarrow> True | Crashed _ _ \<Rightarrow> True | Failed _ \<Rightarrow> True | _ \<Rightarrow> False)"
| "follows Inited s = (case s of Running \<Rightarrow> True | Crashed _ _ \<Rightarrow> True | Failed _ \<Rightarrow> True | _ \<Rightarrow> False)"
| "follows Running s = (case s of Stopping \<Rightarrow> True | Crashed _ _ \<Rightarrow> True | Failed _ \<Rightarrow> True | _ \<Rightarrow> False)"
| "follows Stopping s = (case s of Stopped \<Rightarrow> True | Crashed _ _ \<Rightarrow> True | Failed _ \<Rightarrow> True | _ \<Rightarrow> False)"
| "follows (Crashed _ n) s = (s = Restarting (n + 1))"
| "follows (Restarting _) s = (case s of Loading \<Rightarrow> True | Stopped \<Rightarrow> True | _ \<Rightarrow> False)"
| "follows Stopped s = False"
| "follows (Failed _) s = False"

definition live_phase :: "instance_state \<Rightarrow> bool" where
  "live_phase s = (s = Loading \<or> s = Inited \<or> s = Running \<or> s = Stopping)"

lemma live_phase_simps [simp]:
  "live_phase Loading" "live_phase Inited" "live_phase Running" "live_phase Stopping"
  "\<not> live_phase (Restarting n)" "\<not> live_phase (Crashed r n)"
  by (simp_all add: live_phase_def)

lemma live_phase_follows [simp]: "live_phase s \<Longrightarrow> follows s (Crashed r n)" "live_phase s \<Longrightarrow> follows s (Failed e)"
  "live_phase s \<Longrightarrow> \<not> is_terminal s"
  by (auto simp: live_phase_def)

text \<open>The run loop publishes at most that it stops, and then that it has stopped.\<close>

lemma control_published:
  "handle_control inst c = (es, out) \<Longrightarrow>
     (case out of
        Ok ContinueLoop \<Rightarrow> published es = []
      | Ok _ \<Rightarrow> published es = [Stopping]
      | Err e \<Rightarrow> published es = [] \<or> published es = [Stopping])"
  by (cases c) (auto simp: bind_result_def split: sum.splits)

lemma arm_published:
  "serve_arm inst inp = (es, out) \<Longrightarrow>
     (case out of
        Ok ContinueLoop \<Rightarrow> published es = []
      | Ok _ \<Rightarrow> published es = [Stopping]
      | Err e \<Rightarrow> published es = [] \<or> published es = [Stopping])"
  by (cases inp) (auto simp: bind_result_def control_published split: sum.splits)

lemma serve_published:
  "serve_loop inst ts = (es, out) \<Longrightarrow>
     (case out of
        Some ServeStopped \<Rightarrow> published es = [Stopping, Stopped]
      | Some (ServeStoppedFailed r) \<Rightarrow> published es = [Stopping]
      | Some (ServeCrashed r) \<Rightarrow> published es = [] \<or> published es = [Stopping]
      | None \<Rightarrow> published es = [])"
proof (induction inst ts arbitrary: es out rule: serve_loop.induct)
  case (2 inst inp drained turns)
  obtain xs r where x: "serve_arm inst inp = (xs, r)" by fastforce
  show ?case
  proof (cases r)
    case (Inl e)
    with 2 x arm_published [OF x] show ?thesis by auto
  next
    case (Inr act)
    show ?thesis
    proof (cases act)
      case ContinueLoop
      obtain ys q where ys: "serve_loop inst turns = (ys, q)" by fastforce
      have xs: "published xs = []" using arm_published [OF x] Inr ContinueLoop by simp
      show ?thesis
      proof (cases drained)
        case (Inr u)
        with "2.IH" [OF x [symmetric] _ _ Inr ys] \<open>r = Inr act\<close> ContinueLoop "2.prems" x xs ys
        show ?thesis by (auto split: option.splits serve_outcome.splits)
      qed (use "2.prems" x Inr ContinueLoop xs in auto)
    qed (use 2 x Inr arm_published [OF x] in auto)
  qed
qed simp

definition well_published :: "instance_state list \<Rightarrow> bool" where
  "well_published ps = (ps \<noteq> [] \<and> hd ps = Loading \<and> successively follows ps)"

lemma well_published_simps [simp]:
  "well_published (Loading # ps) \<longleftrightarrow> successively follows (Loading # ps)" "\<not> well_published []"
  by (simp_all add: well_published_def)

lemma well_published_append:
  "well_published ps \<Longrightarrow> successively follows (last ps # qs) \<Longrightarrow> well_published (ps @ qs)"
  by (cases qs) (auto simp: well_published_def successively_append_iff)

lemma lifecycle_published:
  "run_one_lifecycle inst h a = (es, out) \<Longrightarrow>
     well_published (published es) \<and> (if out = Some LifecycleStopped then last (published es) = Stopped else live_phase (last (published es)))
     \<and> (\<forall>k. Restarting k \<notin> set (published es))"
  using serve_published [of inst "turns a"]
  by (auto simp: run_one_lifecycle_def split: sum.splits prod.splits option.splits serve_outcome.splits)

lemma backoff_published: "published (fst (backoff_wait inst ws)) = []"
  by (induction inst ws rule: backoff_wait.induct) (simp_all add: case_prod_beta)

text \<open>The counter never passes the cap.\<close>

lemma supervisor_published:
  "n \<le> max_restarts t \<Longrightarrow> run_supervisor t inst n script = (es, ended) \<Longrightarrow>
     script \<noteq> [] \<longrightarrow> well_published (published es) \<and> (ended \<longleftrightarrow> is_terminal (last (published es)))
       \<and> (\<forall>k. Restarting k \<in> set (published es) \<longrightarrow> k \<le> max_restarts t)"
proof (induction t inst n script arbitrary: es ended rule: run_supervisor.induct)
  case (2 t inst n a waits nanos script)
  obtain xs out where x: "run_one_lifecycle inst (healthy_reset t) a = (xs, out)" by fastforce
  note px = lifecycle_published [OF x]
  have fin: "well_published (published (xs @ [Published (Failed e)]))
      \<and> is_terminal (last (published (xs @ [Published (Failed e)])))
      \<and> (\<forall>k. Restarting k \<in> set (published (xs @ [Published (Failed e)])) \<longrightarrow> k \<le> max_restarts t)"
    if "live_phase (last (published xs))" for e
    using px that by (auto intro!: well_published_append)
  show ?case
  proof (cases "out = None \<or> out = Some LifecycleStopped")
    case True
    with 2(2-) x px show ?thesis by auto
  next
    case False
    then have live: "live_phase (last (published xs))" and wp: "well_published (published xs)" using px by simp_all
    from False obtain r where r: "out = Some r" "r \<noteq> LifecycleStopped" by auto
    show ?thesis
    proof (cases r)
      case (LifecycleCrashed policy reason healthy)
      define m where "m = (if healthy then 0 else n)"
      show ?thesis
      proof (cases "restart_decision policy reason m (max_restarts t) = GiveUp")
        case True
        with 2(3) x r LifecycleCrashed fin [OF live] show ?thesis by (auto simp: m_def)
      next
        case False
        then have m: "m < max_restarts t" by (simp add: restart_decision_def split: if_splits)
        obtain ws q where q: "backoff_wait inst waits = (ws, q)" by fastforce
        have ws: "published ws = []" using backoff_published [of inst waits] q by simp
        define ps where "ps = published xs @ [Crashed (show_trap_reason reason) m, Restarting (Suc m)]"
        have ps: "well_published ps" "last ps = Restarting (Suc m)" "\<And>k. Restarting k \<in> set ps \<Longrightarrow> k \<le> max_restarts t"
          using live wp px m by (auto simp: ps_def intro!: well_published_append)
        show ?thesis
        proof (cases q)
          case None
          then have "published es = ps" "\<not> ended"
            using 2(3) x r LifecycleCrashed False q ws by (auto simp: m_def ps_def Let_def)
          with ps show ?thesis by auto
        next
          case (Some w)
          show ?thesis
          proof (cases w)
            case BackoffStop
            then have "published es = ps @ [Stopped]" "ended"
              using 2(3) x r LifecycleCrashed False q ws Some by (auto simp: m_def ps_def Let_def)
            with ps show ?thesis by (auto intro!: well_published_append)
          next
            case BackoffElapsed
            obtain zs e where zs: "run_supervisor t inst (m + 1) script = (zs, e)" by fastforce
            then have es: "published es = ps @ published zs" "ended = e"
              using 2(3) x r LifecycleCrashed False q ws Some BackoffElapsed by (auto simp: m_def ps_def Let_def)
            have "script \<noteq> [] \<longrightarrow> well_published (published zs) \<and> (e \<longleftrightarrow> is_terminal (last (published zs)))
                \<and> (\<forall>k. Restarting k \<in> set (published zs) \<longrightarrow> k \<le> max_restarts t)"
              using 2(1) x r LifecycleCrashed False q Some BackoffElapsed zs m by (auto simp: m_def)
            moreover have "well_published qs \<Longrightarrow> successively follows (Restarting (Suc m) # qs)" for qs
              by (cases qs) (simp_all add: well_published_def)
            ultimately show ?thesis
              using ps es zs by (cases "script = []") (auto simp: well_published_def successively_append_iff)
          qed
        qed
      qed
    qed (use 2(3) x r fin [OF live] in auto)
  qed
qed simp

text \<open>An acknowledged stop ends the pass it happens in.\<close>

lemma published_iff: "s \<in> set (published es) \<longleftrightarrow> Published s \<in> set es"
  by (induction es rule: published.induct) auto

lemma serve_no_loading: "Published Loading \<notin> set (fst (serve_loop inst ts))"
proof -
  obtain es out where x: "serve_loop inst ts = (es, out)" by fastforce
  have "Loading \<notin> set (published es)" using serve_published [OF x] by (auto split: option.splits serve_outcome.splits)
  with x show ?thesis by (simp add: published_iff)
qed

lemma control_stop: "handle_control inst c = (es, Err e) \<or> handle_control inst c = (es, Ok ContinueLoop) \<Longrightarrow> StopAck k \<notin> set es"
  by (cases c) (auto simp: bind_result_def split: sum.splits)

lemma arm_stop:
  assumes "serve_arm inst inp = (es, out)" and "StopAck k \<in> set es"
  shows "\<exists>act. out = Ok act \<and> act \<noteq> ContinueLoop"
proof (cases inp)
  case (Control c)
  with assms control_stop [of inst c es _ k] show ?thesis by (cases out) auto
qed (use assms in auto)

lemma serve_stop:
  "serve_loop inst ts = (es, out) \<Longrightarrow> StopAck k \<in> set es \<Longrightarrow> out = Some ServeStopped \<or> (\<exists>r. out = Some (ServeStoppedFailed r))"
proof (induction inst ts arbitrary: es out rule: serve_loop.induct)
  case (2 inst inp drained turns)
  obtain xs r where x: "serve_arm inst inp = (xs, r)" by fastforce
  show ?case
  proof (cases "StopAck k \<in> set xs")
    case True
    then obtain act where "r = Ok act" "act \<noteq> ContinueLoop" using arm_stop [OF x] by blast
    with 2 x show ?thesis by (cases act) auto
  next
    case False
    obtain ys q where ys: "serve_loop inst turns = (ys, q)" by fastforce
    show ?thesis
    proof (cases "r = Ok ContinueLoop \<and> drained = Ok ()")
      case True
      with "2.prems" x ys False have "StopAck k \<in> set ys" "out = q" by auto
      with "2.IH" [OF x [symmetric] _ _ _ ys] True show ?thesis by simp
    next
      case cont: False
      with "2.prems" x False show ?thesis
        by (cases r) (auto split: loop_action.splits sum.splits)
    qed
  qed
qed simp

lemma lifecycle_stop:
  assumes "run_one_lifecycle inst h a = (es, out)"
  shows "\<exists>ys. es = ClearedOwner # Published Loading # ys \<and> Published Loading \<notin> set ys"
    and "StopAck k \<in> set es \<Longrightarrow> out = Some LifecycleStopped \<or> (\<exists>r. out = Some (LifecycleStoppedFailed r))"
  using assms serve_no_loading [of inst "turns a"] serve_stop [of inst "turns a" "fst (serve_loop inst (turns a))" "snd (serve_loop inst (turns a))" k]
  by (auto simp: run_one_lifecycle_def split: sum.splits prod.splits option.splits)

lemma backoff_stop:
  "backoff_wait inst ws = (es, out) \<Longrightarrow> StopAck k \<in> set es \<Longrightarrow> out = Some BackoffStop"
  by (induction inst ws arbitrary: es rule: backoff_wait.induct) (auto split: prod.splits)

lemma backoff_no_loading: "Published Loading \<notin> set (fst (backoff_wait inst ws))"
  using backoff_published [of inst ws] published_iff [of Loading "fst (backoff_wait inst ws)"] by simp

text \<open>Whether no load is published after an acknowledged stop.\<close>

fun stop_final :: "'r sup_event list \<Rightarrow> bool" where
  "stop_final [] = True"
| "stop_final (StopAck k # es) = (Published Loading \<notin> set es)"
| "stop_final (_ # es) = stop_final es"

lemma stop_final_split: "stop_final (xs @ StopAck k # ys) \<Longrightarrow> Published Loading \<notin> set ys"
  by (induction xs rule: stop_final.induct) auto

lemma stop_final_no_loading: "Published Loading \<notin> set es \<Longrightarrow> stop_final es"
  by (induction es rule: stop_final.induct) auto

lemma stop_final_append: "\<forall>k. StopAck k \<notin> set xs \<Longrightarrow> stop_final (xs @ ys) = stop_final ys"
  by (induction xs rule: stop_final.induct) auto

lemma stop_final_lifecycle:
  assumes "run_one_lifecycle inst h a = (es, out)" and "Published Loading \<notin> set ys"
  shows "stop_final (es @ ys)"
proof -
  obtain zs where "es = ClearedOwner # Published Loading # zs" "Published Loading \<notin> set zs"
    using lifecycle_stop(1) [OF assms(1)] by blast
  with stop_final_no_loading [of "zs @ ys"] assms(2) show ?thesis by simp
qed

lemma supervisor_stop_final: "stop_final (fst (run_supervisor t inst n script))"
proof (induction t inst n script rule: run_supervisor.induct)
  case (2 t inst n a waits nanos script)
  obtain xs out where x: "run_one_lifecycle inst (healthy_reset t) a = (xs, out)" by fastforce
  note fin = stop_final_lifecycle [OF x]
  show ?case
  proof (cases "\<exists>policy reason h. out = Some (LifecycleCrashed policy reason h)")
    case False
    then show ?thesis
      using x fin [of "[]"] fin [of "[Published (Failed e)]" for e]
      by (auto split: option.splits lifecycle_outcome.splits)
  next
    case True
    then obtain policy reason h where out: "out = Some (LifecycleCrashed policy reason h)" by blast
    then have xs: "\<forall>k. StopAck k \<notin> set xs" using lifecycle_stop(2) [OF x] by auto
    obtain ws q where q: "backoff_wait inst waits = (ws, q)" by fastforce
    then have ws: "Published Loading \<notin> set ws" using backoff_no_loading [of inst waits] by simp
    have "q = Some BackoffElapsed \<Longrightarrow> \<forall>k. StopAck k \<notin> set ws" using backoff_stop [OF q] by auto
    then show ?thesis
      using 2 x out q xs ws
      by (auto simp: Let_def stop_final_append stop_final_no_loading split: option.splits backoff_outcome.splits prod.splits)
  qed
qed simp

section \<open>The backoff delay\<close>

lemma fl_half: "fl (1 / 2) = 1 / 2"
  by code_simp

lemma jitter_bounds:
  assumes "nanos < 1000000000"
  shows "1 / 2 \<le> jitter nanos" and "jitter nanos \<le> 1"
proof -
  have one: "fl 1 = 1" using fl_of_int [of 1] by simp
  have "(of_nat nanos :: rat) \<le> of_nat 1000000000" using assms by (simp only: of_nat_le_iff)
  then have "fl (of_nat nanos / 1000000000) \<le> fl 1" by (intro fl_mono) simp_all
  then have "fl (1 / 2 * fl (of_nat nanos / 1000000000)) \<le> fl (1 / 2)"
    using one fl_nonneg [of "of_nat nanos / 1000000000"] by (intro fl_mono) simp_all
  moreover have "0 \<le> fl (1 / 2 * fl (of_nat nanos / 1000000000))" by (intro fl_nonneg mult_nonneg_nonneg) simp_all
  ultimately have y: "0 \<le> fl (1 / 2 * fl (of_nat nanos / 1000000000))" "fl (1 / 2 * fl (of_nat nanos / 1000000000)) \<le> 1 / 2"
    using fl_half by simp_all
  show "1 / 2 \<le> jitter nanos"
    using fl_mono [of "1 / 2" "1 / 2 + fl (1 / 2 * fl (of_nat nanos / 1000000000))"] y fl_half by (simp add: jitter_def)
  show "jitter nanos \<le> 1"
    using fl_mono [of "1 / 2 + fl (1 / 2 * fl (of_nat nanos / 1000000000))" 1] y one by (simp add: jitter_def)
qed

lemma mul_whole_seconds:
  assumes "c < 2 ^ 53" and "c = 1 \<or> even c" and "1 / 2 \<le> x" "x \<le> 1"
  shows "c * 500000000 \<le> duration_mul_f64 (c * nanos_per_sec) x" and "duration_mul_f64 (c * nanos_per_sec) x \<le> c * 1000000000"
proof -
  have whole: "fl (of_nat d) = of_nat d" if "d \<le> c" for d using fl_of_int [of "int d"] assms(1) that by simp
  have half: "fl (of_nat c / 2) = of_nat c / 2"
    using assms(2) fl_half whole by (auto elim!: evenE)
  have "fl (of_nat c / 2) \<le> fl (x * of_nat c)" "fl (x * of_nat c) \<le> fl (of_nat c)"
    using assms(3,4) mult_right_mono [of "1 / 2" x "of_nat c"] mult_right_mono [of x 1 "of_nat c"] by (auto intro!: fl_mono)
  then have le: "from_secs_f64 (of_nat c / 2) \<le> duration_mul_f64 (c * nanos_per_sec) x"
      "duration_mul_f64 (c * nanos_per_sec) x \<le> from_secs_f64 (of_nat c)"
    using half whole [of c] by (simp_all add: duration_mul_f64_def whole_seconds [OF assms(1)] from_secs_mono)
  have "of_nat c / 2 * of_nat nanos_per_sec = (of_int (int (c * 500000000)) :: rat)"
      "of_nat c * of_nat nanos_per_sec = (of_int (int (c * 1000000000)) :: rat)" by (simp_all add: nanos_per_sec_def)
  then have "from_secs_f64 (of_nat c / 2) = c * 500000000" "from_secs_f64 (of_nat c) = c * 1000000000"
    unfolding from_secs_f64_def by (simp_all only: round_even_of_int nat_int)
  with le show "c * 500000000 \<le> duration_mul_f64 (c * nanos_per_sec) x"
      "duration_mul_f64 (c * nanos_per_sec) x \<le> c * 1000000000" by simp_all
qed

lemma production_ceiling:
  "ceiling_delay \<lparr>backoff_from = backoff_base default_tuning, backoff_cap = backoff_max default_tuning\<rparr> attempt
     = min (2 ^ (attempt - 1)) 60 * nanos_per_sec"
proof -
  define k where "k = attempt - 1"
  have "(2::nat) ^ min k 31 \<le> 2 ^ 31" by (intro power_increasing) simp_all
  then have small: "nanos_per_sec * 2 ^ min k 31 \<le> duration_max" by (simp add: duration_max_def nanos_per_sec_def)
  have "min ((2::nat) ^ min k 31) 60 = min (2 ^ k) 60"
  proof (cases "k \<le> 31")
    case False
    then have "(2::nat) ^ 31 \<le> 2 ^ k" by (intro power_increasing) simp_all
    with False show ?thesis by simp
  qed simp
  moreover have "min (nanos_per_sec * x) (60 * nanos_per_sec) = min x 60 * nanos_per_sec" for x
    by (simp add: min_def nanos_per_sec_def)
  moreover have "duration_saturating_mul nanos_per_sec (2 ^ min k 31) = nanos_per_sec * 2 ^ min k 31"
    using small unfolding duration_saturating_mul_def by (rule min_absorb1)
  ultimately show ?thesis
    unfolding k_def ceiling_delay_def Let_def default_tuning_def backoff_policy.simps tuning.simps by (simp only:)
qed

section \<open>Properties\<close>


text \<open>
  Restarts are capped.  No run announces more consecutive restarts than the tuning allows, so the 32-bit counter
  never wraps.
\<close>

theorem restarts_capped: "Restarting k \<in> set (published (fst (supervise t inst script))) \<Longrightarrow> k \<le> max_restarts t"
  using supervisor_published [of 0 t inst script "fst (supervise t inst script)" "snd (supervise t inst script)"]
  by (cases script) (auto simp: supervise_def)

text \<open>
  Claim C15: a stop is final.  Once a stop request has been acknowledged, in the run loop or during a backoff, the instance is never
  loaded again, whatever its restart policy and however its \<^verbatim>\<open>shutdown\<close> ended.
\<close>

theorem stop_is_final: "fst (supervise t inst script) = xs @ StopAck k # ys \<Longrightarrow> Published Loading \<notin> set ys"
  using supervisor_stop_final [of t inst 0 script] stop_final_split by (metis supervise_def)

text \<open>
  Crash loops end.  If no attempt stays up for the healthy window, and every attempt and every backoff comes to an end, the
  supervisor ends within one attempt more than the restart cap.
\<close>

theorem crash_loop_ends:
  assumes "\<forall>(a, ws, nanos) \<in> set script.
      (\<exists>out. snd (run_one_lifecycle inst (healthy_reset t) a) = Some out \<and> (\<forall>p r. out \<noteq> LifecycleCrashed p r True))
      \<and> snd (backoff_wait inst ws) \<noteq> None"
    and "max_restarts t < length script"
  shows "snd (supervise t inst script)"
proof -
  have "snd (run_supervisor t inst n script)" if "max_restarts t < n + length script" "n \<le> max_restarts t" for n
    using assms(1) that
  proof (induction script arbitrary: n)
    case (Cons turn script)
    obtain a ws nanos where turn: "turn = (a, ws, nanos)" by (cases turn) auto
    obtain es out where x: "run_one_lifecycle inst (healthy_reset t) a = (es, out)" by fastforce
    obtain zs q where q: "backoff_wait inst ws = (zs, q)" by fastforce
    have out: "out \<noteq> None" "\<forall>p r. out \<noteq> Some (LifecycleCrashed p r True)" "q \<noteq> None"
      using Cons.prems(1) x q by (auto simp: turn)
    have "n < max_restarts t \<Longrightarrow> snd (run_supervisor t inst (Suc n) script)"
      using Cons.prems by (intro Cons.IH) simp_all
    then show ?case
      using x q out
      by (auto simp: turn Let_def restart_decision_def split: option.splits lifecycle_outcome.splits backoff_outcome.splits prod.splits)
  qed simp
  from this [of 0] assms(2) show ?thesis by (simp add: supervise_def)
qed

text \<open>
  The backoff delay.  With the production tuning, restart \<open>n\<close> waits between half of and all of \<open>min (2 ^ (n - 1)) 60\<close>
  seconds, whatever the clock shows: the jitter, computed in floating point, never exceeds the ceiling.
\<close>

theorem backoff_delay_bounds:
  fixes attempt :: nat
  assumes "nanos < 1000000000"
  defines "delay \<equiv> next_delay \<lparr>backoff_from = backoff_base default_tuning, backoff_cap = backoff_max default_tuning\<rparr> nanos attempt"
  shows "min (2 ^ (attempt - 1)) 60 * 500000000 \<le> delay \<and> delay \<le> min (2 ^ (attempt - 1)) 60 * 1000000000"
proof -
  let ?c = "min (2 ^ (attempt - 1)) 60 :: nat"
  have "?c = 1 \<or> even ?c" by (cases "attempt - 1") (auto simp: min_def)
  moreover have "?c < 2 ^ 53" by simp
  ultimately show ?thesis
    using mul_whole_seconds [of ?c "jitter nanos"] jitter_bounds [OF assms(1)]
    unfolding delay_def next_delay_def production_ceiling by blast
qed

text \<open>
  The watchdog deadline.  For a timeout of at least one tick, the epochs of a deadline span more than the timeout,
  and at most one tick more than it.
\<close>

theorem deadline_ticks_bounds:
  assumes "100 * 1000000 \<le> timeout" and "timeout div 1000000 < 2 ^ 64"
  shows "timeout < deadline_ticks timeout * epoch_tick_ms * 1000000
    \<and> deadline_ticks timeout * epoch_tick_ms * 1000000 \<le> timeout + epoch_tick_ms * 1000000"
proof -
  have "min (timeout div 1000000) (2 ^ 64 - 1) = timeout div 1000000" using assms(2) by simp
  then have "deadline_ticks timeout = timeout div 1000000 div 100 + 1"
    using assms(1) by (simp add: deadline_ticks_def epoch_tick_ms_def Let_def)
  moreover have "timeout div 1000000 div 100 = timeout div 100000000" by (simp add: div_mult2_eq [symmetric])
  ultimately show ?thesis by (simp add: epoch_tick_ms_def)
qed

section \<open>Witnesses\<close>

definition crash_attempt :: "unit attempt" where
  "crash_attempt = \<lparr>load_result = Ok OnTrap, init_result = Ok (), first_drain = Ok (),
     turns = [(TickFired (Err \<lparr>error_text = ''oob'', causes = [WasmTrap]\<rparr>), Ok ())], ran_for = 5\<rparr>"

definition stop_attempt :: "unit attempt" where
  "stop_attempt = crash_attempt\<lparr>turns := [(Control (Execute 1 (Ok ())), Ok ()), (Control (ShutdownCmd 2 (Ok ())), Ok ())]\<rparr>"

definition sample_script :: "unit sup_turn list" where
  "sample_script = [(crash_attempt, [BackoffExecute 0, SleepElapsed], 0), (stop_attempt, [SleepElapsed], 0)]"


definition sample_tuning :: tuning where
  "sample_tuning = default_tuning\<lparr>max_restarts := 1\<rparr>"

definition sample_events :: "unit sup_event list \<times> bool" where
  "sample_events =
     ([ClearedOwner, Published Loading, UuidPinned, Published Inited, Published Running,
       Published (Crashed ''trap: oob'' 0), Published (Restarting 1),
       SleepFor (next_delay \<lparr>backoff_from = backoff_base sample_tuning, backoff_cap = backoff_max sample_tuning\<rparr> 0 1),
       Reply 0 (Err ''instance `lamp` is restarting after a crash''),
       ClearedOwner, Published Loading, UuidPinned, Published Inited, Published Running,
       Reply 1 (Ok ()), Published Stopping, StopAck 2, Published Stopped], True)"

lemma sample_run: "supervise sample_tuning ''lamp'' sample_script = sample_events"
  by (simp add: supervise_def sample_script_def sample_events_def run_one_lifecycle_def crash_attempt_def stop_attempt_def
      classify_post_init_trap_def is_watchdog_trap_def restart_decision_def Let_def sample_tuning_def default_tuning_def
      nanos_per_sec_def)


theorem restarts_capped_witness: "(1::nat) \<le> max_restarts sample_tuning"
  by (rule restarts_capped [of 1 sample_tuning "''lamp''" sample_script]) (simp add: sample_run sample_events_def)

theorem stop_is_final_witness: "Published Loading \<notin> set [Published Stopped :: unit sup_event]"
  by (rule stop_is_final [of sample_tuning "''lamp''" sample_script "butlast (butlast (fst sample_events))" 2])
    (simp add: sample_run sample_events_def)

theorem crash_loop_ends_witness: "snd (supervise sample_tuning ''lamp'' sample_script)"
  by (rule crash_loop_ends)
    (simp_all add: sample_script_def run_one_lifecycle_def crash_attempt_def stop_attempt_def sample_tuning_def default_tuning_def
      nanos_per_sec_def)

theorem backoff_delay_bounds_witness:
  "next_delay \<lparr>backoff_from = backoff_base default_tuning, backoff_cap = backoff_max default_tuning\<rparr> 999999999 40 \<le> 60000000000"
  using backoff_delay_bounds [of 999999999 40] by simp

theorem deadline_ticks_bounds_witness: "30000000000 < deadline_ticks 30000000000 * epoch_tick_ms * 1000000"
  using deadline_ticks_bounds [of 30000000000] by simp

end
