(* ===== verification/Token_Bucket.thy ===== *)
theory Token_Bucket
  imports Durations
begin

text \<open>
  The token bucket of the event bus (\<^verbatim>\<open>crates/oxidhome-core/src/state/events.rs\<close>) and of the MCP endpoint
  (\<^verbatim>\<open>crates/oxidhome-core/src/api/mcp/rate_limit.rs\<close>), and the contract both limiters give: over any time they
  admit at most the burst capacity plus the refill of that time.  The level is a floating-point number, so every request
  may add a rounding error, which the bound counts.
\<close>

section \<open>The bucket\<close>

record bucket =
  level :: rat
  last_seen :: nat

definition refill_bucket :: "rat \<Rightarrow> rat \<Rightarrow> nat \<Rightarrow> bucket \<Rightarrow> bucket" where
  "refill_bucket cap rate now b =
     \<lparr>level = min (fl (level b + fl (as_secs_f64 (now - last_seen b) * rate))) cap, last_seen = now\<rparr>"

definition take_token :: "bucket \<Rightarrow> bucket \<times> bool" where
  "take_token b = (if level b \<ge> 1 then (b\<lparr>level := fl (level b - 1)\<rparr>, True) else (b, False))"

definition bucket_ok :: "rat \<Rightarrow> bucket \<Rightarrow> bool" where
  "bucket_ok cap b = (0 \<le> level b \<and> level b \<le> cap)"

text \<open>What the rounding of one request can add.\<close>

definition slack :: "rat \<Rightarrow> rat" where
  "slack cap = 9 * cap * ulp"

text \<open>The refill of a time in nanoseconds.\<close>

definition refill_of :: "rat \<Rightarrow> nat \<Rightarrow> rat" where
  "refill_of rate d = rate * (of_nat d / 10 ^ 9)"

lemma refill_of_add: "refill_of rate (d + e) = refill_of rate d + refill_of rate e"
  by (simp add: refill_of_def add_divide_distrib distrib_left)

lemma refill_level:
  assumes t: "0 \<le> t" "t \<le> cap" and cap: "1 \<le> cap" and rate: "0 \<le> rate"
  shows "min (fl (t + fl (as_secs_f64 d * rate))) cap \<le> t + refill_of rate d + 7 * cap * ulp"
proof (cases "cap \<le> t + refill_of rate d")
  case True
  have "0 \<le> 7 * cap * ulp" using cap by (intro mult_nonneg_nonneg) simp_all
  then have "cap \<le> t + refill_of rate d + 7 * cap * ulp" using True by (rule add_increasing2)
  then show ?thesis by (rule min.coboundedI2)
next
  case False
  define g where "g = refill_of rate d"
  have g: "0 \<le> g" "t + g < cap" using False rate by (simp_all add: g_def refill_of_def)
  have cu: "0 \<le> cap * ulp" using cap by simp
  have small: "cap * ulp \<le> cap / 100" unfolding ulp_def using cap by simp
  define x where "x = as_secs_f64 d * rate"
  have x0: "0 \<le> x" unfolding x_def using rate as_secs_nonneg by (rule mult_nonneg_nonneg [rotated])
  have "x \<le> of_nat d / 10 ^ 9 * (1 + ulp) ^ 2 * rate" unfolding x_def by (rule mult_right_mono [OF as_secs_upper rate])
  also have "\<dots> = g * (1 + ulp) ^ 2" by (simp add: g_def refill_of_def)
  also have "(1 + ulp) ^ 2 \<le> 1 + 3 * ulp"
    by (simp add: ulp_def power2_eq_square)
  then have "g * (1 + ulp) ^ 2 \<le> g + 3 * (g * ulp)" using mult_left_mono [OF _ g(1), of "(1 + ulp) ^ 2" "1 + 3 * ulp"]
    by (simp add: distrib_left)
  also have "g * ulp \<le> cap * ulp" using g t by (intro mult_right_mono) simp_all
  finally have x: "x \<le> g + 3 * (cap * ulp)" by simp
  have "fl x \<le> x + 2 * cap * ulp" using x x0 g t small cap by (intro fl_absolute) linarith+
  with x have fx: "fl x \<le> g + 5 * (cap * ulp)" by simp
  have "fl (t + fl x) \<le> t + fl x + 2 * cap * ulp"
    using fx fl_nonneg [OF x0] g t small cap by (intro fl_absolute) linarith+
  with fx have "fl (t + fl x) \<le> t + g + 7 * (cap * ulp)" by simp
  then show ?thesis unfolding x_def g_def by (simp add: min_le_iff_disj mult.assoc)
qed

lemma refill_bucket_ok:
  assumes "bucket_ok cap b" and "1 \<le> cap" and "0 \<le> rate"
  shows "bucket_ok cap (refill_bucket cap rate now b)"
proof -
  have "0 \<le> fl (level b + fl (as_secs_f64 (now - last_seen b) * rate))"
    using assms by (intro fl_nonneg add_nonneg_nonneg mult_nonneg_nonneg as_secs_nonneg) (simp_all add: bucket_ok_def)
  with assms(2) show ?thesis by (simp add: refill_bucket_def bucket_ok_def)
qed

lemma take_token_ok:
  assumes "bucket_ok cap b" and "1 \<le> cap" and "cap \<le> 2 ^ 52" and "cap = of_nat n" and "take_token b = (b', granted)"
  shows "bucket_ok cap b'" and "last_seen b' = last_seen b"
    and "level b' \<le> level b - of_bool granted + 2 * cap * ulp"
proof -
  have cu: "0 \<le> 2 * cap * ulp" using assms(2) by simp
  show "last_seen b' = last_seen b" using assms(5) by (auto simp: take_token_def split: if_splits)
  have lv: "0 \<le> level b" "level b \<le> cap" using assms(1) by (simp_all add: bucket_ok_def)
  have "int n < 2 ^ 53"
  proof -
    have "(of_nat n :: rat) \<le> of_nat (2 ^ 52)" using assms(3,4) by simp
    then have "n \<le> 2 ^ 52" by (simp only: of_nat_le_iff)
    then show ?thesis by simp
  qed
  then have whole: "fl cap = cap" using fl_of_int [of "int n"] assms(4) by simp
  have "1 \<le> level b \<Longrightarrow> fl (level b - 1) \<le> fl cap" using lv by (intro fl_mono) simp_all
  moreover have "1 \<le> level b \<Longrightarrow> 0 \<le> fl (level b - 1)" by (intro fl_nonneg) simp
  ultimately show "bucket_ok cap b'" using lv assms(5) whole by (auto simp: take_token_def bucket_ok_def split: if_splits)
  have "1 \<le> level b \<Longrightarrow> fl (level b - 1) \<le> level b - 1 + 2 * cap * ulp"
    using lv assms(2) by (intro fl_absolute) simp_all
  then show "level b' \<le> level b - of_bool granted + 2 * cap * ulp"
    using assms(5) cu by (auto simp: take_token_def split: if_splits)
qed

text \<open>One request: refill, then take.\<close>

lemma request_level:
  assumes "bucket_ok cap b" and "1 \<le> cap" and "cap \<le> 2 ^ 52" and "cap = of_nat n" and "0 \<le> rate"
    and "take_token (refill_bucket cap rate now b) = (b', granted)"
  shows "bucket_ok cap b'" and "last_seen b' = now"
    and "level b' \<le> level b + refill_of rate (now - last_seen b) - of_bool granted + slack cap"
proof -
  note r = refill_bucket_ok [OF assms(1,2,5), of now]
  note t = take_token_ok [OF r assms(2,3,4,6)]
  show "bucket_ok cap b'" "last_seen b' = now" using t(1,2) by (simp_all add: refill_bucket_def)
  have "level (refill_bucket cap rate now b) \<le> level b + refill_of rate (now - last_seen b) + 7 * cap * ulp"
    unfolding refill_bucket_def bucket.simps
    using assms(1,2,5) by (intro refill_level) (simp_all add: bucket_ok_def)
  with t(3) show "level b' \<le> level b + refill_of rate (now - last_seen b) - of_bool granted + slack cap"
    by (simp add: slack_def)
qed

section \<open>The contract of a limiter\<close>

text \<open>
  A limiter answers requests, each with a time; \<open>credit\<close> is the level it could serve now, \<open>clock\<close> the time up to which it has
  been refilled.
\<close>

fun grants :: "('q \<Rightarrow> 's \<Rightarrow> 's \<times> bool) \<Rightarrow> 'q list \<Rightarrow> 's \<Rightarrow> nat" where
  "grants request [] s = 0"
| "grants request (q # qs) s = (case request q s of (s', granted) \<Rightarrow> of_bool granted + grants request qs s')"

locale rate_limiter =
  fixes inv :: "'s \<Rightarrow> bool"
    and credit :: "'s \<Rightarrow> rat"
    and clock :: "'s \<Rightarrow> nat"
    and time_of :: "'q \<Rightarrow> nat"
    and request :: "'q \<Rightarrow> 's \<Rightarrow> 's \<times> bool"
    and rate :: rat
    and loss :: rat
  assumes rate_nonneg: "0 \<le> rate"
    and loss_nonneg: "0 \<le> loss"
    and credit_nonneg: "inv s \<Longrightarrow> 0 \<le> credit s"
    and request_inv: "inv s \<Longrightarrow> clock s \<le> time_of q \<Longrightarrow> request q s = (s', granted) \<Longrightarrow> inv s'"
    and request_clock: "inv s \<Longrightarrow> clock s \<le> time_of q \<Longrightarrow> request q s = (s', granted) \<Longrightarrow> clock s \<le> clock s' \<and> clock s' \<le> time_of q"
    and request_credit: "inv s \<Longrightarrow> clock s \<le> time_of q \<Longrightarrow> request q s = (s', granted)
      \<Longrightarrow> credit s' \<le> credit s + refill_of rate (clock s' - clock s) - of_bool granted + loss"
begin

lemma grants_bound:
  assumes "inv s" and "sorted (map time_of qs)" and "\<forall>q \<in> set qs. clock s \<le> time_of q \<and> time_of q \<le> stop" and "clock s \<le> stop"
  shows "of_nat (grants request qs s) \<le> credit s + refill_of rate (stop - clock s) + of_nat (length qs) * loss"
  using assms
proof (induction qs arbitrary: s)
  case Nil
  then show ?case using credit_nonneg rate_nonneg by (simp add: refill_of_def)
next
  case (Cons q qs)
  obtain s' granted where r: "request q s = (s', granted)" by fastforce
  have q: "clock s \<le> time_of q" "time_of q \<le> stop" using Cons.prems by simp_all
  have inv': "inv s'" and clk: "clock s \<le> clock s'" "clock s' \<le> time_of q"
    using request_inv [OF Cons.prems(1) q(1) r] request_clock [OF Cons.prems(1) q(1) r] by simp_all
  have "\<forall>q' \<in> set qs. clock s' \<le> time_of q' \<and> time_of q' \<le> stop" using Cons.prems clk by fastforce
  then have "of_nat (grants request qs s') \<le> credit s' + refill_of rate (stop - clock s') + of_nat (length qs) * loss"
    using Cons.prems(2) clk q inv' by (intro Cons.IH) simp_all
  moreover have "refill_of rate (stop - clock s) = refill_of rate (clock s' - clock s) + refill_of rate (stop - clock s')"
    using clk q by (simp add: refill_of_add [symmetric])
  moreover note request_credit [OF Cons.prems(1) q(1) r]
  ultimately show ?case by (simp add: r distrib_right)
qed

end

section \<open>A single bucket\<close>

definition request_bucket :: "rat \<Rightarrow> rat \<Rightarrow> nat \<Rightarrow> bucket \<Rightarrow> bucket \<times> bool" where
  "request_bucket cap rate now b = take_token (refill_bucket cap rate now b)"

lemma request_bucket_limiter:
  assumes "1 \<le> cap" "cap \<le> 2 ^ 52" "cap = of_nat n" "0 \<le> rate"
  shows "rate_limiter (bucket_ok cap) level last_seen id (request_bucket cap rate) rate (slack cap)"
proof
  show "0 \<le> slack cap" using assms(1) by (simp add: slack_def)
next
  fix b b' q granted
  assume ok: "bucket_ok cap b" and "last_seen b \<le> id q" and r: "request_bucket cap rate q b = (b', granted)"
  note lv = request_level [OF ok assms(1,2,3,4) r [unfolded request_bucket_def]]
  show "bucket_ok cap b'" by (rule lv(1))
  show "last_seen b \<le> last_seen b' \<and> last_seen b' \<le> id q" using lv(2) \<open>last_seen b \<le> id q\<close> by simp
  show "level b' \<le> level b + refill_of rate (last_seen b' - last_seen b) - of_bool granted + slack cap"
    using lv(2,3) by simp
qed (use assms(4) in \<open>simp_all add: bucket_ok_def\<close>)

end
