(* ===== verification/Rate_Limit.thy ===== *)
theory Rate_Limit
  imports Token_Bucket Maps Auth_Guard
begin

text \<open>
  \<^verbatim>\<open>crates/oxidhome-core/src/api/mcp/rate_limit.rs\<close>: the limiter in front of the MCP endpoint.  A shared ingress bucket,
  then a read-only verification of the bearer, then one bucket per token id, all bearers that fail to verify sharing
  one.  The request it forwards carries the verification, which \<open>require_token\<close> reuses.
\<close>

section \<open>State\<close>

record mcp_limiter =
  buckets :: "(string, bucket) hmap"
  ingress :: bucket
  ingress_capacity :: rat
  ingress_refill :: rat
  bucket_capacity :: rat
  bucket_refill :: rat
  max_keys :: nat

definition unauthenticated_key :: string where
  "unauthenticated_key = ''unauthenticated''"

definition idle_eviction_window :: nat where
  "idle_eviction_window = 300 * nanos_per_sec"

definition with_all :: "nat \<Rightarrow> nat \<Rightarrow> rat \<Rightarrow> nat \<Rightarrow> nat \<Rightarrow> rat \<Rightarrow> mcp_limiter" where
  "with_all now cap refill keys ing_cap ing_refill =
     \<lparr>buckets = [], ingress = \<lparr>level = of_nat ing_cap, last_seen = now\<rparr>, ingress_capacity = of_nat ing_cap,
      ingress_refill = ing_refill, bucket_capacity = of_nat cap, bucket_refill = refill, max_keys = keys\<rparr>"

definition default_limiter :: "nat \<Rightarrow> mcp_limiter" where
  "default_limiter now = with_all now 60 30 1024 400 200"

section \<open>Consuming\<close>

text \<open>
  \<^verbatim>\<open>((1.0 - tokens) / rate).ceil() as u64\<close>, at least one: the cast saturates, and a division by zero is infinite.
\<close>

definition wait_secs :: "rat \<Rightarrow> rat \<Rightarrow> nat" where
  "wait_secs tokens_left rate =
     max 1 (if rate = 0 then u64_top else min u64_top (nat \<lceil>fl (fl (1 - tokens_left) / rate)\<rceil>))"

definition try_consume_ingress :: "nat \<Rightarrow> mcp_limiter \<Rightarrow> mcp_limiter \<times> (nat + unit)" where
  "try_consume_ingress now st =
     (case take_token (refill_bucket (ingress_capacity st) (ingress_refill st) now (ingress st)) of
        (b, granted) \<Rightarrow>
          (st\<lparr>ingress := b\<rparr>, if granted then Ok () else Err (wait_secs (level b) (ingress_refill st))))"

text \<open>\<^verbatim>\<open>min_by_key\<close>: the first of the smallest.\<close>

fun oldest :: "(string, bucket) hmap \<Rightarrow> (string \<times> bucket) option" where
  "oldest [] = None"
| "oldest ((k, b) # es) =
     (case oldest es of
        Some (k', b') \<Rightarrow> if last_seen b' < last_seen b then Some (k', b') else Some (k, b)
      | None \<Rightarrow> Some (k, b))"

definition evict_one_lru :: "nat \<Rightarrow> (string, bucket) hmap \<Rightarrow> (string, bucket) hmap" where
  "evict_one_lru now bs =
     (case find (\<lambda>(k, b). k \<noteq> unauthenticated_key \<and> now - last_seen b \<ge> idle_eviction_window) bs of
        Some (k, _) \<Rightarrow> AList.delete k bs
      | None \<Rightarrow>
          (case oldest (filter (\<lambda>(k, b). k \<noteq> unauthenticated_key) bs) of
             Some (k, _) \<Rightarrow> AList.delete k bs
           | None \<Rightarrow> bs))"

definition try_consume :: "string \<Rightarrow> nat \<Rightarrow> mcp_limiter \<Rightarrow> mcp_limiter \<times> (nat + unit)" where
  "try_consume key now st =
     (let bs = (if map_of (buckets st) key = None \<and> length (buckets st) \<ge> max_keys st
                then evict_one_lru now (buckets st) else buckets st);
          b = (case map_of bs key of Some b \<Rightarrow> b | None \<Rightarrow> \<lparr>level = bucket_capacity st, last_seen = now\<rparr>) in
      case take_token (refill_bucket (bucket_capacity st) (bucket_refill st) now b) of
        (b', granted) \<Rightarrow>
          (st\<lparr>buckets := AList.update key b' bs\<rparr>,
           if granted then Ok () else Err (wait_secs (level b') (bucket_refill st))))"

section \<open>The middleware\<close>

text \<open>The clock, whether a verification permit is free, whether its query and its task succeed.\<close>

record limit_env =
  at_instant :: nat
  verify_permit :: bool
  lookup_io :: bool
  task_ok :: bool

datatype limit_outcome = TooMany nat | TaskFailed | Forward http_request

text \<open>The number counts the database queries the limiter makes.\<close>

definition pre_verify :: "sha \<Rightarrow> limit_env \<Rightarrow> string option \<Rightarrow> token_table \<Rightarrow> nat \<times> (limit_outcome + pre_verified)" where
  "pre_verify sha env bearer db =
     (case bearer of
        None \<Rightarrow> (0, Ok Denied)
      | Some b \<Rightarrow>
          if \<not> verify_permit env then (0, Err (TooMany 1))
          else if \<not> task_ok env then (1, Err TaskFailed)
          else (1, Ok (case verify_read_only sha (lookup_io env) b db of
                         Inr r \<Rightarrow> Verified r
                       | Inl Sqlite \<Rightarrow> Internal
                       | Inl _ \<Rightarrow> Denied)))"

definition rate_limit ::
  "sha \<Rightarrow> limit_env \<Rightarrow> http_request \<Rightarrow> token_table \<Rightarrow> mcp_limiter \<Rightarrow> mcp_limiter \<times> nat \<times> limit_outcome" where
  "rate_limit sha env req db st =
     (case try_consume_ingress (at_instant env) st of
        (st1, Inl w) \<Rightarrow> (st1, 0, TooMany w)
      | (st1, Inr _) \<Rightarrow>
          (case pre_verify sha env (extract_bearer req) db of
             (n, Inl out) \<Rightarrow> (st1, n, out)
           | (n, Inr Internal) \<Rightarrow> (st1, n, Forward (req\<lparr>pre_verified := Some Internal, has_gate := True\<rparr>))
           | (n, Inr v) \<Rightarrow>
               (case try_consume (case v of Verified r \<Rightarrow> tok_id r | _ \<Rightarrow> unauthenticated_key) (at_instant env) st1 of
                  (st2, Inr _) \<Rightarrow> (st2, n, Forward (req\<lparr>pre_verified := Some v, has_gate := True\<rparr>))
                | (st2, Inl w) \<Rightarrow> (st2, n, TooMany w))))"

section \<open>Eviction\<close>

lemma oldest_in: "oldest es = Some e \<Longrightarrow> e \<in> set es"
  by (induction es arbitrary: e rule: oldest.induct) (auto split: option.splits if_splits)

lemma oldest_None [simp]: "oldest es = None \<longleftrightarrow> es = []"
  by (cases es) (auto split: option.splits)

text \<open>Eviction removes one entry, never the shared one, when there is any other.\<close>

lemma evict_cases:
  "(\<exists>k b. (k, b) \<in> set bs \<and> k \<noteq> unauthenticated_key \<and> evict_one_lru now bs = AList.delete k bs)
   \<or> (\<forall>(k, b) \<in> set bs. k = unauthenticated_key) \<and> evict_one_lru now bs = bs"
proof (cases "find (\<lambda>(k, b). k \<noteq> unauthenticated_key \<and> now - last_seen b \<ge> idle_eviction_window) bs")
  case (Some e)
  then have "e \<in> set bs" "fst e \<noteq> unauthenticated_key" using find_Some_in [OF Some] by auto
  with Some show ?thesis by (cases e) (auto simp: evict_one_lru_def)
next
  case None
  show ?thesis
  proof (cases "oldest (filter (\<lambda>(k, b). k \<noteq> unauthenticated_key) bs)")
    case None': None
    with None show ?thesis by (auto simp: evict_one_lru_def filter_empty_conv)
  next
    case (Some e)
    with None oldest_in [OF Some] show ?thesis by (cases e) (auto simp: evict_one_lru_def)
  qed
qed

lemma evict_wf: "hm_wf bs \<Longrightarrow> hm_wf (evict_one_lru now bs)"
  using evict_cases [of bs now] by (auto simp: hm_wf_drop)

lemma evict_keeps_shared:
  "hm_wf bs \<Longrightarrow> map_of (evict_one_lru now bs) unauthenticated_key = map_of bs unauthenticated_key"
  using evict_cases [of bs now] by (auto simp: hm.find_drop)

section \<open>The shared bucket and the ingress bucket keep the contract\<close>

text \<open>The production limits.\<close>

definition production :: "mcp_limiter \<Rightarrow> bool" where
  "production st = (ingress_capacity st = 400 \<and> ingress_refill st = 200 \<and> bucket_capacity st = 60 \<and> bucket_refill st = 30)"

definition ingress_inv :: "mcp_limiter \<Rightarrow> bool" where
  "ingress_inv st = (production st \<and> bucket_ok 400 (ingress st))"

definition ingress_request :: "nat \<Rightarrow> mcp_limiter \<Rightarrow> mcp_limiter \<times> bool" where
  "ingress_request now st = (case try_consume_ingress now st of (st', r) \<Rightarrow> (st', is_ok r))"

interpretation ing: rate_limiter ingress_inv "\<lambda>st. level (ingress st)" "\<lambda>st. last_seen (ingress st)" id ingress_request 200 "slack 400"
proof unfold_locales
  fix st st' q granted
  assume inv: "ingress_inv st" and clk: "last_seen (ingress st) \<le> id q" and r: "ingress_request q st = (st', granted)"
  obtain b g where take: "take_token (refill_bucket 400 200 q (ingress st)) = (b, g)" by fastforce
  have cfg: "ingress_capacity st = 400" "ingress_refill st = 200" using inv by (simp_all add: ingress_inv_def production_def)
  have "g = granted" "st' = st\<lparr>ingress := b\<rparr>"
    using r unfolding ingress_request_def try_consume_ingress_def cfg take by (cases g; simp)+
  with take have b: "take_token (refill_bucket 400 200 q (ingress st)) = (b, granted)" "st' = st\<lparr>ingress := b\<rparr>" by simp_all
  have ok: "bucket_ok 400 (ingress st)" using inv by (simp add: ingress_inv_def)
  have lv: "bucket_ok 400 b" "last_seen b = q"
      "level b \<le> level (ingress st) + refill_of 200 (q - last_seen (ingress st)) - of_bool granted + slack 400"
    by (rule request_level [OF ok _ _ _ _ b(1), of 400]; simp)+
  show "ingress_inv st'" using lv inv b(2) by (simp add: ingress_inv_def production_def)
  show "last_seen (ingress st) \<le> last_seen (ingress st') \<and> last_seen (ingress st') \<le> id q" using lv b(2) clk by simp
  show "level (ingress st') \<le> level (ingress st) + refill_of 200 (last_seen (ingress st') - last_seen (ingress st))
      - of_bool granted + slack 400"
    using lv b(2) by simp
qed (auto simp: ingress_inv_def bucket_ok_def slack_def)

definition shared_inv :: "nat \<Rightarrow> mcp_limiter \<Rightarrow> bool" where
  "shared_inv start st = (production st \<and> hm_wf (buckets st)
     \<and> (\<forall>b. map_of (buckets st) unauthenticated_key = Some b \<longrightarrow> bucket_ok 60 b \<and> start \<le> last_seen b))"

definition shared_bucket :: "nat \<Rightarrow> mcp_limiter \<Rightarrow> bucket" where
  "shared_bucket start st = (case map_of (buckets st) unauthenticated_key of Some b \<Rightarrow> b | None \<Rightarrow> \<lparr>level = 60, last_seen = start\<rparr>)"

text \<open>A request for any key; it counts when it was granted for the shared one.\<close>

definition shared_request :: "string \<times> nat \<Rightarrow> mcp_limiter \<Rightarrow> mcp_limiter \<times> bool" where
  "shared_request q st = (case try_consume (fst q) (snd q) st of (st', r) \<Rightarrow> (st', is_ok r \<and> fst q = unauthenticated_key))"

lemma try_consume_map:
  assumes "hm_wf (buckets st)" and "try_consume key now st = (st', r)"
  obtains bs b b' where "hm_wf bs" "map_of bs unauthenticated_key = map_of (buckets st) unauthenticated_key"
    "b = (case map_of bs key of Some b \<Rightarrow> b | None \<Rightarrow> \<lparr>level = bucket_capacity st, last_seen = now\<rparr>)"
    "take_token (refill_bucket (bucket_capacity st) (bucket_refill st) now b) = (b', is_ok r)"
    "st' = st\<lparr>buckets := AList.update key b' bs\<rparr>"
proof -
  define bs where "bs = (if map_of (buckets st) key = None \<and> length (buckets st) \<ge> max_keys st
      then evict_one_lru now (buckets st) else buckets st)"
  define b where "b = (case map_of bs key of Some b \<Rightarrow> b | None \<Rightarrow> \<lparr>level = bucket_capacity st, last_seen = now\<rparr>)"
  obtain b' g where b': "take_token (refill_bucket (bucket_capacity st) (bucket_refill st) now b) = (b', g)" by fastforce
  show thesis
  proof (rule that)
    show "hm_wf bs" using assms(1) by (simp add: bs_def evict_wf)
    show "map_of bs unauthenticated_key = map_of (buckets st) unauthenticated_key"
      using assms(1) by (simp add: bs_def evict_keeps_shared)
    show "st' = st\<lparr>buckets := AList.update key b' bs\<rparr>"
      and "take_token (refill_bucket (bucket_capacity st) (bucket_refill st) now b) = (b', is_ok r)"
      using assms(2) b' unfolding try_consume_def Let_def bs_def [symmetric] b_def [symmetric] by (cases g; auto)+
  qed (simp add: b_def)
qed

interpretation shared: rate_limiter "shared_inv start" "\<lambda>st. level (shared_bucket start st)"
    "\<lambda>st. last_seen (shared_bucket start st)" snd shared_request 30 "slack 60" for start
proof unfold_locales
  fix st st' granted and q :: "string \<times> nat"
  assume inv: "shared_inv start st" and clk: "last_seen (shared_bucket start st) \<le> snd q"
    and r: "shared_request q st = (st', granted)"
  obtain key now where q: "q = (key, now)" by (cases q)
  obtain res where res: "try_consume key now st = (st', res)" "granted \<longleftrightarrow> is_ok res \<and> key = unauthenticated_key"
    using r by (auto simp: shared_request_def q split: prod.splits)
  have wf: "hm_wf (buckets st)" and prod: "production st" using inv by (simp_all add: shared_inv_def)
  obtain bs b b' where m: "hm_wf bs" "map_of bs unauthenticated_key = map_of (buckets st) unauthenticated_key"
      "b = (case map_of bs key of Some b \<Rightarrow> b | None \<Rightarrow> \<lparr>level = bucket_capacity st, last_seen = now\<rparr>)"
      "take_token (refill_bucket (bucket_capacity st) (bucket_refill st) now b) = (b', is_ok res)"
      "st' = st\<lparr>buckets := AList.update key b' bs\<rparr>"
    by (rule try_consume_map [OF wf res(1)])
  have map': "map_of (buckets st') = (map_of bs)(key \<mapsto> b')" using m(1,5) by (simp add: hm.find_put)
  have "shared_inv start st' \<and> last_seen (shared_bucket start st) \<le> last_seen (shared_bucket start st')
      \<and> last_seen (shared_bucket start st') \<le> snd q
      \<and> level (shared_bucket start st') \<le> level (shared_bucket start st)
          + refill_of 30 (last_seen (shared_bucket start st') - last_seen (shared_bucket start st)) - of_bool granted + slack 60"
  proof (cases "key = unauthenticated_key")
    case False
    then have "map_of (buckets st') unauthenticated_key = map_of (buckets st) unauthenticated_key" using map' m(2) by simp
    moreover have "hm_wf (buckets st')" using m(1,5) by (simp add: hm_wf_put)
    ultimately show ?thesis
      using inv clk res(2) False m(5) prod
      by (simp add: shared_inv_def shared_bucket_def production_def refill_of_def slack_def)
  next
    case True
    have look: "map_of bs key = map_of (buckets st) unauthenticated_key" using True m(2) by simp
    have ok: "bucket_ok 60 b" using inv m(3) look prod
      by (auto simp: shared_inv_def production_def bucket_ok_def split: option.splits)
    have take: "take_token (refill_bucket 60 30 now b) = (b', is_ok res)" using m(4) prod by (simp add: production_def)
    have lv: "bucket_ok 60 b'" "last_seen b' = now"
        "level b' \<le> level b + refill_of 30 (now - last_seen b) - of_bool (is_ok res) + slack 60"
      by (rule request_level [OF ok _ _ _ _ take, of 60]; simp)+
    have b': "shared_bucket start st' = b'" using map' True by (simp add: shared_bucket_def)
    have start: "start \<le> now" using clk inv
      by (auto simp: q shared_inv_def shared_bucket_def split: option.splits)
    have st': "shared_inv start st'" using m(1,5) prod lv(1,2) start map' True
      by (simp add: shared_inv_def production_def hm_wf_put)
    show ?thesis
    proof (cases "map_of (buckets st) unauthenticated_key")
      case None
      then have "b = \<lparr>level = 60, last_seen = now\<rparr>" using m(3) look prod by (simp add: production_def)
      moreover have "0 \<le> refill_of 30 (now - start)" by (simp add: refill_of_def)
      moreover have "refill_of 30 0 = 0" by (simp add: refill_of_def)
      moreover have "shared_bucket start st = \<lparr>level = 60, last_seen = start\<rparr>" using None by (simp add: shared_bucket_def)
      ultimately show ?thesis using lv b' st' res(2) True start by (simp add: q)
    next
      case (Some b0)
      then have "b = b0" "shared_bucket start st = b0" using m(3) look by (simp_all add: shared_bucket_def)
      then show ?thesis using lv b' st' res(2) True clk by (simp add: q)
    qed
  qed
  then show "shared_inv start st'"
    "last_seen (shared_bucket start st) \<le> last_seen (shared_bucket start st') \<and> last_seen (shared_bucket start st') \<le> snd q"
    "level (shared_bucket start st') \<le> level (shared_bucket start st)
       + refill_of 30 (last_seen (shared_bucket start st') - last_seen (shared_bucket start st)) - of_bool granted + slack 60"
    by blast+
qed (auto simp: shared_inv_def shared_bucket_def bucket_ok_def slack_def split: option.splits)

section \<open>The middleware keeps the contract\<close>

text \<open>A request as the middleware meets it: its environment, itself and the token table of that moment.\<close>

type_synonym limited = "limit_env \<times> http_request \<times> token_table"

definition queried :: "sha \<Rightarrow> limited \<Rightarrow> mcp_limiter \<Rightarrow> mcp_limiter \<times> bool" where
  "queried sha q st = (case q of (env, req, db) \<Rightarrow> (case rate_limit sha env req db st of (st', n, out) \<Rightarrow> (st', n > 0)))"

definition passed_unverified :: "limit_outcome \<Rightarrow> bool" where
  "passed_unverified out = (case out of Forward r \<Rightarrow> pre_verified r = Some Denied | _ \<Rightarrow> False)"

definition unverified :: "sha \<Rightarrow> limited \<Rightarrow> mcp_limiter \<Rightarrow> mcp_limiter \<times> bool" where
  "unverified sha q st =
     (case q of (env, req, db) \<Rightarrow> (case rate_limit sha env req db st of (st', n, out) \<Rightarrow> (st', passed_unverified out)))"

definition limited_at :: "limited \<Rightarrow> nat" where
  "limited_at q = at_instant (fst q)"

lemma try_consume_frame: "ingress (fst (try_consume k now st)) = ingress st"
    "production (fst (try_consume k now st)) = production st"
    "max_keys (fst (try_consume k now st)) = max_keys st"
  by (simp_all add: try_consume_def Let_def production_def split: prod.splits)

lemma ingress_frame: "buckets (fst (try_consume_ingress now st)) = buckets st"
    "production (fst (try_consume_ingress now st)) = production st"
    "max_keys (fst (try_consume_ingress now st)) = max_keys st"
  by (simp_all add: try_consume_ingress_def production_def split: prod.splits)

text \<open>What a request did: nothing but the ingress bucket, or one consumption more.\<close>

lemma rate_limit_cases:
  assumes "rate_limit sha env req db st = (st', n, out)"
  obtains st1 r where "try_consume_ingress (at_instant env) st = (st1, r)"
    "st' = st1 \<and> (n > 0 \<longrightarrow> is_ok r) \<and> \<not> passed_unverified out
     \<or> is_ok r \<and> (\<exists>key r2. try_consume key (at_instant env) st1 = (st', r2)
         \<and> (passed_unverified out \<longrightarrow> is_ok r2 \<and> key = unauthenticated_key))"
proof -
  obtain st1 r where i: "try_consume_ingress (at_instant env) st = (st1, r)" by fastforce
  show thesis
  proof (rule that [OF i])
    show "st' = st1 \<and> (n > 0 \<longrightarrow> is_ok r) \<and> \<not> passed_unverified out
     \<or> is_ok r \<and> (\<exists>key r2. try_consume key (at_instant env) st1 = (st', r2)
         \<and> (passed_unverified out \<longrightarrow> is_ok r2 \<and> key = unauthenticated_key))"
    proof (cases r)
      case (Inl w)
      with assms i show ?thesis by (auto simp: rate_limit_def passed_unverified_def)
    next
      case (Inr u)
      obtain m v where v: "pre_verify sha env (extract_bearer req) db = (m, v)" by fastforce
      show ?thesis
      proof (cases v)
        case (Inl o')
        then have "out = o'" "st' = st1" using assms i Inr v by (simp_all add: rate_limit_def)
        moreover have "\<not> passed_unverified o'" using v Inl
          by (auto simp: pre_verify_def passed_unverified_def split: option.splits if_splits)
        ultimately show ?thesis using Inr by simp
      next
        case (Inr w)
        obtain st2 r2 where c: "try_consume (case w of Verified x \<Rightarrow> tok_id x | _ \<Rightarrow> unauthenticated_key) (at_instant env) st1 = (st2, r2)"
          by fastforce
        show ?thesis
          using assms i \<open>r = Ok u\<close> v Inr c
          by (cases w; cases r2) (auto simp: rate_limit_def passed_unverified_def)
      qed
    qed
  qed
qed

interpretation queries: rate_limiter ingress_inv "\<lambda>st. level (ingress st)" "\<lambda>st. last_seen (ingress st)" limited_at "queried sha" 200 "slack 400"
  for sha
proof unfold_locales
  fix st st' granted and q :: limited
  assume inv: "ingress_inv st" and clk: "last_seen (ingress st) \<le> limited_at q" and r: "queried sha q st = (st', granted)"
  obtain env req db where q: "q = (env, req, db)" by (cases q)
  obtain n out where rl: "rate_limit sha env req db st = (st', n, out)" "granted \<longleftrightarrow> n > 0"
    using r by (auto simp: queried_def q split: prod.splits)
  obtain st1 res where c: "try_consume_ingress (at_instant env) st = (st1, res)"
      "ingress st' = ingress st1" "production st' = production st1" "n > 0 \<longrightarrow> is_ok res"
    by (rule rate_limit_cases [OF rl(1)]) (metis try_consume_frame(1,2) fst_conv)
  have req: "ingress_request (at_instant env) st = (st1, is_ok res)" using c(1) by (simp add: ingress_request_def)
  have clk': "last_seen (ingress st) \<le> id (at_instant env)" using clk by (simp add: limited_at_def q)
  note laws = ing.request_inv [OF inv clk' req] ing.request_clock [OF inv clk' req] ing.request_credit [OF inv clk' req]
  show "ingress_inv st'" using laws(1) c(2,3) by (simp add: ingress_inv_def)
  show "last_seen (ingress st) \<le> last_seen (ingress st') \<and> last_seen (ingress st') \<le> limited_at q"
    using laws(2) c(2) by (simp add: limited_at_def q)
  have "of_bool granted \<le> (of_bool (is_ok res) :: rat)" using c(4) rl(2) by auto
  with laws(3) show "level (ingress st') \<le> level (ingress st)
      + refill_of 200 (last_seen (ingress st') - last_seen (ingress st)) - of_bool granted + slack 400"
    unfolding c(2) by (rule order_trans [OF _ add_right_mono [OF diff_left_mono]])
qed (auto simp: ingress_inv_def bucket_ok_def slack_def)

interpretation unverified: rate_limiter "shared_inv start" "\<lambda>st. level (shared_bucket start st)"
    "\<lambda>st. last_seen (shared_bucket start st)" limited_at "unverified sha" 30 "slack 60" for start sha
proof unfold_locales
  fix st st' granted and q :: limited
  assume inv: "shared_inv start st" and clk: "last_seen (shared_bucket start st) \<le> limited_at q"
    and r: "unverified sha q st = (st', granted)"
  obtain env req db where q: "q = (env, req, db)" by (cases q)
  obtain n out where rl: "rate_limit sha env req db st = (st', n, out)" "granted \<longleftrightarrow> passed_unverified out"
    using r by (auto simp: unverified_def q split: prod.splits)
  obtain st1 res where i: "try_consume_ingress (at_instant env) st = (st1, res)"
    and c: "st' = st1 \<and> \<not> granted \<or> (\<exists>key r2. try_consume key (at_instant env) st1 = (st', r2)
         \<and> (granted \<longrightarrow> is_ok r2 \<and> key = unauthenticated_key))"
    by (rule rate_limit_cases [OF rl(1)]) (use rl(2) in blast)
  have same: "buckets st1 = buckets st" "production st1 = production st"
    using ingress_frame(1,2) [of "at_instant env" st] i by simp_all
  then have sb: "shared_bucket start st1 = shared_bucket start st" and inv1: "shared_inv start st1"
    using inv by (simp_all add: shared_bucket_def shared_inv_def)
  have "shared_inv start st' \<and> last_seen (shared_bucket start st) \<le> last_seen (shared_bucket start st')
      \<and> last_seen (shared_bucket start st') \<le> limited_at q
      \<and> level (shared_bucket start st') \<le> level (shared_bucket start st)
          + refill_of 30 (last_seen (shared_bucket start st') - last_seen (shared_bucket start st)) - of_bool granted + slack 60"
    using c
  proof
    assume "st' = st1 \<and> \<not> granted"
    then show ?thesis using inv1 sb clk by (simp add: refill_of_def slack_def)
  next
    assume "\<exists>key r2. try_consume key (at_instant env) st1 = (st', r2) \<and> (granted \<longrightarrow> is_ok r2 \<and> key = unauthenticated_key)"
    then obtain key r2 where k: "try_consume key (at_instant env) st1 = (st', r2)" "granted \<longrightarrow> is_ok r2 \<and> key = unauthenticated_key"
      by blast
    have req: "shared_request (key, at_instant env) st1 = (st', is_ok r2 \<and> key = unauthenticated_key)"
      using k(1) by (simp add: shared_request_def)
    have clk': "last_seen (shared_bucket start st1) \<le> snd (key, at_instant env)" using clk sb by (simp add: limited_at_def q)
    note laws = shared.request_inv [OF inv1 clk' req] shared.request_clock [OF inv1 clk' req]
      shared.request_credit [OF inv1 clk' req]
    have "of_bool granted \<le> (of_bool (is_ok r2 \<and> key = unauthenticated_key) :: rat)" using k(2) by auto
    then have "level (shared_bucket start st') \<le> level (shared_bucket start st)
        + refill_of 30 (last_seen (shared_bucket start st') - last_seen (shared_bucket start st)) - of_bool granted + slack 60"
      using laws(3) unfolding sb by (rule order_trans [OF _ add_right_mono [OF diff_left_mono], rotated])
    with laws(1,2) show ?thesis unfolding sb by (simp add: limited_at_def q)
  qed
  then show "shared_inv start st'"
    "last_seen (shared_bucket start st) \<le> last_seen (shared_bucket start st') \<and> last_seen (shared_bucket start st') \<le> limited_at q"
    "level (shared_bucket start st') \<le> level (shared_bucket start st)
       + refill_of 30 (last_seen (shared_bucket start st') - last_seen (shared_bucket start st)) - of_bool granted + slack 60"
    by blast+
qed (auto simp: shared_inv_def shared_bucket_def bucket_ok_def slack_def split: option.splits)

lemma default_inv: "ingress_inv (default_limiter t)" "shared_inv t (default_limiter t)"
  by (simp_all add: ingress_inv_def shared_inv_def production_def default_limiter_def with_all_def bucket_ok_def)

section \<open>Properties\<close>

text \<open>
  Token queries are bounded.  Between two instants, however many requests arrive with whatever bearers, the endpoint looks up at
  most 400 tokens plus 200 per second, up to the rounding of the floating-point bucket (a request can add less
  than \<open>10 ^ (- 12)\<close>).
\<close>

theorem queries_bounded:
  assumes "sorted (map limited_at qs)" and "\<forall>q \<in> set qs. start \<le> limited_at q \<and> limited_at q \<le> stop" and "start \<le> stop"
  shows "of_nat (grants (queried sha) qs (default_limiter start))
    \<le> 400 + refill_of 200 (stop - start) + of_nat (length qs) * (3600 / 2 ^ 52)"
proof -
  have st: "level (ingress (default_limiter start)) = 400" "last_seen (ingress (default_limiter start)) = start"
    by (simp_all add: default_limiter_def with_all_def)
  have "slack 400 = 3600 / 2 ^ 52" by (simp add: slack_def ulp_def)
  with queries.grants_bound [OF default_inv(1) assms(1), of start stop sha] assms(2,3) st show ?thesis by simp
qed

text \<open>
  Claim C27: bearers that do not verify share one budget.  Rotating garbage bearers, or interleaving them with valid ones so that buckets
  are evicted, does not get more unauthenticated requests past the limiter than 60 plus 30 per second.
\<close>

theorem unauthenticated_bounded:
  assumes "sorted (map limited_at qs)" and "\<forall>q \<in> set qs. start \<le> limited_at q \<and> limited_at q \<le> stop" and "start \<le> stop"
  shows "of_nat (grants (unverified sha) qs (default_limiter start))
    \<le> 60 + refill_of 30 (stop - start) + of_nat (length qs) * (540 / 2 ^ 52)"
proof -
  have st: "shared_bucket start (default_limiter start) = \<lparr>level = 60, last_seen = start\<rparr>"
    by (simp add: shared_bucket_def default_limiter_def with_all_def)
  have "slack 60 = 540 / 2 ^ 52" by (simp add: slack_def ulp_def)
  with unverified.grants_bound [OF default_inv(2) assms(1), of start stop sha] assms(2,3) st show ?thesis by simp
qed

text \<open>The size of the map.\<close>

definition size_inv :: "mcp_limiter \<Rightarrow> bool" where
  "size_inv st = (hm_wf (buckets st) \<and> length (buckets st) \<le> max_keys st)"

lemma evict_length:
  assumes "hm_wf bs" and "2 \<le> length bs"
  shows "length (evict_one_lru now bs) < length bs"
proof -
  have "\<exists>(k, b) \<in> set bs. k \<noteq> unauthenticated_key"
  proof (rule ccontr)
    assume "\<not> ?thesis"
    then have "set (map fst bs) \<subseteq> {unauthenticated_key}" by auto
    then have "card (set (map fst bs)) \<le> card {unauthenticated_key}" by (intro card_mono) simp_all
    then have "length bs \<le> 1" using assms(1) distinct_card [of "map fst bs"] by (simp add: hm_wf_def)
    with assms(2) show False by simp
  qed
  then obtain k b where "(k, b) \<in> set bs" "evict_one_lru now bs = AList.delete k bs"
    using evict_cases [of bs now] by auto
  moreover from this have "map_of bs k \<noteq> None" using hm_entry_iff [OF assms(1), of k b] by simp
  ultimately show ?thesis using length_delete_old [OF assms(1), of k] by simp
qed

lemma size_step:
  assumes inv: "size_inv st" and keys: "2 \<le> max_keys st"
  shows "size_inv (fst (try_consume key now st))"
proof -
  define bs where "bs = (if map_of (buckets st) key = None \<and> length (buckets st) \<ge> max_keys st
      then evict_one_lru now (buckets st) else buckets st)"
  have wf: "hm_wf bs" using inv by (simp add: bs_def size_inv_def evict_wf)
  have "length (AList.update key b bs) \<le> max_keys st" for b
  proof (cases "map_of (buckets st) key = None \<and> length (buckets st) \<ge> max_keys st")
    case True
    then have "length bs < length (buckets st)" using inv keys by (simp add: bs_def size_inv_def evict_length)
    with inv show ?thesis
      by (cases "map_of bs key = None") (simp_all add: length_update_new length_update_old size_inv_def)
  next
    case False
    then have "bs = buckets st" by (auto simp: bs_def)
    with inv False show ?thesis
      by (cases "map_of bs key = None") (auto simp: length_update_new length_update_old size_inv_def)
  qed
  with wf show ?thesis
    unfolding try_consume_def Let_def bs_def [symmetric] by (auto simp: size_inv_def hm_wf_put split: prod.splits)
qed

definition limited_run :: "sha \<Rightarrow> limited list \<Rightarrow> mcp_limiter \<Rightarrow> mcp_limiter" where
  "limited_run sha qs st = fold (\<lambda>(env, req, db) st. fst (rate_limit sha env req db st)) qs st"

lemma size_rate_limit:
  assumes "size_inv st" and "2 \<le> max_keys st"
  shows "size_inv (fst (rate_limit sha env req db st)) \<and> max_keys (fst (rate_limit sha env req db st)) = max_keys st"
proof -
  obtain st' n out where r: "rate_limit sha env req db st = (st', n, out)" by (cases "rate_limit sha env req db st")
  obtain st1 res where i: "try_consume_ingress (at_instant env) st = (st1, res)"
    and c: "st' = st1 \<or> (\<exists>key r2. try_consume key (at_instant env) st1 = (st', r2))"
    by (rule rate_limit_cases [OF r]) blast
  have s1: "size_inv st1" "max_keys st1 = max_keys st"
    using ingress_frame [of "at_instant env" st] i assms(1) by (simp_all add: size_inv_def)
  from c show ?thesis
  proof
    assume "\<exists>key r2. try_consume key (at_instant env) st1 = (st', r2)"
    then obtain key r2 where "try_consume key (at_instant env) st1 = (st', r2)" by blast
    then have "st' = fst (try_consume key (at_instant env) st1)" by simp
    with size_step [OF s1(1), of key "at_instant env"] try_consume_frame(3) [of key "at_instant env" st1] s1 assms(2) r
    show ?thesis by simp
  qed (use s1 r in simp)
qed

text \<open>
  The bucket map is bounded.  A limiter for at least two keys never holds more buckets than its cap.
\<close>

theorem bucket_map_bounded:
  assumes "2 \<le> keys"
  shows "length (buckets (limited_run sha qs (with_all now cap refill keys ing_cap ing_refill))) \<le> keys"
proof -
  have "size_inv (limited_run sha qs st) \<and> max_keys (limited_run sha qs st) = keys" if "size_inv st" "max_keys st = keys" for st
    using that
  proof (induction qs arbitrary: st)
    case (Cons q qs)
    obtain env req db where q: "q = (env, req, db)" by (cases q)
    show ?case using size_rate_limit [OF Cons.prems(1), of sha env req db] Cons.prems(2) assms
        Cons.IH [of "fst (rate_limit sha env req db st)"] by (simp add: limited_run_def q)
  qed (simp add: limited_run_def)
  from this [of "with_all now cap refill keys ing_cap ing_refill"] show ?thesis by (auto simp: size_inv_def with_all_def)
qed

text \<open>With a cap of one key, which the constructor accepts, the shared bucket and a second one coexist.\<close>

lemma one_key_overflows:
  "length (buckets (fst (try_consume ''a'' 0 (fst (try_consume unauthenticated_key 0 (with_all 0 1 0 1 1 0)))))) = 2"
proof -
  have "\<exists>b. buckets (fst (try_consume unauthenticated_key 0 (with_all 0 1 0 1 1 0))) = [(unauthenticated_key, b)]"
    by (simp add: try_consume_def with_all_def Let_def case_prod_beta)
  moreover have "max_keys (fst (try_consume unauthenticated_key 0 (with_all 0 1 0 1 1 0))) = 1"
    by (simp add: try_consume_frame(3) with_all_def)
  ultimately obtain b st where st: "fst (try_consume unauthenticated_key 0 (with_all 0 1 0 1 1 0)) = st"
      "buckets st = [(unauthenticated_key, b)]" "max_keys st = 1" by blast
  have "unauthenticated_key \<noteq> ''a''" by (simp add: unauthenticated_key_def)
  with st(2,3) show ?thesis
    unfolding st(1) by (simp add: try_consume_def Let_def evict_one_lru_def case_prod_beta)
qed

text \<open>
  The limiter is transparent.  For a request it forwards, authenticating with the verification it attached gives the same state,
  audit rows included, and the same response as authenticating the bare request: reusing its query neither admits nor refuses anyone else.
\<close>

theorem limiter_transparent:
  assumes "rate_limit sha lenv req (tokens st) lm = (lm', n, Forward req')"
    and "pre_verified req = None" and "lookup_io lenv = verify_io env"
    and "touch_gate env" "probe_gate env" "denial_gate env" "intent_gate env"
  shows "require_token read_json sha enforced handler env req' st = require_token read_json sha enforced handler env req st"
proof -
  obtain v where req': "req' = req\<lparr>pre_verified := Some v, has_gate := True\<rparr>"
    and v: "case extract_bearer req of None \<Rightarrow> v = Denied
      | Some b \<Rightarrow> v = (case verify_read_only sha (verify_io env) b (tokens st) of
             Inr r \<Rightarrow> Verified r | Inl Sqlite \<Rightarrow> Internal | Inl _ \<Rightarrow> Denied)"
    using assms(1,3)
    by (auto simp: rate_limit_def pre_verify_def
        split: option.splits prod.splits sum.splits if_splits pre_verified.splits token_error.splits)
  have frames: "extract_bearer req' = extract_bearer req" "req_method req' = req_method req" "req_path req' = req_path req"
    by (simp_all add: req' extract_bearer_def)
  have row: "audit_row t k req' s d sc fp = audit_row t k req s d sc fp" for t k s d sc fp
    using frames by (simp add: audit_row_def)
  have ops: "try_probe env req' fp s = try_probe env req fp s" "try_touch env req' i s = try_touch env req i s"
      "record_denial env req' e s = record_denial env req e s"
      "record_intent_blocking env req' e s = record_intent_blocking env req e s" for fp i e and s :: "'a api_state"
    using assms(4-7) by (simp_all add: try_probe_def try_touch_def record_denial_def record_intent_blocking_def row)
  show ?thesis
  proof (cases "extract_bearer req")
    case None
    then show ?thesis by (simp add: require_token_def frames ops)
  next
    case (Some b)
    have vb: "(case verify_read_only sha (verify_io env) b (tokens st) of
        Inr r \<Rightarrow> verify_bearer sha env req' b st = (try_touch env req (tok_id r) st, Accepted r)
          \<and> verify_bearer sha env req b st = (try_touch env req (tok_id r) st, Accepted (r\<lparr>last_used_ms := Some (now_ms env)\<rparr>))
      | Inl e \<Rightarrow> verify_bearer sha env req' b st = verify_bearer sha env req b st)"
      using v Some assms(2,4)
      by (auto simp: verify_bearer_def verify_def try_touch_def req' ops split: sum.splits token_error.splits)
    show ?thesis
      unfolding require_token_def frames ops row Some option.case
      using vb by (cases "verify_read_only sha (verify_io env) b (tokens st)") simp_all
  qed
qed

section \<open>Witnesses\<close>

definition bare_request :: http_request where
  "bare_request = \<lparr>authorization = None, req_method = ''POST'', req_path = ''/mcp'', pre_verified = None, has_gate = False\<rparr>"

definition calm :: "nat \<Rightarrow> limit_env" where
  "calm now = \<lparr>at_instant = now, verify_permit = True, lookup_io = True, task_ok = True\<rparr>"

definition calm_env :: guard_env where
  "calm_env = \<lparr>now_ms = 50, verify_io = True, touch_gate = True, touch_io = True, probe_gate = True, probe_io = True,
     denial_gate = True, denial_io = True, intent_gate = True, intent_io = True, finalize_io = True\<rparr>"

definition no_tokens :: "nat api_state" where
  "no_tokens = \<lparr>tokens = [], ledger = [], world = 0\<rparr>"

theorem queries_bounded_witness:
  "of_nat (grants (queried id) [(calm 3, bare_request, []), (calm 5, bare_request, [])] (default_limiter 3))
     \<le> (400 + refill_of 200 7 + 2 * (3600 / 2 ^ 52) :: rat)"
  using queries_bounded [of "[(calm 3, bare_request, []), (calm 5, bare_request, [])]" 3 10 id]
  by (simp add: limited_at_def calm_def)

theorem unauthenticated_bounded_witness:
  "of_nat (grants (unverified id) [(calm 3, bare_request, []), (calm 5, bare_request, [])] (default_limiter 3))
     \<le> (60 + refill_of 30 7 + 2 * (540 / 2 ^ 52) :: rat)"
  using unauthenticated_bounded [of "[(calm 3, bare_request, []), (calm 5, bare_request, [])]" 3 10 id]
  by (simp add: limited_at_def calm_def)

theorem bucket_map_bounded_witness:
  "length (buckets (limited_run id [(calm 3, bare_request, [])] (with_all 0 60 30 1024 400 200))) \<le> 1024"
  by (rule bucket_map_bounded) simp

lemma fl_samples: "fl 60 = 60" "fl 400 = 400"
  using fl_of_int [of 60] fl_of_int [of 400] by simp_all

lemma bare_forwarded:
  "\<exists>lm' n. rate_limit id (calm 0) bare_request [] (default_limiter 0)
     = (lm', n, Forward (bare_request\<lparr>pre_verified := Some Denied, has_gate := True\<rparr>))"
  by (simp add: rate_limit_def try_consume_ingress_def try_consume_def pre_verify_def extract_bearer_def bare_request_def
      calm_def default_limiter_def with_all_def take_token_def refill_bucket_def as_secs_f64_def fl_samples Let_def)

theorem limiter_transparent_witness:
  "require_token (\<lambda>_. None) id [] (\<lambda>a i s. (s, empty_response 200)) calm_env
      (bare_request\<lparr>pre_verified := Some Denied, has_gate := True\<rparr>) no_tokens
   = require_token (\<lambda>_. None) id [] (\<lambda>a i s. (s, empty_response 200)) calm_env bare_request no_tokens"
proof -
  obtain lm' n where "rate_limit id (calm 0) bare_request (tokens no_tokens) (default_limiter 0)
     = (lm', n, Forward (bare_request\<lparr>pre_verified := Some Denied, has_gate := True\<rparr>))"
    using bare_forwarded by (auto simp: no_tokens_def)
  from limiter_transparent [OF this] show ?thesis by (simp add: bare_request_def calm_def calm_env_def)
qed

end
