(* ===== verification/Event_Bus.thy ===== *)
theory Event_Bus
  imports Token_Bucket Maps F64
begin

text \<open>
  \<^verbatim>\<open>crates/oxidhome-core/src/state/events.rs\<close>: the in-memory event bus.  Every subscriber has its own bounded queue; an event that
  does not fit is dropped for that subscriber only and counted, and the next event that fits carries the count.
  A publication is admitted by a token bucket per instance.  The counters and ids are \<^verbatim>\<open>u64\<close>; each step adds at most
  one, so they are naturals.  The types of the events are generated from \<^verbatim>\<open>wit/oxidhome.wit\<close>; the
  fields of a state change, which the bus does not read, are the type parameter.
\<close>

section \<open>Events and filters\<close>

datatype button_event = Pressed | Released | SinglePress | DoublePress | LongPress | Rotated f64

record inference_result =
  inf_model :: string
  inf_payload :: string
  inf_frame :: "nat option"

datatype 'x event_payload =
    StateChanged string 'x
  | Button button_event
  | Inference inference_result
  | Custom string string

record 'x event =
  event_device :: "string option"
  event_time :: nat
  origin_plugin :: string
  origin_instance :: string
  row_id :: "nat option"
  payload :: "'x event_payload"

record event_filter =
  filter_device :: "string option"
  filter_topic :: "string option"

definition topic_of :: "'x event \<Rightarrow> string" where
  "topic_of e =
     (case payload e of
        StateChanged capability _ \<Rightarrow> capability
      | Button _ \<Rightarrow> ''button''
      | Inference _ \<Rightarrow> ''inference''
      | Custom topic _ \<Rightarrow> topic)"

definition filter_matches :: "event_filter \<Rightarrow> 'x event \<Rightarrow> bool" where
  "filter_matches f e =
     ((case filter_device f of Some d \<Rightarrow> event_device e = Some d | None \<Rightarrow> True)
      \<and> (case filter_topic f of
           None \<Rightarrow> True
         | Some topic \<Rightarrow>
             (case payload e of
                Custom t _ \<Rightarrow> starts_with topic t
              | _ \<Rightarrow> topic_of e = topic)))"

section \<open>State\<close>

datatype 'x subscriber_message = EventMessage (event_of: "'x event") (skipped_before: nat)

record 'x subscriber =
  sub_filter :: event_filter
  queue :: "'x subscriber_message list"
  closed :: bool
  dropped :: nat
  pending_lag :: nat
  sub_label :: string

record limiter =
  lim_bucket :: bucket
  lim_capacity :: rat
  lim_refill :: rat

record 'x bus =
  subscribers :: "(nat, 'x subscriber) hmap"
  next_subscription :: nat
  wakes :: "(nat, event_filter \<times> nat) hmap"
  next_wake :: nat
  limiters :: "(string, limiter) hmap"
  rate_capacity :: rat
  rate_refill :: rat

definition subscriber_capacity :: nat where
  "subscriber_capacity = 256"

definition new_bus :: "'x bus" where
  "new_bus = \<lparr>subscribers = [], next_subscription = 1, wakes = [], next_wake = 1, limiters = [],
     rate_capacity = 64, rate_refill = 100\<rparr>"

section \<open>Publishing\<close>

text \<open>What \<^verbatim>\<open>publish\<close> does to one subscriber under its \<^verbatim>\<open>send_gate\<close>: claim the lag, try to send, put the lag back.\<close>

definition offer :: "'x event \<Rightarrow> 'x subscriber \<Rightarrow> 'x subscriber \<times> bool" where
  "offer e sub =
     (if \<not> filter_matches (sub_filter sub) e then (sub, False)
      else
        (let claimed = pending_lag sub; sub1 = sub\<lparr>pending_lag := 0\<rparr> in
         if closed sub1 then (sub1, False)
         else if length (queue sub1) < subscriber_capacity
         then (sub1\<lparr>queue := queue sub1 @ [EventMessage e claimed]\<rparr>, True)
         else (sub1\<lparr>pending_lag := pending_lag sub1 + (claimed + 1), dropped := dropped sub1 + 1\<rparr>, False)))"

definition signal_wakes :: "'x event \<Rightarrow> 'x bus \<Rightarrow> nat list" where
  "signal_wakes e bus = map (\<lambda>(_, f, notify). notify) (filter (\<lambda>(_, f, notify). filter_matches f e) (wakes bus))"

text \<open>The result: the bus, the number of deliveries and the tasks woken.\<close>

definition publish_with_id :: "'x event \<Rightarrow> nat option \<Rightarrow> 'x bus \<Rightarrow> 'x bus \<times> nat \<times> nat list" where
  "publish_with_id e event_id bus =
     (let e' = e\<lparr>row_id := event_id\<rparr> in
      (bus\<lparr>subscribers := map (\<lambda>(i, sub). (i, fst (offer e' sub))) (subscribers bus)\<rparr>,
       length (filter (\<lambda>(i, sub). snd (offer e' sub)) (subscribers bus)),
       signal_wakes e' bus))"

definition publish :: "'x event \<Rightarrow> 'x bus \<Rightarrow> 'x bus \<times> nat \<times> nat list" where
  "publish e bus = publish_with_id e None bus"

definition dropped_for :: "nat \<Rightarrow> 'x bus \<Rightarrow> nat option" where
  "dropped_for i bus = map_option dropped (map_of (subscribers bus) i)"

section \<open>Subscribing\<close>

text \<open>A subscription: its id and, if any, its wake registration.\<close>

definition new_subscriber :: "event_filter \<Rightarrow> string \<Rightarrow> 'x subscriber" where
  "new_subscriber f lbl = \<lparr>sub_filter = f, queue = [], closed = False, dropped = 0, pending_lag = 0, sub_label = lbl\<rparr>"

definition subscribe_labeled :: "event_filter \<Rightarrow> string \<Rightarrow> 'x bus \<Rightarrow> 'x bus \<times> nat \<times> nat option" where
  "subscribe_labeled f lbl bus =
     (let i = next_subscription bus in
      (bus\<lparr>next_subscription := i + 1, subscribers := AList.update i (new_subscriber f lbl) (subscribers bus)\<rparr>, i, None))"

definition subscribe :: "event_filter \<Rightarrow> 'x bus \<Rightarrow> 'x bus \<times> nat \<times> nat option" where
  "subscribe f bus = subscribe_labeled f ''subscribe'' bus"

definition subscribe_all :: "'x bus \<Rightarrow> 'x bus \<times> nat \<times> nat option" where
  "subscribe_all bus = subscribe_labeled \<lparr>filter_device = None, filter_topic = None\<rparr> ''subscribe_all'' bus"

definition subscribe_with_wake :: "event_filter \<Rightarrow> nat \<Rightarrow> 'x bus \<Rightarrow> 'x bus \<times> nat \<times> nat option" where
  "subscribe_with_wake f notify bus =
     (let w = next_wake bus;
          bus1 = bus\<lparr>next_wake := w + 1, wakes := AList.update w (f, notify) (wakes bus)\<rparr> in
      case subscribe_labeled f ''subscribe_with_wake'' bus1 of (bus2, i, _) \<Rightarrow> (bus2, i, Some w))"

text \<open>Dropping a subscription drops the receiver, then the wake registration, then the slot.\<close>

definition on_subscriber :: "nat \<Rightarrow> ('x subscriber \<Rightarrow> 'x subscriber) \<Rightarrow> 'x bus \<Rightarrow> 'x bus" where
  "on_subscriber i f bus =
     (case map_of (subscribers bus) i of
        Some sub \<Rightarrow> bus\<lparr>subscribers := AList.update i (f sub) (subscribers bus)\<rparr>
      | None \<Rightarrow> bus)"

definition close_receiver :: "'x subscriber \<Rightarrow> 'x subscriber" where
  "close_receiver sub = sub\<lparr>queue := [], closed := True\<rparr>"

definition take_message :: "'x subscriber \<Rightarrow> 'x subscriber" where
  "take_message sub = sub\<lparr>queue := tl (queue sub)\<rparr>"

definition drop_wake :: "nat \<Rightarrow> 'x bus \<Rightarrow> 'x bus" where
  "drop_wake w bus = bus\<lparr>wakes := AList.delete w (wakes bus)\<rparr>"

definition drop_slot :: "nat \<Rightarrow> 'x bus \<Rightarrow> 'x bus" where
  "drop_slot i bus = bus\<lparr>subscribers := AList.delete i (subscribers bus)\<rparr>"

section \<open>Admission\<close>

definition new_limiter :: "rat \<Rightarrow> rat \<Rightarrow> nat \<Rightarrow> limiter" where
  "new_limiter cap rate now = \<lparr>lim_bucket = \<lparr>level = cap, last_seen = now\<rparr>, lim_capacity = cap, lim_refill = rate\<rparr>"

definition consume :: "nat \<Rightarrow> limiter \<Rightarrow> limiter \<times> bool" where
  "consume now l =
     (case take_token (refill_bucket (lim_capacity l) (lim_refill l) now (lim_bucket l)) of
        (b, granted) \<Rightarrow> (l\<lparr>lim_bucket := b\<rparr>, granted))"

datatype publish_denied = RateLimited string rat rat

definition limiter_for :: "string \<Rightarrow> nat \<Rightarrow> 'x bus \<Rightarrow> limiter" where
  "limiter_for inst now bus =
     (case map_of (limiters bus) inst of Some l \<Rightarrow> l | None \<Rightarrow> new_limiter (rate_capacity bus) (rate_refill bus) now)"

definition admit_publish :: "string \<Rightarrow> nat \<Rightarrow> 'x bus \<Rightarrow> 'x bus \<times> (publish_denied + unit)" where
  "admit_publish inst now bus =
     (case consume now (limiter_for inst now bus) of
        (l, granted) \<Rightarrow>
          (bus\<lparr>limiters := AList.update inst l (limiters bus)\<rparr>,
           if granted then Ok () else Err (RateLimited inst (rate_capacity bus) (rate_refill bus))))"

section \<open>Runs\<close>

datatype 'x bus_op =
    Publish "'x event" "nat option"
  | Admit string nat
  | Subscribe event_filter string
  | SubscribeWake event_filter nat
  | Recv nat
  | CloseReceiver nat
  | DropWake nat
  | DropSlot nat

fun bus_step :: "'x bus_op \<Rightarrow> 'x bus \<Rightarrow> 'x bus" where
  "bus_step (Publish e k) bus = fst (publish_with_id e k bus)"
| "bus_step (Admit inst now) bus = fst (admit_publish inst now bus)"
| "bus_step (Subscribe f l) bus = fst (subscribe_labeled f l bus)"
| "bus_step (SubscribeWake f n) bus = fst (subscribe_with_wake f n bus)"
| "bus_step (Recv i) bus = on_subscriber i take_message bus"
| "bus_step (CloseReceiver i) bus = on_subscriber i close_receiver bus"
| "bus_step (DropWake w) bus = drop_wake w bus"
| "bus_step (DropSlot i) bus = drop_slot i bus"

text \<open>What of a run concerns one subscriber.\<close>

datatype 'x sub_op = Offered "'x event" | Received | ClosedRecv

fun sub_view :: "nat \<Rightarrow> 'x bus_op \<Rightarrow> 'x sub_op option" where
  "sub_view i (Publish e k) = Some (Offered (e\<lparr>row_id := k\<rparr>))"
| "sub_view i (Recv j) = (if i = j then Some Received else None)"
| "sub_view i (CloseReceiver j) = (if i = j then Some ClosedRecv else None)"
| "sub_view i _ = None"

fun sub_step :: "'x sub_op \<Rightarrow> 'x subscriber \<Rightarrow> 'x subscriber" where
  "sub_step (Offered e) sub = fst (offer e sub)"
| "sub_step Received sub = take_message sub"
| "sub_step ClosedRecv sub = close_receiver sub"

definition bus_wf :: "'x bus \<Rightarrow> bool" where
  "bus_wf bus = (hm_wf (subscribers bus) \<and> hm_wf (wakes bus) \<and> hm_wf (limiters bus)
     \<and> (\<forall>i \<in> fst ` set (subscribers bus). i < next_subscription bus))"

section \<open>One subscriber of a run\<close>

lemma map_fst_values: "map (fst \<circ> (\<lambda>(i, v). (i, f v))) xs = map fst xs"
  by auto

lemma bus_step_wf: "bus_wf bus \<Longrightarrow> bus_wf (bus_step op bus)"
proof (cases op)
  case (Publish e k)
  assume "bus_wf bus"
  then show ?thesis unfolding Publish bus_wf_def hm_wf_def
    by (auto simp: publish_with_id_def Let_def map_fst_values)
qed (auto simp: bus_wf_def admit_publish_def subscribe_labeled_def subscribe_with_wake_def drop_wake_def drop_slot_def on_subscriber_def
    Let_def hm_wf_put hm_wf_drop dom_update dom_map_of_conv_image_fst [symmetric] hm.find_drop hm.find_put dom_def intro: less_SucI
    split: option.splits prod.splits)

lemma bus_run_wf: "bus_wf bus \<Longrightarrow> bus_wf (fold bus_step ops bus)"
  by (induction ops arbitrary: bus) (simp_all add: bus_step_wf)

lemma new_bus_wf: "bus_wf new_bus"
  by (simp add: bus_wf_def new_bus_def)

lemma bus_step_sub:
  assumes wf: "bus_wf bus" and sub: "map_of (subscribers bus) i = Some s" and keep: "op \<noteq> DropSlot i"
  shows "map_of (subscribers (bus_step op bus)) i = Some (case sub_view i op of Some x \<Rightarrow> sub_step x s | None \<Rightarrow> s)"
proof -
  have i: "i < next_subscription bus" using wf map_of_SomeD [OF sub] by (auto simp: bus_wf_def)
  have hm: "hm_wf (subscribers bus)" using wf by (simp add: bus_wf_def)
  show ?thesis
  proof (cases op)
    case (Publish e k)
    with sub show ?thesis by (simp add: publish_with_id_def Let_def map_of_map)
  qed (use sub keep i hm in \<open>auto simp: admit_publish_def subscribe_labeled_def subscribe_with_wake_def drop_wake_def drop_slot_def
      on_subscriber_def Let_def hm.find_put hm.find_drop split: option.splits prod.splits\<close>)
qed

text \<open>The part of a run that concerns one subscriber.\<close>

definition sub_ops :: "nat \<Rightarrow> 'x bus_op list \<Rightarrow> 'x sub_op list" where
  "sub_ops i ops = List.map_filter (sub_view i) ops"

lemma sub_ops_simps [simp]:
  "sub_ops i [] = []"
  "sub_ops i (op # ops) = (case sub_view i op of Some x \<Rightarrow> x # sub_ops i ops | None \<Rightarrow> sub_ops i ops)"
  by (simp_all add: sub_ops_def List.map_filter_simps split: option.split)

lemma bus_run_sub:
  "bus_wf bus \<Longrightarrow> map_of (subscribers bus) i = Some s \<Longrightarrow> DropSlot i \<notin> set ops \<Longrightarrow>
     map_of (subscribers (fold bus_step ops bus)) i = Some (fold sub_step (sub_ops i ops) s)"
proof (induction ops arbitrary: bus s)
  case (Cons op ops)
  let ?s = "case sub_view i op of Some x \<Rightarrow> sub_step x s | None \<Rightarrow> s"
  have "map_of (subscribers (bus_step op bus)) i = Some ?s"
    using Cons.prems by (intro bus_step_sub) auto
  with Cons.IH [OF bus_step_wf [OF Cons.prems(1), of op] this] Cons.prems(3) show ?case
    by (simp split: option.split)
qed simp

section \<open>The lossy channel\<close>

text \<open>
  The specification of a subscription: every event that matches its filter, in order, each one either delivered or lost.
  A message stands for the losses it reports and then its event.
\<close>

definition expand :: "'x subscriber_message \<Rightarrow> 'x event option list" where
  "expand m = replicate (skipped_before m) None @ [Some (event_of m)]"

definition history :: "'x subscriber_message list \<Rightarrow> nat \<Rightarrow> 'x event option list" where
  "history ms lag = concat (map expand ms) @ replicate lag None"

definition lossy_copy :: "'x event option list \<Rightarrow> 'x event list \<Rightarrow> bool" where
  "lossy_copy = list_all2 (\<lambda>x e. x = None \<or> x = Some e)"

fun matched :: "event_filter \<Rightarrow> 'x sub_op list \<Rightarrow> 'x event list" where
  "matched f [] = []"
| "matched f (Offered e # ops) = (if filter_matches f e then e # matched f ops else matched f ops)"
| "matched f (_ # ops) = matched f ops"

text \<open>The messages the consumer took.\<close>

fun taken :: "'x sub_op list \<Rightarrow> 'x subscriber \<Rightarrow> 'x subscriber_message list" where
  "taken [] s = []"
| "taken (x # ops) s = (if x = Received then take 1 (queue s) else []) @ taken ops (sub_step x s)"

definition losses :: "'x event option list \<Rightarrow> nat" where
  "losses h = length (filter (\<lambda>x. x = None) h)"

definition accounted :: "'x subscriber_message list \<Rightarrow> 'x subscriber \<Rightarrow> 'x event list \<Rightarrow> bool" where
  "accounted ms s es = (\<not> closed s \<and> length (queue s) \<le> subscriber_capacity
     \<and> lossy_copy (history (ms @ queue s) (pending_lag s)) es \<and> dropped s = losses (history (ms @ queue s) (pending_lag s)))"

lemma history_snoc: "history (ms @ [EventMessage e lag]) 0 = history ms lag @ [Some e]"
  by (simp add: history_def expand_def)

lemma history_lag: "history ms (Suc lag) = history ms lag @ [None]"
  by (simp add: history_def replicate_append_same)

lemma accounted_step:
  assumes "accounted ms s es" and "x \<noteq> ClosedRecv"
  shows "accounted (ms @ (if x = Received then take 1 (queue s) else [])) (sub_step x s) (es @ matched (sub_filter s) [x])"
proof (cases x)
  case (Offered e)
  show ?thesis
  proof (cases "filter_matches (sub_filter s) e")
    case True
    have acc: "\<not> closed s" "length (queue s) \<le> subscriber_capacity" "lossy_copy (history (ms @ queue s) (pending_lag s)) es"
        "dropped s = losses (history (ms @ queue s) (pending_lag s))"
      using assms(1) by (simp_all add: accounted_def)
    show ?thesis
    proof (cases "length (queue s) < subscriber_capacity")
      case room: True
      have "history (ms @ queue s @ [EventMessage e (pending_lag s)]) 0 = history (ms @ queue s) (pending_lag s) @ [Some e]"
        using history_snoc [of "ms @ queue s"] by simp
      with Offered True room acc show ?thesis
        by (simp add: accounted_def offer_def Let_def lossy_copy_def losses_def list_all2_appendI)
    next
      case False
      with Offered True acc history_lag [of "ms @ queue s" "pending_lag s"] show ?thesis
        by (simp add: accounted_def offer_def Let_def lossy_copy_def losses_def list_all2_appendI)
    qed
  qed (use Offered assms in \<open>simp add: offer_def\<close>)
next
  case Received
  then have "ms @ take 1 (queue s) @ queue (take_message s) = ms @ queue s" by (cases "queue s") (simp_all add: take_message_def)
  moreover have "length (queue (take_message s)) \<le> length (queue s)" by (simp add: take_message_def)
  ultimately show ?thesis using Received assms by (simp add: accounted_def) (simp add: take_message_def)
qed (use assms in simp)

lemma sub_filter_step [simp]: "sub_filter (sub_step x s) = sub_filter s"
  by (cases x) (simp_all add: offer_def take_message_def close_receiver_def Let_def)

lemma accounted_run:
  "accounted ms s es \<Longrightarrow> ClosedRecv \<notin> set ops \<Longrightarrow>
     accounted (ms @ taken ops s) (fold sub_step ops s) (es @ matched (sub_filter s) ops)"
proof (induction ops arbitrary: ms s es)
  case (Cons x ops)
  have m: "matched f (x # ops) = matched f [x] @ matched f ops" for f by (cases x) simp_all
  have "accounted (ms @ (if x = Received then take 1 (queue s) else [])) (sub_step x s) (es @ matched (sub_filter s) [x])"
    using Cons.prems by (intro accounted_step) auto
  from Cons.IH [OF this] Cons.prems(2) show ?case by (simp add: m)
qed simp

section \<open>Admission keeps the limiter contract\<close>

text \<open>Requests name an instance and a time; those of one instance count.\<close>

definition instance_limiter :: "string \<Rightarrow> nat \<Rightarrow> 'x bus \<Rightarrow> limiter" where
  "instance_limiter inst start bus = (case map_of (limiters bus) inst of Some l \<Rightarrow> l | None \<Rightarrow> new_limiter 64 100 start)"

definition admission_inv :: "string \<Rightarrow> nat \<Rightarrow> 'x bus \<Rightarrow> bool" where
  "admission_inv inst start bus = (rate_capacity bus = 64 \<and> rate_refill bus = 100 \<and> hm_wf (limiters bus)
     \<and> (\<forall>l. map_of (limiters bus) inst = Some l \<longrightarrow>
          lim_capacity l = 64 \<and> lim_refill l = 100 \<and> bucket_ok 64 (lim_bucket l) \<and> start \<le> last_seen (lim_bucket l)))"

definition admit_request :: "string \<Rightarrow> string \<times> nat \<Rightarrow> 'x bus \<Rightarrow> 'x bus \<times> bool" where
  "admit_request inst q bus = (case admit_publish (fst q) (snd q) bus of (bus', r) \<Rightarrow> (bus', is_ok r \<and> fst q = inst))"

lemma consume_level:
  assumes "lim_capacity l = 64" "lim_refill l = 100" "bucket_ok 64 (lim_bucket l)" and "consume now l = (l', granted)"
  shows "lim_capacity l' = 64" "lim_refill l' = 100" "bucket_ok 64 (lim_bucket l')" "last_seen (lim_bucket l') = now"
    and "level (lim_bucket l') \<le> level (lim_bucket l) + refill_of 100 (now - last_seen (lim_bucket l)) - of_bool granted + slack 64"
proof -
  obtain b where take: "take_token (refill_bucket 64 100 now (lim_bucket l)) = (b, granted)" and l': "l' = l\<lparr>lim_bucket := b\<rparr>"
    using assms(1,2,4) by (auto simp: consume_def split: prod.splits)
  show "lim_capacity l' = 64" "lim_refill l' = 100" using assms(1,2) l' by simp_all
  have "bucket_ok 64 b" "last_seen b = now"
      "level b \<le> level (lim_bucket l) + refill_of 100 (now - last_seen (lim_bucket l)) - of_bool granted + slack 64"
    by (rule request_level [OF assms(3) _ _ _ _ take, of 64]; simp)+
  then show "bucket_ok 64 (lim_bucket l')" "last_seen (lim_bucket l') = now"
      "level (lim_bucket l') \<le> level (lim_bucket l) + refill_of 100 (now - last_seen (lim_bucket l)) - of_bool granted + slack 64"
    using l' by simp_all
qed

interpretation admission: rate_limiter "admission_inv inst start" "\<lambda>bus. level (lim_bucket (instance_limiter inst start bus))"
    "\<lambda>bus. last_seen (lim_bucket (instance_limiter inst start bus))" snd "admit_request inst" 100 "slack 64" for inst start
proof unfold_locales
  fix bus bus' :: "'a bus" and granted and q :: "string \<times> nat"
  assume inv: "admission_inv inst start bus" and clk: "last_seen (lim_bucket (instance_limiter inst start bus)) \<le> snd q"
    and r: "admit_request inst q bus = (bus', granted)"
  obtain p now where q: "q = (p, now)" by (cases q)
  obtain l g where l: "consume now (limiter_for p now bus) = (l, g)" by fastforce
  have bus': "bus' = bus\<lparr>limiters := AList.update p l (limiters bus)\<rparr>" and g: "granted \<longleftrightarrow> g \<and> p = inst"
    using r l by (cases g; simp add: admit_request_def admit_publish_def q)+
  have wf: "hm_wf (limiters bus)" using inv by (simp add: admission_inv_def)
  have map': "map_of (limiters bus') = (map_of (limiters bus))(p \<mapsto> l)" using wf by (simp add: bus' hm.find_put)
  define old where "old = instance_limiter inst start bus"
  define new where "new = instance_limiter inst start bus'"
  have "admission_inv inst start bus' \<and> last_seen (lim_bucket old) \<le> last_seen (lim_bucket new)
      \<and> last_seen (lim_bucket new) \<le> snd q
      \<and> level (lim_bucket new) \<le> level (lim_bucket old)
          + refill_of 100 (last_seen (lim_bucket new) - last_seen (lim_bucket old)) - of_bool granted + slack 64"
  proof (cases "p = inst")
    case False
    then have "map_of (limiters bus') inst = map_of (limiters bus) inst" using map' by simp
    then have "new = old" by (simp add: new_def old_def instance_limiter_def)
    moreover have "admission_inv inst start bus'" using inv wf False map' by (simp add: admission_inv_def bus' hm_wf_put)
    ultimately show ?thesis using clk g False by (simp add: old_def refill_of_def slack_def)
  next
    case True
    define l0 where "l0 = limiter_for p now bus"
    have l0: "lim_capacity l0 = 64" "lim_refill l0 = 100" "bucket_ok 64 (lim_bucket l0)"
      using inv True by (auto simp: l0_def limiter_for_def admission_inv_def new_limiter_def bucket_ok_def split: option.splits)
    note lv = consume_level [OF l0 l [folded l0_def]]
    have new: "new = l" using map' True by (simp add: new_def instance_limiter_def)
    have start: "start \<le> now" using clk inv
      by (auto simp: q instance_limiter_def admission_inv_def new_limiter_def split: option.splits)
    have inv': "admission_inv inst start bus'"
      using inv wf map' True lv(1-4) start by (simp add: admission_inv_def bus' hm_wf_put)
    show ?thesis
    proof (cases "map_of (limiters bus) inst")
      case None
      then have old: "lim_bucket old = \<lparr>level = 64, last_seen = start\<rparr>" "lim_bucket l0 = \<lparr>level = 64, last_seen = now\<rparr>"
        using inv True by (simp_all add: old_def l0_def instance_limiter_def limiter_for_def new_limiter_def admission_inv_def)
      have "0 \<le> refill_of 100 (now - start)" "refill_of 100 0 = 0" by (simp_all add: refill_of_def)
      with lv(4,5) old new inv' g True start show ?thesis by (simp add: q)
    next
      case (Some l1)
      then have "old = l0" using True by (simp add: old_def l0_def instance_limiter_def limiter_for_def)
      with lv(4,5) new inv' g True clk show ?thesis by (simp add: q old_def [symmetric])
    qed
  qed
  then show "admission_inv inst start bus'"
    "last_seen (lim_bucket (instance_limiter inst start bus)) \<le> last_seen (lim_bucket (instance_limiter inst start bus'))
     \<and> last_seen (lim_bucket (instance_limiter inst start bus')) \<le> snd q"
    "level (lim_bucket (instance_limiter inst start bus')) \<le> level (lim_bucket (instance_limiter inst start bus))
       + refill_of 100 (last_seen (lim_bucket (instance_limiter inst start bus')) - last_seen (lim_bucket (instance_limiter inst start bus)))
       - of_bool granted + slack 64"
    unfolding old_def new_def by blast+
qed (auto simp: admission_inv_def instance_limiter_def new_limiter_def bucket_ok_def slack_def split: option.splits)

section \<open>Properties\<close>

text \<open>
  Subscribers do not affect each other.  What a bus run leaves of a subscription, its queue, its loss counters and all, is what the
  subscription alone would make of the events published and of its own consumer's actions, whatever the others do.
\<close>

theorem subscriber_equivalent:
  assumes "map_of (subscribers (fold bus_step ops new_bus)) i = Some s" and "DropSlot i \<notin> set ops'"
  shows "map_of (subscribers (fold bus_step (ops @ ops') new_bus)) i = Some (fold sub_step (sub_ops i ops') s)"
  using bus_run_sub [OF bus_run_wf [OF new_bus_wf] assms] by simp

text \<open>
  Claim C16: a subscription is a lossy channel that reports its losses.  Unfolding the messages taken and queued, each into the losses it reports
  and its event, and adding the losses not yet reported, gives one entry for every matching event published since, in
  order: that event or a loss.  The drop counter counts the losses, and the queue never holds more than 256 messages.
\<close>

theorem lossy_channel:
  assumes "subscribe_labeled f l (fold bus_step ops new_bus) = (bus, i, w)"
    and "DropSlot i \<notin> set ops'" and "CloseReceiver i \<notin> set ops'"
  shows "\<exists>s. map_of (subscribers (fold bus_step ops' bus)) i = Some s
    \<and> lossy_copy (history (taken (sub_ops i ops') (new_subscriber f l) @ queue s) (pending_lag s)) (matched f (sub_ops i ops'))
    \<and> dropped s = losses (history (taken (sub_ops i ops') (new_subscriber f l) @ queue s) (pending_lag s))
    \<and> length (queue s) \<le> 256"
proof -
  have wf: "bus_wf (fold bus_step ops new_bus)" by (rule bus_run_wf [OF new_bus_wf])
  have bus: "bus = bus_step (Subscribe f l) (fold bus_step ops new_bus)" using assms(1) by simp
  have sub: "map_of (subscribers bus) i = Some (new_subscriber f l)"
    using assms(1) wf by (auto simp: subscribe_labeled_def Let_def bus_wf_def hm.find_put)
  have closed: "ClosedRecv \<notin> set (sub_ops i ops')" using assms(3)
  proof (induction ops')
    case (Cons op ops')
    then show ?case by (cases op) (auto split: if_splits)
  qed simp
  have "accounted [] (new_subscriber f l :: 'a subscriber) []"
    by (simp add: accounted_def new_subscriber_def history_def lossy_copy_def losses_def subscriber_capacity_def)
  from accounted_run [OF this closed]
  have "accounted (taken (sub_ops i ops') (new_subscriber f l)) (fold sub_step (sub_ops i ops') (new_subscriber f l)) (matched f (sub_ops i ops'))"
    by (simp add: new_subscriber_def)
  with bus_run_sub [OF _ sub assms(2)] bus_step_wf [OF wf, of "Subscribe f l"] bus show ?thesis
    by (auto simp: accounted_def subscriber_capacity_def)
qed

text \<open>
  Publications are bounded.  Between two instants, however the requests of other instances are interleaved, an instance is admitted at
  most 64 publications plus 100 per second, up to the rounding of the floating-point bucket.
\<close>

theorem publications_bounded:
  assumes "sorted (map snd qs)" and "\<forall>q \<in> set qs. start \<le> snd q \<and> snd q \<le> stop" and "start \<le> stop"
  shows "of_nat (grants (admit_request inst) qs (new_bus :: 'x bus))
    \<le> 64 + refill_of 100 (stop - start) + of_nat (length qs) * (576 / 2 ^ 52)"
proof -
  have inv: "admission_inv inst start (new_bus :: 'x bus)" by (simp add: admission_inv_def new_bus_def)
  have st: "lim_bucket (instance_limiter inst start (new_bus :: 'x bus)) = \<lparr>level = 64, last_seen = start\<rparr>"
    by (simp add: instance_limiter_def new_bus_def new_limiter_def)
  have "slack 64 = 576 / 2 ^ 52" by (simp add: slack_def ulp_def)
  with admission.grants_bound [OF inv assms(1), of stop] assms(2,3) st show ?thesis by simp
qed

section \<open>Witnesses\<close>

definition sample_event :: "unit event" where
  "sample_event = \<lparr>event_device = None, event_time = 0, origin_plugin = ''p'', origin_instance = ''i'', row_id = None,
     payload = Custom ''a.b'' ''x''\<rparr>"

definition topic_a :: event_filter where
  "topic_a = \<lparr>filter_device = None, filter_topic = Some ''a''\<rparr>"

theorem subscriber_equivalent_witness:
  "map_of (subscribers (fold bus_step ([Subscribe topic_a ''x''] @ [Publish sample_event (Some 1), DropSlot 2]) new_bus)) 1
     = Some (fold sub_step (sub_ops 1 [Publish sample_event (Some 1), DropSlot 2]) (new_subscriber topic_a ''x''))"
  by (rule subscriber_equivalent) (simp_all add: subscribe_labeled_def new_bus_def)

theorem lossy_channel_witness:
  "\<exists>s. map_of (subscribers (fold bus_step [Publish sample_event (Some 1), Recv 1] (fst (subscribe_labeled topic_a ''x'' new_bus)))) 1 = Some s
     \<and> dropped s = losses (history (taken (sub_ops 1 [Publish sample_event (Some 1), Recv 1]) (new_subscriber topic_a ''x'') @ queue s)
         (pending_lag s))"
  using lossy_channel [of topic_a "''x''" "[]" "fst (subscribe_labeled topic_a ''x'' new_bus)" 1 None
      "[Publish sample_event (Some 1), Recv 1]"]
  by (auto simp: subscribe_labeled_def new_bus_def)

theorem publications_bounded_witness:
  "of_nat (grants (admit_request ''a'') [(''a'', 3), (''b'', 4), (''a'', 9)] (new_bus :: unit bus))
     \<le> (64 + refill_of 100 7 + 3 * (576 / 2 ^ 52) :: rat)"
  using publications_bounded [of "[(''a'', 3), (''b'', 4), (''a'', 9)]" 3 10 "''a''"] by simp

end
