(* ===== verification/Registry.thy ===== *)
theory Registry
  imports Maps
begin

text \<open>
  \<^verbatim>\<open>crates/oxidhome-core/src/runtime/registry.rs\<close>: the registry of running instances and the rule for singleton
  plugins.  The handle the factory spawns carries the ids it was asked for; its channels are the type parameter.
\<close>

section \<open>State and operations\<close>

record 'h handle =
  handle_instance :: string
  handle_plugin :: string
  channels :: 'h

record 'h instance_registry =
  instances :: "(string, 'h handle) hmap"
  singletons :: "(string, string) hmap"
  shutting_down :: bool

datatype registry_error =
    DuplicateInstanceId string
  | SingletonInUse string string
  | ShuttingDown

definition empty_registry :: "'h instance_registry" where
  "empty_registry = \<lparr>instances = [], singletons = [], shutting_down = False\<rparr>"

definition register_instance ::
  "string \<Rightarrow> string \<Rightarrow> bool \<Rightarrow> 'h \<Rightarrow> 'h instance_registry \<Rightarrow> 'h instance_registry \<times> (registry_error + 'h handle)" where
  "register_instance inst plugin singleton spawned r =
     (let h = \<lparr>handle_instance = inst, handle_plugin = plugin, channels = spawned\<rparr>;
          accept = (r\<lparr>instances := AList.update inst h (instances r),
                       singletons := (if singleton then AList.update plugin inst (singletons r) else singletons r)\<rparr>, Ok h) in
      if shutting_down r then (r, Err ShuttingDown)
      else if map_of (instances r) inst \<noteq> None then (r, Err (DuplicateInstanceId inst))
      else if singleton then
        (case find (\<lambda>h. handle_plugin h = plugin) (map snd (instances r)) of
           Some existing \<Rightarrow> (r, Err (SingletonInUse plugin (handle_instance existing)))
         | None \<Rightarrow> accept)
      else
        (case map_of (singletons r) plugin of
           Some existing \<Rightarrow> (r, Err (SingletonInUse plugin existing))
         | None \<Rightarrow> accept))"

definition unregister :: "string \<Rightarrow> string \<Rightarrow> 'h instance_registry \<Rightarrow> 'h instance_registry" where
  "unregister inst plugin r =
     r\<lparr>instances := AList.delete inst (instances r),
       singletons := (if map_of (singletons r) plugin = Some inst then AList.delete plugin (singletons r) else singletons r)\<rparr>"

definition begin_shutdown :: "'h instance_registry \<Rightarrow> 'h instance_registry" where
  "begin_shutdown r = r\<lparr>shutting_down := True\<rparr>"

definition get_instance :: "string \<Rightarrow> 'h instance_registry \<Rightarrow> 'h handle option" where
  "get_instance inst r = map_of (instances r) inst"

definition list_instances :: "'h instance_registry \<Rightarrow> 'h handle list" where
  "list_instances r = map snd (instances r)"

section \<open>Runs\<close>

text \<open>
  The reaper of an instance unregisters it under the plugin it was registered with, once: \<^verbatim>\<open>runtime.rs\<close>
  passes the same two ids to both calls.
\<close>

datatype 'h registry_op =
    Start string string bool 'h
  | Reap string
  | Shutdown

fun registry_step :: "'h registry_op \<Rightarrow> 'h instance_registry \<Rightarrow> 'h instance_registry" where
  "registry_step (Start inst plugin singleton spawned) r = fst (register_instance inst plugin singleton spawned r)"
| "registry_step (Reap inst) r =
     (case map_of (instances r) inst of Some h \<Rightarrow> unregister inst (handle_plugin h) r | None \<Rightarrow> r)"
| "registry_step Shutdown r = begin_shutdown r"

definition running :: "'h instance_registry \<Rightarrow> string \<Rightarrow> string \<Rightarrow> bool" where
  "running r plugin inst = (\<exists>h. map_of (instances r) inst = Some h \<and> handle_plugin h = plugin)"

definition registry_inv :: "'h instance_registry \<Rightarrow> bool" where
  "registry_inv r = (hm_wf (instances r) \<and> hm_wf (singletons r)
     \<and> (\<forall>inst h. map_of (instances r) inst = Some h \<longrightarrow> handle_instance h = inst)
     \<and> (\<forall>plugin inst. map_of (singletons r) plugin = Some inst \<longrightarrow>
          running r plugin inst \<and> (\<forall>inst'. running r plugin inst' \<longrightarrow> inst' = inst)))"

lemma find_plugin_None:
  "hm_wf (instances r) \<Longrightarrow> find (\<lambda>h. handle_plugin h = plugin) (map snd (instances r)) = None \<longleftrightarrow> (\<forall>inst. \<not> running r plugin inst)"
proof -
  assume wf: "hm_wf (instances r)"
  have "(\<exists>inst. running r plugin inst) \<longleftrightarrow> (\<exists>h \<in> set (map snd (instances r)). handle_plugin h = plugin)"
    unfolding running_def hm_entry_iff [OF wf, symmetric] by force
  then show ?thesis unfolding find_None_iff by blast
qed

lemma running_put:
  "hm_wf (instances r) \<Longrightarrow> running (r\<lparr>instances := AList.update i h (instances r), singletons := s\<rparr>) plugin inst
     \<longleftrightarrow> (if inst = i then handle_plugin h = plugin else running r plugin inst)"
  by (auto simp: running_def hm.find_put)

lemma running_drop:
  "hm_wf (instances r) \<Longrightarrow> running (r\<lparr>instances := AList.delete i (instances r), singletons := s\<rparr>) plugin inst
     \<longleftrightarrow> inst \<noteq> i \<and> running r plugin inst"
  by (auto simp: running_def hm.find_drop)

lemma instance_register_inv:
  assumes inv: "registry_inv r"
  shows "registry_inv (fst (register_instance inst plugin singleton spawned r))"
proof (cases "is_ok (snd (register_instance inst plugin singleton spawned r))")
  case False
  then have "fst (register_instance inst plugin singleton spawned r) = r"
    by (auto simp: register_instance_def Let_def split: if_splits option.splits)
  with inv show ?thesis by simp
next
  case True
  define h where "h = \<lparr>handle_instance = inst, handle_plugin = plugin, channels = spawned\<rparr>"
  have wf: "hm_wf (instances r)" "hm_wf (singletons r)" using inv by (simp_all add: registry_inv_def)
  have new: "map_of (instances r) inst = None"
    and alone: "singleton \<longrightarrow> (\<forall>i. \<not> running r plugin i)" "\<not> singleton \<longrightarrow> map_of (singletons r) plugin = None"
    and r': "fst (register_instance inst plugin singleton spawned r) =
      r\<lparr>instances := AList.update inst h (instances r),
        singletons := (if singleton then AList.update plugin inst (singletons r) else singletons r)\<rparr>"
    using True find_plugin_None [OF wf(1), of plugin]
    by (auto simp: register_instance_def Let_def h_def split: if_splits option.splits)
  have fresh: "map_of (singletons r) p = Some inst' \<Longrightarrow> inst' \<noteq> inst" for p inst'
  proof -
    assume "map_of (singletons r) p = Some inst'"
    then have "running r p inst'" using inv by (simp add: registry_inv_def)
    with new show ?thesis by (auto simp: running_def)
  qed
  show ?thesis
    unfolding r' registry_inv_def
    using inv alone fresh wf by (auto simp: registry_inv_def running_put hm.find_put hm_wf_put h_def split: if_splits)
qed

lemma unregister_inv:
  assumes inv: "registry_inv r" and h: "map_of (instances r) inst = Some h"
  shows "registry_inv (unregister inst (handle_plugin h) r)"
proof -
  have wf: "hm_wf (instances r)" "hm_wf (singletons r)" using inv by (simp_all add: registry_inv_def)
  have own: "p = handle_plugin h" if "map_of (singletons r) p = Some inst" for p
  proof -
    have "running r p inst" using inv that by (simp add: registry_inv_def)
    with h show ?thesis by (simp add: running_def)
  qed
  let ?r = "unregister inst (handle_plugin h) r"
  have kept: "map_of (singletons r) p = Some i \<and> i \<noteq> inst" if "map_of (singletons ?r) p = Some i" for p i
    using that own [of p] wf by (auto simp: unregister_def hm.find_drop split: if_splits)
  have run: "running ?r p i \<longleftrightarrow> i \<noteq> inst \<and> running r p i" for p i
    unfolding unregister_def by (rule running_drop [OF wf(1)])
  show ?thesis
    unfolding registry_inv_def
  proof (intro conjI allI impI)
    fix i h'
    assume "map_of (instances ?r) i = Some h'"
    then have "map_of (instances r) i = Some h'" using wf by (auto simp: unregister_def hm.find_drop split: if_splits)
    with inv show "handle_instance h' = i" by (simp add: registry_inv_def)
  next
    fix p i
    assume "map_of (singletons ?r) p = Some i"
    from kept [OF this] inv have "running r p i" "i \<noteq> inst" by (simp_all add: registry_inv_def)
    then show "running ?r p i" by (simp add: run)
  next
    fix p i i'
    assume "map_of (singletons ?r) p = Some i" "running ?r p i'"
    with kept inv run show "i' = i" unfolding registry_inv_def by blast
  qed (use wf in \<open>simp_all add: unregister_def hm_wf_drop\<close>)
qed

lemma shutdown_inv: "registry_inv r \<Longrightarrow> registry_inv (begin_shutdown r)"
  by (simp add: registry_inv_def running_def begin_shutdown_def)

lemma registry_step_inv: "registry_inv r \<Longrightarrow> registry_inv (registry_step op r)"
  by (cases op) (simp_all add: instance_register_inv unregister_inv shutdown_inv split: option.splits)

lemma registry_run_inv: "registry_inv (fold registry_step ops empty_registry)"
proof -
  have "registry_inv r \<Longrightarrow> registry_inv (fold registry_step ops r)" for r
    by (induction ops arbitrary: r) (simp_all add: registry_step_inv)
  moreover have "registry_inv (empty_registry :: 'a instance_registry)"
    by (simp add: registry_inv_def empty_registry_def running_def)
  ultimately show ?thesis by blast
qed

text \<open>
  A singleton plugin runs alone.  In every reachable registry, a plugin with a registered singleton instance has no other running
  instance; and a start is accepted exactly when the engine is not stopping, the instance id is free, and, for a singleton, no
  instance of the plugin runs, for any other, no singleton of it does.
\<close>

theorem singleton_exclusive:
  assumes "r = fold registry_step ops empty_registry"
  shows "(map_of (singletons r) plugin = Some inst \<longrightarrow> (\<forall>inst'. running r plugin inst' \<longleftrightarrow> inst' = inst))
    \<and> (is_ok (snd (register_instance i p singleton spawned r)) \<longleftrightarrow>
         \<not> shutting_down r \<and> get_instance i r = None
         \<and> (if singleton then \<forall>i'. \<not> running r p i' else \<forall>i'. map_of (singletons r) p \<noteq> Some i'))"
proof -
  have inv: "registry_inv r" unfolding assms by (rule registry_run_inv)
  then have wf: "hm_wf (instances r)"
    and alone: "map_of (singletons r) plugin = Some inst \<Longrightarrow> running r plugin inst \<and> (\<forall>inst'. running r plugin inst' \<longrightarrow> inst' = inst)"
    by (simp_all add: registry_inv_def)
  have "is_ok (snd (register_instance i p singleton spawned r)) \<longleftrightarrow>
      \<not> shutting_down r \<and> map_of (instances r) i = None
      \<and> (if singleton then find (\<lambda>h. handle_plugin h = p) (map snd (instances r)) = None else map_of (singletons r) p = None)"
    by (simp add: register_instance_def Let_def split: option.split)
  then have "is_ok (snd (register_instance i p singleton spawned r)) \<longleftrightarrow>
      \<not> shutting_down r \<and> get_instance i r = None
      \<and> (if singleton then \<forall>i'. \<not> running r p i' else \<forall>i'. map_of (singletons r) p \<noteq> Some i')"
    unfolding find_plugin_None [OF wf] get_instance_def by (cases "map_of (singletons r) p") simp_all
  with alone show ?thesis by blast
qed

theorem singleton_exclusive_witness:
  "\<forall>i. running (fold registry_step [Start ''a'' ''p'' True (), Start ''b'' ''p'' False (), Start ''c'' ''q'' False ()] empty_registry) ''p'' i
     \<longleftrightarrow> i = ''a''"
proof -
  have "map_of (singletons (fold registry_step [Start ''a'' ''p'' True (), Start ''b'' ''p'' False (), Start ''c'' ''q'' False ()]
      empty_registry)) ''p'' = Some ''a''"
    by (simp add: register_instance_def empty_registry_def Let_def)
  with singleton_exclusive [OF refl, of "[Start ''a'' ''p'' True (), Start ''b'' ''p'' False (), Start ''c'' ''q'' False ()]" "''p''" "''a''"]
  show ?thesis by blast
qed

end
