(* ===== verification/Dispatcher.thy ===== *)
theory Dispatcher
  imports Manifest Services Registry
begin

text \<open>
  \<^verbatim>\<open>crates/oxidhome-core/src/runtime/dispatcher.rs\<close>: a plugin instance calls a service of another.  \<open>route_call\<close> is the
  part of \<^verbatim>\<open>call_service\<close> up to handing the call to the owner's supervisor, \<open>call_outcome\<close> the part after.
  The system below is the supervisors as the dispatcher sees them: what each works on, whom it waits for, and
  the calls queued at each.  Error texts are reduced to their subject.
\<close>

section \<open>A call\<close>

record call_frame =
  caller_instance :: string
  target_instance :: string
  target_service :: string


text \<open>The cycle check: \<open>parent\<close> is the chain of calls that led to the caller's work.\<close>

definition on_chain :: "call_frame list \<Rightarrow> string \<Rightarrow> bool" where
  "on_chain parent tinst = list_ex (\<lambda>f. caller_instance f = tinst) parent"


datatype 'r call_end = Replied 'r | Trapped string | TimedOut

fun call_outcome :: "string \<Rightarrow> 'r call_end \<Rightarrow> wit_error + 'r" where
  "call_outcome target (Replied r) = Ok r"
| "call_outcome target (Trapped trap) = Err (Unavailable target)"
| "call_outcome target TimedOut = Err (Unavailable target)"

section \<open>The waiting supervisors\<close>

datatype phase =
    Idle
  | Working "call_frame list"
  | Parked "call_frame list" string

record system =
  phase_of :: "string \<Rightarrow> phase"
  mailbox :: "string \<Rightarrow> call_frame list list"

definition initial_system :: system where
  "initial_system = \<lparr>phase_of = (\<lambda>_. Idle), mailbox = (\<lambda>_. [])\<rparr>"

definition set_phase :: "string \<Rightarrow> phase \<Rightarrow> system \<Rightarrow> system" where
  "set_phase i p s = s\<lparr>phase_of := (phase_of s)(i := p)\<rparr>"

definition set_mail :: "string \<Rightarrow> call_frame list list \<Rightarrow> system \<Rightarrow> system" where
  "set_mail i m s = s\<lparr>mailbox := (mailbox s)(i := m)\<rparr>"

text \<open>
  A supervisor starts work of its own (a tick, a command, a drain), takes a queued call, makes a call that passes the
  check and parks, ends its work and answers, or gives up waiting after the dispatch timeout.  An answer wakes the
  caller if it still waits.
\<close>

inductive sys_step :: "system \<Rightarrow> system \<Rightarrow> bool" where
  own_work: "phase_of s a = Idle \<Longrightarrow> sys_step s (set_phase a (Working []) s)"
| take_call: "phase_of s b = Idle \<Longrightarrow> mailbox s b = c # cs \<Longrightarrow> sys_step s (set_mail b cs (set_phase b (Working c) s))"
| make_call: "phase_of s a = Working c \<Longrightarrow> a \<noteq> b \<Longrightarrow> \<not> on_chain c b
    \<Longrightarrow> f = \<lparr>caller_instance = a, target_instance = b, target_service = svc\<rparr>
    \<Longrightarrow> sys_step s (set_mail b (mailbox s b @ [c @ [f]]) (set_phase a (Parked c b) s))"
| end_work: "phase_of s b = Working c \<Longrightarrow> sys_step s (set_phase b Idle s)"
| answer: "phase_of s b = Working (c @ [f]) \<Longrightarrow> caller_instance f = a \<Longrightarrow> phase_of s a = Parked c b
    \<Longrightarrow> sys_step s (set_phase a (Working c) (set_phase b Idle s))"
| give_up: "phase_of s a = Parked c b \<Longrightarrow> sys_step s (set_phase a (Working c) s)"

inductive reachable_system :: "system \<Rightarrow> bool" where
  start: "reachable_system initial_system"
| step: "reachable_system s \<Longrightarrow> sys_step s t \<Longrightarrow> reachable_system t"

inductive_cases sys_stepE: "sys_step s t"

text \<open>A chain at an instance: every call was made by the instance the one before reached, none twice.\<close>

definition chain_at :: "string \<Rightarrow> call_frame list \<Rightarrow> bool" where
  "chain_at i c = (distinct (map caller_instance c @ [i]) \<and> map target_instance c = tl (map caller_instance c @ [i]))"




lemma chain_at_Nil [simp]: "chain_at i []"
  by (simp add: chain_at_def)


lemma set_simps [simp]:
  "phase_of (set_phase i p s) = (phase_of s)(i := p)" "mailbox (set_phase i p s) = mailbox s"
  "phase_of (set_mail i m s) = phase_of s" "mailbox (set_mail i m s) = (mailbox s)(i := m)"
  by (simp_all add: set_phase_def set_mail_def)



section \<open>Properties\<close>



text \<open>
  The check sees one chain only.  Two instances that call each other at the same time both pass it: a reachable system has each
  waiting for the other with the calls queued at both, and no step but giving up changes what either does.
\<close>

theorem crossed_calls_wait:
  "\<exists>s. reachable_system s \<and> phase_of s ''a'' = Parked [] ''b'' \<and> phase_of s ''b'' = Parked [] ''a''
     \<and> mailbox s ''a'' \<noteq> [] \<and> mailbox s ''b'' \<noteq> []
     \<and> (\<nexists>t i. sys_step s t \<and> i \<in> {''a'', ''b''} \<and> phase_of t i \<notin> {phase_of s i, Working []})"
proof -
  define fa where "fa = \<lparr>caller_instance = ''a'', target_instance = ''b'', target_service = ''sb''\<rparr>"
  define fb where "fb = \<lparr>caller_instance = ''b'', target_instance = ''a'', target_service = ''sa''\<rparr>"
  define s1 where "s1 = set_phase ''a'' (Working []) initial_system"
  define s2 where "s2 = set_phase ''b'' (Working []) s1"
  define s3 where "s3 = set_mail ''b'' (mailbox s2 ''b'' @ [[] @ [fa]]) (set_phase ''a'' (Parked [] ''b'') s2)"
  define s4 where "s4 = set_mail ''a'' (mailbox s3 ''a'' @ [[] @ [fb]]) (set_phase ''b'' (Parked [] ''a'') s3)"
  note defs = s1_def s2_def s3_def s4_def initial_system_def
  have "reachable_system s1" unfolding s1_def
    by (rule reachable_system.step [OF reachable_system.start own_work]) (simp add: initial_system_def)
  then have "reachable_system s2" unfolding s2_def
    by (rule reachable_system.step [OF _ own_work]) (simp add: s1_def initial_system_def)
  then have "reachable_system s3" unfolding s3_def
    by (rule reachable_system.step [OF _ make_call [OF _ _ _ fa_def]]) (simp_all add: defs on_chain_def)
  then have r: "reachable_system s4" unfolding s4_def
    by (rule reachable_system.step [OF _ make_call [OF _ _ _ fb_def]]) (simp_all add: defs on_chain_def)
  have ph: "phase_of s4 i = (if i = ''a'' then Parked [] ''b'' else if i = ''b'' then Parked [] ''a'' else Idle)" for i
    by (simp add: defs)
  have steps: "phase_of t i \<in> {phase_of s4 i, Working []}" if "sys_step s4 t" "i \<in> {''a'', ''b''}" for t i
    using that(1)
  proof cases
    case (give_up a c b)
    with ph [of a] show ?thesis by (auto split: if_splits)
  qed (use that(2) ph in \<open>auto split: if_splits\<close>)
  have "\<nexists>t i. sys_step s4 t \<and> i \<in> {''a'', ''b''} \<and> phase_of t i \<notin> {phase_of s4 i, Working []}" using steps by blast
  moreover have "mailbox s4 ''a'' \<noteq> []" "mailbox s4 ''b'' \<noteq> []" by (simp_all add: defs)
  moreover have "phase_of s4 ''a'' = Parked [] ''b''" "phase_of s4 ''b'' = Parked [] ''a''" by (simp_all add: ph)
  ultimately show ?thesis using r by blast
qed

section \<open>Witnesses\<close>


end
