(* ===== verification/Session_Admission.thy ===== *)
theory Session_Admission
  imports Prelude
begin

text \<open>
  \<^verbatim>\<open>crates/oxidhome-core/src/api/mcp/session_store.rs\<close>: the cap on MCP sessions.  An admission holds a permit until it is
  dropped, or committed to a session id, which then holds it until the session closes.  The transport's own session
  manager is outside: an operation carries whether its \<^verbatim>\<open>close_session\<close> succeeded.  A run also keeps the number of
  admissions callers hold.
\<close>

record session_manager =
  permits :: nat
  live :: "string list"
  session_cap :: nat

definition new_manager :: "nat \<Rightarrow> session_manager" where
  "new_manager cap = \<lparr>permits = cap, live = [], session_cap = cap\<rparr>"

definition try_admit :: "session_manager \<Rightarrow> (session_manager \<times> bool)" where
  "try_admit m = (if permits m = 0 then (m, False) else (m\<lparr>permits := permits m - 1\<rparr>, True))"

text \<open>\<^verbatim>\<open>permit.forget()\<close> keeps the permit out of the pool.\<close>

definition commit :: "string \<Rightarrow> session_manager \<Rightarrow> session_manager" where
  "commit i m = m\<lparr>live := List.insert i (live m)\<rparr>"

definition drop_admission :: "session_manager \<Rightarrow> session_manager" where
  "drop_admission m = m\<lparr>permits := permits m + 1\<rparr>"

definition close_session :: "bool \<Rightarrow> string \<Rightarrow> session_manager \<Rightarrow> session_manager" where
  "close_session inner_ok i m =
     (if \<not> inner_ok then m
      else if i \<in> set (live m) then m\<lparr>live := removeAll i (live m), permits := permits m + 1\<rparr>
      else m)"

datatype session_op = TryAdmit | Commit string | DropAdmission | Close string bool

type_synonym session_system = "session_manager \<times> nat"

fun session_step :: "session_op \<Rightarrow> session_system \<Rightarrow> session_system" where
  "session_step TryAdmit (m, held) = (case try_admit m of (m', granted) \<Rightarrow> (m', held + of_bool granted))"
| "session_step (Commit i) (m, held) = (if held = 0 then (m, held) else (commit i m, held - 1))"
| "session_step DropAdmission (m, held) = (if held = 0 then (m, held) else (drop_admission m, held - 1))"
| "session_step (Close i ok) (m, held) = (close_session ok i m, held)"

definition session_run :: "nat \<Rightarrow> session_op list \<Rightarrow> session_system" where
  "session_run cap ops = fold session_step ops (new_manager cap, 0)"

text \<open>The slots in use.\<close>

definition slots_used :: "session_system \<Rightarrow> nat" where
  "slots_used s = snd s + length (live (fst s))"

definition session_inv :: "session_system \<Rightarrow> bool" where
  "session_inv s = (distinct (live (fst s)) \<and> permits (fst s) + slots_used s \<le> session_cap (fst s))"

fun committed :: "session_op list \<Rightarrow> string list" where
  "committed [] = []"
| "committed (Commit i # ops) = i # committed ops"
| "committed (_ # ops) = committed ops"

lemma length_removeAll: "distinct xs \<Longrightarrow> x \<in> set xs \<Longrightarrow> Suc (length (removeAll x xs)) = length xs"
  by (simp add: distinct_remove1_removeAll [symmetric] length_remove1) (metis Suc_pred length_pos_if_in_set)

lemma session_step_inv: "session_inv s \<Longrightarrow> session_inv (session_step op s) \<and> session_cap (fst (session_step op s)) = session_cap (fst s)"
proof (cases s; cases op)
  fix m held i ok
  assume "session_inv s" "s = (m, held)" "op = Close i ok"
  then show ?thesis using length_removeAll [of "live m" i]
    by (auto simp: session_inv_def slots_used_def close_session_def distinct_removeAll)
qed (auto simp: session_inv_def slots_used_def try_admit_def commit_def drop_admission_def List.insert_def)

text \<open>While ids are fresh, no slot is lost.\<close>

lemma session_step_exact:
  assumes "session_inv s" and "permits (fst s) + slots_used s = session_cap (fst s)"
    and "\<forall>i. op = Commit i \<longrightarrow> i \<notin> set (live (fst s))"
  shows "permits (fst (session_step op s)) + slots_used (session_step op s) = session_cap (fst (session_step op s))"
proof (cases s; cases op)
  fix m held i ok
  assume "s = (m, held)" "op = Close i ok"
  with assms show ?thesis using length_removeAll [of "live m" i]
    by (auto simp: session_inv_def slots_used_def close_session_def)
qed (use assms in \<open>auto simp: slots_used_def try_admit_def commit_def drop_admission_def List.insert_def\<close>)

lemma live_step: "set (live (fst (session_step op s))) \<subseteq> set (live (fst s)) \<union> set (committed [op])"
  by (cases s; cases op) (auto simp: try_admit_def commit_def drop_admission_def close_session_def)

lemma session_run_inv:
  assumes "session_inv s"
  shows "session_inv (fold session_step ops s) \<and> session_cap (fst (fold session_step ops s)) = session_cap (fst s)
    \<and> (distinct (committed ops) \<and> set (live (fst s)) \<inter> set (committed ops) = {} \<and> permits (fst s) + slots_used s = session_cap (fst s)
        \<longrightarrow> permits (fst (fold session_step ops s)) + slots_used (fold session_step ops s) = session_cap (fst s))"
  using assms
proof (induction ops arbitrary: s)
  case (Cons op ops)
  have com: "committed (op # ops) = committed [op] @ committed ops" by (cases op) simp_all
  note step = session_step_inv [OF Cons.prems, of op]
  have exact: "permits (fst (session_step op s)) + slots_used (session_step op s) = session_cap (fst s)
      \<and> set (live (fst (session_step op s))) \<inter> set (committed ops) = {}"
    if d: "distinct (committed (op # ops))" "set (live (fst s)) \<inter> set (committed (op # ops)) = {}"
      "permits (fst s) + slots_used s = session_cap (fst s)"
  proof -
    have "\<forall>i. op = Commit i \<longrightarrow> i \<notin> set (live (fst s))" using d(2) by auto
    with session_step_exact [OF Cons.prems d(3)] step live_step [of op s] d(1,2) show ?thesis unfolding com by auto
  qed
  from Cons.IH [of "session_step op s"] step exact show ?case unfolding com by auto
qed simp

text \<open>
  Sessions are capped and slots released once.  However admissions, commits, drops and closes, repeated closes and closes of unknown
  ids included, interleave, the sessions alive and the admissions held never exceed the cap; and while session ids
  are not reused no slot is lost: the free permits are exactly the rest of the cap.
\<close>

theorem sessions_capped:
  assumes "session_run cap ops = (m, held)"
  shows "held + length (live m) \<le> cap \<and> (if distinct (committed ops) then permits m = cap - (held + length (live m)) else True)"
proof -
  have "session_inv (new_manager cap, 0)" by (simp add: session_inv_def slots_used_def new_manager_def)
  from session_run_inv [OF this, of ops] assms show ?thesis
    by (auto simp: session_run_def session_inv_def slots_used_def new_manager_def)
qed

theorem sessions_capped_witness:
  "permits (fst (session_run 2 [TryAdmit, TryAdmit, Commit ''a'', Close ''a'' True, Close ''a'' True])) = 1"
  using sessions_capped [of 2 "[TryAdmit, TryAdmit, Commit ''a'', Close ''a'' True, Close ''a'' True]"
      "\<lparr>permits = 1, live = [], session_cap = 2\<rparr>" 1]
  by (simp add: session_run_def new_manager_def try_admit_def commit_def close_session_def)

end
