(* ===== verification/Kv_Store.thy ===== *)
theory Kv_Store
  imports Maps
begin

text \<open>
  \<^verbatim>\<open>crates/oxidhome-core/src/state/kv.rs\<close>: the key-value store of the plugin instances and its quota accounting, with the
  triggers of \<^verbatim>\<open>state/db.rs\<close> (migration 14) that keep the usage table.  A row is owned by an installation and an
  instance.  A call takes whether the database serves it; a transaction that fails changes nothing.  The JSON
  encoding of a value is \<^verbatim>\<open>serde_json\<close>'s: the parameters \<open>enc\<close> and \<open>dec\<close>.
\<close>

section \<open>Tables\<close>

type_synonym owner = "string \<times> string"

record kv_db =
  kv :: "(owner \<times> string, string) hmap"
  kv_usage :: "(owner, int \<times> int) hmap"

datatype kv_error =
    UnregisteredInstance string string
  | QuotaExceeded string string nat nat
  | Encode string
  | Sql

text \<open>The triggers \<^verbatim>\<open>kv_usage_insert\<close>, \<^verbatim>\<open>kv_usage_update\<close> and \<^verbatim>\<open>kv_usage_delete\<close> update the owner's row, if there is one.\<close>

definition add_usage :: "owner \<Rightarrow> int \<Rightarrow> (owner, int \<times> int) hmap \<Rightarrow> (owner, int \<times> int) hmap" where
  "add_usage ow d u =
     (case map_of u ow of
        Some (used, quota) \<Rightarrow> AList.update ow (used + d, quota) u
      | None \<Rightarrow> u)"

definition entry_bytes :: "string \<Rightarrow> string \<Rightarrow> int" where
  "entry_bytes k v = int (length k) + int (length v)"

definition upsert_row :: "owner \<Rightarrow> string \<Rightarrow> string \<Rightarrow> kv_db \<Rightarrow> kv_db" where
  "upsert_row ow k v db =
     (case map_of (kv db) (ow, k) of
        None \<Rightarrow> db\<lparr>kv := AList.update (ow, k) v (kv db), kv_usage := add_usage ow (entry_bytes k v) (kv_usage db)\<rparr>
      | Some old \<Rightarrow>
          db\<lparr>kv := AList.update (ow, k) v (kv db),
             kv_usage := add_usage ow (int (length v) - int (length old)) (kv_usage db)\<rparr>)"

definition delete_row :: "owner \<Rightarrow> string \<Rightarrow> kv_db \<Rightarrow> kv_db" where
  "delete_row ow k db =
     (case map_of (kv db) (ow, k) of
        None \<Rightarrow> db
      | Some old \<Rightarrow> db\<lparr>kv := AList.delete (ow, k) (kv db), kv_usage := add_usage ow (- entry_bytes k old) (kv_usage db)\<rparr>)"

section \<open>Operations\<close>

definition register_quota :: "bool \<Rightarrow> owner \<Rightarrow> nat \<Rightarrow> kv_db \<Rightarrow> kv_db \<times> (kv_error + unit)" where
  "register_quota io ow quota_bytes db =
     (if \<not> io then (db, Err Sql)
      else
        (let q = min (int quota_bytes) i64_top;
             used = (case map_of (kv_usage db) ow of Some (used, _) \<Rightarrow> used | None \<Rightarrow> 0) in
         (db\<lparr>kv_usage := AList.update ow (used, q) (kv_usage db)\<rparr>, Ok ())))"

definition kv_get :: "(string \<Rightarrow> 'v option) \<Rightarrow> bool \<Rightarrow> owner \<Rightarrow> string \<Rightarrow> kv_db \<Rightarrow> kv_error + 'v option" where
  "kv_get dec io ow k db =
     (if \<not> io then Err Sql
      else
        (case map_of (kv db) (ow, k) of
           None \<Rightarrow> Ok None
         | Some bytes \<Rightarrow> (case dec bytes of Some v \<Rightarrow> Ok (Some v) | None \<Rightarrow> Err (Encode k))))"

definition to_u64 :: "int \<Rightarrow> nat \<Rightarrow> nat" where
  "to_u64 i other = (if 0 \<le> i then nat i else other)"

definition kv_set :: "('v \<Rightarrow> string option) \<Rightarrow> bool \<Rightarrow> owner \<Rightarrow> string \<Rightarrow> 'v \<Rightarrow> kv_db \<Rightarrow> kv_db \<times> (kv_error + unit)" where
  "kv_set enc io ow k v db =
     (case enc v of
        None \<Rightarrow> (db, Err (Encode k))
      | Some payload \<Rightarrow>
          if \<not> io then (db, Err Sql)
          else
            (case map_of (kv_usage db) ow of
               None \<Rightarrow> (db, Err (UnregisteredInstance (fst ow) (snd ow)))
             | Some (used, quota) \<Rightarrow>
                 (let old_size = (case map_of (kv db) (ow, k) of Some old \<Rightarrow> entry_bytes k old | None \<Rightarrow> 0);
                      projected = used - old_size + entry_bytes k payload in
                  if projected > quota
                  then (db, Err (QuotaExceeded (fst ow) (snd ow) (to_u64 projected u64_top) (to_u64 quota 0)))
                  else (upsert_row ow k payload db, Ok ()))))"

definition kv_delete :: "bool \<Rightarrow> owner \<Rightarrow> string \<Rightarrow> kv_db \<Rightarrow> kv_db \<times> (kv_error + unit)" where
  "kv_delete io ow k db = (if \<not> io then (db, Err Sql) else (delete_row ow k db, Ok ()))"

text \<open>
  \<^verbatim>\<open>substr(key, 1, length(?)) = ?\<close>: \<^verbatim>\<open>length\<close> and \<^verbatim>\<open>substr\<close> stop at a NUL, so a prefix with one has no match.
\<close>

definition list_keys :: "bool \<Rightarrow> owner \<Rightarrow> string \<Rightarrow> kv_db \<Rightarrow> kv_error + string list" where
  "list_keys io ow prefix db =
     (if \<not> io then Err Sql
      else Ok (sort (map (snd \<circ> fst) (filter (\<lambda>((ow', k), v). ow' = ow \<and> CHR 0x00 \<notin> set prefix \<and> starts_with prefix k) (kv db)))))"

definition usage_of :: "bool \<Rightarrow> owner \<Rightarrow> kv_db \<Rightarrow> kv_error + (nat \<times> nat) option" where
  "usage_of io ow db =
     (if \<not> io then Err Sql else Ok (map_option (\<lambda>(used, quota). (to_u64 used 0, to_u64 quota 0)) (map_of (kv_usage db) ow)))"

definition purge_installation :: "bool \<Rightarrow> string \<Rightarrow> kv_db \<Rightarrow> kv_db \<times> (kv_error + nat)" where
  "purge_installation io uuid db =
     (if \<not> io then (db, Err Sql)
      else
        (let usage' = hm_retain (\<lambda>ow _. fst ow \<noteq> uuid) (kv_usage db);
             kv' = hm_retain (\<lambda>(ow, k) _. fst ow \<noteq> uuid) (kv db) in
         (\<lparr>kv = kv', kv_usage = usage'\<rparr>,
          Ok ((length (kv_usage db) - length usage') + (length (kv db) - length kv')))))"

datatype 'v kv_op =
    RegisterQuota bool owner nat
  | SetKey bool owner string 'v
  | DeleteKey bool owner string
  | Purge bool string

fun kv_step :: "('v \<Rightarrow> string option) \<Rightarrow> 'v kv_op \<Rightarrow> kv_db \<Rightarrow> kv_db" where
  "kv_step enc (RegisterQuota io ow q) db = fst (register_quota io ow q db)"
| "kv_step enc (SetKey io ow k v) db = fst (kv_set enc io ow k v db)"
| "kv_step enc (DeleteKey io ow k) db = fst (kv_delete io ow k db)"
| "kv_step enc (Purge io uuid) db = fst (purge_installation io uuid db)"

definition kv_run :: "('v \<Rightarrow> string option) \<Rightarrow> 'v kv_op list \<Rightarrow> kv_db" where
  "kv_run enc ops = fold (kv_step enc) ops \<lparr>kv = [], kv_usage = []\<rparr>"

section \<open>The accounting invariant\<close>

text \<open>What an owner really stores.\<close>

definition row_weight :: "owner \<Rightarrow> owner \<times> string \<Rightarrow> string \<Rightarrow> int" where
  "row_weight ow key v = (if fst key = ow then entry_bytes (snd key) v else 0)"

definition stored_bytes :: "kv_db \<Rightarrow> owner \<Rightarrow> int" where
  "stored_bytes db ow = entry_sum (row_weight ow) (kv db)"

definition accounted :: "kv_db \<Rightarrow> owner \<Rightarrow> bool" where
  "accounted db ow =
     (case map_of (kv_usage db) ow of
        Some (used, quota) \<Rightarrow> used = stored_bytes db ow
      | None \<Rightarrow> \<forall>k. map_of (kv db) (ow, k) = None)"

definition kv_inv :: "kv_db \<Rightarrow> bool" where
  "kv_inv db = (hm_wf (kv db) \<and> hm_wf (kv_usage db) \<and> All (accounted db))"

lemma kv_inv_accounted: "kv_inv db \<Longrightarrow> accounted db ow"
  unfolding kv_inv_def by blast

lemma kv_invI: "hm_wf (kv db) \<Longrightarrow> hm_wf (kv_usage db) \<Longrightarrow> (\<And>ow. accounted db ow) \<Longrightarrow> kv_inv db"
  unfolding kv_inv_def by blast

lemma add_usage_wf [simp]: "hm_wf u \<Longrightarrow> hm_wf (add_usage ow d u)"
  by (auto simp: add_usage_def hm_wf_put split: option.splits)

lemma add_usage_find:
  "hm_wf u \<Longrightarrow> map_of (add_usage ow d u) ow' =
     (if ow' = ow then map_option (\<lambda>(used, q). (used + d, q)) (map_of u ow) else map_of u ow')"
  by (auto simp: add_usage_def hm.find_put split: option.splits)

lemma stored_no_rows: "hm_wf (kv db) \<Longrightarrow> \<forall>k. map_of (kv db) (ow, k) = None \<Longrightarrow> stored_bytes db ow = 0"
  unfolding stored_bytes_def
  by (rule entry_sum_zero) (auto simp: row_weight_def hm_entry_iff)

lemma upsert_inv:
  assumes inv: "kv_inv db" and reg: "map_of (kv_usage db) ow \<noteq> None"
  shows "kv_inv (upsert_row ow k v db)"
    and "stored_bytes (upsert_row ow k v db) ow =
      stored_bytes db ow - (case map_of (kv db) (ow, k) of Some old \<Rightarrow> entry_bytes k old | None \<Rightarrow> 0) + entry_bytes k v"
    and "map_of (kv (upsert_row ow k v db)) = (map_of (kv db))((ow, k) \<mapsto> v)"
proof -
  have wf: "hm_wf (kv db)" "hm_wf (kv_usage db)" using inv by (simp_all add: kv_inv_def)
  show find: "map_of (kv (upsert_row ow k v db)) = (map_of (kv db))((ow, k) \<mapsto> v)"
    using wf by (simp add: upsert_row_def hm.find_put split: option.split)
  have sum: "stored_bytes (upsert_row ow k v db) ow' =
      stored_bytes db ow' + (if ow' = ow then entry_bytes k v - (case map_of (kv db) (ow, k) of Some old \<Rightarrow> entry_bytes k old | None \<Rightarrow> 0) else 0)" for ow'
    using wf by (auto simp: stored_bytes_def upsert_row_def entry_sum_put row_weight_def split: option.splits)
  then show "stored_bytes (upsert_row ow k v db) ow =
      stored_bytes db ow - (case map_of (kv db) (ow, k) of Some old \<Rightarrow> entry_bytes k old | None \<Rightarrow> 0) + entry_bytes k v" by simp
  have usage: "map_of (kv_usage (upsert_row ow k v db)) ow' =
      (if ow' = ow then map_option (\<lambda>(used, q). (used + (stored_bytes (upsert_row ow k v db) ow - stored_bytes db ow), q)) (map_of (kv_usage db) ow)
       else map_of (kv_usage db) ow')" for ow'
    unfolding sum using wf by (auto simp: upsert_row_def add_usage_find entry_bytes_def split: option.splits)
  have "accounted (upsert_row ow k v db) ow'" for ow'
  proof (cases "ow' = ow")
    case True
    obtain used q where "map_of (kv_usage db) ow = Some (used, q)" using reg by auto
    moreover from this have "used = stored_bytes db ow" using kv_inv_accounted [OF inv, of ow] by (simp add: accounted_def)
    ultimately show ?thesis using True by (simp add: usage accounted_def)
  next
    case False
    with kv_inv_accounted [OF inv, of ow'] show ?thesis
      unfolding accounted_def usage find sum by (auto split: option.splits)
  qed
  moreover have "hm_wf (kv (upsert_row ow k v db))" "hm_wf (kv_usage (upsert_row ow k v db))"
    using wf by (simp_all add: upsert_row_def hm_wf_put split: option.split)
  ultimately show "kv_inv (upsert_row ow k v db)" by (intro kv_invI)
qed

lemma delete_inv:
  assumes inv: "kv_inv db"
  shows "kv_inv (delete_row ow k db)"
proof (cases "map_of (kv db) (ow, k)")
  case None
  with inv show ?thesis by (simp add: delete_row_def)
next
  case (Some old)
  have wf: "hm_wf (kv db)" "hm_wf (kv_usage db)" using inv by (simp_all add: kv_inv_def)
  have sum: "stored_bytes (delete_row ow k db) ow' = stored_bytes db ow' - (if ow' = ow then entry_bytes k old else 0)" for ow'
    using wf Some by (simp add: stored_bytes_def delete_row_def entry_sum_drop row_weight_def)
  have "accounted (delete_row ow k db) ow'" for ow'
    using kv_inv_accounted [OF inv, of ow'] wf Some unfolding accounted_def sum
    by (cases "map_of (kv_usage db) ow'") (auto simp: delete_row_def add_usage_find hm.find_drop)
  moreover have "hm_wf (kv (delete_row ow k db))" "hm_wf (kv_usage (delete_row ow k db))"
    using wf Some by (simp_all add: delete_row_def hm_wf_drop)
  ultimately show ?thesis by (intro kv_invI)
qed

lemma register_quota_inv:
  assumes inv: "kv_inv db"
  shows "kv_inv (fst (register_quota io ow q db))"
proof (cases io)
  case True
  let ?db = "fst (register_quota io ow q db)"
  have wf: "hm_wf (kv db)" "hm_wf (kv_usage db)" using inv by (simp_all add: kv_inv_def)
  have same: "kv ?db = kv db" "stored_bytes ?db = stored_bytes db"
    by (simp_all add: register_quota_def Let_def stored_bytes_def fun_eq_iff)
  have "accounted ?db ow'" for ow'
  proof (cases "ow' = ow \<and> map_of (kv_usage db) ow = None")
    case True
    then have "stored_bytes db ow = 0" using kv_inv_accounted [OF inv, of ow] stored_no_rows [OF wf(1), of ow] by (simp add: accounted_def)
    with True \<open>io\<close> wf show ?thesis unfolding accounted_def same by (simp add: register_quota_def Let_def hm.find_put)
  next
    case False
    with kv_inv_accounted [OF inv, of ow'] \<open>io\<close> wf show ?thesis unfolding accounted_def same
      by (auto simp: register_quota_def Let_def hm.find_put split: option.splits)
  qed
  moreover have "hm_wf (kv ?db)" "hm_wf (kv_usage ?db)"
    using wf \<open>io\<close> by (simp_all add: register_quota_def Let_def hm_wf_put)
  ultimately show ?thesis by (intro kv_invI)
qed (use inv in \<open>simp add: register_quota_def\<close>)

lemma purge_inv:
  assumes inv: "kv_inv db"
  shows "kv_inv (fst (purge_installation io uuid db))"
proof (cases io)
  case True
  let ?db = "fst (purge_installation io uuid db)"
  have wf: "hm_wf (kv db)" "hm_wf (kv_usage db)" using inv by (simp_all add: kv_inv_def)
  have sum: "stored_bytes ?db ow = stored_bytes db ow" if "fst ow \<noteq> uuid" for ow
    using True that by (auto simp: purge_installation_def Let_def stored_bytes_def row_weight_def intro!: entry_sum_retain split: if_splits)
  have "accounted ?db ow" for ow
  proof (cases "fst ow = uuid")
    case same: True
    with True wf show ?thesis
      by (auto simp: accounted_def purge_installation_def Let_def map_of_retain split: option.splits)
  next
    case False
    with True wf kv_inv_accounted [OF inv, of ow] sum [OF False] show ?thesis
      by (auto simp: accounted_def purge_installation_def Let_def map_of_retain split: option.splits)
  qed
  moreover have "hm_wf (kv ?db)" "hm_wf (kv_usage ?db)"
    using wf True by (simp_all add: purge_installation_def Let_def hm_wf_retain)
  ultimately show ?thesis by (intro kv_invI)
qed (use inv in \<open>simp add: purge_installation_def\<close>)

lemma kv_step_inv: "kv_inv db \<Longrightarrow> kv_inv (kv_step enc op db)"
proof (cases op)
  case (SetKey io ow k v)
  assume "kv_inv db"
  with SetKey upsert_inv(1) [of db ow k] show ?thesis by (auto simp: kv_set_def Let_def split: option.splits)
qed (auto simp: register_quota_inv purge_inv kv_delete_def delete_inv)

lemma kv_run_inv: "kv_inv (kv_run enc ops)"
proof -
  have "kv_inv db \<Longrightarrow> kv_inv (fold (kv_step enc) ops db)" for db
    by (induction ops arbitrary: db) (simp_all add: kv_step_inv)
  moreover have "kv_inv \<lparr>kv = [], kv_usage = []\<rparr>" by (rule kv_invI) (simp_all add: accounted_def)
  ultimately show ?thesis by (simp add: kv_run_def)
qed

section \<open>Properties\<close>

text \<open>
  Claim C8: the quota is exact.  In every reachable store the usage recorded for an owner is what its rows take, keys and values, and an owner
  without a usage record has no rows.  So a write succeeds exactly when the database serves it, the value encodes, the
  owner is registered, and what the owner would then store is within its quota; it stores that value, and nothing else changes.
\<close>

theorem kv_quota_exact:
  assumes "db = kv_run enc ops"
  shows "accounted db ow
    \<and> (is_ok (snd (kv_set enc io ow k v db)) \<longleftrightarrow>
        io \<and> (\<exists>payload used quota. enc v = Some payload \<and> map_of (kv_usage db) ow = Some (used, quota)
          \<and> stored_bytes (upsert_row ow k payload db) ow \<le> quota))
    \<and> map_of (kv (fst (kv_set enc io ow k v db))) =
        (if is_ok (snd (kv_set enc io ow k v db)) then (map_of (kv db))((ow, k) := enc v) else map_of (kv db))"
proof -
  have inv: "kv_inv db" unfolding assms by (rule kv_run_inv)
  have acc: "accounted db ow" by (rule kv_inv_accounted [OF inv])
  show ?thesis
  proof (cases "io \<and> enc v \<noteq> None \<and> map_of (kv_usage db) ow \<noteq> None")
    case False
    with acc show ?thesis by (auto simp: kv_set_def split: option.splits)
  next
    case True
    then obtain payload used quota where p: "enc v = Some payload" "map_of (kv_usage db) ow = Some (used, quota)" "io" by auto
    have used: "used = stored_bytes db ow" using acc p(2) by (simp add: accounted_def)
    note up = upsert_inv [OF inv, of ow k payload]
    have "kv_set enc io ow k v db = (if stored_bytes (upsert_row ow k payload db) ow > quota
        then (db, Err (QuotaExceeded (fst ow) (snd ow) (to_u64 (stored_bytes (upsert_row ow k payload db) ow) u64_top) (to_u64 quota 0)))
        else (upsert_row ow k payload db, Ok ()))"
      using p up(2) by (simp add: kv_set_def Let_def used)
    with acc p up(3) show ?thesis by simp
  qed
qed

theorem kv_quota_exact_witness:
  "is_ok (snd (kv_set Some True (''u'', ''i'') ''k'' ''abc'' (kv_run Some [RegisterQuota True (''u'', ''i'') 4])))
   \<and> \<not> is_ok (snd (kv_set Some True (''u'', ''i'') ''k'' ''abcd'' (kv_run Some [RegisterQuota True (''u'', ''i'') 4])))"
  using kv_quota_exact [OF refl, where ow = "(''u'', ''i'')" and io = True and k = "''k''" and v = "''abc''" and enc = Some
      and ops = "[RegisterQuota True (''u'', ''i'') 4]"]
    kv_quota_exact [OF refl, where ow = "(''u'', ''i'')" and io = True and k = "''k''" and v = "''abcd''" and enc = Some
      and ops = "[RegisterQuota True (''u'', ''i'') 4]"]
  by (simp add: kv_run_def register_quota_def i64_top_def upsert_row_def stored_bytes_def entry_sum_def row_weight_def entry_bytes_def)

end
