(* ===== verification/Slot_Fields.thy ===== *)
theory Slot_Fields
  imports Maps F64
begin

text \<open>
  The field lists of the device-state projection (\<^verbatim>\<open>crates/oxidhome-core/src/state/device_state.rs\<close>): merging, the
  canonical form, and the size an update would have, measured without building it.  The types of values and fields
  are those of \<^verbatim>\<open>wit/oxidhome.wit\<close>; \<^verbatim>\<open>usize\<close> has 64 bits.
\<close>

section \<open>Values and fields\<close>

datatype wit_value =
    BoolVal bool
  | IntVal int
  | FloatVal f64
  | StringVal string
  | BytesVal "8 word list"
  | JsonVal string

record key_value =
  kv_key :: string
  kv_val :: wit_value

definition max_fields_per_slot :: nat where
  "max_fields_per_slot = 64"

definition max_bytes_per_slot :: nat where
  "max_bytes_per_slot = 16 * 1024"

fun value_byte_estimate :: "wit_value \<Rightarrow> nat" where
  "value_byte_estimate (BoolVal b) = 1"
| "value_byte_estimate (IntVal i) = 8"
| "value_byte_estimate (FloatVal f) = 8"
| "value_byte_estimate (StringVal s) = length s"
| "value_byte_estimate (JsonVal s) = length s"
| "value_byte_estimate (BytesVal b) = length b"

definition key_value_byte_estimate :: "key_value \<Rightarrow> nat" where
  "key_value_byte_estimate kv = length (kv_key kv) + value_byte_estimate (kv_val kv)"

definition fields_byte_estimate :: "key_value list \<Rightarrow> nat" where
  "fields_byte_estimate fs = sum_list (map key_value_byte_estimate fs)"

section \<open>Merging\<close>

text \<open>\<^verbatim>\<open>iter_mut().find(..)\<close>: the first field with the key gets the new value.\<close>

fun set_field :: "key_value \<Rightarrow> key_value list \<Rightarrow> key_value list option" where
  "set_field u [] = None"
| "set_field u (kv # kvs) =
     (if kv_key kv = kv_key u then Some (kv\<lparr>kv_val := kv_val u\<rparr> # kvs) else map_option ((#) kv) (set_field u kvs))"

definition merge_one :: "key_value \<Rightarrow> key_value list \<times> nat \<Rightarrow> key_value list \<times> nat" where
  "merge_one u = (\<lambda>(out, dropped_fields).
     (case set_field u out of
        Some out' \<Rightarrow> (out', dropped_fields)
      | None \<Rightarrow> if length out < max_fields_per_slot then (out @ [u], dropped_fields) else (out, dropped_fields + 1)))"

definition merge_fields :: "key_value list \<Rightarrow> key_value list \<Rightarrow> key_value list \<times> nat" where
  "merge_fields prev updates = fold merge_one updates (prev, 0)"

definition put_field :: "key_value \<Rightarrow> key_value list \<Rightarrow> key_value list" where
  "put_field u out = (case set_field u out of Some out' \<Rightarrow> out' | None \<Rightarrow> out @ [u])"

definition merge_fields_unbounded :: "key_value list \<Rightarrow> key_value list \<Rightarrow> key_value list" where
  "merge_fields_unbounded prev updates = fold put_field updates prev"

section \<open>The canonical form\<close>

text \<open>\<open>idx\<close> is the index map from keys to positions in \<open>out\<close>.\<close>

fun canonical_loop :: "key_value list \<Rightarrow> (string, nat) hmap \<Rightarrow> key_value list \<Rightarrow> key_value list" where
  "canonical_loop [] idx out = out"
| "canonical_loop (u # us) idx out =
     (case map_of idx (kv_key u) of
        Some i \<Rightarrow> canonical_loop us idx (out[i := (out ! i)\<lparr>kv_val := kv_val u\<rparr>])
      | None \<Rightarrow> canonical_loop us (AList.update (kv_key u) (length out) idx) (out @ [u]))"

definition canonicalize_owned :: "key_value list \<Rightarrow> key_value list" where
  "canonicalize_owned fs = canonical_loop fs [] []"

section \<open>Caps\<close>

datatype slot_cap_exceeded =
    SlotCap (projected_fields: nat) (projected_bytes: nat)
  | InstanceCap (projected_instance_bytes: nat)

definition saturating_add :: "nat \<Rightarrow> nat \<Rightarrow> nat" where
  "saturating_add a b = min (a + b) u64_top"

text \<open>The map of the sizes seen so far, and their sum; subtraction of naturals is \<^verbatim>\<open>saturating_sub\<close>.\<close>

fun size_loop :: "key_value list \<Rightarrow> (string, nat) hmap \<Rightarrow> nat \<Rightarrow> slot_cap_exceeded + nat \<times> nat" where
  "size_loop [] seen running =
     (if running > max_bytes_per_slot then Err (SlotCap (length seen) running) else Ok (length seen, running))"
| "size_loop (kv # kvs) seen running =
     (let bytes = key_value_byte_estimate kv;
          prev = (case map_of seen (kv_key kv) of Some p \<Rightarrow> p | None \<Rightarrow> 0);
          seen' = AList.update (kv_key kv) bytes seen;
          running' = saturating_add (running - prev) bytes
      in if length seen' > max_fields_per_slot then Err (SlotCap (length seen') running') else size_loop kvs seen' running')"

definition projected_slot_size :: "key_value list \<Rightarrow> key_value list \<Rightarrow> slot_cap_exceeded + nat \<times> nat" where
  "projected_slot_size baseline incoming = size_loop (baseline @ incoming) [] 0"

fun take_bytes :: "nat \<Rightarrow> key_value list \<Rightarrow> key_value list" where
  "take_bytes running [] = []"
| "take_bytes running (kv # kvs) =
     (let n = key_value_byte_estimate kv in
      if saturating_add running n > max_bytes_per_slot then [] else kv # take_bytes (running + n) kvs)"

definition truncate_to_byte_cap :: "key_value list \<Rightarrow> key_value list" where
  "truncate_to_byte_cap fs = (if fields_byte_estimate fs \<le> max_bytes_per_slot then fs else take_bytes 0 fs)"

section \<open>Lemmas\<close>

definition keys_distinct :: "key_value list \<Rightarrow> bool" where
  "keys_distinct fs = distinct (map kv_key fs)"

definition field_sizes :: "key_value list \<Rightarrow> (string, nat) hmap" where
  "field_sizes fs = map (\<lambda>kv. (kv_key kv, key_value_byte_estimate kv)) fs"

lemma keys_distinct_Nil [simp]: "keys_distinct []"
  by (simp add: keys_distinct_def)

lemma field_sizes_Nil [simp]: "field_sizes [] = []"
  by (simp add: field_sizes_def)

lemma length_field_sizes [simp]: "length (field_sizes fs) = length fs"
  by (simp add: field_sizes_def)

lemma bytes_Nil [simp]: "fields_byte_estimate [] = 0"
  and bytes_Cons [simp]: "fields_byte_estimate (f # fs) = key_value_byte_estimate f + fields_byte_estimate fs"
  and bytes_append [simp]: "fields_byte_estimate (fs @ gs) = fields_byte_estimate fs + fields_byte_estimate gs"
  by (simp_all add: fields_byte_estimate_def)

lemma set_field_None: "set_field u fs = None \<longleftrightarrow> kv_key u \<notin> kv_key ` set fs"
  by (induction fs) auto

lemma set_field_keys: "set_field u fs = Some fs' \<Longrightarrow> map kv_key fs' = map kv_key fs"
  by (induction fs arbitrary: fs') (auto split: if_splits)

lemma set_field_length: "set_field u fs = Some fs' \<Longrightarrow> length fs' = length fs"
  using set_field_keys [of u fs fs'] by (metis length_map)

lemma put_field_keys: "map kv_key (put_field u fs) = (if kv_key u \<in> kv_key ` set fs then map kv_key fs else map kv_key fs @ [kv_key u])"
  by (auto simp: put_field_def set_field_keys set_field_None [symmetric] split: option.split)

lemma put_field_distinct: "keys_distinct fs \<Longrightarrow> keys_distinct (put_field u fs)"
  by (auto simp: keys_distinct_def put_field_keys)

lemma put_field_sizes: "field_sizes (put_field u fs) = AList.update (kv_key u) (key_value_byte_estimate u) (field_sizes fs)"
proof (induction fs)
  case (Cons f fs)
  then show ?case
    by (auto simp: put_field_def field_sizes_def key_value_byte_estimate_def split: option.splits)
qed (simp add: put_field_def field_sizes_def)

lemma put_field_bytes:
  "fields_byte_estimate (put_field u fs) + (case map_of (field_sizes fs) (kv_key u) of Some p \<Rightarrow> p | None \<Rightarrow> 0)
     = fields_byte_estimate fs + key_value_byte_estimate u"
proof (induction fs)
  case (Cons f fs)
  then show ?case
    by (auto simp: put_field_def field_sizes_def key_value_byte_estimate_def split: option.splits)
qed (simp add: put_field_def)

lemma merge_unbounded_Nil [simp]: "merge_fields_unbounded prev [] = prev"
  and merge_unbounded_Cons: "merge_fields_unbounded prev (u # us) = merge_fields_unbounded (put_field u prev) us"
  and merge_unbounded_append: "merge_fields_unbounded prev (us @ vs) = merge_fields_unbounded (merge_fields_unbounded prev us) vs"
  by (simp_all add: merge_fields_unbounded_def)

lemma merge_unbounded_distinct: "keys_distinct fs \<Longrightarrow> keys_distinct (merge_fields_unbounded fs us)"
  by (induction us arbitrary: fs) (simp_all add: merge_unbounded_Cons put_field_distinct)

lemma length_put_field: "length fs \<le> length (put_field u fs)"
  using arg_cong [OF put_field_keys [of u fs], of length] by (simp split: if_splits)

lemma length_merge_unbounded: "length fs \<le> length (merge_fields_unbounded fs us)"
proof (induction us arbitrary: fs)
  case (Cons u us)
  show ?case using length_put_field [of fs u] Cons.IH [of "put_field u fs"] by (simp add: merge_unbounded_Cons)
qed simp

text \<open>Distinct fields merged into nothing are those fields.\<close>

lemma merge_into_Nil: "keys_distinct (fs @ gs) \<Longrightarrow> merge_fields_unbounded fs gs = fs @ gs"
proof (induction gs arbitrary: fs)
  case (Cons g gs)
  then have "put_field g fs = fs @ [g]"
    by (auto simp: put_field_def keys_distinct_def set_field_None split: option.split dest!: set_field_None [THEN iffD2])
  with Cons show ?case by (simp add: merge_unbounded_Cons)
qed simp

text \<open>The bounded merge is the unbounded one where that fits.\<close>

lemma merge_fields_fits:
  "length (merge_fields_unbounded fs us) \<le> max_fields_per_slot \<Longrightarrow> fold merge_one us (fs, d) = (merge_fields_unbounded fs us, d)"
proof (induction us arbitrary: fs)
  case (Cons u us)
  have "merge_one u (fs, d) = (put_field u fs, d)"
  proof (cases "set_field u fs")
    case None
    then have "length (put_field u fs) = Suc (length fs)" by (simp add: put_field_def)
    with Cons.prems length_merge_unbounded [of "put_field u fs" us] have "length fs < max_fields_per_slot"
      by (simp add: merge_unbounded_Cons)
    with None show ?thesis by (simp add: merge_one_def put_field_def)
  qed (simp add: merge_one_def put_field_def)
  with Cons show ?case by (simp add: merge_unbounded_Cons)
qed simp

lemma merge_one_keys: "keys_distinct fs \<Longrightarrow> length fs \<le> max_fields_per_slot
  \<Longrightarrow> keys_distinct (fst (merge_one u (fs, d))) \<and> length (fst (merge_one u (fs, d))) \<le> max_fields_per_slot"
  by (auto simp: merge_one_def keys_distinct_def set_field_None dest: set_field_keys set_field_length split: option.split)

lemma merge_fields_slot:
  assumes "keys_distinct fs" and "length fs \<le> max_fields_per_slot"
  shows "keys_distinct (fst (merge_fields fs us)) \<and> length (fst (merge_fields fs us)) \<le> max_fields_per_slot"
proof -
  have "keys_distinct (fst p) \<and> length (fst p) \<le> max_fields_per_slot \<Longrightarrow>
      keys_distinct (fst (fold merge_one us p)) \<and> length (fst (fold merge_one us p)) \<le> max_fields_per_slot" for p
    by (induction us arbitrary: p) (use merge_one_keys in fastforce)+
  then show ?thesis using assms by (simp add: merge_fields_def)
qed

lemma take_bytes_prefix: "\<exists>n. take_bytes r fs = take n fs"
proof (induction fs arbitrary: r)
  case (Cons f fs)
  from Cons.IH [of "r + key_value_byte_estimate f"] obtain n where "take_bytes (r + key_value_byte_estimate f) fs = take n fs" by blast
  then have "take_bytes r (f # fs) = take (if saturating_add r (key_value_byte_estimate f) > max_bytes_per_slot then 0 else Suc n) (f # fs)"
    by (simp add: Let_def)
  then show ?case by blast
qed simp

lemma max_bytes_small: "max_bytes_per_slot < u64_top"
  by (simp add: max_bytes_per_slot_def u64_top_def)

lemma saturating_add_le: "saturating_add a b \<le> max_bytes_per_slot \<Longrightarrow> a + b \<le> max_bytes_per_slot"
  using max_bytes_small by (auto simp: saturating_add_def min_def split: if_splits)

lemma take_bytes_bounded: "r \<le> max_bytes_per_slot \<Longrightarrow> r + fields_byte_estimate (take_bytes r fs) \<le> max_bytes_per_slot"
proof (induction fs arbitrary: r)
  case (Cons f fs)
  show ?case
  proof (cases "saturating_add r (key_value_byte_estimate f) > max_bytes_per_slot")
    case False
    then have "r + key_value_byte_estimate f \<le> max_bytes_per_slot" using saturating_add_le [of r "key_value_byte_estimate f"] by simp
    with Cons.IH [OF this] False show ?thesis by (simp add: Let_def)
  qed (use Cons.prems in simp)
qed simp

lemma truncate_prefix: "\<exists>n. truncate_to_byte_cap fs = take n fs"
  using take_bytes_prefix [of 0 fs] unfolding truncate_to_byte_cap_def by (metis take_all order_refl)

lemma truncate_bounded: "fields_byte_estimate (truncate_to_byte_cap fs) \<le> max_bytes_per_slot"
  using take_bytes_bounded [of 0 fs] by (simp add: truncate_to_byte_cap_def)

lemma truncate_slot:
  "keys_distinct fs \<Longrightarrow> length fs \<le> max_fields_per_slot
     \<Longrightarrow> keys_distinct (truncate_to_byte_cap fs) \<and> length (truncate_to_byte_cap fs) \<le> max_fields_per_slot"
  using truncate_prefix [of fs] by (auto simp: keys_distinct_def take_map [symmetric])

section \<open>The canonical form is the merge\<close>

definition index_of :: "(string, nat) hmap \<Rightarrow> key_value list \<Rightarrow> bool" where
  "index_of idx out = (\<forall>k i. map_of idx k = Some i \<longleftrightarrow> i < length out \<and> kv_key (out ! i) = k)"

lemma set_field_nth:
  assumes "keys_distinct out" and "i < length out" and "kv_key (out ! i) = kv_key u"
  shows "set_field u out = Some (out[i := (out ! i)\<lparr>kv_val := kv_val u\<rparr>])"
  using assms
proof (induction out arbitrary: i)
  case (Cons f out)
  show ?case
  proof (cases i)
    case (Suc j)
    with Cons.prems have "kv_key f \<noteq> kv_key u" by (metis keys_distinct_def distinct.simps(2) list.simps(9) nth_Cons_Suc nth_map nth_mem length_Cons length_map Suc_less_eq)
    with Suc Cons show ?thesis by (simp add: keys_distinct_def)
  qed (use Cons.prems in simp)
qed simp

lemma canonical_loop_merge:
  "keys_distinct out \<Longrightarrow> index_of idx out \<Longrightarrow> canonical_loop us idx out = merge_fields_unbounded out us"
proof (induction us arbitrary: idx out)
  case (Cons u us)
  show ?case
  proof (cases "map_of idx (kv_key u)")
    case None
    have "kv_key (out ! i) \<noteq> kv_key u" if "i < length out" for i
    proof -
      have "map_of idx (kv_key (out ! i)) = Some i" using Cons.prems(2) that unfolding index_of_def by blast
      with None show ?thesis by auto
    qed
    then have new: "set_field u out = None" unfolding set_field_None by (metis imageE in_set_conv_nth)
    then have put: "put_field u out = out @ [u]" by (simp add: put_field_def)
    have "index_of (AList.update (kv_key u) (length out) idx) (out @ [u])"
      unfolding index_of_def
    proof (intro allI)
      fix k i
      have "i < length out \<Longrightarrow> kv_key (out ! i) \<noteq> kv_key u" using new by (metis image_eqI nth_mem set_field_None)
      then show "map_of (AList.update (kv_key u) (length out) idx) k = Some i \<longleftrightarrow> i < length (out @ [u]) \<and> kv_key ((out @ [u]) ! i) = k"
        using Cons.prems(2) unfolding index_of_def by (auto simp: update_conv' nth_append less_Suc_eq)
    qed
    with Cons.IH [OF _ this] put_field_distinct [OF Cons.prems(1), of u] None put show ?thesis
      by (simp add: merge_unbounded_Cons)
  next
    case (Some i)
    then have i: "i < length out" "kv_key (out ! i) = kv_key u" using Cons.prems(2) by (simp_all add: index_of_def)
    let ?out = "out[i := (out ! i)\<lparr>kv_val := kv_val u\<rparr>]"
    have put: "put_field u out = ?out" using set_field_nth [OF Cons.prems(1) i] by (simp add: put_field_def)
    have "kv_key (?out ! j) = kv_key (out ! j)" if "j < length out" for j using that by (cases "j = i") simp_all
    then have "index_of idx ?out" using Cons.prems(2) unfolding index_of_def by (metis length_list_update)
    with Cons.IH [OF _ this] put_field_distinct [OF Cons.prems(1), of u] Some put show ?thesis
      by (simp add: merge_unbounded_Cons)
  qed
qed simp

text \<open>
  The canonical form a command's answer gives its caller is the list of fields the projection stores for it.
\<close>

lemma canonicalize_is_merge: "canonicalize_owned fs = merge_fields_unbounded [] fs"
  by (simp add: canonicalize_owned_def canonical_loop_merge index_of_def)

text \<open>The canonicalisation with its map of positions is the field-by-field merge it stands for: every key once,
  at its first position with its last value, and a canonical list stays as it is.\<close>

theorem canonical_form:
  "canonicalize_owned fs = merge_fields_unbounded [] fs \<and> keys_distinct (canonicalize_owned fs)
   \<and> canonicalize_owned (canonicalize_owned fs) = canonicalize_owned fs"
proof -
  have distinct: "keys_distinct (merge_fields_unbounded [] fs)" using merge_unbounded_distinct [of "[]" fs] by simp
  with merge_into_Nil [of "[]" "merge_fields_unbounded [] fs"] show ?thesis by (simp add: canonicalize_is_merge keys_distinct_def)
qed

section \<open>Measuring without merging\<close>

definition slot_fits :: "key_value list \<Rightarrow> bool" where
  "slot_fits fs = (length fs \<le> max_fields_per_slot \<and> fields_byte_estimate fs \<le> max_bytes_per_slot)"

lemma size_loop_merge:
  assumes "fields_byte_estimate out + fields_byte_estimate kvs \<le> u64_top" and "length out \<le> max_fields_per_slot"
  shows "if slot_fits (merge_fields_unbounded out kvs)
    then size_loop kvs (field_sizes out) (fields_byte_estimate out)
      = Ok (length (merge_fields_unbounded out kvs), fields_byte_estimate (merge_fields_unbounded out kvs))
    else \<exists>e. size_loop kvs (field_sizes out) (fields_byte_estimate out) = Err e"
  using assms
proof (induction kvs arbitrary: out)
  case (Cons u us)
  let ?out = "put_field u out"
  have sum: "fields_byte_estimate ?out
      = fields_byte_estimate out - (case map_of (field_sizes out) (kv_key u) of Some p \<Rightarrow> p | None \<Rightarrow> 0) + key_value_byte_estimate u"
  proof (cases "map_of (field_sizes out) (kv_key u)")
    case (Some p)
    then obtain f where "f \<in> set out" "p = key_value_byte_estimate f" by (auto simp: field_sizes_def dest!: map_of_SomeD)
    then have "p \<le> fields_byte_estimate out"
      by (simp add: fields_byte_estimate_def member_le_sum_list)
    with put_field_bytes [of u out] Some show ?thesis by simp
  qed (use put_field_bytes [of u out] in simp)
  have "fields_byte_estimate ?out \<le> fields_byte_estimate out + key_value_byte_estimate u" using sum by simp
  with Cons.prems(1) have bound: "fields_byte_estimate ?out + fields_byte_estimate us \<le> u64_top" by simp
  then have running: "saturating_add (fields_byte_estimate out
      - (case map_of (field_sizes out) (kv_key u) of Some p \<Rightarrow> p | None \<Rightarrow> 0)) (key_value_byte_estimate u) = fields_byte_estimate ?out"
    unfolding saturating_add_def sum by simp
  have seen: "AList.update (kv_key u) (key_value_byte_estimate u) (field_sizes out) = field_sizes ?out"
    by (rule put_field_sizes [symmetric])
  have step: "size_loop (u # us) (field_sizes out) (fields_byte_estimate out) =
      (if length ?out > max_fields_per_slot then Err (SlotCap (length ?out) (fields_byte_estimate ?out))
       else size_loop us (field_sizes ?out) (fields_byte_estimate ?out))"
    unfolding size_loop.simps(2) Let_def seen running by simp
  show ?case
  proof (cases "length ?out > max_fields_per_slot")
    case True
    then have "\<not> slot_fits (merge_fields_unbounded ?out us)" using length_merge_unbounded [of ?out us] by (simp add: slot_fits_def)
    with True show ?thesis unfolding step merge_unbounded_Cons by simp
  next
    case False
    with Cons.IH [OF bound] show ?thesis unfolding step merge_unbounded_Cons by simp
  qed
qed (auto simp: slot_fits_def)

lemma projected_size:
  assumes "keys_distinct baseline" and "fields_byte_estimate baseline + fields_byte_estimate incoming \<le> u64_top"
  shows "if slot_fits (merge_fields_unbounded baseline incoming)
    then projected_slot_size baseline incoming
      = Ok (length (merge_fields_unbounded baseline incoming), fields_byte_estimate (merge_fields_unbounded baseline incoming))
    else \<exists>e. projected_slot_size baseline incoming = Err e"
proof -
  have m: "merge_fields_unbounded [] (baseline @ incoming) = merge_fields_unbounded baseline incoming"
    using merge_into_Nil [of "[]" baseline] assms(1) by (simp add: merge_unbounded_append)
  show ?thesis
    using size_loop_merge [of "[]" "baseline @ incoming"] assms(2) unfolding m projected_slot_size_def field_sizes_Nil bytes_Nil by simp
qed

lemma projected_size_Ok:
  assumes "keys_distinct baseline" and "fields_byte_estimate baseline + fields_byte_estimate incoming \<le> u64_top"
    and "projected_slot_size baseline incoming = Ok (n, b)"
  shows "slot_fits (merge_fields_unbounded baseline incoming) \<and> n = length (merge_fields_unbounded baseline incoming)
    \<and> b = fields_byte_estimate (merge_fields_unbounded baseline incoming)"
  using projected_size [OF assms(1,2)] assms(3) by (auto split: if_splits)

end
