(* ===== verification/Device_State.thy ===== *)
theory Device_State
  imports Slot_Fields "HOL-Library.Product_Lexorder"
begin

text \<open>
  \<^verbatim>\<open>crates/oxidhome-core/src/state/device_state.rs\<close>: the projection of the devices' current state.  One entry per device
  and capability, a revision for every change, and a watermark of what was evicted; every operation runs under one lock,
  so an operation is a function of the store.  Revisions and generations are \<^verbatim>\<open>u64\<close> counters that grow by one;
  they are naturals here.
\<close>

section \<open>State\<close>

datatype state_quality = Fresh | Stale

type_synonym slot = "string \<times> string"

record device_state =
  ds_device :: string
  ds_capability :: string
  ds_fields :: "key_value list"
  ds_revision :: nat
  ds_received :: int
  ds_observed :: nat
  ds_generation :: nat
  ds_owner :: string
  ds_quality :: state_quality

record store =
  st_entries :: "(slot, device_state) btree"
  global_revision :: nat
  st_epoch :: string
  evicted_through :: nat
  generations :: "(string, nat) hmap"
  cursor_secret :: "8 word list"

definition new_store :: "string \<Rightarrow> 8 word list \<Rightarrow> store" where
  "new_store epoch secret =
     \<lparr>st_entries = [], global_revision = 0, st_epoch = epoch, evicted_through = 0, generations = [], cursor_secret = secret\<rparr>"

definition max_stale_entries :: nat where
  "max_stale_entries = 4096"

definition max_projected_bytes_per_instance :: nat where
  "max_projected_bytes_per_instance = 16 * 1024 * 1024"

section \<open>Writing an entry\<close>

definition next_revision :: "store \<Rightarrow> store \<times> nat" where
  "next_revision st = (st\<lparr>global_revision := global_revision st + 1\<rparr>, global_revision st + 1)"

definition generation_of :: "store \<Rightarrow> string \<Rightarrow> nat" where
  "generation_of st owner = (case map_of (generations st) owner of Some g \<Rightarrow> g | None \<Rightarrow> 0)"

definition put_entry :: "slot \<Rightarrow> device_state \<Rightarrow> store \<Rightarrow> store" where
  "put_entry key e st = st\<lparr>st_entries := bt_insert key e (st_entries st)\<rparr>"

text \<open>A delta merges only into a fresh entry of the owner's present generation.\<close>

definition mergeable :: "nat \<Rightarrow> device_state \<Rightarrow> bool" where
  "mergeable generation e = (ds_quality e = Fresh \<and> ds_generation e = generation)"

definition replaced_fields :: "key_value list \<Rightarrow> key_value list" where
  "replaced_fields given = take max_fields_per_slot (merge_fields_unbounded [] given)"

definition final_fields :: "device_state option \<Rightarrow> bool \<Rightarrow> nat \<Rightarrow> key_value list \<Rightarrow> key_value list" where
  "final_fields prev merge generation given =
     (case prev of
        Some e \<Rightarrow> if merge \<and> mergeable generation e then fst (merge_fields (ds_fields e) given) else replaced_fields given
      | None \<Rightarrow> replaced_fields given)"

definition write_entry ::
  "bool \<Rightarrow> string \<Rightarrow> string \<Rightarrow> string \<Rightarrow> key_value list \<Rightarrow> nat \<Rightarrow> int \<Rightarrow> store \<Rightarrow> store" where
  "write_entry merge dev owner cap given observed received st =
     (let generation = generation_of st owner;
          (st1, rev) = next_revision st;
          fs = truncate_to_byte_cap (final_fields (map_of (st_entries st) (dev, cap)) merge generation given)
      in put_entry (dev, cap)
           \<lparr>ds_device = dev, ds_capability = cap, ds_fields = fs, ds_revision = rev, ds_received = received,
            ds_observed = observed, ds_generation = generation, ds_owner = owner, ds_quality = Fresh\<rparr> st1)"

definition replace_snapshot :: "string \<Rightarrow> string \<Rightarrow> string \<Rightarrow> key_value list \<Rightarrow> nat \<Rightarrow> int \<Rightarrow> store \<Rightarrow> store" where
  "replace_snapshot dev owner cap given observed received = write_entry False dev owner cap given observed received"

definition apply_delta :: "string \<Rightarrow> string \<Rightarrow> string \<Rightarrow> key_value list \<Rightarrow> nat \<Rightarrow> int \<Rightarrow> store \<Rightarrow> store" where
  "apply_delta dev owner cap given observed received = write_entry True dev owner cap given observed received"

section \<open>Stale entries\<close>

definition stale_entries :: "store \<Rightarrow> (slot \<times> device_state) list" where
  "stale_entries st = filter (\<lambda>(k, e). ds_quality e = Stale) (st_entries st)"

definition evict_one :: "nat \<times> slot \<Rightarrow> store \<Rightarrow> store" where
  "evict_one = (\<lambda>(rev, key) st.
     st\<lparr>st_entries := AList.delete key (st_entries st),
        evicted_through := (if rev > evicted_through st then rev else evicted_through st)\<rparr>)"

definition enforce_stale_cap :: "store \<Rightarrow> store" where
  "enforce_stale_cap st =
     (let stale_count = length (stale_entries st) in
      if stale_count \<le> max_stale_entries then st
      else fold evict_one
             (take (stale_count - max_stale_entries)
               (sort_key fst (map (\<lambda>(k, e). (ds_revision e, k)) (stale_entries st)))) st)"

definition flip_stale :: "int \<Rightarrow> slot \<Rightarrow> store \<Rightarrow> store" where
  "flip_stale received key st =
     (case map_of (st_entries st) key of
        None \<Rightarrow> st
      | Some prev \<Rightarrow>
          (let (st1, rev) = next_revision st
           in put_entry key (prev\<lparr>ds_revision := rev, ds_received := received, ds_quality := Stale\<rparr>) st1))"

definition stale_where_locked :: "int \<Rightarrow> (slot \<Rightarrow> device_state \<Rightarrow> bool) \<Rightarrow> store \<Rightarrow> store \<times> nat" where
  "stale_where_locked received p st =
     (let keys_to_stale = map fst (filter (\<lambda>(k, e). p k e) (st_entries st))
      in (enforce_stale_cap (fold (flip_stale received) keys_to_stale st), length keys_to_stale))"

definition mark_instance_stale :: "int \<Rightarrow> string \<Rightarrow> store \<Rightarrow> store \<times> nat" where
  "mark_instance_stale now owner st = stale_where_locked now (\<lambda>_ e. ds_owner e = owner \<and> ds_quality e = Fresh) st"

definition mark_device_stale :: "int \<Rightarrow> string \<Rightarrow> store \<Rightarrow> store \<times> nat" where
  "mark_device_stale now dev st = stale_where_locked now (\<lambda>k e. fst k = dev \<and> ds_quality e = Fresh) st"

definition reconcile_capabilities :: "int \<Rightarrow> string \<Rightarrow> string list \<Rightarrow> store \<Rightarrow> store \<times> nat" where
  "reconcile_capabilities now dev live st =
     stale_where_locked now (\<lambda>k e. fst k = dev \<and> ds_quality e = Fresh \<and> snd k \<notin> set live) st"

definition bump_generation :: "string \<Rightarrow> store \<Rightarrow> store \<times> nat" where
  "bump_generation owner st =
     (let g = generation_of st owner + 1 in (st\<lparr>generations := AList.update owner g (generations st)\<rparr>, g))"

definition restart_generation :: "int \<Rightarrow> string \<Rightarrow> store \<Rightarrow> store \<times> nat \<times> nat" where
  "restart_generation now owner st =
     (let (st1, flipped) = stale_where_locked now (\<lambda>_ e. ds_owner e = owner \<and> ds_quality e = Fresh) st;
          (st2, g) = bump_generation owner st1
      in (st2, flipped, g))"

definition seed_slot :: "string \<Rightarrow> string \<Rightarrow> nat \<Rightarrow> nat \<Rightarrow> int \<Rightarrow> string \<times> key_value list \<Rightarrow> store \<Rightarrow> store" where
  "seed_slot dev owner generation observed received = (\<lambda>(cap, given) st.
     (let (st1, rev) = next_revision st
      in put_entry (dev, cap)
           \<lparr>ds_device = dev, ds_capability = cap, ds_fields = replaced_fields given, ds_revision = rev,
            ds_received = received, ds_observed = observed, ds_generation = generation, ds_owner = owner, ds_quality = Fresh\<rparr> st1))"

definition reset_and_seed_device ::
  "string \<Rightarrow> string \<Rightarrow> (string \<times> key_value list) list \<Rightarrow> nat \<Rightarrow> int \<Rightarrow> store \<Rightarrow> store" where
  "reset_and_seed_device dev owner initial_state observed received st =
     (let st1 = fst (stale_where_locked received (\<lambda>k e. fst k = dev \<and> ds_quality e = Fresh) st)
      in fold (seed_slot dev owner (generation_of st1 owner) observed received) initial_state st1)"

section \<open>Admission\<close>

text \<open>The bytes of an instance's fresh entries.\<close>

definition instance_bytes :: "store \<Rightarrow> string \<Rightarrow> nat" where
  "instance_bytes st owner =
     sum_list (map (\<lambda>(k, e). fields_byte_estimate (ds_fields e))
       (filter (\<lambda>(k, e). ds_owner e = owner \<and> ds_quality e = Fresh) (st_entries st)))"

definition check_instance_caps :: "store \<Rightarrow> string \<Rightarrow> nat \<Rightarrow> nat \<Rightarrow> slot_cap_exceeded + unit" where
  "check_instance_caps st owner old_bytes projected =
     (let bytes_total = saturating_add (instance_bytes st owner - old_bytes) projected
      in if bytes_total > max_projected_bytes_per_instance then Err (InstanceCap bytes_total) else Ok ())"

definition fresh_bytes :: "device_state option \<Rightarrow> nat" where
  "fresh_bytes e = (case e of Some s \<Rightarrow> if ds_quality s = Fresh then fields_byte_estimate (ds_fields s) else 0 | None \<Rightarrow> 0)"

definition check_delta_admission ::
  "string \<Rightarrow> string \<Rightarrow> string \<Rightarrow> key_value list \<Rightarrow> store \<Rightarrow> slot_cap_exceeded + unit" where
  "check_delta_admission dev owner cap incoming st =
     (let existing = map_of (st_entries st) (dev, cap);
          baseline = (case existing of Some e \<Rightarrow> if mergeable (generation_of st owner) e then ds_fields e else [] | None \<Rightarrow> [])
      in bind_result (projected_slot_size baseline incoming)
           (\<lambda>(_, projected). check_instance_caps st owner (fresh_bytes existing) projected))"

definition check_snapshot_admission :: "key_value list \<Rightarrow> slot_cap_exceeded + unit" where
  "check_snapshot_admission given = bind_result (projected_slot_size [] given) (\<lambda>_. Ok ())"

definition check_instance_snapshot_admission ::
  "string \<Rightarrow> string \<Rightarrow> string \<Rightarrow> key_value list \<Rightarrow> store \<Rightarrow> slot_cap_exceeded + unit" where
  "check_instance_snapshot_admission dev owner cap incoming st =
     bind_result (projected_slot_size [] incoming)
       (\<lambda>(_, projected). check_instance_caps st owner (fresh_bytes (map_of (st_entries st) (dev, cap))) projected)"

fun seed_bytes :: "(string \<times> key_value list) list \<Rightarrow> nat \<Rightarrow> slot_cap_exceeded + nat" where
  "seed_bytes [] bytes_total = Ok bytes_total"
| "seed_bytes ((cap, given) # seeds) bytes_total =
     bind_result (projected_slot_size [] given) (\<lambda>(_, bytes). seed_bytes seeds (saturating_add bytes_total bytes))"

text \<open>The bytes of a device's fresh entries.\<close>

definition device_bytes :: "string \<Rightarrow> store \<Rightarrow> nat" where
  "device_bytes dev st =
     sum_list (map (\<lambda>(k, e). fields_byte_estimate (ds_fields e))
       (filter (\<lambda>(k, e). fst k = dev \<and> ds_quality e = Fresh) (st_entries st)))"

definition check_instance_register_admission ::
  "string \<Rightarrow> string \<Rightarrow> (string \<times> key_value list) list \<Rightarrow> store \<Rightarrow> slot_cap_exceeded + unit" where
  "check_instance_register_admission dev owner seeds st =
     bind_result (seed_bytes seeds 0) (\<lambda>new_bytes. check_instance_caps st owner (device_bytes dev st) new_bytes)"

section \<open>Reading\<close>

definition snapshot_device :: "string \<Rightarrow> store \<Rightarrow> string \<times> nat \<times> device_state list" where
  "snapshot_device dev st =
     (st_epoch st, global_revision st, map snd (filter (\<lambda>(k, e). fst k = dev) (st_entries st)))"

definition snapshot_capability :: "string \<Rightarrow> string \<Rightarrow> store \<Rightarrow> device_state option" where
  "snapshot_capability dev cap st = map_of (st_entries st) (dev, cap)"

text \<open>U+10FFFF in UTF-8.\<close>

definition max_cap_sentinel :: string where
  "max_cap_sentinel = [CHR 0xF4, CHR 0x8F, CHR 0xBF, CHR 0xBF]"

fun page_loop :: "nat \<Rightarrow> nat \<Rightarrow> string option \<Rightarrow> (slot \<times> device_state) list \<Rightarrow> device_state list" where
  "page_loop device_limit distinct_devices current [] = []"
| "page_loop device_limit distinct_devices current (((dev, cap), e) # rest) =
     (if current \<noteq> Some dev
      then if distinct_devices \<ge> device_limit then []
           else e # page_loop device_limit (distinct_devices + 1) (Some dev) rest
      else e # page_loop device_limit distinct_devices current rest)"

definition after_cursor :: "string option \<Rightarrow> store \<Rightarrow> (slot \<times> device_state) list" where
  "after_cursor after st =
     (case after of
        None \<Rightarrow> st_entries st
      | Some dev \<Rightarrow> filter (\<lambda>(k, e). (dev, max_cap_sentinel) < k) (st_entries st))"

definition snapshot_page :: "string option \<Rightarrow> nat \<Rightarrow> store \<Rightarrow> string \<times> nat \<times> device_state list" where
  "snapshot_page after device_limit st =
     (st_epoch st, global_revision st, page_loop device_limit 0 None (after_cursor after st))"

record delta_page =
  dp_epoch :: string
  dp_current :: nat
  dp_entries :: "device_state list"
  dp_reset :: bool

definition deltas_since :: "nat \<Rightarrow> nat \<Rightarrow> store \<Rightarrow> delta_page" where
  "deltas_since since limit st =
     (if since > global_revision st \<or> since < evicted_through st
      then \<lparr>dp_epoch = st_epoch st, dp_current = global_revision st, dp_entries = [], dp_reset = True\<rparr>
      else \<lparr>dp_epoch = st_epoch st, dp_current = global_revision st,
            dp_entries = take limit (sort_key ds_revision (filter (\<lambda>e. ds_revision e > since) (map snd (st_entries st)))),
            dp_reset = False\<rparr>)"

section \<open>Runs\<close>

datatype state_op =
    BumpGeneration string
  | RestartGeneration int string
  | ReplaceSnapshot string string string "key_value list" nat int
  | ApplyDelta string string string "key_value list" nat int
  | MarkInstanceStale int string
  | MarkDeviceStale int string
  | Reconcile int string "string list"
  | ResetAndSeed string string "(string \<times> key_value list) list" nat int

fun state_step :: "state_op \<Rightarrow> store \<Rightarrow> store" where
  "state_step (BumpGeneration owner) st = fst (bump_generation owner st)"
| "state_step (RestartGeneration now owner) st = fst (restart_generation now owner st)"
| "state_step (ReplaceSnapshot dev owner cap given ob re) st = replace_snapshot dev owner cap given ob re st"
| "state_step (ApplyDelta dev owner cap given ob re) st = apply_delta dev owner cap given ob re st"
| "state_step (MarkInstanceStale now owner) st = fst (mark_instance_stale now owner st)"
| "state_step (MarkDeviceStale now dev) st = fst (mark_device_stale now dev st)"
| "state_step (Reconcile now dev live) st = fst (reconcile_capabilities now dev live st)"
| "state_step (ResetAndSeed dev owner seeds ob re) st = reset_and_seed_device dev owner seeds ob re st"

end
