(* ===== verification/State_Evolution.thy ===== *)
theory State_Evolution
  imports Device_State
begin

text \<open>
  What every operation of the device-state store keeps, and how it may change the entries: an entry stays as it was,
  or changes at a revision above all earlier ones, or is evicted when it is stale, which the watermark records.
\<close>

section \<open>The invariant\<close>

definition entry_wf :: "store \<Rightarrow> slot \<Rightarrow> device_state \<Rightarrow> bool" where
  "entry_wf st k e =
     (k = (ds_device e, ds_capability e) \<and> ds_revision e \<le> global_revision st
      \<and> keys_distinct (ds_fields e) \<and> length (ds_fields e) \<le> max_fields_per_slot)"

definition store_inv :: "store \<Rightarrow> bool" where
  "store_inv st =
     (bt_wf (st_entries st) \<and> evicted_through st \<le> global_revision st
      \<and> (\<forall>k e. map_of (st_entries st) k = Some e \<longrightarrow> entry_wf st k e)
      \<and> (\<forall>k k' e e'. map_of (st_entries st) k = Some e \<longrightarrow> map_of (st_entries st) k' = Some e'
           \<longrightarrow> ds_revision e = ds_revision e' \<longrightarrow> k = k'))"

lemma store_inv_wf: "store_inv st \<Longrightarrow> bt_wf (st_entries st)"
  and store_inv_watermark: "store_inv st \<Longrightarrow> evicted_through st \<le> global_revision st"
  by (simp_all add: store_inv_def)

lemma store_inv_entry: "store_inv st \<Longrightarrow> map_of (st_entries st) k = Some e \<Longrightarrow> entry_wf st k e"
  unfolding store_inv_def by blast

lemma store_inv_revisions:
  "store_inv st \<Longrightarrow> map_of (st_entries st) k = Some e \<Longrightarrow> map_of (st_entries st) k' = Some e'
     \<Longrightarrow> ds_revision e = ds_revision e' \<Longrightarrow> k = k'"
  unfolding store_inv_def by blast

lemma store_invI:
  assumes "bt_wf (st_entries st)" and "evicted_through st \<le> global_revision st"
    and "\<And>k e. map_of (st_entries st) k = Some e \<Longrightarrow> entry_wf st k e"
    and "\<And>k k' e e'. map_of (st_entries st) k = Some e \<Longrightarrow> map_of (st_entries st) k' = Some e'
      \<Longrightarrow> ds_revision e = ds_revision e' \<Longrightarrow> k = k'"
  shows "store_inv st"
  unfolding store_inv_def using assms by blast

lemma new_store_inv: "store_inv (new_store epoch secret)"
  by (simp add: store_inv_def new_store_def)

section \<open>Evolution\<close>

definition evolves :: "store \<Rightarrow> store \<Rightarrow> bool" where
  "evolves s t =
     (global_revision s \<le> global_revision t \<and> evicted_through s \<le> evicted_through t
      \<and> (\<forall>k e. map_of (st_entries t) k = Some e \<longrightarrow> map_of (st_entries s) k = Some e \<or> global_revision s < ds_revision e)
      \<and> (\<forall>k e. map_of (st_entries t) k = None \<longrightarrow> map_of (st_entries s) k = Some e
           \<longrightarrow> (ds_quality e = Stale \<and> ds_revision e \<le> evicted_through t) \<or> global_revision s < evicted_through t))"

lemma evolves_refl [simp]: "evolves s s"
  by (simp add: evolves_def)

lemma evolves_grow: "evolves s t \<Longrightarrow> global_revision s \<le> global_revision t \<and> evicted_through s \<le> evicted_through t"
  by (simp add: evolves_def)

lemma evolves_entry:
  "evolves s t \<Longrightarrow> map_of (st_entries t) k = Some e \<Longrightarrow> map_of (st_entries s) k = Some e \<or> global_revision s < ds_revision e"
  unfolding evolves_def by blast

lemma evolves_gone:
  "evolves s t \<Longrightarrow> map_of (st_entries t) k = None \<Longrightarrow> map_of (st_entries s) k = Some e
     \<Longrightarrow> (ds_quality e = Stale \<and> ds_revision e \<le> evicted_through t) \<or> global_revision s < evicted_through t"
  unfolding evolves_def by blast

lemma evolvesI:
  assumes "global_revision s \<le> global_revision t" and "evicted_through s \<le> evicted_through t"
    and "\<And>k e. map_of (st_entries t) k = Some e \<Longrightarrow> map_of (st_entries s) k = Some e \<or> global_revision s < ds_revision e"
    and "\<And>k e. map_of (st_entries t) k = None \<Longrightarrow> map_of (st_entries s) k = Some e
      \<Longrightarrow> (ds_quality e = Stale \<and> ds_revision e \<le> evicted_through t) \<or> global_revision s < evicted_through t"
  shows "evolves s t"
  unfolding evolves_def using assms by blast

lemma evolves_trans:
  assumes st: "evolves s t" and tu: "evolves t u"
  shows "evolves s u"
proof (rule evolvesI)
  note grow = evolves_grow [OF st] evolves_grow [OF tu]
  show "global_revision s \<le> global_revision u" "evicted_through s \<le> evicted_through u" using grow by simp_all
  show "map_of (st_entries s) k = Some e \<or> global_revision s < ds_revision e" if "map_of (st_entries u) k = Some e" for k e
    using evolves_entry [OF tu that] evolves_entry [OF st, of k e] grow by linarith
  show "(ds_quality e = Stale \<and> ds_revision e \<le> evicted_through u) \<or> global_revision s < evicted_through u"
    if gone: "map_of (st_entries u) k = None" and had: "map_of (st_entries s) k = Some e" for k e
  proof (cases "map_of (st_entries t) k")
    case None
    with evolves_gone [OF st None had] grow show ?thesis by linarith
  next
    case (Some e')
    from evolves_gone [OF tu gone Some] evolves_entry [OF st Some] had grow show ?thesis by auto
  qed
qed

text \<open>A good step keeps the invariant and evolves the store, and what the client is told apart by stays.\<close>

definition good_step :: "store \<Rightarrow> store \<Rightarrow> bool" where
  "good_step s t = (store_inv t \<and> evolves s t \<and> st_epoch t = st_epoch s \<and> cursor_secret t = cursor_secret s)"

lemma good_refl: "store_inv s \<Longrightarrow> good_step s s"
  by (simp add: good_step_def)

lemma good_trans: "good_step s t \<Longrightarrow> good_step t u \<Longrightarrow> good_step s u"
  unfolding good_step_def using evolves_trans by auto

lemma good_fold:
  assumes "store_inv s" and "\<And>x t. store_inv t \<Longrightarrow> good_step t (f x t)"
  shows "good_step s (fold f xs s)"
  using assms(1)
proof (induction xs arbitrary: s)
  case (Cons x xs)
  from assms(2) [OF Cons.prems] have step: "good_step s (f x s)" .
  then have "store_inv (f x s)" by (simp add: good_step_def)
  from good_trans [OF step Cons.IH [OF this]] show ?case by simp
qed (simp add: good_refl)

section \<open>Each change is a good step\<close>

lemma put_next_good:
  assumes inv: "store_inv st" and e: "ds_revision e = global_revision st + 1" "k = (ds_device e, ds_capability e)"
    "keys_distinct (ds_fields e)" "length (ds_fields e) \<le> max_fields_per_slot"
  shows "good_step st (put_entry k e (fst (next_revision st)))"
proof -
  let ?t = "put_entry k e (fst (next_revision st))"
  note wf = store_inv_wf [OF inv]
  have ents: "map_of (st_entries ?t) = (map_of (st_entries st))(k \<mapsto> e)"
    using wf by (simp add: put_entry_def next_revision_def bt.find_put)
  have rest: "global_revision ?t = global_revision st + 1" "evicted_through ?t = evicted_through st"
    "st_epoch ?t = st_epoch st" "cursor_secret ?t = cursor_secret st"
    by (simp_all add: put_entry_def next_revision_def)
  have old: "ds_revision e' \<le> global_revision st" if "map_of (st_entries st) k' = Some e'" for k' e'
    using store_inv_entry [OF inv that] by (simp add: entry_wf_def)
  have "store_inv ?t"
  proof (rule store_invI)
    show "bt_wf (st_entries ?t)" using wf by (simp add: put_entry_def next_revision_def bt_wf_insert)
    show "evicted_through ?t \<le> global_revision ?t" using store_inv_watermark [OF inv] by (simp add: rest)
  next
    fix k' e'
    assume "map_of (st_entries ?t) k' = Some e'"
    then show "entry_wf ?t k' e'"
      using store_inv_entry [OF inv, of k' e'] e unfolding ents entry_wf_def rest by (auto split: if_splits)
  next
    fix k1 k2 e1 e2
    assume "map_of (st_entries ?t) k1 = Some e1" "map_of (st_entries ?t) k2 = Some e2" "ds_revision e1 = ds_revision e2"
    then show "k1 = k2"
      using store_inv_revisions [OF inv, of k1 e1 k2 e2] old [of k1 e1] old [of k2 e2] e(1) unfolding ents by (auto split: if_splits)
  qed
  moreover have "evolves st ?t" by (rule evolvesI) (use e(1) in \<open>auto simp: ents rest split: if_splits\<close>)
  ultimately show ?thesis by (simp add: good_step_def rest)
qed

lemma replaced_slot: "keys_distinct (replaced_fields fs) \<and> length (replaced_fields fs) \<le> max_fields_per_slot"
  using merge_unbounded_distinct [of "[]" fs] by (simp add: replaced_fields_def keys_distinct_def take_map [symmetric])

lemma write_entry_good:
  assumes inv: "store_inv st"
  shows "good_step st (write_entry merge dev owner cap given observed received st)"
proof -
  let ?prev = "map_of (st_entries st) (dev, cap)"
  let ?fs = "final_fields ?prev merge (generation_of st owner) given"
  have "keys_distinct ?fs \<and> length ?fs \<le> max_fields_per_slot"
  proof (cases ?prev)
    case (Some e)
    with store_inv_entry [OF inv Some] merge_fields_slot [of "ds_fields e" given] replaced_slot [of given]
    show ?thesis by (simp add: final_fields_def entry_wf_def)
  qed (simp add: final_fields_def replaced_slot)
  then have "keys_distinct (truncate_to_byte_cap ?fs) \<and> length (truncate_to_byte_cap ?fs) \<le> max_fields_per_slot"
    using truncate_slot by blast
  with put_next_good [OF inv, of "\<lparr>ds_device = dev, ds_capability = cap, ds_fields = truncate_to_byte_cap ?fs,
      ds_revision = global_revision st + 1, ds_received = received, ds_observed = observed,
      ds_generation = generation_of st owner, ds_owner = owner, ds_quality = Fresh\<rparr>" "(dev, cap)"]
  show ?thesis by (simp add: write_entry_def next_revision_def Let_def)
qed

lemma flip_stale_good:
  assumes inv: "store_inv st"
  shows "good_step st (flip_stale received key st)"
proof (cases "map_of (st_entries st) key")
  case (Some e)
  with store_inv_entry [OF inv Some]
    put_next_good [OF inv, of "e\<lparr>ds_revision := global_revision st + 1, ds_received := received, ds_quality := Stale\<rparr>" key]
  show ?thesis by (simp add: flip_stale_def entry_wf_def next_revision_def Let_def)
qed (use inv in \<open>simp add: flip_stale_def good_refl\<close>)

lemma seed_slot_good:
  assumes inv: "store_inv st"
  shows "good_step st (seed_slot dev owner generation observed received seed st)"
proof -
  obtain cap given where "seed = (cap, given)" by (cases seed)
  with put_next_good [OF inv, of "\<lparr>ds_device = dev, ds_capability = cap, ds_fields = replaced_fields given,
      ds_revision = global_revision st + 1, ds_received = received, ds_observed = observed,
      ds_generation = generation, ds_owner = owner, ds_quality = Fresh\<rparr>" "(dev, cap)"] replaced_slot [of given]
  show ?thesis by (simp add: seed_slot_def next_revision_def Let_def)
qed

lemma bump_generation_good: "store_inv st \<Longrightarrow> good_step st (fst (bump_generation owner st))"
  by (simp add: good_step_def store_inv_def entry_wf_def evolves_def bump_generation_def Let_def)

section \<open>Eviction\<close>

lemma evict_one_good:
  assumes inv: "store_inv st" and e: "map_of (st_entries st) key = Some e" "ds_revision e = r" "ds_quality e = Stale"
  shows "good_step st (evict_one (r, key) st)"
proof -
  let ?t = "evict_one (r, key) st"
  note wf = store_inv_wf [OF inv]
  have ents: "map_of (st_entries ?t) = (map_of (st_entries st))(key := None)"
    using wf by (simp add: evict_one_def bt.find_drop)
  have rest: "global_revision ?t = global_revision st" "evicted_through ?t = max r (evicted_through st)"
    "st_epoch ?t = st_epoch st" "cursor_secret ?t = cursor_secret st"
    by (simp_all add: evict_one_def max_def)
  have bound: "r \<le> global_revision st" using store_inv_entry [OF inv e(1)] e(2) by (simp add: entry_wf_def)
  have "store_inv ?t"
  proof (rule store_invI)
    show "bt_wf (st_entries ?t)" using wf by (simp add: evict_one_def bt.wf_drop)
    show "evicted_through ?t \<le> global_revision ?t" using store_inv_watermark [OF inv] bound by (simp add: rest)
  next
    fix k' e'
    assume "map_of (st_entries ?t) k' = Some e'"
    then show "entry_wf ?t k' e'"
      using store_inv_entry [OF inv, of k' e'] unfolding ents entry_wf_def rest by (auto split: if_splits)
  next
    fix k1 k2 e1 e2
    assume "map_of (st_entries ?t) k1 = Some e1" "map_of (st_entries ?t) k2 = Some e2" "ds_revision e1 = ds_revision e2"
    then show "k1 = k2" using store_inv_revisions [OF inv, of k1 e1 k2 e2] unfolding ents by (auto split: if_splits)
  qed
  moreover have "evolves st ?t" by (rule evolvesI) (use e in \<open>auto simp: ents rest split: if_splits\<close>)
  ultimately show ?thesis by (simp add: good_step_def rest)
qed

text \<open>Evicting a list of stale entries.\<close>

definition evictable :: "store \<Rightarrow> nat \<times> slot \<Rightarrow> bool" where
  "evictable st = (\<lambda>(r, key). \<exists>e. map_of (st_entries st) key = Some e \<and> ds_revision e = r \<and> ds_quality e = Stale)"

lemma stale_entry_iff: "store_inv st \<Longrightarrow> (k, e) \<in> set (stale_entries st) \<longleftrightarrow> map_of (st_entries st) k = Some e \<and> ds_quality e = Stale"
  using bt_wf_distinct [OF store_inv_wf] by (auto simp: stale_entries_def)

lemma evict_one_keeps: "store_inv st \<Longrightarrow> evictable st v \<Longrightarrow> snd v \<noteq> snd u \<Longrightarrow> evictable (evict_one u st) v"
  by (cases u; cases v) (auto simp: evictable_def evict_one_def bt.find_drop store_inv_wf)

lemma evict_fold_good:
  assumes "store_inv st" and "\<forall>v \<in> set vs. evictable st v" and "distinct (map snd vs)"
  shows "good_step st (fold evict_one vs st)"
  using assms
proof (induction vs arbitrary: st)
  case (Cons v vs)
  obtain r key where v: "v = (r, key)" by (cases v)
  with Cons.prems obtain e where "map_of (st_entries st) key = Some e" "ds_revision e = r" "ds_quality e = Stale"
    by (auto simp: evictable_def)
  from evict_one_good [OF Cons.prems(1) this] v have step: "good_step st (evict_one v st)" by simp
  have "\<forall>u \<in> set vs. evictable (evict_one v st) u"
    using Cons.prems evict_one_keeps [OF Cons.prems(1)] by (metis (no_types, lifting) distinct.simps(2) image_eqI list.set_intros(2) list.set_map list.simps(9))
  with Cons.IH [of "evict_one v st"] step Cons.prems(3) have "good_step (evict_one v st) (fold evict_one vs (evict_one v st))"
    by (simp add: good_step_def)
  from good_trans [OF step this] show ?case by simp
qed (simp add: good_refl)

definition by_age :: "store \<Rightarrow> (nat \<times> slot) list" where
  "by_age st = sort_key fst (map (\<lambda>(k, e). (ds_revision e, k)) (stale_entries st))"

lemma by_age_set: "set (by_age st) = (\<lambda>(k, e). (ds_revision e, k)) ` set (stale_entries st)"
  by (simp add: by_age_def)

lemma distinct_map_sort_key: "distinct (map f (sort_key g xs)) = distinct (map f xs)"
  by (simp add: distinct_map)

lemma by_age_distinct:
  assumes "store_inv st"
  shows "distinct (map snd (by_age st))"
proof -
  have "distinct (map fst (stale_entries st))"
    using bt_wf_distinct [OF store_inv_wf [OF assms]] by (simp add: stale_entries_def distinct_map_filter)
  then have "distinct (map snd (map (\<lambda>(k, e). (ds_revision e, k)) (stale_entries st)))" by (simp add: comp_def case_prod_unfold)
  then show ?thesis unfolding by_age_def distinct_map_sort_key .
qed

lemma by_age_evictable: "store_inv st \<Longrightarrow> v \<in> set (by_age st) \<Longrightarrow> evictable st v"
  by (auto simp: by_age_set evictable_def stale_entry_iff)

lemma enforce_good:
  assumes "store_inv st"
  shows "good_step st (enforce_stale_cap st)"
proof -
  let ?n = "length (stale_entries st) - max_stale_entries"
  have "\<forall>v \<in> set (take ?n (by_age st)). evictable st v"
    using by_age_evictable [OF assms] by (blast dest: in_set_takeD)
  moreover have "distinct (map snd (take ?n (by_age st)))"
    using by_age_distinct [OF assms] by (simp add: take_map [symmetric])
  ultimately have "good_step st (fold evict_one (take ?n (by_age st)) st)" by (rule evict_fold_good [OF assms])
  then show ?thesis unfolding enforce_stale_cap_def Let_def by_age_def [symmetric] using good_refl [OF assms] by simp
qed

lemma stale_where_good:
  assumes "store_inv st"
  shows "good_step st (fst (stale_where_locked now p st))"
proof -
  let ?keys = "map fst (filter (\<lambda>(k, e). p k e) (st_entries st))"
  have step: "good_step st (fold (flip_stale now) ?keys st)" by (rule good_fold [OF assms flip_stale_good])
  then have "store_inv (fold (flip_stale now) ?keys st)" by (simp add: good_step_def)
  from good_trans [OF step enforce_good [OF this]] show ?thesis by (simp add: stale_where_locked_def Let_def)
qed

lemma state_step_good:
  assumes inv: "store_inv st"
  shows "good_step st (state_step op st)"
proof (cases op)
  case (RestartGeneration now owner)
  let ?st1 = "fst (stale_where_locked now (\<lambda>_ e. ds_owner e = owner \<and> ds_quality e = Fresh) st)"
  have step: "good_step st ?st1" by (rule stale_where_good [OF inv])
  then have "store_inv ?st1" by (simp add: good_step_def)
  from good_trans [OF step bump_generation_good [OF this, of owner]] RestartGeneration
  show ?thesis by (simp add: restart_generation_def case_prod_unfold Let_def)
next
  case (ResetAndSeed dev owner seeds ob re)
  let ?st1 = "fst (stale_where_locked re (\<lambda>k e. fst k = dev \<and> ds_quality e = Fresh) st)"
  have step: "good_step st ?st1" by (rule stale_where_good [OF inv])
  then have "store_inv ?st1" by (simp add: good_step_def)
  from good_trans [OF step good_fold [OF this seed_slot_good]] ResetAndSeed
  show ?thesis by (simp add: reset_and_seed_device_def Let_def)
qed (use inv in \<open>simp_all add: bump_generation_good write_entry_good replace_snapshot_def apply_delta_def
       mark_instance_stale_def mark_device_stale_def reconcile_capabilities_def stale_where_good\<close>)

end
