(* ===== verification/State_Limits.thy ===== *)
theory State_Limits
  imports State_Evolution
begin

text \<open>
  The limits of the device-state store: the number of stale entries, the size of a slot, and the bytes an instance keeps
  fresh.  The fresh part of a store is a map; every operation is an update of it.
\<close>

section \<open>The stale cap\<close>

lemma filter_bt_insert: "\<not> P (k, v) \<Longrightarrow> length (filter P (bt_insert k v m)) \<le> length (filter P m)"
  by (induction k v m rule: bt_insert.induct) auto

lemma stale_put_fresh:
  "ds_quality e = Fresh \<Longrightarrow> length (stale_entries (put_entry k e st)) \<le> length (stale_entries st)"
  by (simp add: stale_entries_def put_entry_def filter_bt_insert)

lemma stale_next [simp]: "stale_entries (fst (next_revision st)) = stale_entries st"
  by (simp add: stale_entries_def next_revision_def)

lemma stale_evict: "stale_entries (evict_one (r, key) st) = AList.delete key (stale_entries st)"
  by (simp add: stale_entries_def evict_one_def AList.delete_eq case_prod_unfold conj_commute)

lemma stale_evict_fold:
  assumes "store_inv st" and "\<forall>v \<in> set vs. evictable st v" and "distinct (map snd vs)"
  shows "length (stale_entries (fold evict_one vs st)) + length vs = length (stale_entries st)"
  using assms
proof (induction vs arbitrary: st)
  case (Cons v vs)
  obtain r key where v: "v = (r, key)" by (cases v)
  with Cons.prems obtain e where e: "map_of (st_entries st) key = Some e" "ds_revision e = r" "ds_quality e = Stale"
    by (auto simp: evictable_def)
  have inv: "store_inv (evict_one v st)" using evict_one_good [OF Cons.prems(1) e] v by (simp add: good_step_def)
  have left: "evictable (evict_one v st) u" if "u \<in> set vs" for u
  proof (rule evict_one_keeps [OF Cons.prems(1)])
    show "evictable st u" using Cons.prems(2) that by simp
    show "snd u \<noteq> snd v" using Cons.prems(3) that by (metis distinct.simps(2) image_eqI list.set_map list.simps(9))
  qed
  have wf: "hm_wf (stale_entries st)"
    using bt_wf_distinct [OF store_inv_wf [OF Cons.prems(1)]] by (simp add: hm_wf_def stale_entries_def distinct_map_filter)
  have "map_of (stale_entries st) key \<noteq> None"
    using e stale_entry_iff [OF Cons.prems(1), of key e] by (metis hm_entry_iff option.distinct(1) wf)
  then have "Suc (length (stale_entries (evict_one v st))) = length (stale_entries st)"
    unfolding v stale_evict by (rule length_delete_old [OF wf])
  with Cons.IH [OF inv] left Cons.prems(3) show ?case by simp
qed simp

lemma enforce_capped:
  assumes inv: "store_inv st"
  shows "length (stale_entries (enforce_stale_cap st)) \<le> max_stale_entries"
proof (cases "length (stale_entries st) \<le> max_stale_entries")
  case False
  let ?vs = "take (length (stale_entries st) - max_stale_entries) (by_age st)"
  have "\<forall>v \<in> set ?vs. evictable st v" using by_age_evictable [OF inv] by (blast dest: in_set_takeD)
  moreover have "distinct (map snd ?vs)" using by_age_distinct [OF inv] by (simp add: take_map [symmetric])
  ultimately have "length (stale_entries (fold evict_one ?vs st)) + length ?vs = length (stale_entries st)"
    by (rule stale_evict_fold [OF inv])
  moreover have "length ?vs = length (stale_entries st) - max_stale_entries" by (simp add: by_age_def)
  ultimately show ?thesis using False unfolding enforce_stale_cap_def Let_def by_age_def [symmetric] by simp
qed (simp add: enforce_stale_cap_def)

lemma flips_inv: "store_inv st \<Longrightarrow> store_inv (fold (flip_stale now) ks st)"
  using good_fold [of st "flip_stale now" ks] flip_stale_good by (simp add: good_step_def)

lemma stale_where_capped: "store_inv st \<Longrightarrow> length (stale_entries (fst (stale_where_locked now p st))) \<le> max_stale_entries"
  by (simp add: stale_where_locked_def Let_def enforce_capped flips_inv)

lemma write_entry_stale: "length (stale_entries (write_entry merge dev owner cap given ob re st)) \<le> length (stale_entries st)"
  unfolding write_entry_def Let_def next_revision_def prod.case
  by (rule order_trans [OF stale_put_fresh]) (simp_all add: stale_entries_def)

lemma seed_slot_stale: "length (stale_entries (seed_slot dev owner g ob re seed st)) \<le> length (stale_entries st)"
  unfolding seed_slot_def Let_def next_revision_def case_prod_unfold prod.sel
  by (rule order_trans [OF stale_put_fresh]) (simp_all add: stale_entries_def)

lemma seeds_stale: "length (stale_entries (fold (seed_slot dev owner g ob re) seeds st)) \<le> length (stale_entries st)"
proof (induction seeds arbitrary: st)
  case (Cons s seeds)
  show ?case using Cons.IH [of "seed_slot dev owner g ob re s st"] seed_slot_stale [of dev owner g ob re s st] by simp
qed simp

lemma bump_stale [simp]: "stale_entries (fst (bump_generation owner st)) = stale_entries st"
  by (simp add: stale_entries_def bump_generation_def Let_def)

lemma state_step_capped:
  assumes inv: "store_inv st" and cap: "length (stale_entries st) \<le> max_stale_entries"
  shows "length (stale_entries (state_step op st)) \<le> max_stale_entries"
proof (cases op)
  case (ResetAndSeed dev owner seeds ob re)
  then show ?thesis
    using order_trans [OF seeds_stale stale_where_capped [OF inv]] by (simp add: reset_and_seed_device_def Let_def)
qed (use inv cap in \<open>auto simp: restart_generation_def case_prod_unfold Let_def replace_snapshot_def apply_delta_def
       mark_instance_stale_def mark_device_stale_def reconcile_capabilities_def stale_where_capped
       intro: order_trans [OF write_entry_stale]\<close>)

definition state_run :: "string \<Rightarrow> 8 word list \<Rightarrow> state_op list \<Rightarrow> store" where
  "state_run epoch secret ops = fold state_step ops (new_store epoch secret)"

lemma state_run_append: "state_run epoch secret (ops @ ops') = fold state_step ops' (state_run epoch secret ops)"
  by (simp add: state_run_def)

lemma state_run_inv:
  "store_inv (state_run epoch secret ops) \<and> length (stale_entries (state_run epoch secret ops)) \<le> max_stale_entries"
proof -
  have "store_inv st \<and> length (stale_entries st) \<le> max_stale_entries \<Longrightarrow>
      store_inv (fold state_step ops st) \<and> length (stale_entries (fold state_step ops st)) \<le> max_stale_entries" for st
  proof (induction ops arbitrary: st)
    case (Cons op ops)
    with state_step_good [of st op] state_step_capped [of st op] show ?case by (simp add: good_step_def)
  qed simp
  moreover have "stale_entries (new_store epoch secret) = []" by (simp add: stale_entries_def new_store_def)
  ultimately show ?thesis using new_store_inv by (simp add: state_run_def)
qed

section \<open>The fresh part\<close>

definition fresh_map :: "store \<Rightarrow> slot \<Rightarrow> device_state option" where
  "fresh_map st k = (case map_of (st_entries st) k of Some e \<Rightarrow> if ds_quality e = Fresh then Some e else None | None \<Rightarrow> None)"

lemma fresh_map_iff: "fresh_map st k = Some e \<longleftrightarrow> map_of (st_entries st) k = Some e \<and> ds_quality e = Fresh"
  by (auto simp: fresh_map_def split: option.splits)

lemma fresh_next [simp]: "fresh_map (fst (next_revision st)) = fresh_map st"
  by (simp add: fresh_map_def next_revision_def fun_eq_iff)

lemma fresh_bump [simp]: "fresh_map (fst (bump_generation owner st)) = fresh_map st"
  by (simp add: fresh_map_def bump_generation_def Let_def fun_eq_iff)

lemma fresh_put:
  "store_inv st \<Longrightarrow> fresh_map (put_entry k e (fst (next_revision st)))
     = (fresh_map st)(k := if ds_quality e = Fresh then Some e else None)"
  by (auto simp: fresh_map_def put_entry_def next_revision_def bt.find_put store_inv_wf fun_eq_iff)

lemma fresh_flip: "store_inv st \<Longrightarrow> fresh_map (flip_stale now k st) = (fresh_map st)(k := None)"
proof (cases "map_of (st_entries st) k")
  case (Some e)
  assume "store_inv st"
  then show ?thesis using Some by (simp add: flip_stale_def case_prod_unfold Let_def fresh_put)
qed (auto simp: flip_stale_def fresh_map_def fun_eq_iff)

lemma fresh_flips: "store_inv st \<Longrightarrow> fresh_map (fold (flip_stale now) ks st) = (\<lambda>k. if k \<in> set ks then None else fresh_map st k)"
proof (induction ks arbitrary: st)
  case (Cons k ks)
  have "store_inv (flip_stale now k st)" using flip_stale_good [OF Cons.prems] by (simp add: good_step_def)
  from Cons.IH [OF this] show ?case by (auto simp: fresh_flip [OF Cons.prems] fun_eq_iff)
qed simp

lemma fresh_evict: "store_inv st \<Longrightarrow> evictable st v \<Longrightarrow> fresh_map (evict_one v st) = fresh_map st"
  by (cases v) (auto simp: fresh_map_def evictable_def evict_one_def bt.find_drop store_inv_wf fun_eq_iff)

lemma fresh_evicts:
  assumes "store_inv st" and "\<forall>v \<in> set vs. evictable st v" and "distinct (map snd vs)"
  shows "fresh_map (fold evict_one vs st) = fresh_map st"
  using assms
proof (induction vs arbitrary: st)
  case (Cons v vs)
  have inv: "store_inv (evict_one v st)"
    using evict_fold_good [OF Cons.prems(1), of "[v]"] Cons.prems(2) by (simp add: good_step_def)
  have "evictable (evict_one v st) u" if "u \<in> set vs" for u
  proof (rule evict_one_keeps [OF Cons.prems(1)])
    show "evictable st u" using Cons.prems(2) that by simp
    show "snd u \<noteq> snd v" using Cons.prems(3) that by (metis distinct.simps(2) image_eqI list.set_map list.simps(9))
  qed
  with Cons.IH [OF inv] Cons.prems fresh_evict [OF Cons.prems(1), of v] show ?case by simp
qed simp

lemma fresh_enforce:
  assumes inv: "store_inv st"
  shows "fresh_map (enforce_stale_cap st) = fresh_map st"
proof -
  let ?vs = "take (length (stale_entries st) - max_stale_entries) (by_age st)"
  have "\<forall>v \<in> set ?vs. evictable st v" using by_age_evictable [OF inv] by (blast dest: in_set_takeD)
  moreover have "distinct (map snd ?vs)" using by_age_distinct [OF inv] by (simp add: take_map [symmetric])
  ultimately have "fresh_map (fold evict_one ?vs st) = fresh_map st" by (rule fresh_evicts [OF inv])
  then show ?thesis unfolding enforce_stale_cap_def Let_def by_age_def [symmetric] by simp
qed

text \<open>A sweep takes exactly the entries it selects out of the fresh part.\<close>

lemma fresh_stale_where:
  assumes inv: "store_inv st"
  shows "fresh_map (fst (stale_where_locked now p st)) =
    (\<lambda>k. case fresh_map st k of Some e \<Rightarrow> if p k e then None else Some e | None \<Rightarrow> None)"
proof -
  let ?keys = "map fst (filter (\<lambda>(k, e). p k e) (st_entries st))"
  have "fresh_map (fst (stale_where_locked now p st)) = (\<lambda>k. if k \<in> set ?keys then None else fresh_map st k)"
    unfolding stale_where_locked_def Let_def fst_conv fresh_enforce [OF flips_inv [OF inv]] fresh_flips [OF inv] ..
  moreover have "k \<in> set ?keys \<longleftrightarrow> (\<exists>e. map_of (st_entries st) k = Some e \<and> p k e)" for k
    using bt_wf_distinct [OF store_inv_wf [OF inv]] by force
  ultimately show ?thesis by (auto simp: fun_eq_iff fresh_map_def split: option.splits)
qed

section \<open>What an instance keeps fresh\<close>

definition fresh_weight :: "string \<Rightarrow> device_state \<Rightarrow> nat" where
  "fresh_weight owner e = (if ds_owner e = owner then fields_byte_estimate (ds_fields e) else 0)"

definition map_total :: "(device_state \<Rightarrow> nat) \<Rightarrow> (slot \<Rightarrow> device_state option) \<Rightarrow> nat" where
  "map_total w m = (\<Sum>k \<in> dom m. w (the (m k)))"

lemma fresh_finite [simp]: "finite (dom (fresh_map st))"
  by (rule finite_subset [OF _ finite_dom_map_of [of "st_entries st"]]) (auto simp: fresh_map_def split: option.splits)

lemma map_total_put:
  assumes "finite (dom m)"
  shows "map_total w (m(k \<mapsto> e)) + (case m k of Some e' \<Rightarrow> w e' | None \<Rightarrow> 0) = map_total w m + w e"
proof -
  have put: "map_total w (m(k \<mapsto> e)) = w e + (\<Sum>k \<in> dom m - {k}. w (the (m k)))"
    unfolding map_total_def using assms
    by (simp add: sum.insert_remove insert_Diff_if)
  show ?thesis
  proof (cases "m k")
    case (Some e')
    then have "k \<in> dom m" by blast
    from sum.remove [OF assms this, of "\<lambda>k. w (the (m k))"] Some put show ?thesis by (simp add: map_total_def)
  next
    case None
    then have "dom m - {k} = dom m" by blast
    with None put show ?thesis by (simp add: map_total_def)
  qed
qed

text \<open>The sum the admission takes over the entries is the sum over the fresh part.\<close>

lemma sum_list_distinct_keys:
  assumes "distinct (map fst m)"
  shows "sum_list (map (\<lambda>(k, e). f k e) m) = (\<Sum>k \<in> dom (map_of m). f k (the (map_of m k)))"
  using assms
proof (induction m)
  case (Cons p m)
  obtain k e where p: "p = (k, e)" by (cases p)
  with Cons.prems have new: "k \<notin> dom (map_of m)" by (simp add: dom_map_of_conv_image_fst)
  have "(\<Sum>x \<in> dom (map_of m). f x (the (((map_of m)(k \<mapsto> e)) x))) = (\<Sum>x \<in> dom (map_of m). f x (the (map_of m x)))"
    by (rule sum.cong) (use new in auto)
  with Cons new p show ?case by (simp add: finite_dom_map_of fun_upd_same del: fun_upd_apply)
qed simp

lemma instance_bytes_fresh:
  assumes inv: "store_inv st"
  shows "instance_bytes st owner = map_total (fresh_weight owner) (fresh_map st)"
proof -
  let ?f = "\<lambda>k e. if ds_owner e = owner \<and> ds_quality e = Fresh then fields_byte_estimate (ds_fields e) else 0"
  let ?m = "map_of (st_entries st)"
  have "instance_bytes st owner = sum_list (map (\<lambda>(k, e). ?f k e) (st_entries st))"
    by (simp add: instance_bytes_def sum_list_map_filter' case_prod_unfold)
  also have "\<dots> = (\<Sum>k \<in> dom ?m. ?f k (the (?m k)))"
    by (rule sum_list_distinct_keys [OF bt_wf_distinct [OF store_inv_wf [OF inv]]])
  also have "\<dots> = (\<Sum>k \<in> dom (fresh_map st). ?f k (the (?m k)))"
    by (rule sum.mono_neutral_right) (auto simp: finite_dom_map_of fresh_map_def split: option.splits if_splits)
  also have "\<dots> = map_total (fresh_weight owner) (fresh_map st)"
    unfolding map_total_def by (rule sum.cong) (auto simp: fresh_map_def fresh_weight_def split: option.splits if_splits)
  finally show ?thesis .
qed

lemma fresh_bytes_map: "fresh_bytes (map_of (st_entries st) k) = (case fresh_map st k of Some e \<Rightarrow> fields_byte_estimate (ds_fields e) | None \<Rightarrow> 0)"
  by (simp add: fresh_bytes_def fresh_map_def split: option.split)

lemma max_instance_small: "max_projected_bytes_per_instance < u64_top"
  by (simp add: max_projected_bytes_per_instance_def u64_top_def)

lemma check_instance_caps_Ok:
  "check_instance_caps st owner old projected = Ok () \<longleftrightarrow> instance_bytes st owner - old + projected \<le> max_projected_bytes_per_instance"
  using max_instance_small by (auto simp: check_instance_caps_def Let_def saturating_add_def min_def)

text \<open>The slots of a device that belong to an instance.\<close>

definition slots_owned :: "store \<Rightarrow> string \<Rightarrow> string \<Rightarrow> bool" where
  "slots_owned st dev owner = (\<forall>cap e. fresh_map st (dev, cap) = Some e \<longrightarrow> ds_owner e = owner)"

text \<open>A write of fields that fit, to a slot of the instance, adds what it says.\<close>

lemma write_fresh:
  "store_inv st \<Longrightarrow> fresh_map (write_entry merge dev owner cap given ob re st) =
     (fresh_map st)((dev, cap) \<mapsto>
        \<lparr>ds_device = dev, ds_capability = cap,
         ds_fields = truncate_to_byte_cap (final_fields (map_of (st_entries st) (dev, cap)) merge (generation_of st owner) given),
         ds_revision = global_revision st + 1, ds_received = re, ds_observed = ob, ds_generation = generation_of st owner,
         ds_owner = owner, ds_quality = Fresh\<rparr>)"
  unfolding write_entry_def Let_def case_prod_unfold by (simp add: fresh_put) (simp add: next_revision_def)

lemma put_instance_bytes:
  assumes inv: "store_inv st" and inv': "store_inv st'" and put: "fresh_map st' = (fresh_map st)((dev, cap) \<mapsto> e)"
    and own: "slots_owned st dev owner" and e: "ds_owner e = owner"
  shows "instance_bytes st' owner + fresh_bytes (map_of (st_entries st) (dev, cap)) = instance_bytes st owner + fields_byte_estimate (ds_fields e)"
    and "o' \<noteq> owner \<Longrightarrow> instance_bytes st' o' = instance_bytes st o'"
proof -
  note t = map_total_put [OF fresh_finite, where k = "(dev, cap)" and e = e]
  have "(case fresh_map st (dev, cap) of Some e' \<Rightarrow> fresh_weight owner e' | None \<Rightarrow> 0) = fresh_bytes (map_of (st_entries st) (dev, cap))"
    using own unfolding fresh_bytes_map slots_owned_def by (auto simp: fresh_weight_def split: option.splits)
  with t [of "fresh_weight owner" st] e
  show "instance_bytes st' owner + fresh_bytes (map_of (st_entries st) (dev, cap)) = instance_bytes st owner + fields_byte_estimate (ds_fields e)"
    unfolding instance_bytes_fresh [OF inv] instance_bytes_fresh [OF inv'] put by (simp add: fresh_weight_def)
  assume "o' \<noteq> owner"
  moreover from this have "(case fresh_map st (dev, cap) of Some e' \<Rightarrow> fresh_weight o' e' | None \<Rightarrow> 0) = 0"
    using own unfolding slots_owned_def by (auto simp: fresh_weight_def split: option.splits)
  ultimately show "instance_bytes st' o' = instance_bytes st o'"
    using t [of "fresh_weight o'" st] e
    unfolding instance_bytes_fresh [OF inv] instance_bytes_fresh [OF inv'] put by (simp add: fresh_weight_def)
qed

section \<open>Admission is exact\<close>

definition delta_baseline :: "store \<Rightarrow> string \<Rightarrow> string \<Rightarrow> string \<Rightarrow> key_value list" where
  "delta_baseline st dev owner cap =
     (case map_of (st_entries st) (dev, cap) of
        Some e \<Rightarrow> if mergeable (generation_of st owner) e then ds_fields e else []
      | None \<Rightarrow> [])"

lemma baseline_distinct: "store_inv st \<Longrightarrow> keys_distinct (delta_baseline st dev owner cap)"
  using store_inv_entry [of st "(dev, cap)"] by (auto simp: delta_baseline_def entry_wf_def split: option.split)

lemma replaced_fits: "slot_fits (merge_fields_unbounded [] given) \<Longrightarrow> replaced_fields given = merge_fields_unbounded [] given"
  by (simp add: replaced_fields_def slot_fits_def)

lemma truncate_fits: "slot_fits fs \<Longrightarrow> truncate_to_byte_cap fs = fs"
  by (simp add: truncate_to_byte_cap_def slot_fits_def)

lemma final_fits:
  assumes "slot_fits (merge_fields_unbounded (delta_baseline st dev owner cap) given)"
  shows "truncate_to_byte_cap (final_fields (map_of (st_entries st) (dev, cap)) True (generation_of st owner) given)
    = merge_fields_unbounded (delta_baseline st dev owner cap) given"
proof (cases "\<exists>e. map_of (st_entries st) (dev, cap) = Some e \<and> mergeable (generation_of st owner) e")
  case True
  then obtain e where e: "map_of (st_entries st) (dev, cap) = Some e" "mergeable (generation_of st owner) e" by blast
  then have base: "delta_baseline st dev owner cap = ds_fields e" by (simp add: delta_baseline_def)
  have "merge_fields (ds_fields e) given = (merge_fields_unbounded (ds_fields e) given, 0)"
    unfolding merge_fields_def using assms unfolding base slot_fits_def by (intro merge_fields_fits) simp
  with e base assms show ?thesis by (simp add: final_fields_def truncate_fits)
next
  case False
  then have base: "delta_baseline st dev owner cap = []" by (auto simp: delta_baseline_def split: option.split)
  have "final_fields (map_of (st_entries st) (dev, cap)) True (generation_of st owner) given = replaced_fields given"
    using False by (auto simp: final_fields_def split: option.split)
  with assms show ?thesis unfolding base by (simp add: replaced_fits truncate_fits)
qed

lemma delta_admitted:
  assumes inv: "store_inv st" and own: "slots_owned st dev owner"
    and size: "fields_byte_estimate (delta_baseline st dev owner cap) + fields_byte_estimate given \<le> u64_top"
    and ok: "check_delta_admission dev owner cap given st = Ok ()"
    and st'_def: "st' = apply_delta dev owner cap given ob re st"
  shows "\<exists>e. fresh_map st' = (fresh_map st)((dev, cap) \<mapsto> e) \<and> ds_owner e = owner \<and> slot_fits (ds_fields e)
      \<and> ds_fields e = merge_fields_unbounded (delta_baseline st dev owner cap) given"
    and "instance_bytes st' owner \<le> max_projected_bytes_per_instance"
    and "o' \<noteq> owner \<Longrightarrow> instance_bytes st' o' = instance_bytes st o'"
proof -
  from ok obtain n b where proj: "projected_slot_size (delta_baseline st dev owner cap) given = Ok (n, b)"
    and caps: "check_instance_caps st owner (fresh_bytes (map_of (st_entries st) (dev, cap))) b = Ok ()"
    unfolding check_delta_admission_def Let_def delta_baseline_def by (auto simp: bind_result_Ok_iff)
  from projected_size_Ok [OF baseline_distinct [OF inv] size proj]
  have fits: "slot_fits (merge_fields_unbounded (delta_baseline st dev owner cap) given)"
    and b: "b = fields_byte_estimate (merge_fields_unbounded (delta_baseline st dev owner cap) given)" by blast+
  note put = write_fresh [OF inv, of True dev owner cap given ob re, unfolded final_fits [OF fits], folded apply_delta_def st'_def]
  have inv': "store_inv st'" using write_entry_good [OF inv] by (simp add: st'_def apply_delta_def good_step_def)
  note bytes = put_instance_bytes [OF inv inv' put own]
  show "\<exists>e. fresh_map st' = (fresh_map st)((dev, cap) \<mapsto> e) \<and> ds_owner e = owner \<and> slot_fits (ds_fields e)
      \<and> ds_fields e = merge_fields_unbounded (delta_baseline st dev owner cap) given"
    by (rule exI, intro conjI, rule put) (simp_all add: fits)
  show "o' \<noteq> owner \<Longrightarrow> instance_bytes st' o' = instance_bytes st o'" by (rule bytes(2)) simp_all
  from bytes(1) caps show "instance_bytes st' owner \<le> max_projected_bytes_per_instance"
    unfolding check_instance_caps_Ok b by simp
qed

subsection \<open>Registration\<close>

lemma map_total_split:
  assumes "finite (dom m)"
  shows "map_total w m = map_total w (\<lambda>k. if p k then m k else None) + map_total w (\<lambda>k. if p k then None else m k)"
proof -
  have "map_total w (\<lambda>k. if p k then m k else None) = (\<Sum>k \<in> {k \<in> dom m. p k}. w (the (m k)))"
    unfolding map_total_def by (rule sum.cong) (auto split: if_splits)
  moreover have "map_total w (\<lambda>k. if p k then None else m k) = (\<Sum>k \<in> {k \<in> dom m. \<not> p k}. w (the (m k)))"
    unfolding map_total_def by (rule sum.cong) (auto split: if_splits)
  moreover have "(\<Sum>k \<in> {k \<in> dom m. p k} \<union> {k \<in> dom m. \<not> p k}. w (the (m k)))
      = (\<Sum>k \<in> {k \<in> dom m. p k}. w (the (m k))) + (\<Sum>k \<in> {k \<in> dom m. \<not> p k}. w (the (m k)))"
    by (rule sum.union_disjoint) (use assms in auto)
  moreover have "{k \<in> dom m. p k} \<union> {k \<in> dom m. \<not> p k} = dom m" by blast
  ultimately show ?thesis by (simp add: map_total_def)
qed

lemma map_total_zero: "(\<And>k e. m k = Some e \<Longrightarrow> w e = 0) \<Longrightarrow> map_total w m = 0"
  unfolding map_total_def by (rule sum.neutral) auto

lemma map_total_cong: "(\<And>k e. m k = Some e \<Longrightarrow> w e = w' e) \<Longrightarrow> map_total w m = map_total w' m"
  unfolding map_total_def by (rule sum.cong) auto

lemma device_bytes_fresh:
  assumes inv: "store_inv st"
  shows "device_bytes dev st = map_total (\<lambda>e. fields_byte_estimate (ds_fields e)) (\<lambda>k. if fst k = dev then fresh_map st k else None)"
proof -
  let ?f = "\<lambda>k e. if fst k = dev \<and> ds_quality e = Fresh then fields_byte_estimate (ds_fields e) else 0"
  let ?m = "map_of (st_entries st)"
  have "device_bytes dev st = sum_list (map (\<lambda>(k, e). ?f k e) (st_entries st))"
    by (simp add: device_bytes_def sum_list_map_filter' case_prod_unfold)
  also have "\<dots> = (\<Sum>k \<in> dom ?m. ?f k (the (?m k)))"
    by (rule sum_list_distinct_keys [OF bt_wf_distinct [OF store_inv_wf [OF inv]]])
  also have "\<dots> = (\<Sum>k \<in> dom (\<lambda>k. if fst k = dev then fresh_map st k else None). ?f k (the (?m k)))"
    by (rule sum.mono_neutral_right) (auto simp: finite_dom_map_of fresh_map_def split: option.splits if_splits)
  also have "\<dots> = map_total (\<lambda>e. fields_byte_estimate (ds_fields e)) (\<lambda>k. if fst k = dev then fresh_map st k else None)"
    unfolding map_total_def by (rule sum.cong) (auto simp: fresh_map_def split: option.splits if_splits)
  finally show ?thesis .
qed

lemma seed_bytes_Ok:
  assumes "seed_bytes seeds t = Ok n" and "n \<le> max_projected_bytes_per_instance"
    and "\<forall>(cap, given) \<in> set seeds. fields_byte_estimate given \<le> u64_top"
  shows "n = t + sum_list (map (\<lambda>(cap, given). fields_byte_estimate (merge_fields_unbounded [] given)) seeds)
    \<and> (\<forall>(cap, given) \<in> set seeds. slot_fits (merge_fields_unbounded [] given))"
  using assms
proof (induction seeds arbitrary: t)
  case (Cons s seeds)
  obtain cap given where s: "s = (cap, given)" by (cases s)
  with Cons.prems(1) obtain k b where proj: "projected_slot_size [] given = Ok (k, b)" and rest: "seed_bytes seeds (saturating_add t b) = Ok n"
    by (auto simp: bind_result_Ok_iff)
  have "slot_fits (merge_fields_unbounded [] given) \<and> b = fields_byte_estimate (merge_fields_unbounded [] given)"
    using projected_size_Ok [OF _ _ proj] Cons.prems(3) s by simp
  moreover from Cons.IH [OF rest Cons.prems(2)] Cons.prems(3)
  have ih: "n = saturating_add t b + sum_list (map (\<lambda>(cap, given). fields_byte_estimate (merge_fields_unbounded [] given)) seeds)"
    "\<forall>(cap, given) \<in> set seeds. slot_fits (merge_fields_unbounded [] given)" by simp_all
  moreover have "saturating_add t b = t + b"
    using ih(1) Cons.prems(2) max_instance_small by (auto simp: saturating_add_def min_def split: if_splits)
  ultimately show ?case by (simp add: s)
qed simp

definition seeded :: "string \<Rightarrow> string \<Rightarrow> nat \<Rightarrow> nat \<Rightarrow> int \<Rightarrow> store \<Rightarrow> string \<times> key_value list \<Rightarrow> device_state" where
  "seeded dev owner generation ob re st = (\<lambda>(cap, given).
     \<lparr>ds_device = dev, ds_capability = cap, ds_fields = replaced_fields given, ds_revision = global_revision st + 1,
      ds_received = re, ds_observed = ob, ds_generation = generation, ds_owner = owner, ds_quality = Fresh\<rparr>)"

lemma seed_fresh:
  "store_inv st \<Longrightarrow> fresh_map (seed_slot dev owner g ob re seed st) = (fresh_map st)((dev, fst seed) \<mapsto> seeded dev owner g ob re st seed)"
  unfolding seed_slot_def Let_def case_prod_unfold by (simp add: fresh_put) (simp add: next_revision_def seeded_def case_prod_unfold)

text \<open>Seeding slots that are not fresh yet.\<close>

lemma seeds_admitted:
  assumes "store_inv st" and "distinct (map fst seeds)" and "\<forall>s \<in> set seeds. slot_fits (merge_fields_unbounded [] (snd s))"
    and "\<forall>s \<in> set seeds. fresh_map st (dev, fst s) = None" and "slots_owned st dev owner"
    and "st' = fold (seed_slot dev owner g ob re) seeds st"
  shows "store_inv st'
    \<and> instance_bytes st' owner = instance_bytes st owner + sum_list (map (\<lambda>s. fields_byte_estimate (merge_fields_unbounded [] (snd s))) seeds)
    \<and> (\<forall>o'. o' \<noteq> owner \<longrightarrow> instance_bytes st' o' = instance_bytes st o')
    \<and> (\<forall>s \<in> set seeds. \<exists>e. fresh_map st' (dev, fst s) = Some e \<and> ds_owner e = owner \<and> ds_fields e = merge_fields_unbounded [] (snd s))
    \<and> (\<forall>k. k \<notin> (\<lambda>s. (dev, fst s)) ` set seeds \<longrightarrow> fresh_map st' k = fresh_map st k)"
  using assms
proof (induction seeds arbitrary: st)
  case (Cons s seeds)
  let ?st = "seed_slot dev owner g ob re s st" and ?e = "seeded dev owner g ob re st s"
  have inv: "store_inv ?st" using seed_slot_good [OF Cons.prems(1)] by (simp add: good_step_def)
  note put = seed_fresh [OF Cons.prems(1), of dev owner g ob re s]
  have e: "ds_owner ?e = owner" "ds_fields ?e = merge_fields_unbounded [] (snd s)" "ds_quality ?e = Fresh"
    using Cons.prems(3) by (simp_all add: seeded_def case_prod_unfold replaced_fits)
  have none: "fresh_map st (dev, fst s) = None" using Cons.prems(4) by simp
  then have zero: "fresh_bytes (map_of (st_entries st) (dev, fst s)) = 0" unfolding fresh_bytes_map by simp
  have bytes: "instance_bytes ?st owner = instance_bytes st owner + fields_byte_estimate (merge_fields_unbounded [] (snd s))"
    "o' \<noteq> owner \<Longrightarrow> instance_bytes ?st o' = instance_bytes st o'" for o'
    using put_instance_bytes [OF Cons.prems(1) inv put Cons.prems(5) e(1)] zero e(2) by simp_all
  have own: "slots_owned ?st dev owner" using Cons.prems(5) e(1) unfolding slots_owned_def put by simp
  have left: "\<forall>u \<in> set seeds. fresh_map ?st (dev, fst u) = None"
  proof
    fix u
    assume u: "u \<in> set seeds"
    then have "fst u \<noteq> fst s" using Cons.prems(2) by (metis distinct.simps(2) image_eqI list.set_map list.simps(9))
    with u Cons.prems(4) show "fresh_map ?st (dev, fst u) = None" unfolding put by simp
  qed
  have ih: "store_inv st' \<and> instance_bytes st' owner = instance_bytes ?st owner + sum_list (map (\<lambda>s. fields_byte_estimate (merge_fields_unbounded [] (snd s))) seeds)
    \<and> (\<forall>o'. o' \<noteq> owner \<longrightarrow> instance_bytes st' o' = instance_bytes ?st o')
    \<and> (\<forall>s \<in> set seeds. \<exists>e. fresh_map st' (dev, fst s) = Some e \<and> ds_owner e = owner \<and> ds_fields e = merge_fields_unbounded [] (snd s))
    \<and> (\<forall>k. k \<notin> (\<lambda>s. (dev, fst s)) ` set seeds \<longrightarrow> fresh_map st' k = fresh_map ?st k)"
    by (rule Cons.IH [OF inv _ _ left own]) (use Cons.prems in simp_all)
  have "(dev, fst s) \<notin> (\<lambda>s. (dev, fst s)) ` set seeds" using Cons.prems(2) by auto
  with ih have here: "fresh_map st' (dev, fst s) = Some ?e" using put by simp
  have rest: "fresh_map st' k = fresh_map st k" if "k \<notin> (\<lambda>s. (dev, fst s)) ` set (s # seeds)" for k
  proof -
    have "k \<notin> (\<lambda>s. (dev, fst s)) ` set seeds" using that by simp
    with ih have "fresh_map st' k = fresh_map ?st k" by blast
    moreover have "k \<noteq> (dev, fst s)" using that by simp
    ultimately show ?thesis unfolding put fun_upd_def by simp
  qed
  show ?case using ih here rest e bytes by auto
qed simp

lemma register_admitted:
  assumes inv: "store_inv st" and own: "slots_owned st dev owner" and caps: "distinct (map fst seeds)"
    and size: "\<forall>(cap, given) \<in> set seeds. fields_byte_estimate given \<le> u64_top"
    and ok: "check_instance_register_admission dev owner seeds st = Ok ()"
    and st'_def: "st' = reset_and_seed_device dev owner seeds ob re st"
  shows "instance_bytes st' owner \<le> max_projected_bytes_per_instance"
    and "o' \<noteq> owner \<Longrightarrow> instance_bytes st' o' = instance_bytes st o'"
    and "s \<in> set seeds \<Longrightarrow> \<exists>e. fresh_map st' (dev, fst s) = Some e \<and> ds_owner e = owner
      \<and> ds_fields e = merge_fields_unbounded [] (snd s) \<and> slot_fits (ds_fields e)"
    and "cap \<notin> fst ` set seeds \<Longrightarrow> fresh_map st' (dev, cap) = None"
    and "dev' \<noteq> dev \<Longrightarrow> fresh_map st' (dev', cap) = fresh_map st (dev', cap)"
proof -
  let ?p = "\<lambda>k e. fst k = dev \<and> ds_quality e = Fresh"
  let ?st1 = "fst (stale_where_locked re ?p st)"
  from ok obtain n where n: "seed_bytes seeds 0 = Ok n" "check_instance_caps st owner (device_bytes dev st) n = Ok ()"
    by (auto simp: check_instance_register_admission_def bind_result_Ok_iff)
  from n(2) have room: "instance_bytes st owner - device_bytes dev st + n \<le> max_projected_bytes_per_instance"
    by (simp add: check_instance_caps_Ok)
  have sum: "n = sum_list (map (\<lambda>s. fields_byte_estimate (merge_fields_unbounded [] (snd s))) seeds)"
    and fits: "\<forall>s \<in> set seeds. slot_fits (merge_fields_unbounded [] (snd s))"
    using seed_bytes_Ok [OF n(1) _ size] room by (auto simp: case_prod_unfold)
  have inv1: "store_inv ?st1" using stale_where_good [OF inv] by (simp add: good_step_def)
  have fresh1: "fresh_map ?st1 = (\<lambda>k. if fst k = dev then None else fresh_map st k)"
  proof
    fix k
    show "fresh_map ?st1 k = (if fst k = dev then None else fresh_map st k)"
      unfolding fresh_stale_where [OF inv] 
    proof (cases "fresh_map st k")
      case (Some e)
      then have "ds_quality e = Fresh" by (simp add: fresh_map_iff)
      with Some show "(case fresh_map st k of Some e \<Rightarrow> if ?p k e then None else Some e | None \<Rightarrow> None)
          = (if fst k = dev then None else fresh_map st k)" by simp
    qed simp
  qed
  have split: "instance_bytes st o' = map_total (fresh_weight o') (\<lambda>k. if fst k = dev then fresh_map st k else None) + instance_bytes ?st1 o'" for o'
    unfolding instance_bytes_fresh [OF inv] instance_bytes_fresh [OF inv1] fresh1 by (rule map_total_split [OF fresh_finite])
  have mine: "map_total (fresh_weight owner) (\<lambda>k. if fst k = dev then fresh_map st k else None) = device_bytes dev st"
    unfolding device_bytes_fresh [OF inv] using own
    by (intro map_total_cong) (auto simp: fresh_weight_def slots_owned_def split: if_splits)
  have other: "map_total (fresh_weight o') (\<lambda>k. if fst k = dev then fresh_map st k else None) = 0" if "o' \<noteq> owner" for o'
    using own that by (intro map_total_zero) (auto simp: fresh_weight_def slots_owned_def split: if_splits)
  have st': "st' = fold (seed_slot dev owner (generation_of ?st1 owner) ob re) seeds ?st1"
    by (simp add: st'_def reset_and_seed_device_def Let_def)
  have none: "\<forall>s \<in> set seeds. fresh_map ?st1 (dev, fst s) = None" by (simp add: fresh1)
  have own1: "slots_owned ?st1 dev owner" by (simp add: slots_owned_def fresh1)
  note seeds = seeds_admitted [OF inv1 caps fits none own1 st']
  show "instance_bytes st' owner \<le> max_projected_bytes_per_instance"
    using seeds split [of owner] mine room sum by simp
  show "instance_bytes st' o' = instance_bytes st o'" if "o' \<noteq> owner"
    using seeds split [of o'] other that by simp
  show "\<exists>e. fresh_map st' (dev, fst s) = Some e \<and> ds_owner e = owner
      \<and> ds_fields e = merge_fields_unbounded [] (snd s) \<and> slot_fits (ds_fields e)" if "s \<in> set seeds"
    using seeds fits that by force
  show "fresh_map st' (dev, cap) = None" if "cap \<notin> fst ` set seeds"
  proof -
    have "(dev, cap) \<notin> (\<lambda>s. (dev, fst s)) ` set seeds" using that by auto
    with seeds show ?thesis by (simp add: fresh1)
  qed
  show "fresh_map st' (dev', cap) = fresh_map st (dev', cap)" if "dev' \<noteq> dev"
  proof -
    have "(dev', cap) \<notin> (\<lambda>s. (dev, fst s)) ` set seeds" using that by auto
    with seeds have "fresh_map st' (dev', cap) = fresh_map ?st1 (dev', cap)" by blast
    with that show ?thesis by (simp add: fresh1)
  qed
qed

end
