(* ===== verification/Signed_Text.thy ===== *)
theory Signed_Text
  imports Numerals
begin

text \<open>
  Texts signed with a truncated HMAC, as the resync cursor (\<^verbatim>\<open>state/device_state.rs\<close>) and the UI ticket
  (\<^verbatim>\<open>api/ui_ticket.rs\<close>) use them: the two files carry the same \<^verbatim>\<open>hmac_sha256\<close>, hexadecimal rendering and comparison.
  SHA-256 is the parameter \<open>sha\<close>; what the code relies on is that it returns 32 bytes.
\<close>

type_synonym digest = "8 word list \<Rightarrow> 8 word list"

definition digest_size :: "digest \<Rightarrow> bool" where
  "digest_size sha = (\<forall>m. length (sha m) = 32)"

section \<open>Operations\<close>

definition padded_key :: "8 word list \<Rightarrow> 8 word list" where
  "padded_key key = key @ replicate (64 - length key) 0"

definition hmac_sha256 :: "digest \<Rightarrow> 8 word list \<Rightarrow> 8 word list \<Rightarrow> 8 word list" where
  "hmac_sha256 sha key msg =
     (let ipad = map (\<lambda>b. xor 0x36 b) (padded_key key);
          opad = map (\<lambda>b. xor 0x5c b) (padded_key key)
      in sha (opad @ sha (ipad @ msg)))"

definition mac_of :: "digest \<Rightarrow> 8 word list \<Rightarrow> string \<Rightarrow> 8 word list" where
  "mac_of sha key payload = take 16 (hmac_sha256 sha key (string_bytes payload))"

text \<open>\<^verbatim>\<open>chunks(2)\<close>, each read by \<^verbatim>\<open>u8::from_str_radix(_, 16)\<close>; a chunk that is not UTF-8 is no number either.\<close>

fun read_mac :: "string \<Rightarrow> 8 word list option" where
  "read_mac [] = Some []"
| "read_mac [c] = (case parse_uint 16 255 [c] of Ok n \<Rightarrow> Some [of_nat n] | Err _ \<Rightarrow> None)"
| "read_mac (c # d # cs) =
     (case parse_uint 16 255 [c, d] of
        Ok n \<Rightarrow> map_option ((#) (of_nat n)) (read_mac cs)
      | Err _ \<Rightarrow> None)"

definition constant_time_eq :: "8 word list \<Rightarrow> 8 word list \<Rightarrow> bool" where
  "constant_time_eq a b =
     (length a = length b \<and> fold (\<lambda>i diff. or diff (xor (a ! i) (b ! i))) [0..<length a] 0 = 0)"

definition signed :: "digest \<Rightarrow> 8 word list \<Rightarrow> char \<Rightarrow> string \<Rightarrow> string" where
  "signed sha key sep payload = payload @ sep # hex_bytes (mac_of sha key payload)"

section \<open>Lemmas\<close>

lemma hex_byte_not_in: "c \<notin> set ''0123456789abcdef'' \<Longrightarrow> c \<notin> set (hex_byte b)"
proof -
  assume c: "c \<notin> set ''0123456789abcdef''"
  obtain n where n: "n < 256" "hex_byte b = [digit_char (n div 16), digit_char (n mod 16)]"
    using hex_byte_nat by blast
  have "n div 16 < 16" "n mod 16 < 16" using n(1) by simp_all
  then show ?thesis unfolding n(2) using digit_char_neq [OF _ c] by (metis empty_iff empty_set set_ConsD)
qed

lemma hex_bytes_not_in: "c \<notin> set ''0123456789abcdef'' \<Longrightarrow> c \<notin> set (hex_bytes bs)"
  unfolding hex_bytes_def using hex_byte_not_in [of c] by auto

lemma read_mac_hex [simp]: "read_mac (hex_bytes bs) = Some bs"
proof (induction bs)
  case (Cons b bs)
  obtain c d where cd: "hex_byte b = [c, d]" by (simp add: hex_byte_def)
  have "parse_uint 16 255 [c, d] = Ok (unat b)" unfolding cd [symmetric] by simp
  with Cons cd show ?case by (simp add: hex_bytes_def)
qed (simp add: hex_bytes_def)

lemma or_fold_zero: "fold (\<lambda>i d. or d (f i)) xs (d :: 8 word) = 0 \<longleftrightarrow> d = 0 \<and> (\<forall>i \<in> set xs. f i = 0)"
proof (induction xs arbitrary: d)
  case (Cons x xs)
  have "or d (f x) = 0 \<longleftrightarrow> d = 0 \<and> f x = 0" by (simp add: or_eq_0_iff)
  with Cons.IH [of "or d (f x)"] show ?case by auto
qed simp

lemma constant_time_eq_iff: "constant_time_eq a b \<longleftrightarrow> a = b"
proof -
  have "xor x y = 0 \<longleftrightarrow> x = y" for x y :: "8 word"
  proof
    assume "xor x y = 0"
    then have "xor x (xor x y) = xor x 0" by (rule arg_cong)
    then show "x = y" by (simp add: xor.assoc [symmetric])
  qed simp
  then have "constant_time_eq a b \<longleftrightarrow> length a = length b \<and> (\<forall>i < length a. a ! i = b ! i)"
    by (auto simp add: constant_time_eq_def or_fold_zero)
  then show ?thesis unfolding list_eq_iff_nth_eq .
qed

lemma mac_length: "digest_size sha \<Longrightarrow> length (mac_of sha key p) = 16"
  by (simp add: digest_size_def mac_of_def hmac_sha256_def Let_def)

lemma signed_split:
  assumes "sep \<notin> set ''0123456789abcdef''"
  shows "rsplit_once sep (signed sha key sep payload) = Some (payload, hex_bytes (mac_of sha key payload))"
  using hex_bytes_not_in [OF assms] by (simp add: signed_def rsplit_once_Some_iff)

end
