(* ===== verification/Ui_Ticket.thy ===== *)
theory Ui_Ticket
  imports Signed_Text
begin

text \<open>
  \<^verbatim>\<open>crates/oxidhome-core/src/api/ui_ticket.rs\<close>: the short-lived tickets that open a plugin's UI.  A \<^verbatim>\<open>SystemTime\<close> is
  its nanoseconds since the epoch, negative before it; seconds are an \<^verbatim>\<open>i64\<close>, so an addition beyond them has no result.
\<close>

datatype ticket_error = BadTicket | Expired

definition ticket_ttl :: int where
  "ticket_ttl = 5 * 60 * 1000000000"

definition max_ticket_len :: nat where
  "max_ticket_len = 512"

definition checked_add_time :: "int \<Rightarrow> int \<Rightarrow> int option" where
  "checked_add_time t d = (if (t + d) div 1000000000 > i64_top then None else Some (t + d))"

text \<open>\<^verbatim>\<open>duration_since(UNIX_EPOCH)\<close> in whole milliseconds.\<close>

definition since_epoch_ms :: "int \<Rightarrow> nat option" where
  "since_epoch_ms t = (if t < 0 then None else Some (nat (t div 1000000)))"

definition issue_ticket :: "digest \<Rightarrow> 8 word list \<Rightarrow> string \<Rightarrow> string \<Rightarrow> int \<Rightarrow> string" where
  "issue_ticket sha secret plugin uuid now =
     (let expiry = (case Option.bind (checked_add_time now ticket_ttl) since_epoch_ms of
            None \<Rightarrow> 0
          | Some ms \<Rightarrow> if ms \<le> u64_top then ms else u64_top)
      in signed sha secret CHR ''~'' (show_nat expiry @ CHR ''~'' # plugin @ CHR ''~'' # uuid))"

definition verify_ticket :: "digest \<Rightarrow> 8 word list \<Rightarrow> string \<Rightarrow> int \<Rightarrow> ticket_error + string \<times> string" where
  "verify_ticket sha secret raw now =
     (if length raw > max_ticket_len then Err BadTicket
      else case rsplit_once CHR ''~'' raw of
          None \<Rightarrow> Err BadTicket
        | Some (payload, mac_hex) \<Rightarrow>
            (case split_once CHR ''~'' payload of
               None \<Rightarrow> Err BadTicket
             | Some (expiry_text, rest) \<Rightarrow>
                 (case split_once CHR ''~'' rest of
                    None \<Rightarrow> Err BadTicket
                  | Some (plugin, uuid) \<Rightarrow>
                      if expiry_text = [] \<or> plugin = [] \<or> uuid = [] \<or> length mac_hex \<noteq> 32 then Err BadTicket
                      else case parse_uint 10 u64_top expiry_text of
                          Err _ \<Rightarrow> Err BadTicket
                        | Ok expiry \<Rightarrow>
                            (case read_mac mac_hex of
                               None \<Rightarrow> Err BadTicket
                             | Some supplied \<Rightarrow>
                                 if \<not> constant_time_eq (mac_of sha secret payload) supplied then Err BadTicket
                                 else let now_ms = (case since_epoch_ms now of
                                          Some ms \<Rightarrow> if ms \<le> u64_top then ms else 0
                                        | None \<Rightarrow> 0)
                                      in if now_ms \<ge> expiry then Err Expired else Ok (plugin, uuid)))))"

section \<open>Properties\<close>

lemma issued_text:
  assumes "0 \<le> now" and "now < 2 ^ 80"
  shows "issue_ticket sha secret plugin uuid now =
    signed sha secret CHR ''~'' (show_nat (nat (now div 1000000) + 300000) @ CHR ''~'' # plugin @ CHR ''~'' # uuid)"
    and "nat (now div 1000000) + 300000 \<le> u64_top"
proof -
  have "(now + ticket_ttl) div 1000000000 \<le> i64_top" using assms by (simp add: ticket_ttl_def i64_top_def)
  moreover have "(now + ticket_ttl) div 1000000 = now div 1000000 + 300000" by (simp add: ticket_ttl_def)
  moreover have "0 \<le> now + ticket_ttl" using assms by (simp add: ticket_ttl_def)
  moreover have ms: "0 \<le> now div 1000000" using assms by simp
  ultimately have ex: "Option.bind (checked_add_time now ticket_ttl) since_epoch_ms = Some (nat (now div 1000000) + 300000)"
    by (simp add: checked_add_time_def since_epoch_ms_def nat_add_distrib)
  have "now div 1000000 + 300000 < 2 ^ 63" using assms by simp
  then show bound: "nat (now div 1000000) + 300000 \<le> u64_top" using ms by (simp add: u64_top_def nat_le_iff)
  show "issue_ticket sha secret plugin uuid now =
    signed sha secret CHR ''~'' (show_nat (nat (now div 1000000) + 300000) @ CHR ''~'' # plugin @ CHR ''~'' # uuid)"
    unfolding issue_ticket_def ex using bound by simp
qed

text \<open>
  A ticket lives five minutes.  Until 300000 milliseconds after it was issued, a ticket short enough to be read verifies to
  the plugin and the installation it was issued for, and from then on it is refused as expired.
\<close>

theorem ticket_lifetime:
  assumes sha: "digest_size sha" and issued: "0 \<le> issued" "issued < 2 ^ 80" and now: "0 \<le> now" "now < 2 ^ 80"
    and plugin: "plugin \<noteq> []" "CHR ''~'' \<notin> set plugin" and uuid: "uuid \<noteq> []"
    and size: "length (issue_ticket sha secret plugin uuid issued) \<le> max_ticket_len"
  shows "verify_ticket sha secret (issue_ticket sha secret plugin uuid issued) now =
    (if now div 1000000 < issued div 1000000 + 300000 then Ok (plugin, uuid) else Err Expired)"
proof -
  define expiry where "expiry = nat (issued div 1000000) + 300000"
  let ?payload = "show_nat expiry @ CHR ''~'' # plugin @ CHR ''~'' # uuid"
  have issued_is: "issue_ticket sha secret plugin uuid issued = signed sha secret CHR ''~'' ?payload" and bound: "expiry \<le> u64_top"
    using issued_text [OF issued] by (simp_all add: expiry_def)
  have split: "rsplit_once CHR ''~'' (signed sha secret CHR ''~'' ?payload) = Some (?payload, hex_bytes (mac_of sha secret ?payload))"
    by (rule signed_split) simp
  have parts: "split_once CHR ''~'' ?payload = Some (show_nat expiry, plugin @ CHR ''~'' # uuid)"
    "split_once CHR ''~'' (plugin @ CHR ''~'' # uuid) = Some (plugin, uuid)"
    using plugin by (auto intro!: split_once_append)
  have now_ms: "since_epoch_ms now = Some (nat (now div 1000000))" "nat (now div 1000000) \<le> u64_top"
    using now issued_text(2) [OF now] by (simp_all add: since_epoch_ms_def)
  have cmp: "nat (now div 1000000) \<ge> expiry \<longleftrightarrow> \<not> now div 1000000 < issued div 1000000 + 300000"
    using issued now by (simp add: expiry_def not_less nat_le_iff le_nat_iff pos_imp_zdiv_nonneg_iff)
  show ?thesis
    using size unfolding issued_is
    by (simp add: verify_ticket_def split parts mac_length [OF sha] plugin uuid bound constant_time_eq_iff now_ms Let_def cmp)
qed

text \<open>Whatever text is accepted carries the code of its own payload and has not expired.\<close>

lemma ticket_signed:
  assumes "verify_ticket sha secret raw now = Ok (plugin, uuid)"
  shows "\<exists>expiry_text mac expiry. raw = (expiry_text @ CHR ''~'' # plugin @ CHR ''~'' # uuid) @ CHR ''~'' # mac
    \<and> read_mac mac = Some (mac_of sha secret (expiry_text @ CHR ''~'' # plugin @ CHR ''~'' # uuid))
    \<and> parse_uint 10 u64_top expiry_text = Ok expiry"
proof -
  obtain payload mac where p: "rsplit_once CHR ''~'' raw = Some (payload, mac)"
    using assms by (auto simp: verify_ticket_def split: if_splits option.splits)
  obtain e rest where e: "split_once CHR ''~'' payload = Some (e, rest)"
    using assms p by (auto simp: verify_ticket_def split: if_splits option.splits)
  obtain a b where ab: "split_once CHR ''~'' rest = Some (a, b)"
    using assms p e by (auto simp: verify_ticket_def split: if_splits option.splits)
  obtain n where n: "parse_uint 10 u64_top e = Ok n"
    using assms p e ab by (auto simp: verify_ticket_def split: if_splits sum.splits)
  obtain m where m: "read_mac mac = Some m"
    using assms p e ab n by (auto simp: verify_ticket_def split: if_splits option.splits)
  have end_: "a = plugin \<and> b = uuid \<and> m = mac_of sha secret payload"
    using assms p e ab n m by (simp add: verify_ticket_def Let_def constant_time_eq_iff split: if_splits)
  have "raw = payload @ CHR ''~'' # mac" "payload = e @ CHR ''~'' # plugin @ CHR ''~'' # uuid"
    using p e ab end_ by (simp_all add: rsplit_once_Some_iff split_once_Some_iff)
  with n m end_ show ?thesis by blast
qed

theorem ticket_lifetime_witness:
  "verify_ticket (\<lambda>_. replicate 32 0) [] (issue_ticket (\<lambda>_. replicate 32 0) [] ''a.b'' ''u'' 0) 299999999999 = Ok (''a.b'', ''u'')
   \<and> verify_ticket (\<lambda>_. replicate 32 0) [] (issue_ticket (\<lambda>_. replicate 32 0) [] ''a.b'' ''u'' 0) 300000000000 = Err Expired"
proof -
  let ?sha = "\<lambda>_ :: 8 word list. replicate 32 (0 :: 8 word)"
  have sha: "digest_size ?sha" by (simp add: digest_size_def)
  have "show_nat 300000 = ''300000''" by (simp add: show_nat.simps digit_char_def)
  then have size: "length (issue_ticket ?sha [] ''a.b'' ''u'' 0) \<le> max_ticket_len"
    using issued_text(1) [of 0 ?sha "[]" "''a.b''" "''u''"] by (simp add: signed_def mac_length [OF sha] max_ticket_len_def)
  show ?thesis
    using ticket_lifetime [OF sha _ _ _ _ _ _ _ size, of 299999999999] ticket_lifetime [OF sha _ _ _ _ _ _ _ size, of 300000000000]
    by simp
qed

end
