(* ===== verification/State_Api.thy ===== *)
theory State_Api
  imports State_Limits Signed_Text Auth_Policy
begin

text \<open>
  How API clients read the device-state store: the signed resync cursor (\<^verbatim>\<open>state/device_state.rs\<close>) and the handlers of
  \<^verbatim>\<open>api/server.rs\<close> for one device, for the paginated snapshot, and for the changes since a revision.  The wire form of
  an entry carries the fields of the entry, its owner left out; it is the entry itself here.
\<close>

section \<open>The resync cursor\<close>

datatype cursor_error = BadCursor | EpochChanged

definition issue_cursor :: "digest \<Rightarrow> nat \<Rightarrow> string \<Rightarrow> store \<Rightarrow> string" where
  "issue_cursor sha pinned after st =
     signed sha (cursor_secret st) CHR ''.'' (st_epoch st @ CHR ''.'' # show_nat pinned @ CHR ''.'' # after)"

definition verify_cursor :: "digest \<Rightarrow> string \<Rightarrow> store \<Rightarrow> cursor_error + string \<times> nat \<times> string" where
  "verify_cursor sha raw st =
     (case rsplit_once CHR ''.'' raw of
        None \<Rightarrow> Err BadCursor
      | Some (payload, mac_hex) \<Rightarrow>
          (case split_once CHR ''.'' payload of
             None \<Rightarrow> Err BadCursor
           | Some (epoch, rest) \<Rightarrow>
               (case split_once CHR ''.'' rest of
                  None \<Rightarrow> Err BadCursor
                | Some (rev_text, dev) \<Rightarrow>
                    if epoch = [] \<or> dev = [] \<or> length mac_hex \<noteq> 32 then Err BadCursor
                    else case parse_uint 10 u64_top rev_text of
                        Err _ \<Rightarrow> Err BadCursor
                      | Ok pinned \<Rightarrow>
                          if epoch \<noteq> st_epoch st then Err EpochChanged
                          else case read_mac mac_hex of
                              None \<Rightarrow> Err BadCursor
                            | Some supplied \<Rightarrow>
                                if \<not> constant_time_eq (mac_of sha (cursor_secret st) payload) supplied then Err BadCursor
                                else Ok (epoch, pinned, dev))))"

section \<open>One page of the snapshot\<close>

definition default_page_devices :: nat where
  "default_page_devices = 64"

definition max_page_devices :: nat where
  "max_page_devices = 256"

definition max_page_bytes :: nat where
  "max_page_bytes = 1024 * 1024"

definition page_limit :: "nat option \<Rightarrow> nat" where
  "page_limit requested =
     min (case requested of Some n \<Rightarrow> if n > 0 then n else default_page_devices | None \<Rightarrow> default_page_devices) max_page_devices"

text \<open>The locals of the loop that gathers whole devices.\<close>

record gather =
  retained :: "device_state list list"
  running_bytes :: nat
  pending :: "device_state list"
  pending_bytes :: nat
  count_capped :: bool
  byte_capped :: bool

definition commit_device :: "nat \<Rightarrow> gather \<Rightarrow> gather \<times> bool" where
  "commit_device limit g =
     (if pending g = [] then (g, True)
      else if length (retained g) \<ge> limit then (g\<lparr>count_capped := True\<rparr>, False)
      else let would_be = saturating_add (running_bytes g) (pending_bytes g) in
        if retained g \<noteq> [] \<and> would_be > max_page_bytes then (g\<lparr>byte_capped := True\<rparr>, False)
        else (g\<lparr>running_bytes := would_be, retained := retained g @ [pending g], pending := [], pending_bytes := 0\<rparr>, True))"

definition add_pending :: "device_state \<Rightarrow> gather \<Rightarrow> gather" where
  "add_pending e g =
     g\<lparr>pending_bytes := saturating_add (saturating_add (pending_bytes g) (length (ds_capability e)))
         (fields_byte_estimate (ds_fields e)),
       pending := pending g @ [e]\<rparr>"

definition is_new_device :: "device_state \<Rightarrow> gather \<Rightarrow> bool" where
  "is_new_device e g = (case pending g of [] \<Rightarrow> True | f # _ \<Rightarrow> ds_device f \<noteq> ds_device e)"

fun gather_loop :: "nat \<Rightarrow> device_state list \<Rightarrow> gather \<Rightarrow> gather" where
  "gather_loop limit [] g = g"
| "gather_loop limit (e # es) g =
     (if is_new_device e g then
        (case commit_device limit g of
           (g', False) \<Rightarrow> g'
         | (g', True) \<Rightarrow> gather_loop limit es (add_pending e g'))
      else gather_loop limit es (add_pending e g))"

definition gather_devices :: "nat \<Rightarrow> device_state list \<Rightarrow> gather" where
  "gather_devices limit es =
     (let g = gather_loop limit es
            \<lparr>retained = [], running_bytes = 0, pending = [], pending_bytes = 0, count_capped = False, byte_capped = False\<rparr>
      in if \<not> count_capped g \<and> \<not> byte_capped g then fst (commit_device limit g) else g)"

record state_page =
  sp_epoch :: string
  sp_revision :: nat
  sp_devices :: "device_state list list"
  sp_next :: "string option"

datatype page_error = PageScope string | PageBadCursor | PageEpochChanged

definition get_all_device_state ::
  "digest \<Rightarrow> actor \<Rightarrow> nat option \<Rightarrow> string option \<Rightarrow> store \<Rightarrow> page_error + state_page" where
  "get_all_device_state sha actor requested cursor st =
     (case require_scope actor ''devices:read'' of
        Err s \<Rightarrow> Err (PageScope s)
      | Ok () \<Rightarrow>
          (let limit = page_limit requested;
               decoded = (case cursor of
                   None \<Rightarrow> Ok None
                 | Some raw \<Rightarrow>
                     (case verify_cursor sha raw st of
                        Ok triple \<Rightarrow> Ok (Some triple)
                      | Err BadCursor \<Rightarrow> Err PageBadCursor
                      | Err EpochChanged \<Rightarrow> Err PageEpochChanged))
           in case decoded of
                Err e \<Rightarrow> Err e
              | Ok fields_of_cursor \<Rightarrow>
                  (let (epoch, current, es) = snapshot_page (map_option (\<lambda>(_, _, dev). dev) fields_of_cursor) (limit + 1) st;
                       revision = (case fields_of_cursor of Some (_, r, _) \<Rightarrow> r | None \<Rightarrow> current);
                       g = gather_devices limit es;
                       devices = map (sort_key ds_capability) (retained g)
                   in Ok \<lparr>sp_epoch = epoch, sp_revision = revision, sp_devices = devices,
                          sp_next = (if count_capped g \<or> byte_capped g
                            then (if devices = [] then None
                                  else Some (issue_cursor sha revision (ds_device (hd (last (retained g)))) st))
                            else None)\<rparr>)))"

section \<open>One device, and the changes\<close>

definition get_device_state :: "actor \<Rightarrow> string \<Rightarrow> store \<Rightarrow> string + string \<times> string \<times> nat \<times> device_state list" where
  "get_device_state actor dev st =
     (case require_scope actor ''devices:read'' of
        Err s \<Rightarrow> Err s
      | Ok () \<Rightarrow> (case snapshot_device dev st of (epoch, revision, es) \<Rightarrow> Ok (dev, epoch, revision, sort_key ds_capability es)))"

definition default_changes_limit :: nat where
  "default_changes_limit = 256"

definition max_changes_limit :: nat where
  "max_changes_limit = 1024"

definition changes_limit :: "nat option \<Rightarrow> nat" where
  "changes_limit requested =
     min (case requested of Some n \<Rightarrow> if n > 0 then n else default_changes_limit | None \<Rightarrow> default_changes_limit) max_changes_limit"

definition query_device_state_changes :: "actor \<Rightarrow> nat option \<Rightarrow> nat option \<Rightarrow> store \<Rightarrow> string + delta_page" where
  "query_device_state_changes actor since requested st =
     (case require_scope actor ''devices:read'' of
        Err s \<Rightarrow> Err s
      | Ok () \<Rightarrow> Ok (deltas_since (case since of Some s \<Rightarrow> s | None \<Rightarrow> 0) (changes_limit requested) st))"

section \<open>The cursor reads back\<close>

lemma cursor_roundtrip:
  assumes sha: "digest_size sha" and epoch: "st_epoch st \<noteq> []" "CHR ''.'' \<notin> set (st_epoch st)"
    and args: "pinned \<le> u64_top" "dev \<noteq> []" and same: "st_epoch st' = st_epoch st" "cursor_secret st' = cursor_secret st"
  shows "verify_cursor sha (issue_cursor sha pinned dev st) st' = Ok (st_epoch st, pinned, dev)"
proof -
  let ?payload = "st_epoch st @ CHR ''.'' # show_nat pinned @ CHR ''.'' # dev"
  have split: "rsplit_once CHR ''.'' (signed sha (cursor_secret st) CHR ''.'' ?payload)
      = Some (?payload, hex_bytes (mac_of sha (cursor_secret st) ?payload))"
    by (rule signed_split) simp
  have parts: "split_once CHR ''.'' ?payload = Some (st_epoch st, show_nat pinned @ CHR ''.'' # dev)"
    "split_once CHR ''.'' (show_nat pinned @ CHR ''.'' # dev) = Some (show_nat pinned, dev)"
    using epoch by (auto intro!: split_once_append)
  show ?thesis
    unfolding verify_cursor_def issue_cursor_def split
    by (simp add: parts epoch args same mac_length [OF sha] constant_time_eq_iff)
qed

text \<open>An accepted cursor carries the code the store computes for its own text.\<close>

lemma cursor_signed:
  assumes "verify_cursor sha raw st = Ok (epoch, pinned, dev)"
  shows "epoch = st_epoch st \<and> (\<exists>rev_text mac. raw = (epoch @ CHR ''.'' # rev_text @ CHR ''.'' # dev) @ CHR ''.'' # mac
    \<and> parse_uint 10 u64_top rev_text = Ok pinned
    \<and> read_mac mac = Some (mac_of sha (cursor_secret st) (epoch @ CHR ''.'' # rev_text @ CHR ''.'' # dev)))"
proof -
  obtain payload mac where p: "rsplit_once CHR ''.'' raw = Some (payload, mac)"
    using assms by (auto simp: verify_cursor_def split: if_splits option.splits)
  obtain e rest where e: "split_once CHR ''.'' payload = Some (e, rest)"
    using assms p by (auto simp: verify_cursor_def split: if_splits option.splits)
  obtain a b where ab: "split_once CHR ''.'' rest = Some (a, b)"
    using assms p e by (auto simp: verify_cursor_def split: if_splits option.splits)
  obtain n where n: "parse_uint 10 u64_top a = Ok n"
    using assms p e ab by (auto simp: verify_cursor_def split: if_splits sum.splits)
  obtain m where m: "read_mac mac = Some m"
    using assms p e ab n by (auto simp: verify_cursor_def split: if_splits option.splits)
  have same: "e = st_epoch st \<and> epoch = e \<and> n = pinned \<and> b = dev \<and> m = mac_of sha (cursor_secret st) payload"
    using assms p e ab n m by (simp add: verify_cursor_def constant_time_eq_iff split: if_splits)
  have "raw = payload @ CHR ''.'' # mac" "payload = epoch @ CHR ''.'' # a @ CHR ''.'' # dev"
    using p e ab same by (simp_all add: rsplit_once_Some_iff split_once_Some_iff)
  with n m same show ?thesis by blast
qed

end
