(* ===== verification/State_Pages.thy ===== *)
theory State_Pages
  imports State_Api
begin

text \<open>
  The pages of the resync: whole devices in order, at least one, up to the limits, and a continuation exactly when
  something is left.
\<close>

section \<open>Whole devices\<close>

function device_groups :: "device_state list \<Rightarrow> device_state list list" where
  "device_groups [] = []"
| "device_groups (e # es) =
     (e # takeWhile (\<lambda>x. ds_device x = ds_device e) es) # device_groups (dropWhile (\<lambda>x. ds_device x = ds_device e) es)"
  by pat_completeness auto

termination device_groups
  by (relation "measure length") (auto simp: less_Suc_eq_le length_dropWhile_le)

lemma concat_groups: "concat (device_groups es) = es"
  by (induction es rule: device_groups.induct) (simp_all add: takeWhile_dropWhile_id)

lemma groups_ne: "g \<in> set (device_groups es) \<Longrightarrow> g \<noteq> []"
  by (induction es rule: device_groups.induct) auto

lemma groups_same: "g \<in> set (device_groups es) \<Longrightarrow> x \<in> set g \<Longrightarrow> ds_device x = ds_device (hd g)"
  by (induction es rule: device_groups.induct) (auto dest: set_takeWhileD)

lemma page_loop_groups:
  assumes "list_all (\<lambda>((dev, cap), e). dev = ds_device e) es"
  shows "page_loop limit n (Some d) es =
    takeWhile (\<lambda>x. ds_device x = d) (map snd es) @ concat (take (limit - n) (device_groups (dropWhile (\<lambda>x. ds_device x = d) (map snd es))))"
  using assms
proof (induction es arbitrary: n d)
  case (Cons p es)
  obtain dev cap e where p: "p = ((dev, cap), e)" by (metis prod.collapse)
  with Cons.prems have dev: "dev = ds_device e" and rest: "list_all (\<lambda>((dev, cap), e). dev = ds_device e) es" by simp_all
  show ?case
  proof (cases "dev = d")
    case True
    with Cons.IH [OF rest, of n d] show ?thesis using dev by (simp add: p)
  next
    case False
    show ?thesis
    proof (cases "limit \<le> n")
      case True
      with False dev show ?thesis by (simp add: p)
    next
      case more_room: False
      then have "limit - n = Suc (limit - Suc n)" by simp
      with False dev Cons.IH [OF rest, of "Suc n" dev] more_room show ?thesis by (simp add: p)
    qed
  qed
qed simp

lemma page_loop_start:
  assumes "list_all (\<lambda>((dev, cap), e). dev = ds_device e) es"
  shows "page_loop limit 0 None es = concat (take limit (device_groups (map snd es)))"
proof (cases es)
  case (Cons p rest)
  obtain dev cap e where p: "p = ((dev, cap), e)" by (metis prod.collapse)
  with Cons assms have dev: "dev = ds_device e" and ok: "list_all (\<lambda>((dev, cap), e). dev = ds_device e) rest" by simp_all
  show ?thesis
  proof (cases limit)
    case (Suc m)
    with page_loop_groups [OF ok, of limit 1 dev] dev show ?thesis by (simp add: Cons p)
  qed (simp add: Cons p)
qed simp

section \<open>The gathering loop keeps a prefix of the devices\<close>

definition group_bytes :: "device_state list \<Rightarrow> nat" where
  "group_bytes es = fold (\<lambda>e b. saturating_add (saturating_add b (length (ds_capability e))) (fields_byte_estimate (ds_fields e))) es 0"

fun keep_groups :: "nat \<Rightarrow> nat \<Rightarrow> nat \<Rightarrow> device_state list list \<Rightarrow> device_state list list" where
  "keep_groups limit n running [] = []"
| "keep_groups limit n running (g # gs) =
     (if n \<ge> limit \<or> (n > 0 \<and> saturating_add running (group_bytes g) > max_page_bytes) then []
      else g # keep_groups limit (Suc n) (saturating_add running (group_bytes g)) gs)"

lemma keep_prefix: "\<exists>j. keep_groups limit n running gs = take j gs \<and> j \<le> length gs \<and> n + j \<le> max limit n"
proof (induction gs arbitrary: n running)
  case (Cons g gs)
  show ?case
  proof (cases "n \<ge> limit \<or> (n > 0 \<and> saturating_add running (group_bytes g) > max_page_bytes)")
    case False
    obtain j where "keep_groups limit (Suc n) (saturating_add running (group_bytes g)) gs = take j gs" "j \<le> length gs"
      "Suc n + j \<le> max limit (Suc n)" using Cons.IH by blast
    then have "keep_groups limit n running (g # gs) = take (Suc j) (g # gs) \<and> Suc j \<le> length (g # gs) \<and> n + Suc j \<le> max limit n"
      using False by auto
    then show ?thesis by blast
  qed (auto intro: exI [of _ 0])
qed simp

text \<open>The loop with a pending device finishes with that device, as if it stood first.\<close>

definition gather_done :: "nat \<Rightarrow> gather \<Rightarrow> gather" where
  "gather_done limit g = (if \<not> count_capped g \<and> \<not> byte_capped g then fst (commit_device limit g) else g)"

lemma add_same_device:
  "pending g \<noteq> [] \<Longrightarrow> \<forall>x \<in> set es. ds_device x = ds_device (hd (pending g))
     \<Longrightarrow> gather_loop limit (es @ rest) g =
       gather_loop limit rest (fold add_pending es g)"
proof (induction es arbitrary: g)
  case (Cons e es)
  obtain f fs where f: "pending g = f # fs" using Cons.prems(1) by (cases "pending g") simp_all
  have here: "\<not> is_new_device e g" using Cons.prems(2) f by (simp add: is_new_device_def)
  have "gather_loop limit (es @ rest) (add_pending e g) = gather_loop limit rest (fold add_pending es (add_pending e g))"
  proof (rule Cons.IH)
    show "\<forall>x \<in> set es. ds_device x = ds_device (hd (pending (add_pending e g)))"
      using Cons.prems(2) unfolding add_pending_def f by simp
  qed (simp add: add_pending_def)
  with here show ?case by simp
qed simp

lemma add_pending_sel [simp]:
  "pending (add_pending e g) = pending g @ [e]"
  "pending_bytes (add_pending e g)
     = saturating_add (saturating_add (pending_bytes g) (length (ds_capability e))) (fields_byte_estimate (ds_fields e))"
  "retained (add_pending e g) = retained g" "running_bytes (add_pending e g) = running_bytes g"
  "count_capped (add_pending e g) = count_capped g" "byte_capped (add_pending e g) = byte_capped g"
  by (simp_all add: add_pending_def)

lemma fold_pending: "pending (fold add_pending es g) = pending g @ es"
  by (induction es arbitrary: g) simp_all

lemma fold_pending_bytes: "pending_bytes (fold add_pending es g)
     = fold (\<lambda>e b. saturating_add (saturating_add b (length (ds_capability e))) (fields_byte_estimate (ds_fields e))) es (pending_bytes g)"
  by (induction es arbitrary: g) simp_all

lemma fold_pending_rest:
  "retained (fold add_pending es g) = retained g \<and> running_bytes (fold add_pending es g) = running_bytes g
   \<and> count_capped (fold add_pending es g) = count_capped g \<and> byte_capped (fold add_pending es g) = byte_capped g"
  by (induction es arbitrary: g) simp_all

lemmas fold_add_pending = fold_pending fold_pending_bytes fold_pending_rest

lemma gather_groups:
  assumes "pending g = p" "p \<noteq> []" "\<forall>x \<in> set p. ds_device x = ds_device (hd p)" "pending_bytes g = group_bytes p"
    and "\<not> count_capped g" "\<not> byte_capped g"
    and "es = [] \<or> ds_device (hd es) \<noteq> ds_device (hd p)"
  shows "retained (gather_done limit (gather_loop limit es g))
      = retained g @ keep_groups limit (length (retained g)) (running_bytes g) (p # device_groups es)
    \<and> (count_capped (gather_done limit (gather_loop limit es g)) \<or> byte_capped (gather_done limit (gather_loop limit es g))
         \<longleftrightarrow> length (keep_groups limit (length (retained g)) (running_bytes g) (p # device_groups es)) < length (p # device_groups es))"
  using assms
proof (induction es arbitrary: g p rule: device_groups.induct)
  case 1
  from "1.prems"(1-6) show ?case unfolding gather_done_def commit_device_def Let_def by simp
next
  case (2 e es)
  let ?stop = "length (retained g) \<ge> limit \<or> (length (retained g) > 0 \<and> saturating_add (running_bytes g) (group_bytes p) > max_page_bytes)"
  let ?same = "takeWhile (\<lambda>x. ds_device x = ds_device e) es" and ?rest = "dropWhile (\<lambda>x. ds_device x = ds_device e) es"
  have new: "is_new_device e g"
    using "2.prems"(1,2,7) by (cases p) (auto simp: is_new_device_def)
  show ?case
  proof (cases ?stop)
    case True
    then have "commit_device limit g = (g\<lparr>count_capped := True\<rparr>, False) \<or> commit_device limit g = (g\<lparr>byte_capped := True\<rparr>, False)"
      using "2.prems"(1,2,4) by (auto simp: commit_device_def Let_def)
    with new True show ?thesis by (auto simp: gather_done_def)
  next
    case False
    define g1 where "g1 = g\<lparr>running_bytes := saturating_add (running_bytes g) (group_bytes p), retained := retained g @ [p],
      pending := [], pending_bytes := 0\<rparr>"
    have commit: "commit_device limit g = (g1, True)"
      using False "2.prems"(1,2,4) by (auto simp: commit_device_def Let_def g1_def)
    define g2 where "g2 = fold add_pending ?same (add_pending e g1)"
    have g2: "pending g2 = e # ?same" "pending_bytes g2 = group_bytes (e # ?same)" "retained g2 = retained g @ [p]"
      "running_bytes g2 = saturating_add (running_bytes g) (group_bytes p)" "\<not> count_capped g2" "\<not> byte_capped g2"
      using "2.prems"(5,6) by (simp_all add: g2_def fold_add_pending add_pending_def g1_def group_bytes_def)
    have "gather_loop limit (e # es) g = gather_loop limit (?same @ ?rest) (add_pending e g1)"
      using new commit by simp
    also have "\<dots> = gather_loop limit ?rest g2"
      unfolding g2_def by (rule add_same_device) (auto simp: add_pending_def g1_def dest: set_takeWhileD)
    finally have loop: "gather_loop limit (e # es) g = gather_loop limit ?rest g2" .
    have boundary: "?rest = [] \<or> ds_device (hd ?rest) \<noteq> ds_device (hd (e # ?same))"
      using hd_dropWhile [of "\<lambda>x. ds_device x = ds_device e" es] by auto
    have same: "\<forall>x \<in> set (e # ?same). ds_device x = ds_device (hd (e # ?same))" by (auto dest: set_takeWhileD)
    from "2.IH" [OF g2(1) _ same g2(2) g2(5,6) boundary] False show ?thesis unfolding loop g2 by auto
  qed
qed

lemma gather_devices_groups:
  "retained (gather_devices limit es) = keep_groups limit 0 0 (device_groups es)
   \<and> (count_capped (gather_devices limit es) \<or> byte_capped (gather_devices limit es)
        \<longleftrightarrow> length (keep_groups limit 0 0 (device_groups es)) < length (device_groups es))"
proof (cases es)
  case Nil
  then show ?thesis by (simp add: gather_devices_def commit_device_def)
next
  case (Cons e rest)
  define g0 where "g0 = \<lparr>retained = [], running_bytes = 0, pending = [], pending_bytes = 0, count_capped = False, byte_capped = False\<rparr>"
  let ?same = "takeWhile (\<lambda>x. ds_device x = ds_device e) rest" and ?rest = "dropWhile (\<lambda>x. ds_device x = ds_device e) rest"
  define g2 where "g2 = fold add_pending ?same (add_pending e g0)"
  have g2: "pending g2 = e # ?same" "pending_bytes g2 = group_bytes (e # ?same)" "retained g2 = []" "running_bytes g2 = 0"
    "\<not> count_capped g2" "\<not> byte_capped g2"
    by (simp_all add: g2_def fold_add_pending add_pending_def g0_def group_bytes_def)
  have "gather_loop limit es g0 = gather_loop limit (?same @ ?rest) (add_pending e g0)"
    by (simp add: Cons is_new_device_def commit_device_def g0_def)
  also have "\<dots> = gather_loop limit ?rest g2"
    unfolding g2_def by (rule add_same_device) (auto simp: add_pending_def g0_def dest: set_takeWhileD)
  finally have loop: "gather_devices limit es = gather_done limit (gather_loop limit ?rest g2)"
    by (simp add: gather_devices_def gather_done_def g0_def Let_def)
  have boundary: "?rest = [] \<or> ds_device (hd ?rest) \<noteq> ds_device (hd (e # ?same))"
    using hd_dropWhile [of "\<lambda>x. ds_device x = ds_device e" rest] by auto
  have same: "\<forall>x \<in> set (e # ?same). ds_device x = ds_device (hd (e # ?same))" by (auto dest: set_takeWhileD)
  from gather_groups [OF g2(1) _ same g2(2) g2(5,6) boundary, of limit] show ?thesis
    unfolding loop g2 by (simp add: Cons)
qed

section \<open>What a page holds\<close>

lemma takeWhile_prefix: "X = [] \<or> \<not> P (hd X) \<Longrightarrow> takeWhile P (takeWhile P es @ X) = takeWhile P es \<and> dropWhile P (takeWhile P es @ X) = X"
proof -
  assume X: "X = [] \<or> \<not> P (hd X)"
  have all: "\<forall>x \<in> set (takeWhile P es). P x" by (auto dest: set_takeWhileD)
  from X have "takeWhile P X = [] \<and> dropWhile P X = X" by (cases X) auto
  with all show ?thesis by (simp add: takeWhile_append2 dropWhile_append2)
qed

lemma hd_concat_groups: "concat (take n (device_groups es)) = [] \<or> (es \<noteq> [] \<and> hd (concat (take n (device_groups es))) = hd es)"
  by (cases es; cases n) simp_all

lemma groups_take: "device_groups (concat (take n (device_groups es))) = take n (device_groups es)"
proof (induction es arbitrary: n rule: device_groups.induct)
  case (2 e es)
  show ?case
  proof (cases n)
    case (Suc m)
    let ?P = "\<lambda>x. ds_device x = ds_device e"
    let ?X = "concat (take m (device_groups (dropWhile ?P es)))"
    have X: "?X = [] \<or> \<not> ?P (hd ?X)"
    proof (cases "?X = []")
      case False
      then have "dropWhile ?P es \<noteq> []" and "hd ?X = hd (dropWhile ?P es)"
        using hd_concat_groups [of m "dropWhile ?P es"] by blast+
      with hd_dropWhile [of ?P es] show ?thesis by simp
    qed blast
    from takeWhile_prefix [where P = ?P and X = ?X and es = es] X "2.IH" [of m] Suc show ?thesis by simp
  qed simp
qed simp

lemma sorted_after_group:
  assumes "sorted (map ds_device (e # es))" and "y \<in> set (dropWhile (\<lambda>x. ds_device x = ds_device e) es)"
  shows "ds_device e < ds_device y"
  using assms
proof (induction es)
  case (Cons x es)
  show ?case
  proof (cases "ds_device x = ds_device e")
    case False
    have "ds_device e \<le> ds_device x" using Cons.prems(1) by simp
    with False have less: "ds_device e < ds_device x" by (metis order_less_le)
    have "y = x \<or> y \<in> set es" using Cons.prems(2) False by simp
    then have "ds_device x \<le> ds_device y" using Cons.prems(1) by auto
    with less show ?thesis by simp
  qed (use Cons in simp)
qed simp

lemma sorted_dropWhile: "sorted (map f xs) \<Longrightarrow> sorted (map f (dropWhile P xs))"
  by (induction xs) auto

lemma groups_split:
  assumes "sorted (map ds_device es)" and "x \<in> set (concat (take j (device_groups es)))"
    and "y \<in> set (concat (drop j (device_groups es)))"
  shows "ds_device x < ds_device y"
  using assms
proof (induction es arbitrary: j rule: device_groups.induct)
  case (2 e es)
  let ?P = "\<lambda>x. ds_device x = ds_device e"
  show ?case
  proof (cases j)
    case (Suc m)
    have y: "y \<in> set (concat (drop m (device_groups (dropWhile ?P es))))" using "2.prems"(3) Suc by simp
    then have "y \<in> set (concat (device_groups (dropWhile ?P es)))" by (auto dest: in_set_dropD)
    then have y': "y \<in> set (dropWhile ?P es)" unfolding concat_groups .
    show ?thesis
    proof (cases "x \<in> set (e # takeWhile ?P es)")
      case True
      then have "ds_device x = ds_device e" by (auto dest: set_takeWhileD)
      with sorted_after_group [OF "2.prems"(1) y'] show ?thesis by simp
    next
      case False
      with "2.prems"(2) Suc have "x \<in> set (concat (take m (device_groups (dropWhile ?P es))))" by auto
      moreover have "sorted (map ds_device (dropWhile ?P es))" using "2.prems"(1) sorted_dropWhile [of ds_device es ?P] by simp
      ultimately show ?thesis using "2.IH" y by blast
    qed
  qed (use "2.prems" in simp)
qed simp

text \<open>The entries a page of \<open>j\<close> devices holds are those up to its last device.\<close>

lemma kept_iff:
  assumes sorted: "sorted (map ds_device es)" and j: "0 < j" "j \<le> length (device_groups es)" and x: "x \<in> set es"
  shows "x \<in> set (concat (take j (device_groups es))) \<longleftrightarrow> ds_device x \<le> ds_device (hd (last (take j (device_groups es))))"
proof -
  let ?gs = "device_groups es"
  let ?l = "last (take j ?gs)"
  have ne: "take j ?gs \<noteq> []" using j by auto
  then have l: "?l \<in> set (take j ?gs)" by (rule last_in_set)
  then have "?l \<noteq> []" using groups_ne [of ?l es] by (blast dest: in_set_takeD)
  then have hd: "hd ?l \<in> set (concat (take j ?gs))" using l hd_in_set by auto
  have split: "set es = set (concat (take j ?gs)) \<union> set (concat (drop j ?gs))"
    using concat_groups [of es] by (metis append_take_drop_id concat_append set_append)
  show ?thesis
  proof
    assume "x \<in> set (concat (take j ?gs))"
    then obtain g where g: "g \<in> set (take j ?gs)" "x \<in> set g" by auto
    have same: "ds_device x = ds_device (hd g)" using groups_same [of g es] g by (blast dest: in_set_takeD)
    have "take j ?gs = take (j - 1) ?gs @ [?gs ! (j - 1)]" using j take_Suc_conv_app_nth [of "j - 1" ?gs] by simp
    then have last: "take j ?gs = take (j - 1) ?gs @ [?l]" by (metis last_snoc)
    show "ds_device x \<le> ds_device (hd ?l)"
    proof (cases "g = ?l")
      case False
      with g last have "g \<in> set (take (j - 1) ?gs)" by (metis Un_iff append_Nil empty_iff empty_set set_ConsD set_append)
      then have "x \<in> set (concat (take (j - 1) ?gs))" using g(2) by auto
      moreover have "hd ?l \<in> set (concat (drop (j - 1) ?gs))"
      proof -
        have "drop (j - 1) ?gs = ?gs ! (j - 1) # drop j ?gs" using j Cons_nth_drop_Suc [of "j - 1" ?gs] by simp
        moreover have "?l = ?gs ! (j - 1)" using \<open>take j ?gs = take (j - 1) ?gs @ [?gs ! (j - 1)]\<close> by (metis last_snoc)
        ultimately show ?thesis using \<open>?l \<noteq> []\<close> hd_in_set by auto
      qed
      ultimately show ?thesis using groups_split [OF sorted] by (meson less_imp_le)
    qed (simp add: same)
  next
    assume le: "ds_device x \<le> ds_device (hd ?l)"
    show "x \<in> set (concat (take j ?gs))"
    proof (rule ccontr)
      assume "x \<notin> set (concat (take j ?gs))"
      with x split have "x \<in> set (concat (drop j ?gs))" by blast
      from groups_split [OF sorted hd this] le show False by simp
    qed
  qed
qed

end
