(* ===== verification/State_Client.thy ===== *)
theory State_Client
  imports State_Pages
begin

text \<open>
  A client that follows the store over the HTTP API as its documentation tells it to: read the pages of the
  snapshot with the cursor each one returns, then poll for the changes from the pinned revision, advance to the
  highest revision received, and start over when a response asks for it.  While the store changes under it, what the
  client has stays in step with the store (\<open>in_step\<close>), and after a short page of changes it holds exactly the fresh
  entries.
\<close>

section \<open>The client\<close>

type_synonym replica = "slot \<Rightarrow> device_state option"

datatype client = Lost | Resyncing string nat replica | Following nat replica

definition receive :: "device_state list \<Rightarrow> replica \<Rightarrow> replica" where
  "receive es r = fold (\<lambda>e m. m((ds_device e, ds_capability e) \<mapsto> e)) es r"

definition on_page :: "replica \<Rightarrow> state_page \<Rightarrow> client" where
  "on_page r pg =
     (let r' = receive (concat (sp_devices pg)) r in
      case sp_next pg of Some cursor \<Rightarrow> Resyncing cursor (sp_revision pg) r' | None \<Rightarrow> Following (sp_revision pg) r')"

definition on_changes :: "nat \<Rightarrow> replica \<Rightarrow> delta_page \<Rightarrow> client" where
  "on_changes since r pg =
     (if dp_reset pg then Lost
      else Following (if dp_entries pg = [] then since else ds_revision (last (dp_entries pg))) (receive (dp_entries pg) r))"

datatype sync_event = StoreChange state_op | ReadPage "nat option" | ReadChanges "nat option"

text \<open>One step of the store and one client of it; a refused request leaves the client as it was, a rejected cursor
  makes it start over.\<close>

fun sync_step :: "digest \<Rightarrow> actor \<Rightarrow> sync_event \<Rightarrow> store \<times> client \<Rightarrow> store \<times> client" where
  "sync_step sha actor (StoreChange op) (st, c) = (state_step op st, c)"
| "sync_step sha actor (ReadPage limit) (st, c) =
     (st, let (cursor, r) = (case c of Resyncing cur _ r \<Rightarrow> (Some cur, r) | _ \<Rightarrow> (None, Map.empty)) in
      case get_all_device_state sha actor limit cursor st of
        Ok pg \<Rightarrow> on_page r pg
      | Err (PageScope _) \<Rightarrow> c
      | Err _ \<Rightarrow> Lost)"
| "sync_step sha actor (ReadChanges limit) (st, c) =
     (st, case c of
        Following since r \<Rightarrow>
          (case query_device_state_changes actor (Some since) limit st of
             Ok pg \<Rightarrow> on_changes since r pg
           | Err _ \<Rightarrow> c)
      | _ \<Rightarrow> c)"

definition sync_run :: "digest \<Rightarrow> actor \<Rightarrow> string \<Rightarrow> 8 word list \<Rightarrow> sync_event list \<Rightarrow> store \<times> client" where
  "sync_run sha actor epoch secret evs = fold (sync_step sha actor) evs (new_store epoch secret, Lost)"

section \<open>What is received\<close>

lemma receive_map_of:
  assumes "\<forall>e \<in> set es. m (ds_device e, ds_capability e) = Some e"
  shows "receive es r k = (if k \<in> (\<lambda>e. (ds_device e, ds_capability e)) ` set es then m k else r k)"
  using assms unfolding receive_def
proof (induction es arbitrary: r)
  case (Cons e es)
  then have here: "m (ds_device e, ds_capability e) = Some e" by simp
  have rest: "\<forall>e \<in> set es. m (ds_device e, ds_capability e) = Some e" using Cons.prems by simp
  show ?case unfolding fold.simps comp_def Cons.IH [OF rest] using here by (cases k) auto
qed simp

lemma receive_hit:
  assumes "\<forall>e \<in> set es. m (ds_device e, ds_capability e) = Some e" and "e \<in> set es"
  shows "receive es r (ds_device e, ds_capability e) = Some e"
  using assms(2) receive_map_of [OF assms(1), of r "(ds_device e, ds_capability e)"] assms(1) by auto

lemma receive_cases:
  assumes "\<forall>e \<in> set es. m (ds_device e, ds_capability e) = Some e" and "receive es r k = Some e"
  shows "(e \<in> set es \<and> m k = Some e \<and> k = (ds_device e, ds_capability e)) \<or> r k = Some e"
  using assms(2) receive_map_of [OF assms(1), of r k] assms(1) by (auto split: if_splits)

lemma receive_keeps:
  assumes "\<forall>e \<in> set es. m (ds_device e, ds_capability e) = Some e" and "r k = m k"
  shows "receive es r k = m k"
  using receive_map_of [OF assms(1), of r k] assms(2) by simp

section \<open>In step with the store\<close>

text \<open>On the slots it has covered, the client holds every entry as of its revision, and what it holds of a slot
  that is gone is stale, or the store will ask it to start over.\<close>

definition in_step :: "(slot \<Rightarrow> bool) \<Rightarrow> nat \<Rightarrow> replica \<Rightarrow> store \<Rightarrow> bool" where
  "in_step cov s r st =
     ((\<forall>k e. map_of (st_entries st) k = Some e \<longrightarrow> cov k \<longrightarrow> ds_revision e \<le> s \<longrightarrow> r k = Some e)
      \<and> (\<forall>k e. r k = Some e \<longrightarrow> cov k)
      \<and> (\<forall>k e. r k = Some e \<longrightarrow> map_of (st_entries st) k = None \<longrightarrow> ds_quality e = Stale \<or> s < evicted_through st)
      \<and> s \<le> global_revision st)"

lemma in_stepI:
  assumes "\<And>k e. map_of (st_entries st) k = Some e \<Longrightarrow> cov k \<Longrightarrow> ds_revision e \<le> s \<Longrightarrow> r k = Some e"
    and "\<And>k e. r k = Some e \<Longrightarrow> cov k"
    and "\<And>k e. r k = Some e \<Longrightarrow> map_of (st_entries st) k = None \<Longrightarrow> ds_quality e = Stale \<or> s < evicted_through st"
    and "s \<le> global_revision st"
  shows "in_step cov s r st"
  unfolding in_step_def using assms by blast

lemma in_stepD:
  assumes "in_step cov s r st"
  shows "map_of (st_entries st) k = Some e \<Longrightarrow> cov k \<Longrightarrow> ds_revision e \<le> s \<Longrightarrow> r k = Some e"
    and "r k = Some e \<Longrightarrow> cov k"
    and "r k = Some e \<Longrightarrow> map_of (st_entries st) k = None \<Longrightarrow> ds_quality e = Stale \<or> s < evicted_through st"
    and "s \<le> global_revision st"
  using assms unfolding in_step_def by blast+

lemma in_step_empty: "s \<le> global_revision st \<Longrightarrow> in_step (\<lambda>_. False) s Map.empty st"
  by (simp add: in_step_def)

lemma in_step_evolves:
  assumes step: "in_step cov s r st" and ev: "evolves st t"
  shows "in_step cov s r t"
proof (rule in_stepI)
  note grow = evolves_grow [OF ev]
  note now = in_stepD(4) [OF step]
  show "s \<le> global_revision t" using now grow by simp
  show "cov k" if "r k = Some e" for k e by (rule in_stepD(2) [OF step that])
  show "r k = Some e" if "map_of (st_entries t) k = Some e" "cov k" "ds_revision e \<le> s" for k e
    using evolves_entry [OF ev that(1)] in_stepD(1) [OF step _ that(2,3)] now that(3) by force
  show "ds_quality e = Stale \<or> s < evicted_through t" if had: "r k = Some e" and gone: "map_of (st_entries t) k = None" for k e
  proof (cases "map_of (st_entries st) k")
    case None
    with in_stepD(3) [OF step had] grow show ?thesis by auto
  next
    case (Some e')
    have cov: "cov k" by (rule in_stepD(2) [OF step had])
    from evolves_gone [OF ev gone Some] show ?thesis
    proof
      assume stale: "ds_quality e' = Stale \<and> ds_revision e' \<le> evicted_through t"
      show ?thesis
      proof (cases "ds_revision e' \<le> s")
        case True
        with in_stepD(1) [OF step Some cov] had stale show ?thesis by simp
      qed (use stale in simp)
    qed (use now in simp)
  qed
qed

section \<open>The entries of a store\<close>

lemma entry_in_store:
  assumes inv: "store_inv st"
  shows "e \<in> set (map snd (st_entries st)) \<longleftrightarrow> map_of (st_entries st) (ds_device e, ds_capability e) = Some e"
proof
  assume "e \<in> set (map snd (st_entries st))"
  then obtain k where "(k, e) \<in> set (st_entries st)" by auto
  then have k: "map_of (st_entries st) k = Some e" using bt_wf_distinct [OF store_inv_wf [OF inv]] by simp
  with store_inv_entry [OF inv k] show "map_of (st_entries st) (ds_device e, ds_capability e) = Some e"
    by (simp add: entry_wf_def)
qed (force dest: map_of_SomeD)

lemma entry_slot: "store_inv st \<Longrightarrow> map_of (st_entries st) k = Some e \<Longrightarrow> k = (ds_device e, ds_capability e)"
  using store_inv_entry by (auto simp: entry_wf_def)

lemma entry_revision: "store_inv st \<Longrightarrow> map_of (st_entries st) k = Some e \<Longrightarrow> ds_revision e \<le> global_revision st"
  using store_inv_entry by (auto simp: entry_wf_def)

section \<open>A response with changes\<close>

definition changed :: "nat \<Rightarrow> store \<Rightarrow> device_state list" where
  "changed since st = sort_key ds_revision (filter (\<lambda>e. ds_revision e > since) (map snd (st_entries st)))"

lemma changed_iff:
  assumes inv: "store_inv st"
  shows "e \<in> set (changed since st) \<longleftrightarrow> map_of (st_entries st) (ds_device e, ds_capability e) = Some e \<and> since < ds_revision e"
  unfolding changed_def set_sort set_filter mem_Collect_eq entry_in_store [OF inv] ..

lemma changes_received:
  assumes inv: "store_inv st"
  shows "\<forall>e \<in> set (take limit (changed since st)). map_of (st_entries st) (ds_device e, ds_capability e) = Some e"
  using changed_iff [OF inv] by (blast dest: in_set_takeD)

lemma taken_by_revision:
  assumes inv: "store_inv st" and e: "e \<in> set (changed since st)"
    and le: "take limit (changed since st) \<noteq> []" "ds_revision e \<le> ds_revision (last (take limit (changed since st)))"
  shows "e \<in> set (take limit (changed since st))"
proof (rule ccontr)
  let ?D = "take limit (changed since st)"
  assume out: "e \<notin> set ?D"
  have "set (changed since st) = set ?D \<union> set (drop limit (changed since st))" by (metis append_take_drop_id set_append)
  with e out have dropped: "e \<in> set (drop limit (changed since st))" by blast
  have last: "last ?D \<in> set ?D" using le(1) by (rule last_in_set)
  have "sorted (map ds_revision (changed since st))" by (simp add: changed_def)
  then have "sorted (map ds_revision ?D @ map ds_revision (drop limit (changed since st)))"
    unfolding map_append [symmetric] append_take_drop_id .
  then have "ds_revision (last ?D) \<le> ds_revision e" using last dropped unfolding sorted_append set_map by blast
  with le(2) have same: "ds_revision (last ?D) = ds_revision e" by simp
  have "last ?D \<in> set (changed since st)" using last by (rule in_set_takeD)
  then have "map_of (st_entries st) (ds_device (last ?D), ds_capability (last ?D)) = Some (last ?D)"
    "map_of (st_entries st) (ds_device e, ds_capability e) = Some e" using e changed_iff [OF inv] by blast+
  from store_inv_revisions [OF inv this same] have "last ?D = e" using \<open>map_of _ _ = Some e\<close> \<open>map_of _ _ = Some (last ?D)\<close> by simp
  with last out show False by simp
qed

lemma deltas_ok:
  assumes "\<not> dp_reset (deltas_since s limit st)"
  shows "dp_entries (deltas_since s limit st) = take limit (changed s st)" and "evicted_through st \<le> s"
proof -
  have "\<not> (s > global_revision st \<or> s < evicted_through st)"
    using assms unfolding deltas_since_def by (simp split: if_splits)
  then show "dp_entries (deltas_since s limit st) = take limit (changed s st)" and "evicted_through st \<le> s"
    by (simp_all add: deltas_since_def changed_def)
qed

lemma in_step_changes:
  assumes inv: "store_inv st" and step: "in_step (\<lambda>_. True) s r st" and ok: "\<not> dp_reset (deltas_since s limit st)"
  defines "D \<equiv> dp_entries (deltas_since s limit st)"
  shows "in_step (\<lambda>_. True) (if D = [] then s else ds_revision (last D)) (receive D r) st"
proof -
  let ?s = "if D = [] then s else ds_revision (last D)"
  have D: "D = take limit (changed s st)" and fresh_enough: "evicted_through st \<le> s"
    using deltas_ok [OF ok] by (simp_all add: D_def)
  note rec = changes_received [OF inv, of limit s, folded D]
  show ?thesis
  proof (rule in_stepI)
    fix k e assume k: "map_of (st_entries st) k = Some e" and "True" and le: "ds_revision e \<le> ?s"
    note slot = entry_slot [OF inv k]
    show "receive D r k = Some e"
    proof (cases "ds_revision e \<le> s")
      case True
      with in_stepD(1) [OF step k] k receive_keeps [OF rec] show ?thesis by simp
    next
      case False
      then have "e \<in> set (changed s st)" using changed_iff [OF inv] k slot by simp
      moreover have "D \<noteq> []" using False le by auto
      ultimately have "e \<in> set D" using taken_by_revision [OF inv, of e s limit] le unfolding D by simp
      from receive_hit [OF rec this] slot show ?thesis by simp
    qed
  next
    fix k e assume "receive D r k = Some e" and gone: "map_of (st_entries st) k = None"
    with receive_cases [OF rec] have "r k = Some e" by fastforce
    from in_stepD(3) [OF step this gone] fresh_enough show "ds_quality e = Stale \<or> ?s < evicted_through st" by auto
  next
    show "?s \<le> global_revision st"
    proof (cases "D = []")
      case False
      then have "last D \<in> set D" by simp
      then have "map_of (st_entries st) (ds_device (last D), ds_capability (last D)) = Some (last D)" using rec by blast
      from entry_revision [OF inv this] False show ?thesis by simp
    qed (use in_stepD(4) [OF step] in simp)
  qed simp
qed

text \<open>A response shorter than its limit holds every change: the client has the entries of the store, and what else
  it has is stale.\<close>

lemma caught_up:
  assumes inv: "store_inv st" and step: "in_step (\<lambda>_. True) s r st" and ok: "\<not> dp_reset (deltas_since s limit st)"
    and short: "length (dp_entries (deltas_since s limit st)) < limit"
  shows "map_of (st_entries st) k = Some e \<Longrightarrow> receive (dp_entries (deltas_since s limit st)) r k = Some e"
    and "map_of (st_entries st) k = None \<Longrightarrow> receive (dp_entries (deltas_since s limit st)) r k = Some e \<Longrightarrow> ds_quality e = Stale"
proof -
  let ?D = "dp_entries (deltas_since s limit st)"
  have take: "?D = take limit (changed s st)" and fresh_enough: "evicted_through st \<le> s"
    using deltas_ok [OF ok] by simp_all
  with short have D: "?D = changed s st" by simp
  note rec = changes_received [OF inv, of limit s, folded take]
  show "receive ?D r k = Some e" if k: "map_of (st_entries st) k = Some e"
  proof (cases "ds_revision e \<le> s")
    case True
    with in_stepD(1) [OF step k] k receive_keeps [OF rec] show ?thesis by simp
  next
    case False
    then have "e \<in> set ?D" unfolding D using changed_iff [OF inv] k entry_slot [OF inv k] by simp
    from receive_hit [OF rec this] entry_slot [OF inv k] show ?thesis by simp
  qed
  show "ds_quality e = Stale" if "map_of (st_entries st) k = None" "receive ?D r k = Some e"
    using receive_cases [OF rec that(2)] that(1) in_stepD(3) [OF step _ that(1), of e] fresh_enough by fastforce
qed

section \<open>A page of the snapshot\<close>

definition covers :: "string option \<Rightarrow> slot \<Rightarrow> bool" where
  "covers after k = (case after of None \<Rightarrow> False | Some dev \<Rightarrow> fst k \<le> dev)"

lemma after_cursor_subset: "set (after_cursor after st) \<subseteq> set (st_entries st)"
  by (auto simp: after_cursor_def split: option.splits)

lemma after_cursor_entry:
  assumes inv: "store_inv st" and e: "e \<in> set (map snd (after_cursor after st))"
  shows "map_of (st_entries st) (ds_device e, ds_capability e) = Some e"
proof -
  have "e \<in> set (map snd (st_entries st))" using e after_cursor_subset by auto
  then show ?thesis unfolding entry_in_store [OF inv] .
qed

lemma after_cursor_devices:
  assumes inv: "store_inv st"
  shows "list_all (\<lambda>((dev, cap), e). dev = ds_device e) (after_cursor after st)"
proof -
  have "dev = ds_device e" if "((dev, cap), e) \<in> set (after_cursor after st)" for dev cap e
  proof -
    have "((dev, cap), e) \<in> set (st_entries st)" using that after_cursor_subset by blast
    then have "map_of (st_entries st) (dev, cap) = Some e" using bt_wf_distinct [OF store_inv_wf [OF inv]] by simp
    from entry_slot [OF inv this] show ?thesis by simp
  qed
  then show ?thesis unfolding list_all_iff by auto
qed

lemma after_cursor_sorted:
  assumes inv: "store_inv st"
  shows "sorted (map ds_device (map snd (after_cursor after st)))"
proof -
  have same: "map ds_device (map snd (after_cursor after st)) = map fst (map fst (after_cursor after st))"
    using after_cursor_devices [OF inv, of after] by (auto simp: list_all_iff)
  have "sorted_wrt (<) (map fst (st_entries st))" using store_inv_wf [OF inv] by (simp add: bt_wf_def)
  then have "sorted_wrt (<) (map fst (after_cursor after st))"
    by (auto simp: after_cursor_def sorted_wrt_map sorted_wrt_filter split: option.split)
  then have "sorted_wrt (\<le>) (map fst (map fst (after_cursor after st)))"
    unfolding sorted_wrt_map by (rule sorted_wrt_mono_rel [rotated]) (auto simp: less_prod_def)
  then show ?thesis unfolding same .
qed

lemma after_cursor_above:
  assumes inv: "store_inv st" and e: "e \<in> set (map snd (after_cursor (Some dev) st))"
  shows "dev \<le> ds_device e"
proof -
  obtain d c where k: "((d, c), e) \<in> set (after_cursor (Some dev) st)" using e by auto
  then have "d = ds_device e" using after_cursor_devices [OF inv, of "Some dev"] by (auto simp: list_all_iff)
  moreover have "(dev, max_cap_sentinel) < (d, c)" using k by (simp add: after_cursor_def)
  ultimately show ?thesis by (auto simp: less_prod_def)
qed

lemma not_covered:
  assumes inv: "store_inv st" and k: "map_of (st_entries st) k = Some e" and "\<not> covers after k"
  shows "e \<in> set (map snd (after_cursor after st))"
proof -
  obtain dev cap where p: "k = (dev, cap)" by (cases k)
  have "(k, e) \<in> set (after_cursor after st)"
    using assms(3) map_of_SomeD [OF k] by (auto simp: after_cursor_def covers_def less_prod_def p split: option.splits)
  then show ?thesis by force
qed

text \<open>A page keeps the first devices after its cursor, at least one, and says whether any are left.\<close>

definition left_over :: "string option \<Rightarrow> store \<Rightarrow> device_state list list" where
  "left_over after st = device_groups (map snd (after_cursor after st))"

definition page_gather :: "nat \<Rightarrow> string option \<Rightarrow> store \<Rightarrow> gather" where
  "page_gather limit after st = gather_devices limit (page_loop (limit + 1) 0 None (after_cursor after st))"

lemma page_groups:
  assumes inv: "store_inv st" and limit: "0 < limit"
  obtains j where "retained (page_gather limit after st) = take j (left_over after st)" "j \<le> length (left_over after st)"
    "left_over after st \<noteq> [] \<Longrightarrow> 0 < j"
    "count_capped (page_gather limit after st) \<or> byte_capped (page_gather limit after st) \<longleftrightarrow> j < length (left_over after st)"
proof -
  define gs where "gs = left_over after st"
  define g where "g = page_gather limit after st"
  let ?es = "page_loop (limit + 1) 0 None (after_cursor after st)"
  have es: "?es = concat (take (limit + 1) gs)"
    unfolding gs_def left_over_def by (rule page_loop_start) (rule after_cursor_devices [OF inv])
  have groups: "device_groups ?es = take (limit + 1) gs" unfolding es gs_def left_over_def by (rule groups_take)
  obtain i where i: "keep_groups limit 0 0 (take (limit + 1) gs) = take i (take (limit + 1) gs)" "i \<le> length (take (limit + 1) gs)"
    "0 + i \<le> max limit 0" using keep_prefix by blast
  have kept: "retained g = take i gs" using gather_devices_groups [of limit ?es] i unfolding g_def page_gather_def groups by simp
  have all: "length (keep_groups limit 0 0 (take (limit + 1) gs)) = i" using i by simp
  have capped: "count_capped g \<or> byte_capped g \<longleftrightarrow> i < length gs"
    using gather_devices_groups [of limit ?es] i(2,3) unfolding g_def page_gather_def groups all by auto
  have some: "gs \<noteq> [] \<Longrightarrow> 0 < i"
  proof (rule ccontr)
    assume ne: "gs \<noteq> []" and "\<not> 0 < i"
    then have "keep_groups limit 0 0 (take (limit + 1) gs) = []" using i(1) by simp
    moreover obtain x xs where "take (limit + 1) gs = x # xs" using ne by (cases gs) simp_all
    ultimately show False using limit by simp
  qed
  show thesis by (rule that [of i]) (use kept i(2) some capped in \<open>simp_all add: gs_def g_def\<close>)
qed

definition last_device :: "gather \<Rightarrow> string" where
  "last_device g = ds_device (hd (last (retained g)))"

lemma concat_left_over: "concat (left_over after st) = map snd (after_cursor after st)"
  by (simp add: left_over_def concat_groups)

lemma page_entries:
  assumes inv: "store_inv st" and limit: "0 < limit"
  shows "\<forall>e \<in> set (concat (retained (page_gather limit after st))). map_of (st_entries st) (ds_device e, ds_capability e) = Some e"
proof -
  obtain j where "retained (page_gather limit after st) = take j (left_over after st)" using page_groups [OF inv limit] .
  then have "set (concat (retained (page_gather limit after st))) \<subseteq> set (concat (left_over after st))"
    by (auto dest: in_set_takeD)
  then show ?thesis unfolding concat_left_over using after_cursor_entry [OF inv] by blast
qed

lemma page_capped:
  assumes inv: "store_inv st" and limit: "0 < limit"
    and capped: "count_capped (page_gather limit after st) \<or> byte_capped (page_gather limit after st)"
  shows "retained (page_gather limit after st) \<noteq> []"
    and "e \<in> set (map snd (after_cursor after st)) \<Longrightarrow>
      e \<in> set (concat (retained (page_gather limit after st))) \<longleftrightarrow> ds_device e \<le> last_device (page_gather limit after st)"
    and "\<exists>e \<in> set (map snd (after_cursor after st)). ds_device e = last_device (page_gather limit after st)"
proof -
  obtain j where j: "retained (page_gather limit after st) = take j (left_over after st)" "j \<le> length (left_over after st)"
    "left_over after st \<noteq> [] \<Longrightarrow> 0 < j" "j < length (left_over after st)"
    using page_groups [OF inv limit, of after] capped by blast
  then have ne: "left_over after st \<noteq> []" by auto
  then have pos: "0 < j" by (rule j(3))
  show kept: "retained (page_gather limit after st) \<noteq> []" using j(1) pos ne by simp
  show "e \<in> set (concat (retained (page_gather limit after st))) \<longleftrightarrow> ds_device e \<le> last_device (page_gather limit after st)"
    if "e \<in> set (map snd (after_cursor after st))"
    unfolding j(1) last_device_def left_over_def
    by (rule kept_iff [OF after_cursor_sorted [OF inv] pos _ that]) (use j(2) in \<open>simp add: left_over_def\<close>)
  have "last (retained (page_gather limit after st)) \<in> set (left_over after st)"
    using last_in_set [OF kept] j(1) by (auto dest: in_set_takeD)
  moreover from this have "hd (last (retained (page_gather limit after st))) \<in> set (last (retained (page_gather limit after st)))"
    unfolding left_over_def using groups_ne hd_in_set by blast
  ultimately have "hd (last (retained (page_gather limit after st))) \<in> set (concat (left_over after st))" by auto
  then show "\<exists>e \<in> set (map snd (after_cursor after st)). ds_device e = last_device (page_gather limit after st)"
    unfolding concat_left_over last_device_def by blast
qed

lemma page_whole:
  assumes inv: "store_inv st" and limit: "0 < limit"
    and "\<not> count_capped (page_gather limit after st)" "\<not> byte_capped (page_gather limit after st)"
  shows "concat (retained (page_gather limit after st)) = map snd (after_cursor after st)"
proof -
  obtain j where "retained (page_gather limit after st) = take j (left_over after st)" "j \<le> length (left_over after st)"
    "\<not> j < length (left_over after st)"
    using page_groups [OF inv limit, of after] assms(3,4) by blast
  then have "retained (page_gather limit after st) = left_over after st" by simp
  then show ?thesis by (simp add: concat_left_over)
qed

text \<open>Reading the entries of a page widens what is covered.\<close>

lemma in_step_widen:
  assumes inv: "store_inv st" and step: "in_step cov s r st"
    and rec: "\<forall>e \<in> set D. map_of (st_entries st) (ds_device e, ds_capability e) = Some e"
    and wider: "\<And>k. cov k \<Longrightarrow> cov' k" "\<And>e. e \<in> set D \<Longrightarrow> cov' (ds_device e, ds_capability e)"
    and new: "\<And>k e. map_of (st_entries st) k = Some e \<Longrightarrow> cov' k \<Longrightarrow> \<not> cov k \<Longrightarrow> e \<in> set D"
  shows "in_step cov' s (receive D r) st"
proof (rule in_stepI)
  fix k e assume k: "map_of (st_entries st) k = Some e" and cov': "cov' k" and le: "ds_revision e \<le> s"
  show "receive D r k = Some e"
  proof (cases "cov k")
    case True
    with in_stepD(1) [OF step k _ le] k receive_keeps [OF rec] show ?thesis by simp
  next
    case False
    from receive_hit [OF rec new [OF k cov' False]] entry_slot [OF inv k] show ?thesis by simp
  qed
next
  fix k e assume "receive D r k = Some e"
  with receive_cases [OF rec] in_stepD(2) [OF step] wider show "cov' k" by blast
next
  fix k e assume "receive D r k = Some e" and gone: "map_of (st_entries st) k = None"
  with receive_cases [OF rec] have "r k = Some e" by fastforce
  from in_stepD(3) [OF step this gone] show "ds_quality e = Stale \<or> s < evicted_through st" .
qed (rule in_stepD(4) [OF step])

lemma in_step_page:
  assumes inv: "store_inv st" and limit: "0 < limit" and step: "in_step (covers after) s r st"
  defines "g \<equiv> page_gather limit after st"
  shows "count_capped g \<or> byte_capped g \<Longrightarrow> in_step (covers (Some (last_device g))) s (receive (concat (retained g)) r) st"
    and "\<not> count_capped g \<Longrightarrow> \<not> byte_capped g \<Longrightarrow> in_step (\<lambda>_. True) s (receive (concat (retained g)) r) st"
proof -
  note rec = page_entries [OF inv limit, of after, folded g_def]
  show "in_step (covers (Some (last_device g))) s (receive (concat (retained g)) r) st" if capped: "count_capped g \<or> byte_capped g"
  proof (rule in_step_widen [OF inv step rec])
    note page = page_capped [OF inv limit capped [unfolded g_def], folded g_def]
    show "covers (Some (last_device g)) k" if "covers after k" for k
    proof (cases after)
      case (Some dev)
      obtain e where "e \<in> set (map snd (after_cursor after st))" "ds_device e = last_device g" using page(3) by blast
      with after_cursor_above [OF inv] Some have "dev \<le> last_device g" by metis
      with that Some show ?thesis by (auto simp: covers_def)
    qed (use that in \<open>simp add: covers_def\<close>)
    have listed: "e \<in> set (map snd (after_cursor after st))" if "e \<in> set (concat (retained g))" for e
    proof -
      obtain j where "retained g = take j (left_over after st)" unfolding g_def using page_groups [OF inv limit] .
      with that have "e \<in> set (concat (left_over after st))" by (auto dest: in_set_takeD)
      then show ?thesis unfolding concat_left_over .
    qed
    show "covers (Some (last_device g)) (ds_device e, ds_capability e)" if "e \<in> set (concat (retained g))" for e
      using page(2) [OF listed [OF that]] that by (simp add: covers_def)
    show "e \<in> set (concat (retained g))"
      if "map_of (st_entries st) k = Some e" "covers (Some (last_device g)) k" "\<not> covers after k" for k e
      using page(2) [OF not_covered [OF inv that(1,3)]] entry_slot [OF inv that(1)] that(2) by (simp add: covers_def)
  qed
  show "in_step (\<lambda>_. True) s (receive (concat (retained g)) r) st" if "\<not> count_capped g" "\<not> byte_capped g"
  proof (rule in_step_widen [OF inv step rec])
    show "e \<in> set (concat (retained g))" if k: "map_of (st_entries st) k = Some e" and "\<not> covers after k" for k e
      using not_covered [OF inv that] page_whole [OF inv limit, of after, folded g_def] \<open>\<not> count_capped g\<close> \<open>\<not> byte_capped g\<close> by simp
  qed simp_all
qed

section \<open>The run of a client\<close>

lemma issued_cursor:
  assumes "verify_cursor sha (issue_cursor sha pinned dev st) t = Ok (e, p, d)" and "CHR ''.'' \<notin> set (st_epoch st)"
  shows "p = pinned \<and> d = dev"
proof -
  let ?payload = "st_epoch st @ CHR ''.'' # show_nat pinned @ CHR ''.'' # dev"
  have split: "rsplit_once CHR ''.'' (issue_cursor sha pinned dev st) = Some (?payload, hex_bytes (mac_of sha (cursor_secret st) ?payload))"
    unfolding issue_cursor_def by (rule signed_split) simp
  have parts: "split_once CHR ''.'' ?payload = Some (st_epoch st, show_nat pinned @ CHR ''.'' # dev)"
    "split_once CHR ''.'' (show_nat pinned @ CHR ''.'' # dev) = Some (show_nat pinned, dev)"
    using assms(2) by (auto intro!: split_once_append)
  have "parse_uint 10 u64_top (show_nat pinned) = Ok p \<and> d = dev"
    using assms(1) unfolding verify_cursor_def split by (simp add: parts split: if_splits sum.splits option.splits)
  then show ?thesis using parse_uint_show_nat_eq by blast
qed

lemma receive_same_set:
  assumes "\<forall>e \<in> set es. m (ds_device e, ds_capability e) = Some e" and "set es' = set es"
  shows "receive es' r = receive es r"
  using assms receive_map_of [of es m r] receive_map_of [of es' m r] by (auto simp: fun_eq_iff)

lemma sorted_pages: "set (concat (map (sort_key f) gs)) = set (concat gs)"
  by simp

definition client_inv :: "digest \<Rightarrow> store \<Rightarrow> client \<Rightarrow> bool" where
  "client_inv sha st c =
     (case c of
        Lost \<Rightarrow> True
      | Following s r \<Rightarrow> in_step (\<lambda>_. True) s r st
      | Resyncing cursor p r \<Rightarrow> \<exists>dev. cursor = issue_cursor sha p dev st \<and> in_step (covers (Some dev)) p r st)"

lemma client_inv_simps [simp]:
  "client_inv sha st Lost"
  "client_inv sha st (Following s r) = in_step (\<lambda>_. True) s r st"
  "client_inv sha st (Resyncing cursor p r) = (\<exists>dev. cursor = issue_cursor sha p dev st \<and> in_step (covers (Some dev)) p r st)"
  by (simp_all add: client_inv_def)

lemma covers_None: "covers None = (\<lambda>_. False)"
  by (simp add: covers_def fun_eq_iff)

lemma page_limit_pos [simp]: "0 < page_limit requested"
  by (auto simp: page_limit_def default_page_devices_def max_page_devices_def split: option.split)

text \<open>What a page does to the client, for a cursor that stands for \<open>after\<close> and \<open>s\<close>.\<close>

lemma page_response:
  assumes "get_all_device_state sha actor requested cursor st = Ok pg"
  obtains after s where
    "case cursor of None \<Rightarrow> after = None \<and> s = global_revision st
     | Some raw \<Rightarrow> \<exists>e dev. verify_cursor sha raw st = Ok (e, s, dev) \<and> after = Some dev"
    and "pg = \<lparr>sp_epoch = st_epoch st, sp_revision = s,
      sp_devices = map (sort_key ds_capability) (retained (page_gather (page_limit requested) after st)),
      sp_next = (if (count_capped (page_gather (page_limit requested) after st) \<or> byte_capped (page_gather (page_limit requested) after st))
          \<and> retained (page_gather (page_limit requested) after st) \<noteq> []
        then Some (issue_cursor sha s (last_device (page_gather (page_limit requested) after st)) st) else None)\<rparr>"
proof -
  have scope: "require_scope actor ''devices:read'' = Ok ()"
    using assms unfolding get_all_device_state_def by (cases "require_scope actor ''devices:read''") simp_all
  note run = assms [unfolded get_all_device_state_def scope sum.case unit.case Let_def snapshot_page_def prod.case page_gather_def [symmetric]]
  show thesis
  proof (cases cursor)
    case None
    show thesis
      by (rule that [of None "global_revision st"]) (use run None in \<open>auto simp: page_gather_def [symmetric] last_device_def split: if_split_asm\<close>)
  next
    case (Some raw)
    show thesis
    proof (cases "verify_cursor sha raw st")
      case (Inl e)
      with run Some show thesis by (cases e) simp_all
    next
      case (Inr t)
      obtain e s dev where t: "t = (e, s, dev)" by (metis prod.collapse)
      show thesis
        by (rule that [of "Some dev" s]) (use run Some Inr t in \<open>auto simp: page_gather_def [symmetric] last_device_def split: if_split_asm\<close>)
    qed
  qed
qed

definition cursor_for :: "digest \<Rightarrow> string option \<Rightarrow> string option \<Rightarrow> nat \<Rightarrow> store \<Rightarrow> bool" where
  "cursor_for sha cursor after s st =
     (case cursor of
        None \<Rightarrow> after = None \<and> s = global_revision st
      | Some raw \<Rightarrow> \<exists>dev. raw = issue_cursor sha s dev st \<and> after = Some dev)"

lemma page_result:
  assumes inv: "store_inv st" and epoch: "CHR ''.'' \<notin> set (st_epoch st)" and cur: "cursor_for sha cursor after s st"
    and step: "in_step (covers after) s r st" and pg: "get_all_device_state sha actor requested cursor st = Ok pg"
  defines "g \<equiv> page_gather (page_limit requested) after st"
  shows "(\<exists>r'. on_page r pg = Following s r' \<and> in_step (\<lambda>_. True) s r' st)
    \<or> (count_capped g \<or> byte_capped g) \<and> (\<exists>r'. on_page r pg = Resyncing (issue_cursor sha s (last_device g) st) s r'
         \<and> in_step (covers (Some (last_device g))) s r' st)"
proof -
  have page: "pg = \<lparr>sp_epoch = st_epoch st, sp_revision = s, sp_devices = map (sort_key ds_capability) (retained g),
      sp_next = (if (count_capped g \<or> byte_capped g) \<and> retained g \<noteq> [] then Some (issue_cursor sha s (last_device g) st) else None)\<rparr>"
  proof (cases cursor)
    case None
    then have "after = None \<and> s = global_revision st" using cur by (simp add: cursor_for_def)
    with None show ?thesis by (cases rule: page_response [OF pg]) (simp add: g_def)
  next
    case (Some raw)
    then obtain dev where dev: "raw = issue_cursor sha s dev st" "after = Some dev" using cur by (auto simp: cursor_for_def)
    show ?thesis
    proof (cases rule: page_response [OF pg])
      case (1 after' s')
      then obtain e d where v: "verify_cursor sha raw st = Ok (e, s', d)" "after' = Some d" using Some by auto
      from issued_cursor [OF v(1) [unfolded dev(1)] epoch] v(2) dev(2) 1(2) show ?thesis by (simp add: g_def)
    qed
  qed
  note rec = page_entries [OF inv page_limit_pos, of requested after, folded g_def]
  have received: "receive (concat (sp_devices pg)) r = receive (concat (retained g)) r"
    by (rule receive_same_set [OF rec]) (simp add: page)
  note after_page = in_step_page [OF inv page_limit_pos [of requested] step, folded g_def]
  show ?thesis
  proof (cases "count_capped g \<or> byte_capped g")
    case True
    from page_capped(1) [OF inv page_limit_pos True [unfolded g_def]] True
    have next': "sp_next pg = Some (issue_cursor sha s (last_device g) st)" by (simp add: page g_def)
    from after_page(1) [OF True] True show ?thesis
      unfolding on_page_def Let_def next' received by (simp add: page)
  next
    case False
    then have next': "sp_next pg = None" by (simp add: page)
    from after_page(2) False show ?thesis
      unfolding on_page_def Let_def next' received by (simp add: page)
  qed
qed

lemma client_cursor:
  assumes c: "client_inv sha st c"
    and cur: "(cursor, r) = (case c of Resyncing cur _ r \<Rightarrow> (Some cur, r) | _ \<Rightarrow> (None, Map.empty))"
  obtains after s where "cursor_for sha cursor after s st" and "in_step (covers after) s r st"
proof (cases "\<exists>raw p r. c = Resyncing raw p r")
  case True
  then obtain raw p r0 where res: "c = Resyncing raw p r0" by blast
  with c obtain dev where "raw = issue_cursor sha p dev st" "in_step (covers (Some dev)) p r0 st" by auto
  with res cur show thesis by (intro that [of "Some dev" p]) (auto simp: cursor_for_def)
next
  case False
  with cur have "cursor = None" "r = Map.empty" by (cases c; simp)+
  then show thesis by (intro that [of None "global_revision st"]) (simp_all add: cursor_for_def covers_None in_step_empty)
qed

lemma page_step:
  assumes inv: "store_inv st" and epoch: "CHR ''.'' \<notin> set (st_epoch st)" and c: "client_inv sha st c"
    and cur: "(cursor, r) = (case c of Resyncing cur _ r \<Rightarrow> (Some cur, r) | _ \<Rightarrow> (None, Map.empty))"
    and pg: "get_all_device_state sha actor requested cursor st = Ok pg"
  shows "client_inv sha st (on_page r pg)"
proof -
  obtain after s where "cursor_for sha cursor after s st" "in_step (covers after) s r st" using client_cursor [OF c cur] .
  from page_result [OF inv epoch this pg] show ?thesis by auto
qed

lemma in_step_same_cursor:
  assumes "st_epoch t = st_epoch st" "cursor_secret t = cursor_secret st"
  shows "issue_cursor sha p dev t = issue_cursor sha p dev st"
  by (simp add: issue_cursor_def assms)

lemma client_evolves:
  assumes "good_step st t" and "client_inv sha st c"
  shows "client_inv sha t c"
  using assms in_step_evolves in_step_same_cursor [of t st] unfolding good_step_def by (cases c) (simp; blast)+

lemma changes_response:
  assumes "query_device_state_changes actor since requested st = Ok pg"
  shows "pg = deltas_since (case since of Some s \<Rightarrow> s | None \<Rightarrow> 0) (changes_limit requested) st"
  using assms unfolding query_device_state_changes_def
  by (cases "require_scope actor ''devices:read''") (simp_all split: unit.splits)

lemma sync_step_inv:
  assumes inv: "store_inv st" and epoch: "CHR ''.'' \<notin> set (st_epoch st)" and c: "client_inv sha st c"
  shows "case sync_step sha actor ev (st, c) of (t, d) \<Rightarrow> store_inv t \<and> st_epoch t = st_epoch st \<and> client_inv sha t d"
proof (cases ev)
  case (StoreChange op)
  from state_step_good [OF inv] have "good_step st (state_step op st)" .
  from client_evolves [OF this c] this show ?thesis by (simp add: StoreChange good_step_def)
next
  case (ReadPage limit)
  obtain cursor r where cur: "(cursor, r) = (case c of Resyncing cur _ r \<Rightarrow> (Some cur, r) | _ \<Rightarrow> (None, Map.empty))"
    by (metis surj_pair)
  show ?thesis
  proof (cases "get_all_device_state sha actor limit cursor st")
    case (Inl e)
    with c inv show ?thesis by (cases e) (simp_all add: ReadPage cur [symmetric])
  next
    case (Inr pg)
    from page_step [OF inv epoch c cur Inr] inv Inr show ?thesis by (simp add: ReadPage cur [symmetric])
  qed
next
  case (ReadChanges limit)
  show ?thesis
  proof (cases c)
    case (Following s r)
    show ?thesis
    proof (cases "query_device_state_changes actor (Some s) limit st")
      case (Inr pg)
      then have pg: "pg = deltas_since s (changes_limit limit) st" using changes_response by fastforce
      have "client_inv sha st (on_changes s r pg)"
        using in_step_changes [OF inv, of s r "changes_limit limit"] c Following by (simp add: on_changes_def pg)
      with inv Following Inr show ?thesis by (simp add: ReadChanges)
    qed (use inv c Following in \<open>simp add: ReadChanges\<close>)
  qed (use inv c in \<open>simp_all add: ReadChanges\<close>)
qed

lemma sync_run_inv:
  assumes epoch: "CHR ''.'' \<notin> set epoch" and run: "sync_run sha actor epoch secret evs = (st, c)"
  shows "store_inv st \<and> st_epoch st = epoch \<and> client_inv sha st c"
proof -
  have "case fold (sync_step sha actor) evs (st, c) of (t, d) \<Rightarrow> store_inv t \<and> st_epoch t = epoch \<and> client_inv sha t d"
    if "store_inv st" "st_epoch st = epoch" "client_inv sha st c" for st c
    using that
  proof (induction evs arbitrary: st c)
    case (Cons ev evs)
    obtain t d where step: "sync_step sha actor ev (st, c) = (t, d)" by (metis prod.collapse)
    have "store_inv t \<and> st_epoch t = epoch \<and> client_inv sha t d"
      using sync_step_inv [OF Cons.prems(1) _ Cons.prems(3), of actor ev] epoch Cons.prems(2) unfolding step by simp
    then show ?case using Cons.IH [of t d] step by simp
  qed simp
  from this [of "new_store epoch secret" Lost] new_store_inv run show ?thesis
    by (simp add: sync_run_def new_store_def)
qed

definition fresh_part :: "replica \<Rightarrow> replica" where
  "fresh_part r k = (case r k of Some e \<Rightarrow> if ds_quality e = Fresh then Some e else None | None \<Rightarrow> None)"

lemma caught_up_fresh:
  assumes "store_inv st" and "in_step (\<lambda>_. True) s r st" and "\<not> dp_reset (deltas_since s limit st)"
    and "length (dp_entries (deltas_since s limit st)) < limit"
  shows "fresh_part (receive (dp_entries (deltas_since s limit st)) r) = fresh_map st"
proof
  fix k
  let ?r = "receive (dp_entries (deltas_since s limit st)) r"
  note up = caught_up [OF assms, of k]
  show "fresh_part ?r k = fresh_map st k"
  proof (cases "map_of (st_entries st) k")
    case None
    show ?thesis
    proof (cases "?r k")
      case (Some e)
      from up(2) [OF None this] None Some show ?thesis by (simp add: fresh_part_def fresh_map_def)
    qed (simp add: None fresh_part_def fresh_map_def)
  next
    case (Some e)
    from up(1) [OF this] Some show ?thesis by (simp add: fresh_part_def fresh_map_def)
  qed
qed

text \<open>Claim C3: however the writes of the plugins, the lifecycle changes and the evictions interleave with the
  requests of a client, the pages of the snapshot and the changes bring the client to the state of the store: once a
  request for changes is answered without \<open>reset_required\<close> and with fewer changes than its limit, the fresh
  entries the client holds are exactly the fresh entries of the store.\<close>

theorem client_follows_store:
  assumes epoch: "CHR ''.'' \<notin> set epoch" and run: "sync_run sha actor epoch secret evs = (st, Following s r)"
    and pg: "query_device_state_changes actor (Some s) limit st = Ok pg"
    and ok: "\<not> dp_reset pg" and short: "length (dp_entries pg) < changes_limit limit"
  shows "\<exists>s' r'. on_changes s r pg = Following s' r' \<and> fresh_part r' = fresh_map st"
proof -
  from sync_run_inv [OF epoch run] have inv: "store_inv st" and step: "in_step (\<lambda>_. True) s r st" by simp_all
  have page: "pg = deltas_since s (changes_limit limit) st" using changes_response [OF pg] by simp
  from caught_up_fresh [OF inv step ok [unfolded page] short [unfolded page]] ok
  show ?thesis unfolding page on_changes_def by auto
qed

definition sample_reader :: actor where
  "sample_reader = \<lparr>actor_kind = ApiActor, actor_id = ''t'', scopes = [''*''], constraints = []\<rparr>"

definition sample_sync :: "sync_event list" where
  "sample_sync = [StoreChange (ReplaceSnapshot ''d'' ''o'' ''switch'' [] 0 0), ReadPage None, StoreChange (MarkInstanceStale 1 ''o''),
     StoreChange (ReplaceSnapshot ''e'' ''p'' ''switch'' [] 0 0)]"

lemma sample_sync_run:
  "case sync_run (\<lambda>_. replicate 32 0) sample_reader ''ab'' [] sample_sync of (st, c) \<Rightarrow>
     (case c of Following s r \<Rightarrow> s = 1 \<and> r (''d'', ''switch'') \<noteq> None | _ \<Rightarrow> False)
     \<and> (case query_device_state_changes sample_reader (Some 1) None st of
          Ok pg \<Rightarrow> \<not> dp_reset pg \<and> length (dp_entries pg) = 2 | _ \<Rightarrow> False)"
  by (simp add: sample_sync_def sync_run_def new_store_def replace_snapshot_def write_entry_def Let_def next_revision_def
    generation_of_def final_fields_def replaced_fields_def put_entry_def mark_instance_stale_def stale_where_locked_def flip_stale_def
    enforce_stale_cap_def stale_entries_def max_stale_entries_def
    get_all_device_state_def sample_reader_def require_scope_def satisfied_by_def page_limit_def default_page_devices_def max_page_devices_def
    snapshot_page_def after_cursor_def gather_devices_def commit_device_def is_new_device_def add_pending_def merge_fields_unbounded_def
    truncate_to_byte_cap_def on_page_def receive_def query_device_state_changes_def deltas_since_def changes_limit_def
    default_changes_limit_def max_changes_limit_def saturating_add_def)



theorem client_follows_store_witness:
  "\<exists>st r pg s' r'. sync_run (\<lambda>_. replicate 32 0) sample_reader ''ab'' [] sample_sync = (st, Following 1 r)
    \<and> query_device_state_changes sample_reader (Some 1) None st = Ok pg \<and> length (dp_entries pg) = 2
    \<and> on_changes 1 r pg = Following s' r' \<and> fresh_part r' = fresh_map st"
proof -
  obtain st c where run: "sync_run (\<lambda>_. replicate 32 0) sample_reader ''ab'' [] sample_sync = (st, c)" by (metis prod.collapse)
  from sample_sync_run [unfolded run prod.case] obtain r pg where c: "c = Following 1 r"
    and pg: "query_device_state_changes sample_reader (Some 1) None st = Ok pg" "\<not> dp_reset pg" "length (dp_entries pg) = 2"
    by (auto split: client.splits sum.splits)
  have "length (dp_entries pg) < changes_limit None"
    by (simp add: pg(3) changes_limit_def default_changes_limit_def max_changes_limit_def)
  from client_follows_store [OF _ run [unfolded c] pg(1,2) this] obtain s' r'
    where "on_changes 1 r pg = Following s' r'" "fresh_part r' = fresh_map st" by auto
  with run c pg show ?thesis by blast
qed

end
