(* ===== verification/State_Catchup.thy ===== *)
theory State_Catchup
  imports State_Client
begin

text \<open>
  The protocol of the client ends: once the store is quiet, every page covers more entries, every response with
  changes leaves fewer, and a client that has to start over does so once.
\<close>

section \<open>A quiet store is reached\<close>

text \<open>What the store has to have for its cursors to be readable: device names that are not empty and capability names
  below the sentinel.\<close>

definition readable :: "store \<Rightarrow> bool" where
  "readable st =
     (st_epoch st \<noteq> [] \<and> CHR ''.'' \<notin> set (st_epoch st) \<and> global_revision st \<le> u64_top
      \<and> list_all (\<lambda>(k, e). fst k \<noteq> [] \<and> snd k < max_cap_sentinel) (st_entries st))"

definition next_request :: "client \<Rightarrow> sync_event" where
  "next_request c = (case c of Following _ _ \<Rightarrow> ReadChanges None | _ \<Rightarrow> ReadPage None)"

definition advance :: "digest \<Rightarrow> actor \<Rightarrow> store \<Rightarrow> client \<Rightarrow> client" where
  "advance sha actor st c = snd (sync_step sha actor (next_request c) (st, c))"

definition up_to_date :: "store \<Rightarrow> client \<Rightarrow> bool" where
  "up_to_date st c = (case c of Following s r \<Rightarrow> fresh_part r = fresh_map st | _ \<Rightarrow> False)"

lemma advance_reads:
  assumes "require_scope actor ''devices:read'' = Ok ()"
  obtains pg where "get_all_device_state sha actor None None st = Ok pg"
    and "query_device_state_changes actor (Some s) None st = Ok (deltas_since s (changes_limit None) st)"
proof -
  have "\<exists>pg. get_all_device_state sha actor None None st = Ok pg"
    unfolding get_all_device_state_def assms sum.case case_unit Let_def option.case case_prod_unfold by blast
  moreover have "query_device_state_changes actor (Some s) None st = Ok (deltas_since s (changes_limit None) st)"
    by (simp add: query_device_state_changes_def assms)
  ultimately show thesis using that by blast
qed

lemma cursor_page:
  assumes scope: "require_scope actor ''devices:read'' = Ok ()" and v: "verify_cursor sha raw st = Ok (e, s, dev)"
  shows "\<exists>pg. get_all_device_state sha actor None (Some raw) st = Ok pg"
  unfolding get_all_device_state_def scope sum.case case_unit Let_def option.case v case_prod_unfold by blast

text \<open>The entries after the cursor of a page are fewer than those after the cursor that asked for it.\<close>

lemma page_progress:
  assumes inv: "store_inv st" and ok: "readable st" and limit: "0 < limit"
    and capped: "count_capped (page_gather limit after st) \<or> byte_capped (page_gather limit after st)"
  shows "length (after_cursor (Some (last_device (page_gather limit after st))) st) < length (after_cursor after st)"
    and "last_device (page_gather limit after st) \<noteq> []"
proof -
  let ?d = "last_device (page_gather limit after st)"
  obtain k e where k: "(k, e) \<in> set (after_cursor after st)" and e: "ds_device e = ?d"
    using page_capped(3) [OF inv limit capped] by auto
  then have entry: "(k, e) \<in> set (st_entries st)" using after_cursor_subset by blast
  have slot: "fst k = ?d"
    using after_cursor_devices [OF inv, of after] k e by (auto simp: list_all_iff)
  have ok': "fst k \<noteq> []" "snd k < max_cap_sentinel" using ok entry by (auto simp: readable_def list_all_iff)
  then show "?d \<noteq> []" using slot by simp
  have out: "(k, e) \<notin> set (after_cursor (Some ?d) st)"
    using slot ok'(2) by (cases k) (auto simp: after_cursor_def less_prod_def)
  have sub: "after_cursor (Some ?d) st = filter (\<lambda>(k, e). (?d, max_cap_sentinel) < k) (after_cursor after st)"
  proof (cases after)
    case (Some dev)
    obtain k' e' where k': "(k', e') \<in> set (after_cursor after st)" "fst k' = ?d" using k slot by auto
    then have "dev \<le> ?d" using Some by (cases k') (auto simp: after_cursor_def less_prod_def)
    then have "(dev, max_cap_sentinel) < x" if "(?d, max_cap_sentinel) < x" for x using that by (cases x) (auto simp: less_prod_def)
    then show ?thesis unfolding Some after_cursor_def option.case filter_filter by (intro filter_cong) auto
  qed (simp add: after_cursor_def)
  have "length (filter (\<lambda>(k, e). (?d, max_cap_sentinel) < k) (after_cursor after st)) < length (after_cursor after st)"
    by (rule length_filter_less [OF k]) (use out sub k in \<open>simp\<close>)
  then show "length (after_cursor (Some ?d) st) < length (after_cursor after st)" unfolding sub .
qed

lemma readable_epoch: "readable st \<Longrightarrow> st_epoch st \<noteq> [] \<and> CHR ''.'' \<notin> set (st_epoch st) \<and> global_revision st \<le> u64_top"
  by (simp add: readable_def)

lemma first_page:
  assumes inv: "store_inv st" and ok: "readable st" and scope: "require_scope actor ''devices:read'' = Ok ()"
  shows "(\<exists>r. advance sha actor st Lost = Following (global_revision st) r \<and> in_step (\<lambda>_. True) (global_revision st) r st)
    \<or> (\<exists>dev r. advance sha actor st Lost = Resyncing (issue_cursor sha (global_revision st) dev st) (global_revision st) r \<and> dev \<noteq> []
         \<and> in_step (covers (Some dev)) (global_revision st) r st \<and> length (after_cursor (Some dev) st) < length (st_entries st))"
proof -
  obtain pg where pg: "get_all_device_state sha actor None None st = Ok pg" using advance_reads [OF scope] .
  have adv: "advance sha actor st Lost = on_page Map.empty pg" by (simp add: advance_def next_request_def pg)
  have step: "in_step (covers None) (global_revision st) Map.empty st" by (simp add: covers_None in_step_empty)
  have cur: "cursor_for sha None None (global_revision st) st" by (simp add: cursor_for_def)
  from page_result [OF inv _ cur step pg] readable_epoch [OF ok] page_progress [OF inv ok page_limit_pos, of None None]
  show ?thesis unfolding adv by (auto simp: after_cursor_def)
qed

lemma next_page:
  assumes inv: "store_inv st" and ok: "readable st" and scope: "require_scope actor ''devices:read'' = Ok ()" and sha: "digest_size sha"
    and step: "in_step (covers (Some dev)) p r st" and dev: "dev \<noteq> []"
  shows "(\<exists>r'. advance sha actor st (Resyncing (issue_cursor sha p dev st) p r) = Following p r' \<and> in_step (\<lambda>_. True) p r' st)
    \<or> (\<exists>dev' r'. advance sha actor st (Resyncing (issue_cursor sha p dev st) p r) = Resyncing (issue_cursor sha p dev' st) p r' \<and> dev' \<noteq> []
         \<and> in_step (covers (Some dev')) p r' st \<and> length (after_cursor (Some dev') st) < length (after_cursor (Some dev) st))"
proof -
  note epoch = readable_epoch [OF ok]
  have "p \<le> u64_top" using in_stepD(4) [OF step] epoch by simp
  then have v: "verify_cursor sha (issue_cursor sha p dev st) st = Ok (st_epoch st, p, dev)"
    using cursor_roundtrip [OF sha _ _ _ dev] epoch by blast
  obtain pg where pg: "get_all_device_state sha actor None (Some (issue_cursor sha p dev st)) st = Ok pg"
    using cursor_page [OF scope v] by blast
  have adv: "advance sha actor st (Resyncing (issue_cursor sha p dev st) p r) = on_page r pg"
    by (simp add: advance_def next_request_def pg)
  have cur: "cursor_for sha (Some (issue_cursor sha p dev st)) (Some dev) p st" by (simp add: cursor_for_def)
  from page_result [OF inv _ cur step pg] epoch page_progress [OF inv ok page_limit_pos, of None "Some dev"]
  show ?thesis unfolding adv by blast
qed

lemma resync_ends:
  assumes inv: "store_inv st" and ok: "readable st" and scope: "require_scope actor ''devices:read'' = Ok ()" and sha: "digest_size sha"
  shows "in_step (covers (Some dev)) p r st \<Longrightarrow> dev \<noteq> []
    \<Longrightarrow> \<exists>n \<le> length (after_cursor (Some dev) st) + 1. \<exists>r'. (advance sha actor st ^^ n) (Resyncing (issue_cursor sha p dev st) p r) = Following p r'
          \<and> in_step (\<lambda>_. True) p r' st"
proof (induction "length (after_cursor (Some dev) st)" arbitrary: dev r rule: less_induct)
  case less
  from next_page [OF inv ok scope sha less.prems] show ?case
  proof (elim disjE exE conjE)
    fix r' assume "advance sha actor st (Resyncing (issue_cursor sha p dev st) p r) = Following p r'" "in_step (\<lambda>_. True) p r' st"
    then show ?thesis by (intro exI [of _ "1 :: nat"]) simp
  next
    fix dev' r' assume adv: "advance sha actor st (Resyncing (issue_cursor sha p dev st) p r) = Resyncing (issue_cursor sha p dev' st) p r'"
      and dev': "dev' \<noteq> []" "in_step (covers (Some dev')) p r' st"
      and fewer: "length (after_cursor (Some dev') st) < length (after_cursor (Some dev) st)"
    from less.hyps [OF fewer dev'(2,1)] obtain n r'' where n: "n \<le> length (after_cursor (Some dev') st) + 1"
      "(advance sha actor st ^^ n) (Resyncing (issue_cursor sha p dev' st) p r') = Following p r''" "in_step (\<lambda>_. True) p r'' st" by blast
    then have "(advance sha actor st ^^ Suc n) (Resyncing (issue_cursor sha p dev st) p r) = Following p r''"
      by (simp add: funpow_swap1 adv)
    with n(1,3) fewer show ?thesis by (intro exI [of _ "Suc n"]) auto
  qed
qed

text \<open>A request for changes: the client is up to date, or starts over, or has fewer changes left.\<close>

lemma changes_limit_pos [simp]: "0 < changes_limit requested"
  by (auto simp: changes_limit_def default_changes_limit_def max_changes_limit_def split: option.split)

lemma advance_following:
  assumes scope: "require_scope actor ''devices:read'' = Ok ()"
  shows "advance sha actor st (Following s r) = on_changes s r (deltas_since s (changes_limit None) st)"
proof -
  have "query_device_state_changes actor (Some s) None st = Ok (deltas_since s (changes_limit None) st)"
    using advance_reads [OF scope] by metis
  then show ?thesis by (simp add: advance_def next_request_def)
qed

lemma length_changed: "length (changed s st) \<le> length (st_entries st)"
proof -
  have "length (changed s st) = length (filter (\<lambda>e. ds_revision e > s) (map snd (st_entries st)))" by (simp add: changed_def)
  also have "\<dots> \<le> length (map snd (st_entries st))" by (rule length_filter_le)
  finally show ?thesis by simp
qed

lemma fewer_changes:
  assumes inv: "store_inv st" and e: "e \<in> set (changed s st)"
  shows "length (changed (ds_revision e) st) < length (changed s st)"
proof -
  have more_now: "s < ds_revision e" "e \<in> set (map snd (st_entries st))" using e by (auto simp: changed_def)
  have sub: "filter (\<lambda>x. ds_revision x > ds_revision e) (map snd (st_entries st))
      = filter (\<lambda>x. ds_revision x > ds_revision e) (filter (\<lambda>x. ds_revision x > s) (map snd (st_entries st)))"
    unfolding filter_filter using more_now(1) by (intro filter_cong) auto
  have "length (filter (\<lambda>x. ds_revision x > ds_revision e) (filter (\<lambda>x. ds_revision x > s) (map snd (st_entries st))))
      < length (filter (\<lambda>x. ds_revision x > s) (map snd (st_entries st)))"
    by (rule length_filter_less [of e]) (use more_now in simp_all)
  then show ?thesis by (simp add: changed_def sub)
qed

lemma changes_end:
  assumes inv: "store_inv st" and scope: "require_scope actor ''devices:read'' = Ok ()"
  shows "in_step (\<lambda>_. True) s r st \<Longrightarrow> evicted_through st \<le> s
    \<Longrightarrow> \<exists>n \<le> length (changed s st) + 1. up_to_date st ((advance sha actor st ^^ n) (Following s r))"
proof (induction "length (changed s st)" arbitrary: s r rule: less_induct)
  case less
  let ?pg = "deltas_since s (changes_limit None) st"
  have ok: "\<not> dp_reset ?pg" using in_stepD(4) [OF less.prems(1)] less.prems(2) by (simp add: deltas_since_def)
  have entries: "dp_entries ?pg = take (changes_limit None) (changed s st)" using deltas_ok [OF ok] by simp
  define s' where "s' = (if dp_entries ?pg = [] then s else ds_revision (last (dp_entries ?pg)))"
  define r' where "r' = receive (dp_entries ?pg) r"
  have adv: "advance sha actor st (Following s r) = Following s' r'"
    unfolding advance_following [OF scope] on_changes_def s'_def r'_def using ok by simp
  show ?case
  proof (cases "length (dp_entries ?pg) < changes_limit None")
    case True
    from caught_up_fresh [OF inv less.prems(1) ok True] have "up_to_date st (Following s' r')" by (simp add: up_to_date_def r'_def)
    then show ?thesis by (intro exI [of _ "1 :: nat"]) (simp add: adv)
  next
    case False
    then have ne: "dp_entries ?pg \<noteq> []" using changes_limit_pos [of None] by auto
    then have last: "last (dp_entries ?pg) \<in> set (changed s st)" using last_in_set [OF ne] unfolding entries by (blast dest: in_set_takeD)
    then have grows: "s \<le> s'" using ne by (auto simp: s'_def changed_def)
    have fewer: "length (changed s' st) < length (changed s st)" using fewer_changes [OF inv last] ne by (simp add: s'_def)
    have step': "in_step (\<lambda>_. True) s' r' st" unfolding s'_def r'_def by (rule in_step_changes [OF inv less.prems(1) ok])
    from less.hyps [OF fewer step'] grows less.prems(2) obtain n where n: "n \<le> length (changed s' st) + 1"
      "up_to_date st ((advance sha actor st ^^ n) (Following s' r'))" by auto
    then have "up_to_date st ((advance sha actor st ^^ Suc n) (Following s r))" by (simp add: funpow_swap1 adv)
    with n(1) fewer show ?thesis by (intro exI [of _ "Suc n"]) auto
  qed
qed

lemma funpow_compose: "(f ^^ n) ((f ^^ m) x) = (f ^^ (n + m)) x"
  by (simp add: funpow_add)

lemma catch_up_lost:
  assumes inv: "store_inv st" and ok: "readable st" and scope: "require_scope actor ''devices:read'' = Ok ()" and sha: "digest_size sha"
  shows "\<exists>n \<le> length (st_entries st) + 3. up_to_date st ((advance sha actor st ^^ n) Lost)"
proof -
  let ?g = "global_revision st"
  have "changed ?g st = []"
    using changed_iff [OF inv] entry_revision [OF inv] by (metis last_in_set leD)
  then have finish: "\<exists>n \<le> 1. up_to_date st ((advance sha actor st ^^ n) (Following ?g r))" if "in_step (\<lambda>_. True) ?g r st" for r
    using changes_end [OF inv scope that store_inv_watermark [OF inv]] by simp
  from first_page [OF inv ok scope, of sha] obtain m r where m: "m \<le> length (st_entries st) + 1"
    "(advance sha actor st ^^ Suc m) Lost = Following ?g r" "in_step (\<lambda>_. True) ?g r st"
  proof (elim disjE exE conjE)
    fix r assume "advance sha actor st Lost = Following ?g r" "in_step (\<lambda>_. True) ?g r st"
    then show thesis by (intro that [of 0 r]) simp_all
  next
    fix dev r assume adv: "advance sha actor st Lost = Resyncing (issue_cursor sha ?g dev st) ?g r" "dev \<noteq> []"
      "in_step (covers (Some dev)) ?g r st" "length (after_cursor (Some dev) st) < length (st_entries st)"
    from resync_ends [OF inv ok scope sha adv(3,2)] obtain n r' where "n \<le> length (after_cursor (Some dev) st) + 1"
      "(advance sha actor st ^^ n) (Resyncing (issue_cursor sha ?g dev st) ?g r) = Following ?g r'" "in_step (\<lambda>_. True) ?g r' st" by blast
    with adv show thesis by (intro that [of n r']) (simp_all add: funpow_swap1)
  qed
  from finish [OF m(3)] obtain n where n: "n \<le> 1" "up_to_date st ((advance sha actor st ^^ n) (Following ?g r))" by blast
  then have "up_to_date st ((advance sha actor st ^^ (n + Suc m)) Lost)"
    using funpow_compose [of n "advance sha actor st" "Suc m" Lost] m(2) by simp
  with n(1) m(1) show ?thesis by (intro exI [of _ "n + Suc m"]) simp
qed

lemma catch_up_following:
  assumes inv: "store_inv st" and ok: "readable st" and scope: "require_scope actor ''devices:read'' = Ok ()" and sha: "digest_size sha"
    and step: "in_step (\<lambda>_. True) s r st"
  shows "\<exists>n \<le> length (st_entries st) + 4. up_to_date st ((advance sha actor st ^^ n) (Following s r))"
proof (cases "evicted_through st \<le> s")
  case True
  from changes_end [OF inv scope step True, of sha] length_changed [of s st] show ?thesis by (meson add_mono le_trans one_le_numeral)
next
  case False
  then have "advance sha actor st (Following s r) = Lost"
    unfolding advance_following [OF scope] by (simp add: on_changes_def deltas_since_def)
  moreover obtain n where "n \<le> length (st_entries st) + 3" "up_to_date st ((advance sha actor st ^^ n) Lost)"
    using catch_up_lost [OF inv ok scope sha] by blast
  ultimately show ?thesis by (intro exI [of _ "Suc n"]) (simp add: funpow_swap1)
qed

lemma bad_cursor_lost:
  assumes scope: "require_scope actor ''devices:read'' = Ok ()" and v: "verify_cursor sha raw st = Err e"
  shows "advance sha actor st (Resyncing raw p r) = Lost"
proof -
  have "\<exists>x. get_all_device_state sha actor None (Some raw) st = Err x \<and> (\<forall>s. x \<noteq> PageScope s)"
    by (cases e) (simp_all add: get_all_device_state_def scope v)
  then obtain x where "get_all_device_state sha actor None (Some raw) st = Err x" "\<forall>s. x \<noteq> PageScope s" by blast
  then show ?thesis by (cases x) (simp_all add: advance_def next_request_def)
qed

lemma verified_device: "verify_cursor sha raw st = Ok (e, p, dev) \<Longrightarrow> dev \<noteq> []"
  unfolding verify_cursor_def by (simp split: option.splits if_splits sum.splits prod.splits)

text \<open>Claim C22: the protocol ends.  Whatever state a client has come to, once the store is quiet it needs at most
  two requests for each entry and a few more until it holds exactly the fresh entries of the store.\<close>

theorem client_catches_up:
  assumes run: "sync_run sha actor epoch secret evs = (st, c)" and ok: "readable st"
    and scope: "require_scope actor ''devices:read'' = Ok ()" and sha: "digest_size sha" and epoch: "CHR ''.'' \<notin> set epoch"
  shows "\<exists>n \<le> 2 * length (st_entries st) + 5. up_to_date st ((advance sha actor st ^^ n) c)"
proof -
  from sync_run_inv [OF epoch run] have inv: "store_inv st" and c: "client_inv sha st c" by simp_all
  show ?thesis
  proof (cases c)
    case Lost
    obtain n where "n \<le> length (st_entries st) + 3" "up_to_date st ((advance sha actor st ^^ n) Lost)"
      using catch_up_lost [OF inv ok scope sha] by blast
    then show ?thesis unfolding Lost by (intro exI [of _ n]) simp
  next
    case (Following s r)
    with c obtain n where "n \<le> length (st_entries st) + 4" "up_to_date st ((advance sha actor st ^^ n) (Following s r))"
      using catch_up_following [OF inv ok scope sha, of s r] by auto
    then show ?thesis unfolding Following by (intro exI [of _ n]) simp
  next
    case (Resyncing raw p r)
    with c obtain dev where dev: "raw = issue_cursor sha p dev st" "in_step (covers (Some dev)) p r st" by auto
    show ?thesis
    proof (cases "dev = []")
      case True
      have "\<exists>e. verify_cursor sha raw st = Err e"
      proof (cases "verify_cursor sha raw st")
        case (Inr t)
        obtain e p' d where "t = (e, p', d)" by (metis prod.collapse)
        with Inr have v: "verify_cursor sha raw st = Ok (e, p', d)" by simp
        from issued_cursor [OF v [unfolded dev(1)]] verified_device [OF v] True readable_epoch [OF ok] show ?thesis by simp
      qed simp
      then have adv: "advance sha actor st (Resyncing raw p r) = Lost" using bad_cursor_lost [OF scope] by blast
      obtain n where n: "n \<le> length (st_entries st) + 3" "up_to_date st ((advance sha actor st ^^ n) Lost)"
        using catch_up_lost [OF inv ok scope sha] by blast
      then show ?thesis unfolding Resyncing by (intro exI [of _ "Suc n"]) (simp add: funpow_swap1 adv)
    next
      case False
      from resync_ends [OF inv ok scope sha dev(2) False] obtain m r' where m: "m \<le> length (after_cursor (Some dev) st) + 1"
        "(advance sha actor st ^^ m) c = Following p r'" "in_step (\<lambda>_. True) p r' st" unfolding Resyncing dev(1) by blast
      from catch_up_following [OF inv ok scope sha m(3)] obtain n where n: "n \<le> length (st_entries st) + 4"
        "up_to_date st ((advance sha actor st ^^ n) (Following p r'))" by blast
      then have up: "up_to_date st ((advance sha actor st ^^ (n + m)) c)"
        using funpow_compose [of n "advance sha actor st" m c] m(2) by simp
      have "length (after_cursor (Some dev) st) \<le> length (st_entries st)" by (simp add: after_cursor_def)
      with n(1) m(1) up show ?thesis by (intro exI [of _ "n + m"]) simp
    qed
  qed
qed

lemma sample_store:
  "readable (fst (sync_run (\<lambda>_. replicate 32 0) sample_reader ''ab'' [] sample_sync))
   \<and> length (st_entries (fst (sync_run (\<lambda>_. replicate 32 0) sample_reader ''ab'' [] sample_sync))) = 2"
  by (simp add: sample_sync_def sync_run_def new_store_def replace_snapshot_def write_entry_def Let_def next_revision_def
    generation_of_def final_fields_def replaced_fields_def put_entry_def mark_instance_stale_def stale_where_locked_def flip_stale_def
    enforce_stale_cap_def stale_entries_def max_stale_entries_def
    get_all_device_state_def sample_reader_def require_scope_def satisfied_by_def page_limit_def default_page_devices_def max_page_devices_def
    snapshot_page_def after_cursor_def gather_devices_def commit_device_def is_new_device_def add_pending_def merge_fields_unbounded_def
    truncate_to_byte_cap_def on_page_def receive_def query_device_state_changes_def deltas_since_def changes_limit_def
    default_changes_limit_def max_changes_limit_def saturating_add_def
    readable_def u64_top_def max_cap_sentinel_def)

theorem client_catches_up_witness:
  "\<exists>st r. sync_run (\<lambda>_. replicate 32 0) sample_reader ''ab'' [] sample_sync = (st, Following 1 r)
    \<and> (\<exists>n \<le> 9. up_to_date st ((advance (\<lambda>_. replicate 32 0) sample_reader st ^^ n) (Following 1 r)))"
proof -
  obtain st c where run: "sync_run (\<lambda>_. replicate 32 0) sample_reader ''ab'' [] sample_sync = (st, c)" by (metis prod.collapse)
  from sample_sync_run [unfolded run prod.case] obtain r where c: "c = Following 1 r" by (auto split: client.splits sum.splits)
  have "readable st \<and> length (st_entries st) = 2"
    using sample_store run by simp
  moreover have "require_scope sample_reader ''devices:read'' = Ok ()" by (simp add: sample_reader_def require_scope_def satisfied_by_def)
  moreover have "digest_size (\<lambda>_. replicate 32 0)" by (simp add: digest_size_def)
  ultimately have "\<exists>n \<le> 2 * length (st_entries st) + 5. up_to_date st ((advance (\<lambda>_. replicate 32 0) sample_reader st ^^ n) (Following 1 r))"
    using client_catches_up [OF run [unfolded c]] by simp
  with run c \<open>readable st \<and> length (st_entries st) = 2\<close> show ?thesis by auto
qed

end
