(* ===== verification/Event_Log.thy ===== *)
theory Event_Log
  imports Event_Bus Slot_Fields "HOL-Library.Product_Lexorder" "HOL-Library.Multiset"
begin

text \<open>
  \<^verbatim>\<open>crates/oxidhome-core/src/state/event_log.rs\<close>: the durable history of the events.  A payload is stored as JSON:
  the derived codecs of the stored types are written out on the JSON tree, and the text is \<^verbatim>\<open>serde_json\<close>'s, the
  parameters \<open>to_text\<close> and \<open>of_text\<close>.  The table is the list of its rows in the order of their keys; as in the
  other stores a call takes whether the database serves it.
\<close>

section \<open>The stored payload\<close>

datatype jval =
    JvNull
  | JvBool bool
  | JvInt int
  | JvFloat rat
  | JvString string
  | JvArray "jval list"
  | JvObject "(string \<times> jval) list"

text \<open>Serialising: a float that is not finite is written as \<^verbatim>\<open>null\<close>.\<close>

definition ser_f64 :: "f64 \<Rightarrow> jval" where
  "ser_f64 x = (case x of Fin r \<Rightarrow> JvFloat r | _ \<Rightarrow> JvNull)"

definition tagged :: "string \<Rightarrow> jval \<Rightarrow> jval" where
  "tagged t v = JvObject [(''t'', JvString t), (''v'', v)]"

fun ser_value :: "wit_value \<Rightarrow> jval" where
  "ser_value (BoolVal b) = tagged ''Bool'' (JvBool b)"
| "ser_value (IntVal i) = tagged ''Int'' (JvInt i)"
| "ser_value (FloatVal f) = tagged ''Float'' (ser_f64 f)"
| "ser_value (StringVal s) = tagged ''String'' (JvString s)"
| "ser_value (BytesVal b) = tagged ''Bytes'' (JvArray (map (\<lambda>x. JvInt (uint x)) b))"
| "ser_value (JsonVal s) = tagged ''Json'' (JvString s)"

definition ser_key_value :: "key_value \<Rightarrow> jval" where
  "ser_key_value kv = JvObject [(''key'', JvString (kv_key kv)), (''value'', ser_value (kv_val kv))]"

fun ser_button :: "button_event \<Rightarrow> jval" where
  "ser_button Pressed = JvString ''Pressed''"
| "ser_button Released = JvString ''Released''"
| "ser_button SinglePress = JvString ''SinglePress''"
| "ser_button DoublePress = JvString ''DoublePress''"
| "ser_button LongPress = JvString ''LongPress''"
| "ser_button (Rotated delta) = JvObject [(''Rotated'', ser_f64 delta)]"

fun ser_payload :: "key_value list event_payload \<Rightarrow> jval" where
  "ser_payload (StateChanged capability fs) =
     tagged ''StateChanged''
       (JvObject [(''capability'', JvString capability), (''fields'', JvArray (map ser_key_value fs))])"
| "ser_payload (Button b) = tagged ''Button'' (ser_button b)"
| "ser_payload (Inference i) =
     tagged ''Inference''
       (JvObject [(''model'', JvString (inf_model i)), (''payload'', JvString (inf_payload i)),
         (''frame_timestamp'', case inf_frame i of Some t \<Rightarrow> JvInt (int t) | None \<Rightarrow> JvNull)])"
| "ser_payload (Custom topic text) =
     tagged ''Custom'' (JvObject [(''topic'', JvString topic), (''payload'', JvString text)])"

text \<open>Deserialising a struct: its fields by name, each at most once and the unknown ones skipped, or by position.  A
  field of type \<^verbatim>\<open>Option\<close> may be missing by name.\<close>

definition named_value :: "(string \<times> jval) list \<Rightarrow> string \<times> bool \<Rightarrow> jval option" where
  "named_value ms = (\<lambda>(name, optional).
     (case map snd (filter (\<lambda>m. fst m = name) ms) of
        [] \<Rightarrow> if optional then Some JvNull else None
      | [v] \<Rightarrow> Some v
      | _ \<Rightarrow> None))"

definition struct_values :: "(string \<times> bool) list \<Rightarrow> jval \<Rightarrow> jval list option" where
  "struct_values names j =
     (case j of
        JvObject ms \<Rightarrow> those (map (named_value ms) names)
      | JvArray vs \<Rightarrow> if length vs = length names then Some vs else None
      | _ \<Rightarrow> None)"

definition de_string :: "jval \<Rightarrow> string option" where
  "de_string j = (case j of JvString s \<Rightarrow> Some s | _ \<Rightarrow> None)"

definition de_f64 :: "jval \<Rightarrow> f64 option" where
  "de_f64 j = (case j of JvFloat r \<Rightarrow> Some (Fin r) | JvInt i \<Rightarrow> Some (int_to_f64 i) | _ \<Rightarrow> None)"

definition de_int :: "int \<Rightarrow> int \<Rightarrow> jval \<Rightarrow> int option" where
  "de_int lo hi j = (case j of JvInt i \<Rightarrow> if lo \<le> i \<and> i \<le> hi then Some i else None | _ \<Rightarrow> None)"

definition de_bytes :: "jval \<Rightarrow> 8 word list option" where
  "de_bytes j = (case j of JvArray vs \<Rightarrow> those (map (\<lambda>v. map_option word_of_int (de_int 0 255 v)) vs) | _ \<Rightarrow> None)"

definition de_tagged :: "jval \<Rightarrow> (string \<times> jval) option" where
  "de_tagged j =
     (case struct_values [(''t'', False), (''v'', False)] j of
        Some [JvString t, v] \<Rightarrow> Some (t, v)
      | _ \<Rightarrow> None)"

definition de_value :: "jval \<Rightarrow> wit_value option" where
  "de_value j =
     (case de_tagged j of
        None \<Rightarrow> None
      | Some (t, v) \<Rightarrow>
          if t = ''Bool'' then (case v of JvBool b \<Rightarrow> Some (BoolVal b) | _ \<Rightarrow> None)
          else if t = ''Int'' then map_option IntVal (de_int (- i64_top - 1) i64_top v)
          else if t = ''Float'' then map_option FloatVal (de_f64 v)
          else if t = ''String'' then map_option StringVal (de_string v)
          else if t = ''Bytes'' then map_option BytesVal (de_bytes v)
          else if t = ''Json'' then map_option JsonVal (de_string v)
          else None)"

definition de_key_value :: "jval \<Rightarrow> key_value option" where
  "de_key_value j =
     (case struct_values [(''key'', False), (''value'', False)] j of
        Some [k, v] \<Rightarrow>
          (case (de_string k, de_value v) of
             (Some k', Some v') \<Rightarrow> Some \<lparr>kv_key = k', kv_val = v'\<rparr>
           | _ \<Rightarrow> None)
      | _ \<Rightarrow> None)"

definition unit_button :: "string \<Rightarrow> button_event option" where
  "unit_button name =
     (if name = ''Pressed'' then Some Pressed
      else if name = ''Released'' then Some Released
      else if name = ''SinglePress'' then Some SinglePress
      else if name = ''DoublePress'' then Some DoublePress
      else if name = ''LongPress'' then Some LongPress
      else None)"

definition de_button :: "jval \<Rightarrow> button_event option" where
  "de_button j =
     (case j of
        JvString name \<Rightarrow> unit_button name
      | JvObject [(name, v)] \<Rightarrow>
          if name = ''Rotated'' then map_option Rotated (de_f64 v)
          else if v = JvNull then unit_button name
          else None
      | _ \<Rightarrow> None)"

definition de_frame :: "jval \<Rightarrow> nat option option" where
  "de_frame j = (if j = JvNull then Some None else map_option (\<lambda>i. Some (nat i)) (de_int 0 (int u64_top) j))"

definition de_payload :: "jval \<Rightarrow> key_value list event_payload option" where
  "de_payload j =
     (case de_tagged j of
        None \<Rightarrow> None
      | Some (t, v) \<Rightarrow>
          if t = ''StateChanged'' then
            (case struct_values [(''capability'', False), (''fields'', False)] v of
               Some [c, JvArray fs] \<Rightarrow>
                 (case (de_string c, those (map de_key_value fs)) of
                    (Some c', Some fs') \<Rightarrow> Some (StateChanged c' fs')
                  | _ \<Rightarrow> None)
             | _ \<Rightarrow> None)
          else if t = ''Button'' then map_option Button (de_button v)
          else if t = ''Inference'' then
            (case struct_values [(''model'', False), (''payload'', False), (''frame_timestamp'', True)] v of
               Some [m, p, f] \<Rightarrow>
                 (case (de_string m, de_string p, de_frame f) of
                    (Some m', Some p', Some f') \<Rightarrow> Some (Inference \<lparr>inf_model = m', inf_payload = p', inf_frame = f'\<rparr>)
                  | _ \<Rightarrow> None)
             | _ \<Rightarrow> None)
          else if t = ''Custom'' then
            (case struct_values [(''topic'', False), (''payload'', False)] v of
               Some [k, p] \<Rightarrow>
                 (case (de_string k, de_string p) of (Some k', Some p') \<Rightarrow> Some (Custom k' p') | _ \<Rightarrow> None)
             | _ \<Rightarrow> None)
          else None)"

definition serialize_payload :: "(jval \<Rightarrow> 8 word list) \<Rightarrow> key_value list event_payload \<Rightarrow> 8 word list" where
  "serialize_payload to_text p = to_text (ser_payload p)"

section \<open>The table\<close>

record event_row =
  ev_id :: nat
  ev_received :: int
  ev_payload_ms :: int
  ev_device :: "string option"
  ev_instance :: string
  ev_plugin :: string
  ev_topic :: string
  ev_blob :: "8 word list"

type_synonym event_db = "event_row list"

datatype event_log_error = EvDecode string | EvSql

text \<open>The key of a new row of a table with an \<^verbatim>\<open>INTEGER PRIMARY KEY\<close> is one above the highest key there is.\<close>

definition next_row_id :: "event_db \<Rightarrow> nat" where
  "next_row_id db = fold max (map ev_id db) 0 + 1"

definition record_prepared ::
  "bool \<Rightarrow> int \<Rightarrow> key_value list event \<Rightarrow> string \<Rightarrow> string \<Rightarrow> 8 word list \<Rightarrow> event_db \<Rightarrow> event_db \<times> (event_log_error + nat)" where
  "record_prepared io received e inst plugin blob db =
     (if \<not> io then (db, Err EvSql)
      else let i = next_row_id db in
        (db @ [\<lparr>ev_id = i, ev_received = received, ev_payload_ms = min (int (event_time e)) i64_top, ev_device = event_device e,
                ev_instance = inst, ev_plugin = plugin, ev_topic = topic_of e, ev_blob = blob\<rparr>], Ok i))"

definition record_event ::
  "(jval \<Rightarrow> 8 word list) \<Rightarrow> bool \<Rightarrow> int \<Rightarrow> key_value list event \<Rightarrow> string \<Rightarrow> string \<Rightarrow> event_db
     \<Rightarrow> event_db \<times> (event_log_error + nat)" where
  "record_event to_text io received e inst plugin db =
     record_prepared io received e inst plugin (serialize_payload to_text (payload e)) db"

datatype topic_match = Exact | Prefix

record event_query =
  q_since :: "int option"
  q_until :: "int option"
  q_device :: "string option"
  q_instance :: "string option"
  q_plugin :: "string option"
  q_topic :: "(string \<times> topic_match) option"
  q_after :: "nat option"
  q_before :: "nat option"

definition topic_matches :: "string \<times> topic_match \<Rightarrow> string \<Rightarrow> bool" where
  "topic_matches = (\<lambda>(t, m) topic.
     (case m of Exact \<Rightarrow> topic = t | Prefix \<Rightarrow> CHR 0x00 \<notin> set t \<and> starts_with t topic))"

definition row_matches :: "event_query \<Rightarrow> event_row \<Rightarrow> bool" where
  "row_matches q r =
     (pred_option (\<lambda>t. ev_received r \<ge> t) (q_since q)
      \<and> pred_option (\<lambda>t. ev_received r \<le> t) (q_until q)
      \<and> pred_option (\<lambda>d. ev_device r = Some d) (q_device q)
      \<and> pred_option (\<lambda>i. ev_instance r = i) (q_instance q)
      \<and> pred_option (\<lambda>p. ev_plugin r = p) (q_plugin q)
      \<and> pred_option (\<lambda>t. topic_matches t (ev_topic r)) (q_topic q)
      \<and> pred_option (\<lambda>a. int (ev_id r) > min (int a) i64_top) (q_after q)
      \<and> pred_option (\<lambda>b. int (ev_id r) < min (int b) i64_top) (q_before q))"

record historical_event =
  hist_id :: nat
  hist_received :: int
  hist_payload_ms :: nat
  hist_device :: "string option"
  hist_instance :: string
  hist_plugin :: string
  hist_topic :: string
  hist_payload :: "key_value list event_payload"

definition decode_row :: "(8 word list \<Rightarrow> jval option) \<Rightarrow> event_row \<Rightarrow> event_log_error + historical_event" where
  "decode_row of_text r =
     (case Option.bind (of_text (ev_blob r)) de_payload of
        None \<Rightarrow> Err (EvDecode (ev_topic r))
      | Some p \<Rightarrow> Ok \<lparr>hist_id = ev_id r, hist_received = ev_received r,
            hist_payload_ms = (if ev_payload_ms r \<ge> 0 then nat (ev_payload_ms r) else 0), hist_device = ev_device r,
            hist_instance = ev_instance r, hist_plugin = ev_plugin r, hist_topic = ev_topic r, hist_payload = p\<rparr>)"

text \<open>The rows are decoded in order, and the first that does not decode fails the query.\<close>

fun decode_rows :: "(8 word list \<Rightarrow> jval option) \<Rightarrow> event_row list \<Rightarrow> event_log_error + historical_event list" where
  "decode_rows of_text [] = Ok []"
| "decode_rows of_text (r # rs) =
     (case decode_row of_text r of
        Err e \<Rightarrow> Err e
      | Ok h \<Rightarrow> (case decode_rows of_text rs of Err e \<Rightarrow> Err e | Ok hs \<Rightarrow> Ok (h # hs)))"

definition newest_first :: "event_row list \<Rightarrow> event_row list" where
  "newest_first rs = sort_key (\<lambda>r. (- ev_received r, - int (ev_id r))) rs"

definition selected_rows :: "event_query \<Rightarrow> nat \<Rightarrow> event_db \<Rightarrow> event_row list" where
  "selected_rows q limit db = take (min limit (nat i64_top)) (newest_first (filter (row_matches q) db))"

definition query_events ::
  "(8 word list \<Rightarrow> jval option) \<Rightarrow> bool \<Rightarrow> event_query \<Rightarrow> nat \<Rightarrow> event_db \<Rightarrow> event_log_error + historical_event list" where
  "query_events of_text io q limit db =
     (if \<not> io then Err EvSql else decode_rows of_text (selected_rows q limit db))"

definition trim_older_than :: "bool \<Rightarrow> int \<Rightarrow> event_db \<Rightarrow> event_db \<times> (event_log_error + nat)" where
  "trim_older_than io cutoff db =
     (if \<not> io then (db, Err EvSql)
      else let kept = filter (\<lambda>r. \<not> ev_received r < cutoff) db in (kept, Ok (length db - length kept)))"

definition count_events :: "bool \<Rightarrow> event_db \<Rightarrow> event_log_error + nat" where
  "count_events io db = (if \<not> io then Err EvSql else Ok (length db))"

section \<open>What is stored reads back\<close>

text \<open>The machine ranges of the numbers in a payload, and whether its floats are finite.\<close>

fun value_typed :: "wit_value \<Rightarrow> bool" where
  "value_typed (IntVal i) = (- i64_top - 1 \<le> i \<and> i \<le> i64_top)"
| "value_typed _ = True"

fun payload_typed :: "key_value list event_payload \<Rightarrow> bool" where
  "payload_typed (StateChanged _ fs) = list_all (\<lambda>kv. value_typed (kv_val kv)) fs"
| "payload_typed (Inference i) = pred_option (\<lambda>t. t \<le> u64_top) (inf_frame i)"
| "payload_typed _ = True"

fun value_finite :: "wit_value \<Rightarrow> bool" where
  "value_finite (FloatVal f) = is_finite f"
| "value_finite _ = True"

fun payload_finite :: "key_value list event_payload \<Rightarrow> bool" where
  "payload_finite (StateChanged _ fs) = list_all (\<lambda>kv. value_finite (kv_val kv)) fs"
| "payload_finite (Button (Rotated f)) = is_finite f"
| "payload_finite _ = True"

lemma de_ser_f64: "de_f64 (ser_f64 x) = (if is_finite x then Some x else None)"
  by (cases x) (simp_all add: de_f64_def ser_f64_def)

lemma de_ser_tagged [simp]: "de_tagged (tagged t v) = Some (t, v)"
  by (simp add: de_tagged_def tagged_def struct_values_def named_value_def)

lemma those_map_Some: "(\<And>x. x \<in> set xs \<Longrightarrow> f x = Some (g x)) \<Longrightarrow> those (map f xs) = Some (map g xs)"
  by (induction xs) simp_all

lemma those_None: "x \<in> set xs \<Longrightarrow> f x = None \<Longrightarrow> those (map f xs) = None"
  by (induction xs) (auto split: option.split)

lemma word_of_uint_range: "de_int 0 255 (JvInt (uint (x :: 8 word))) = Some (uint x)"
proof -
  have "uint x < 2 ^ 8" using uint_bounded [of x] by simp
  then show ?thesis by (simp add: de_int_def)
qed

lemma de_ser_bytes: "de_bytes (JvArray (map (\<lambda>x. JvInt (uint x)) b)) = Some b"
  by (simp add: de_bytes_def comp_def those_map_Some [of b _ "\<lambda>x. x"] word_of_uint_range)

lemma de_ser_value: "value_typed v \<Longrightarrow> de_value (ser_value v) = (if value_finite v then Some v else None)"
  by (cases v) (simp_all add: de_value_def de_ser_f64 de_ser_bytes de_string_def de_int_def)

lemma de_ser_key_value:
  "value_typed (kv_val kv) \<Longrightarrow> de_key_value (ser_key_value kv) = (if value_finite (kv_val kv) then Some kv else None)"
  by (simp add: de_key_value_def ser_key_value_def struct_values_def named_value_def de_ser_value de_string_def)

lemma de_ser_fields:
  assumes "list_all (\<lambda>kv. value_typed (kv_val kv)) fs"
  shows "those (map de_key_value (map ser_key_value fs)) = (if list_all (\<lambda>kv. value_finite (kv_val kv)) fs then Some fs else None)"
proof (cases "list_all (\<lambda>kv. value_finite (kv_val kv)) fs")
  case True
  have "those (map (\<lambda>kv. de_key_value (ser_key_value kv)) fs) = Some (map (\<lambda>kv. kv) fs)"
    by (rule those_map_Some) (use assms True in \<open>auto simp: list_all_iff de_ser_key_value\<close>)
  with True show ?thesis by (simp add: comp_def)
next
  case False
  then obtain kv where kv: "kv \<in> set fs" "\<not> value_finite (kv_val kv)" by (auto simp: list_all_iff)
  with assms have "de_key_value (ser_key_value kv) = None" by (simp add: list_all_iff de_ser_key_value)
  with kv(1) False show ?thesis unfolding map_map comp_def by (simp add: those_None)
qed

lemma de_ser_button:
  "de_button (ser_button b) = (if payload_finite (Button b) then Some b else None)"
  by (cases b) (simp_all add: de_button_def unit_button_def de_ser_f64)

lemma payload_roundtrip:
  assumes "payload_typed p"
  shows "de_payload (ser_payload p) = (if payload_finite p then Some p else None)"
proof (cases p)
  case (StateChanged c fs)
  with assms de_ser_fields [of fs] show ?thesis
    by (simp add: de_payload_def struct_values_def named_value_def de_string_def)
next
  case (Button b)
  then show ?thesis by (simp add: de_payload_def de_ser_button)
next
  case (Inference i)
  have "de_frame (case inf_frame i of Some t \<Rightarrow> JvInt (int t) | None \<Rightarrow> JvNull) = Some (inf_frame i)"
    using assms Inference by (cases "inf_frame i") (simp_all add: de_frame_def de_int_def)
  with Inference show ?thesis by (simp add: de_payload_def struct_values_def named_value_def de_string_def)
next
  case (Custom t s)
  then show ?thesis by (simp add: de_payload_def struct_values_def named_value_def de_string_def)
qed

section \<open>The table\<close>

definition ids_ascend :: "event_db \<Rightarrow> bool" where
  "ids_ascend db = sorted_wrt (<) (map ev_id db)"

lemma next_row_id_fresh: "r \<in> set db \<Longrightarrow> ev_id r < next_row_id db"
  using fold_max_ge [of "ev_id r" "map ev_id db" 0] by (simp add: next_row_id_def le_imp_less_Suc)

lemma record_ids: "ids_ascend db \<Longrightarrow> ids_ascend (fst (record_prepared io received e inst plugin blob db))"
  using next_row_id_fresh [of _ db] by (auto simp: record_prepared_def ids_ascend_def Let_def sorted_wrt_append)

lemma trim_ids: "ids_ascend db \<Longrightarrow> ids_ascend (fst (trim_older_than io cutoff db))"
  by (simp add: trim_older_than_def ids_ascend_def Let_def sorted_wrt_map sorted_wrt_filter)

text \<open>Decoding keeps the rows in order, and fails with the first row that does not decode.\<close>

lemma decode_rows_Ok: "(\<And>r. r \<in> set rs \<Longrightarrow> decode_row of_text r = Ok (h r)) \<Longrightarrow> decode_rows of_text rs = Ok (map h rs)"
  by (induction rs) simp_all

lemma decode_rows_Err: "r \<in> set rs \<Longrightarrow> decode_row of_text r = Err e \<Longrightarrow> \<exists>e'. decode_rows of_text rs = Err e'"
  by (induction rs) (auto split: sum.split)

lemma decode_rows_prefix: "decode_rows of_text rs = Ok hs \<Longrightarrow> \<exists>h. decode_rows of_text rs = Ok (map h rs) \<and> (\<forall>r \<in> set rs. decode_row of_text r = Ok (h r))"
proof -
  assume ok: "decode_rows of_text rs = Ok hs"
  define h :: "event_row \<Rightarrow> historical_event" where "h r = (case decode_row of_text r of Ok x \<Rightarrow> x)" for r
  have "decode_row of_text r = Ok (h r)" if "r \<in> set rs" for r
  proof (cases "decode_row of_text r")
    case (Inl e)
    from decode_rows_Err [OF that Inl] ok show ?thesis by auto
  qed (simp add: h_def)
  with decode_rows_Ok [of rs of_text h] show ?thesis by blast
qed

section \<open>Newest first\<close>

lemma newest_first_rev:
  assumes "ids_ascend db" and "sorted (map ev_received db)"
  shows "newest_first db = rev db"
proof -
  let ?f = "\<lambda>r. (- ev_received r, - int (ev_id r))"
  have "sorted_wrt (\<lambda>r r'. ev_received r \<le> ev_received r' \<and> ev_id r < ev_id r') db"
    using assms by (induction db) (auto simp: ids_ascend_def)
  then have sorted: "sorted (map ?f (rev db))"
    by (induction db) (auto simp: sorted_append less_eq_prod_def)
  have inj: "inj_on ?f (set db)"
  proof (rule inj_onI)
    fix x y assume xy: "x \<in> set db" "y \<in> set db" "?f x = ?f y"
    have "inj_on ev_id (set db)" using assms(1) by (simp add: ids_ascend_def strict_sorted_iff distinct_map)
    with xy show "x = y" by (auto dest: inj_onD)
  qed
  show ?thesis
    unfolding newest_first_def by (rule sort_key_inj_key_eq [OF _ inj sorted]) simp
qed

section \<open>Reading an event back\<close>

definition query_all :: event_query where
  "query_all = \<lparr>q_since = None, q_until = None, q_device = None, q_instance = None, q_plugin = None, q_topic = None,
     q_after = None, q_before = None\<rparr>"

lemma record_event_eq:
  "record_event to_text True received e inst plugin db =
     (db @ [\<lparr>ev_id = next_row_id db, ev_received = received, ev_payload_ms = min (int (event_time e)) i64_top,
        ev_device = event_device e, ev_instance = inst, ev_plugin = plugin, ev_topic = topic_of e,
        ev_blob = to_text (ser_payload (payload e))\<rparr>], Ok (next_row_id db))"
  by (simp add: record_event_def record_prepared_def serialize_payload_def Let_def)


text \<open>Claim C32: an event with a float that is not finite is stored all the same, and from then on every query whose
  page holds its row fails as a whole, whatever else the page holds.\<close>

theorem nonfinite_event_fails_queries:
  assumes codec: "of_text (to_text (ser_payload (payload e))) = Some (ser_payload (payload e))"
    and typed: "payload_typed (payload e)" and poison: "\<not> payload_finite (payload e)"
    and rec: "record_event to_text True received e inst plugin db = (db', Ok i)"
    and ids: "ids_ascend db" and page: "\<exists>r \<in> set (selected_rows q limit db'). ev_id r = i"
  shows "\<exists>t. query_events of_text True q limit db' = Err (EvDecode t)"
proof -
  obtain r where r: "r \<in> set (selected_rows q limit db')" "ev_id r = i" using page by blast
  have "r \<in> set db'" using r(1) by (auto simp: selected_rows_def newest_first_def dest: in_set_takeD)
  moreover have "\<not> r \<in> set db" using next_row_id_fresh [of r db] r(2) rec by (auto simp: record_event_eq)
  ultimately have "ev_blob r = to_text (ser_payload (payload e))" using rec by (auto simp: record_event_eq)
  then have bad: "decode_row of_text r = Err (EvDecode (ev_topic r))"
    using payload_roundtrip [OF typed] poison codec by (simp add: decode_row_def)
  obtain e' where e': "decode_rows of_text (selected_rows q limit db') = Err e'" using decode_rows_Err [OF r(1) bad] by blast
  have "decode_rows of_text rs = Err x \<Longrightarrow> \<exists>t. x = EvDecode t" for rs x
    by (induction rs) (auto simp: decode_row_def split: sum.splits option.splits)
  with e' show ?thesis by (auto simp: query_events_def)
qed

section \<open>Walking back through the history\<close>

text \<open>The walk the documentation of \<^verbatim>\<open>EventQuery\<close> describes: the lowest key of a page is the \<open>before_id\<close> of the next one.\<close>

definition lowest_id :: "historical_event list \<Rightarrow> nat" where
  "lowest_id hs = fold min (map hist_id hs) u64_top"

fun walk_back ::
  "(8 word list \<Rightarrow> jval option) \<Rightarrow> event_query \<Rightarrow> nat \<Rightarrow> nat \<Rightarrow> event_db \<Rightarrow> event_log_error + historical_event list" where
  "walk_back of_text q limit 0 db = Ok []"
| "walk_back of_text q limit (Suc fuel) db =
     (case query_events of_text True q limit db of
        Err e \<Rightarrow> Err e
      | Ok hs \<Rightarrow>
          if hs = [] then Ok []
          else (case walk_back of_text (q\<lparr>q_before := Some (lowest_id hs)\<rparr>) limit fuel db of
                  Err e \<Rightarrow> Err e
                | Ok rest \<Rightarrow> Ok (hs @ rest)))"

lemma fold_min_last:
  assumes "sorted_wrt (>) xs" and "xs \<noteq> []" and "\<forall>x \<in> set xs. x \<le> (b :: nat)"
  shows "fold min xs b = last xs"
  using assms
proof (induction xs arbitrary: b)
  case (Cons x xs)
  show ?case
  proof (cases "xs = []")
    case False
    have "fold min xs (min x b) = last xs"
      by (rule Cons.IH) (use Cons.prems False in \<open>auto intro: less_imp_le\<close>)
    with False show ?thesis by simp
  qed (use Cons.prems in simp)
qed simp

lemma filter_below_taken:
  assumes "sorted_wrt (>) (map f ys)" and "0 < n" and "ys \<noteq> []"
  shows "filter (\<lambda>y. (f y :: nat) < f (last (take n ys))) ys = drop n ys"
proof -
  have ne: "take n ys \<noteq> []" using assms(2,3) by simp
  have parts: "sorted_wrt (>) (map f (take n ys) @ map f (drop n ys))"
    using assms(1) by (metis append_take_drop_id map_append)
  have low: "filter (\<lambda>y. f y < f (last (take n ys))) (take n ys) = []"
  proof -
    have "take n ys = butlast (take n ys) @ [last (take n ys)]" using ne by simp
    then have "sorted_wrt (>) (map f (butlast (take n ys)) @ [f (last (take n ys))])"
      using parts by (metis list.simps(8,9) map_append sorted_wrt_append)
    then have "\<forall>y \<in> set (butlast (take n ys)). f (last (take n ys)) < f y" by (auto simp: sorted_wrt_append)
    then have "\<forall>y \<in> set (take n ys). \<not> f y < f (last (take n ys))"
      using \<open>take n ys = butlast (take n ys) @ [last (take n ys)]\<close> by (metis Un_iff empty_iff empty_set less_asym less_irrefl set_ConsD set_append)
    then show ?thesis by (simp add: filter_empty_conv)
  qed
  have "\<forall>y \<in> set (drop n ys). f y < f (last (take n ys))"
    using parts last_in_set [OF ne] by (auto simp: sorted_wrt_append)
  then have "filter (\<lambda>y. f y < f (last (take n ys))) (drop n ys) = drop n ys" by simp
  with low show ?thesis by (metis append_Nil append_take_drop_id filter_append)
qed

lemma before_matches:
  "row_matches (q\<lparr>q_before := Some b\<rparr>) r \<longleftrightarrow> row_matches (q\<lparr>q_before := None\<rparr>) r \<and> int (ev_id r) < min (int b) i64_top"
  by (auto simp: row_matches_def)

lemma matches_any: "row_matches q r \<Longrightarrow> row_matches (q\<lparr>q_before := None\<rparr>) r"
  by (simp add: row_matches_def)

lemma next_page_matches:
  assumes "row_matches q l" and "ev_id l \<le> nat i64_top"
  shows "row_matches (q\<lparr>q_before := Some (ev_id l)\<rparr>) r \<longleftrightarrow> row_matches q r \<and> ev_id r < ev_id l"
proof -
  have top: "int (ev_id l) \<le> i64_top" using assms(2) by (simp add: i64_top_def)
  have "row_matches q r \<longleftrightarrow> row_matches (q\<lparr>q_before := None\<rparr>) r" if "ev_id r < ev_id l"
    using assms(1) that by (cases "q_before q") (auto simp: row_matches_def)
  then show ?thesis unfolding before_matches using top matches_any [of q r] by auto
qed

lemma decoded_id: "decode_row of_text r = Ok x \<Longrightarrow> hist_id x = ev_id r"
  by (auto simp: decode_row_def split: option.splits)

text \<open>Claim C24: when the host's clock did not step back over the rows, the documented walk by \<open>before_id\<close> ends and
  returns every matching row of the table exactly once, the newest first.\<close>

theorem walk_back_complete:
  assumes ids: "ids_ascend db" and clock: "sorted (map ev_received db)" and limit: "0 < limit"
    and small: "\<forall>r \<in> set db. ev_id r \<le> nat i64_top" and decodes: "\<forall>r \<in> set db. decode_row of_text r = Ok (h r)"
    and fuel: "length db < fuel"
  shows "walk_back of_text q limit fuel db = Ok (map h (rev (filter (row_matches q) db)))"
proof -
  have "length (filter (row_matches q) db) < fuel" using le_less_trans [OF length_filter_le fuel] .
  then show ?thesis
  proof (induction fuel arbitrary: q)
    case (Suc fuel)
    let ?ys = "rev (filter (row_matches q) db)"
    define n where "n = min limit (nat i64_top)"
    have n: "0 < n" using limit by (simp add: n_def i64_top_def)
    have ids': "ids_ascend (filter (row_matches q) db)" using ids by (simp add: ids_ascend_def sorted_wrt_map sorted_wrt_filter)
    have clock': "sorted (map ev_received (filter (row_matches q) db))" using clock by (rule sorted_filter)
    have rows: "selected_rows q limit db = take n ?ys"
      by (simp add: selected_rows_def n_def newest_first_rev [OF ids' clock'])
    have sub: "set (take n ?ys) \<subseteq> set db" by (auto dest: in_set_takeD)
    have decoded: "query_events of_text True q limit db = Ok (map h (take n ?ys))"
      using decode_rows_Ok [of "take n ?ys" of_text h] sub decodes by (auto simp: query_events_def rows)
    have hist: "hist_id (h r) = ev_id r" if "r \<in> set db" for r
      by (rule decoded_id [of of_text]) (use decodes that in blast)
    show ?case
    proof (cases "?ys = []")
      case True
      then show ?thesis by (simp add: decoded)
    next
      case False
      define l where "l = last (take n ?ys)"
      have l: "l \<in> set (take n ?ys)" unfolding l_def using False n by (intro last_in_set) simp
      then have "l \<in> set ?ys" by (rule in_set_takeD)
      then have l': "row_matches q l" "ev_id l \<le> nat i64_top" using small by auto
      have desc: "sorted_wrt (>) (map ev_id ?ys)"
        using ids' by (simp add: ids_ascend_def rev_map [symmetric] sorted_wrt_rev)
      have same: "map hist_id (map h (take n ?ys)) = map ev_id (take n ?ys)" using hist sub by auto
      have "fold min (map ev_id (take n ?ys)) u64_top = last (map ev_id (take n ?ys))"
      proof (rule fold_min_last)
        show "sorted_wrt (>) (map ev_id (take n ?ys))" using desc by (simp add: take_map [symmetric] sorted_wrt_take)
        show "map ev_id (take n ?ys) \<noteq> []" using False n by simp
        have "nat i64_top \<le> u64_top" by (simp add: i64_top_def u64_top_def)
        with small sub show "\<forall>x \<in> set (map ev_id (take n ?ys)). x \<le> u64_top" by (auto intro: order_trans)
      qed
      then have low: "lowest_id (map h (take n ?ys)) = ev_id l"
        unfolding lowest_id_def same l_def using False n by (simp add: last_map)
      have left: "filter (row_matches (q\<lparr>q_before := Some (ev_id l)\<rparr>)) db = rev (drop n ?ys)"
      proof -
        have "filter (row_matches (q\<lparr>q_before := Some (ev_id l)\<rparr>)) db = filter (\<lambda>r. ev_id r < ev_id l) (filter (row_matches q) db)"
          unfolding filter_filter next_page_matches [OF l'] by (simp add: conj_commute)
        also have "\<dots> = rev (filter (\<lambda>r. ev_id r < ev_id l) ?ys)" by (simp add: rev_filter)
        finally show ?thesis using filter_below_taken [OF desc n False] by (simp add: l_def)
      qed
      have fewer: "length (filter (row_matches (q\<lparr>q_before := Some (ev_id l)\<rparr>)) db) < fuel"
        using Suc.prems False n unfolding left by (cases "length (filter (row_matches q) db)") auto
      have walk: "walk_back of_text (q\<lparr>q_before := Some (ev_id l)\<rparr>) limit fuel db = Ok (map h (drop n ?ys))"
        using Suc.IH [OF fewer] by (simp add: left)
      have "map h (take n ?ys) \<noteq> []" using False n by simp
      then have "walk_back of_text q limit (Suc fuel) db = Ok (map h (take n ?ys) @ map h (drop n ?ys))"
        using walk by (simp add: decoded low)
      then show ?thesis unfolding map_append [symmetric] append_take_drop_id .
    qed
  qed simp
qed

section \<open>Witnesses\<close>

text \<open>A text codec for the witnesses: the payloads of two sample events.\<close>

definition sample_state :: "f64 \<Rightarrow> key_value list event" where
  "sample_state f = \<lparr>event_device = Some ''d'', event_time = 7, origin_plugin = ''p'', origin_instance = ''i'', row_id = None,
     payload = StateChanged ''sensor'' [\<lparr>kv_key = ''value'', kv_val = FloatVal f\<rparr>]\<rparr>"

definition sample_text :: "jval \<Rightarrow> 8 word list" where
  "sample_text j = (if j = ser_payload (payload (sample_state NaN)) then [0] else [1])"

definition sample_parse :: "8 word list \<Rightarrow> jval option" where
  "sample_parse b = (if b = [0] then Some (ser_payload (payload (sample_state NaN)))
     else if b = [1] then Some (ser_payload (payload (sample_state (Fin 21)))) else None)"

lemma sample_codec:
  "sample_parse (sample_text (ser_payload (payload (sample_state (Fin 21))))) = Some (ser_payload (payload (sample_state (Fin 21))))"
  "sample_parse (sample_text (ser_payload (payload (sample_state NaN)))) = Some (ser_payload (payload (sample_state NaN)))"
  by (simp_all add: sample_parse_def sample_text_def sample_state_def ser_key_value_def tagged_def ser_f64_def)


theorem nonfinite_event_fails_queries_witness:
  "\<exists>t. query_events sample_parse True query_all 10 (fst (record_event sample_text True 99 (sample_state NaN) ''i'' ''p'' []))
     = Err (EvDecode t)"
proof -
  let ?e = "sample_state NaN"
  obtain db' where rec: "record_event sample_text True 99 ?e ''i'' ''p'' [] = (db', Ok 1)"
    by (simp add: record_event_eq next_row_id_def)
  then have db': "\<exists>r. db' = [r] \<and> ev_id r = 1" by (auto simp: record_event_eq next_row_id_def)
  have "row_matches query_all r" for r by (simp add: row_matches_def query_all_def)
  then have page: "\<exists>r \<in> set (selected_rows query_all 10 db'). ev_id r = 1"
    using db' by (auto simp: selected_rows_def newest_first_def i64_top_def)
  have typed: "payload_typed (payload ?e)" "\<not> payload_finite (payload ?e)" by (simp_all add: sample_state_def)
  from nonfinite_event_fails_queries [of sample_parse, OF sample_codec(2) typed rec _ page] rec show ?thesis by (simp add: ids_ascend_def)
qed

definition sample_log :: event_db where
  "sample_log = map (\<lambda>i. \<lparr>ev_id = i, ev_received = int i, ev_payload_ms = 7, ev_device = Some ''d'', ev_instance = ''i'',
     ev_plugin = ''p'', ev_topic = ''sensor'', ev_blob = [1]\<rparr>) [1, 2, 3]"

theorem walk_back_complete_witness:
  "\<exists>h. walk_back sample_parse query_all 2 4 sample_log = Ok (map h (rev sample_log))
     \<and> (\<forall>r \<in> set sample_log. hist_id (h r) = ev_id r)"
proof -
  define h :: "event_row \<Rightarrow> historical_event" where "h r = \<lparr>hist_id = ev_id r, hist_received = ev_received r, hist_payload_ms = nat (ev_payload_ms r), hist_device = ev_device r,
    hist_instance = ev_instance r, hist_plugin = ev_plugin r, hist_topic = ev_topic r, hist_payload = payload (sample_state (Fin 21))\<rparr>" for r
  have "payload_typed (payload (sample_state (Fin 21)))" "payload_finite (payload (sample_state (Fin 21)))" by (simp_all add: sample_state_def)
  with payload_roundtrip have reads: "de_payload (ser_payload (payload (sample_state (Fin 21)))) = Some (payload (sample_state (Fin 21)))"
    by simp
  have log: "ids_ascend sample_log" "sorted (map ev_received sample_log)" "\<forall>r \<in> set sample_log. ev_id r \<le> nat i64_top" "length sample_log < 4"
    by (simp_all add: sample_log_def ids_ascend_def i64_top_def)
  have "\<forall>r \<in> set sample_log. decode_row sample_parse r = Ok (h r)"
    using reads by (simp add: sample_log_def decode_row_def sample_parse_def h_def)
  from walk_back_complete [OF log(1,2) _ log(3) this log(4), of 2 query_all]
  have "walk_back sample_parse query_all 2 4 sample_log = Ok (map h (rev (filter (row_matches query_all) sample_log)))" by simp
  moreover have "filter (row_matches query_all) sample_log = sample_log" by (simp add: row_matches_def query_all_def)
  ultimately show ?thesis by (auto simp: h_def)
qed

end
