(* ===== verification/Host_Devices.thy ===== *)
theory Host_Devices
  imports Manifest Devices Event_Log State_Limits
begin

text \<open>
  The device and event calls of a plugin (\<^verbatim>\<open>runtime/state.rs\<close>: \<^verbatim>\<open>host_devices\<close>, \<^verbatim>\<open>host_events\<close>), the projection of a
  command's reply (\<^verbatim>\<open>runtime/instance.rs\<close>) and the sweeps of the lifecycle, over the four stores they share: the device
  registry, the device-state projection, the event log and the event bus.  A call of one instance is one step; the two
  halves of a sweep are separate steps.  Error texts are reduced to their subject.
\<close>

section \<open>Devices as the WIT describes them\<close>

record color_light_spec =
  supports_hsv :: bool
  supports_color_temp :: bool
  min_kelvin :: "nat option"
  max_kelvin :: "nat option"

record sensor_spec =
  spec_unit :: string
  spec_min :: "f64 option"
  spec_max :: "f64 option"

datatype capability_spec =
    SwitchSpec
  | DimmerSpec
  | ColorLightSpec color_light_spec
  | SensorSpec sensor_spec
  | ButtonSpec
  | VideoStreamSpec
  | AudioStreamSpec
  | ExtensionSpec string

datatype capability_state =
    SwitchState bool
  | DimmerState f64
  | ColorLightState (hue: f64) (saturation: f64) (brightness: f64) (kelvin: "nat option")
  | SensorState f64 string

record device_details =
  dd_name :: string
  dd_manufacturer :: "string option"
  dd_model :: "string option"
  dd_firmware :: "string option"
  dd_capabilities :: "capability_spec list"
  dd_initial_state :: "capability_state list"
  dd_metadata :: "key_value list"

type_synonym wit_device_info = "device_details device_info"

fun capability_name :: "capability_spec \<Rightarrow> string" where
  "capability_name SwitchSpec = ''switch''"
| "capability_name DimmerSpec = ''dimmer''"
| "capability_name (ColorLightSpec _) = ''color-light''"
| "capability_name (SensorSpec _) = ''sensor''"
| "capability_name ButtonSpec = ''button''"
| "capability_name VideoStreamSpec = ''video-stream''"
| "capability_name AudioStreamSpec = ''audio-stream''"
| "capability_name (ExtensionSpec name) = ''extension('' @ name @ '')''"

fun capability_state_name :: "capability_state \<Rightarrow> string" where
  "capability_state_name (SwitchState _) = ''switch''"
| "capability_state_name (DimmerState _) = ''dimmer''"
| "capability_state_name (ColorLightState _ _ _ _) = ''color-light''"
| "capability_state_name (SensorState _ _) = ''sensor''"

definition field :: "string \<Rightarrow> wit_value \<Rightarrow> key_value" where
  "field k v = \<lparr>kv_key = k, kv_val = v\<rparr>"

fun state_fields :: "capability_state \<Rightarrow> key_value list" where
  "state_fields (SwitchState b) = [field ''state'' (BoolVal b)]"
| "state_fields (DimmerState l) = [field ''level'' (FloatVal l)]"
| "state_fields (ColorLightState h s v k) =
     [field ''hue'' (FloatVal h), field ''saturation'' (FloatVal s), field ''value'' (FloatVal v)]
     @ (case k of Some t \<Rightarrow> [field ''color_temp_kelvin'' (IntVal (int t))] | None \<Rightarrow> [])"
| "state_fields (SensorState v u) = [field ''value'' (FloatVal v), field ''unit'' (StringVal u)]"

abbreviation capabilities_of :: "wit_device_info \<Rightarrow> capability_spec list" where
  "capabilities_of info \<equiv> dd_capabilities (device_rest info)"

abbreviation initial_state_of :: "wit_device_info \<Rightarrow> capability_state list" where
  "initial_state_of info \<equiv> dd_initial_state (device_rest info)"

definition seed_state_from_initial :: "wit_device_info \<Rightarrow> (string \<times> key_value list) list" where
  "seed_state_from_initial info = map (\<lambda>s. (capability_state_name s, state_fields s)) (initial_state_of info)"

section \<open>Authorising a device\<close>

definition max_capabilities_per_device :: nat where
  "max_capabilities_per_device = 32"

text \<open>The first name that was seen before.\<close>

fun first_repeat :: "string list \<Rightarrow> string list \<Rightarrow> string option" where
  "first_repeat seen [] = None"
| "first_repeat seen (n # ns) = (if n \<in> set seen then Some n else first_repeat (n # seen) ns)"

definition authorize_device_info :: "string list \<Rightarrow> wit_device_info \<Rightarrow> wit_error + unit" where
  "authorize_device_info declared info =
     (let names = map capability_name (capabilities_of info);
          state_names = map capability_state_name (initial_state_of info)
      in if length (capabilities_of info) > max_capabilities_per_device then Err (InvalidArgument (dev_local_id info))
      else case List.find (\<lambda>(name, fs). check_snapshot_admission fs \<noteq> Ok ()) (seed_state_from_initial info) of
        Some (name, fs) \<Rightarrow> Err (InvalidArgument name)
      | None \<Rightarrow>
      (case first_repeat [] names of
        Some name \<Rightarrow> Err (InvalidArgument name)
      | None \<Rightarrow>
      (case first_repeat [] state_names of
        Some name \<Rightarrow> Err (InvalidArgument name)
      | None \<Rightarrow>
      (case List.find (\<lambda>name. name \<notin> set names) state_names of
        Some name \<Rightarrow> Err (PermissionDenied name)
      | None \<Rightarrow>
      (case List.find (\<lambda>name. name \<notin> set declared) names of
        Some name \<Rightarrow> Err (PermissionDenied name)
      | None \<Rightarrow> Ok ())))))"

section \<open>The stores and the instance\<close>

record host =
  h_devices :: "device_details device_registry"
  h_state :: store
  h_log :: event_db
  h_bus :: "key_value list bus"

text \<open>What a call reads of its \<^verbatim>\<open>PluginState\<close>.\<close>

record plugin_ctx =
  pc_instance :: string
  pc_uuid :: string
  pc_plugin :: string
  pc_granted :: capabilities_section

definition host_register_device ::
  "(8 word list \<Rightarrow> 8 word list) \<Rightarrow> plugin_ctx \<Rightarrow> int \<Rightarrow> wit_device_info \<Rightarrow> host \<Rightarrow> host \<times> (wit_error + string)" where
  "host_register_device sha pc received info h =
     (case authorize_device_info (declares_devices (pc_granted pc)) info of
        Err e \<Rightarrow> (h, Err e)
      | Ok () \<Rightarrow>
          (let seed_state = seed_state_from_initial info;
               would_be_id = stable_device_id sha (pc_uuid pc) (pc_instance pc) (dev_local_id info)
           in case check_instance_register_admission would_be_id (pc_instance pc) seed_state (h_state h) of
                Err overflow \<Rightarrow> (h, Err (InvalidArgument would_be_id))
              | Ok () \<Rightarrow>
                  (case try_register sha (pc_uuid pc) (pc_instance pc) info (h_devices h) of
                     (_, Err e) \<Rightarrow> (h, Err e)
                   | (devices', Ok i) \<Rightarrow>
                       (h\<lparr>h_devices := devices', h_state := reset_and_seed_device i (pc_instance pc) seed_state 0 received (h_state h)\<rparr>,
                        Ok i))))"

definition host_update_device :: "plugin_ctx \<Rightarrow> int \<Rightarrow> string \<Rightarrow> wit_device_info \<Rightarrow> host \<Rightarrow> host \<times> (wit_error + unit)" where
  "host_update_device pc now i info h =
     (case authorize_device_info (declares_devices (pc_granted pc)) info of
        Err e \<Rightarrow> (h, Err e)
      | Ok () \<Rightarrow>
          (let live_capabilities = map capability_name (capabilities_of info) in
           case update_device (pc_instance pc) i info (h_devices h) of
             (devices', Ok ()) \<Rightarrow>
               (h\<lparr>h_devices := devices', h_state := fst (reconcile_capabilities now i live_capabilities (h_state h))\<rparr>, Ok ())
           | (devices', Err e) \<Rightarrow> (h\<lparr>h_devices := devices'\<rparr>, Err e)))"

definition host_remove_device :: "plugin_ctx \<Rightarrow> int \<Rightarrow> string \<Rightarrow> host \<Rightarrow> host \<times> (wit_error + unit)" where
  "host_remove_device pc now i h =
     (case remove_device (pc_instance pc) i (h_devices h) of
        (devices', Ok ()) \<Rightarrow> (h\<lparr>h_devices := devices', h_state := fst (mark_device_stale now i (h_state h))\<rparr>, Ok ())
      | (devices', Err e) \<Rightarrow> (h\<lparr>h_devices := devices'\<rparr>, Err e))"

definition host_get_device :: "plugin_ctx \<Rightarrow> string \<Rightarrow> host \<Rightarrow> wit_error + wit_device_info" where
  "host_get_device pc i h =
     (case get_device (pc_instance pc) i (h_devices h) of Err e \<Rightarrow> Err e | Ok m \<Rightarrow> Ok (dev_info m))"

section \<open>Publishing\<close>

definition max_event_payload_bytes :: nat where
  "max_event_payload_bytes = 64 * 1024"

definition required_capability_for_payload :: "key_value list event_payload \<Rightarrow> string option" where
  "required_capability_for_payload p =
     (case p of
        StateChanged capability _ \<Rightarrow> Some capability
      | Button _ \<Rightarrow> Some ''button''
      | Inference _ \<Rightarrow> None
      | Custom _ _ \<Rightarrow> None)"

definition declares_capability :: "wit_device_info \<Rightarrow> string \<Rightarrow> bool" where
  "declares_capability info cap = list_ex (\<lambda>spec. capability_name spec = cap) (capabilities_of info)"

definition require_publish_authorized ::
  "device_details device_registry \<Rightarrow> string \<Rightarrow> key_value list event \<Rightarrow> wit_error + unit" where
  "require_publish_authorized devs inst ev =
     (case (event_device ev, payload ev) of
        (None, Custom _ _) \<Rightarrow> Ok ()
      | (None, _) \<Rightarrow> Err (InvalidArgument ''device'')
      | (Some i, p) \<Rightarrow>
          (case get_device inst i devs of
             Err _ \<Rightarrow> Err (PermissionDenied i)
           | Ok m \<Rightarrow>
               (case required_capability_for_payload p of
                  Some required \<Rightarrow> if declares_capability (dev_info m) required then Ok () else Err (PermissionDenied required)
                | None \<Rightarrow> Ok ())))"

definition delta_refused :: "string \<Rightarrow> key_value list event \<Rightarrow> store \<Rightarrow> bool" where
  "delta_refused inst ev st =
     (case (event_device ev, payload ev) of
        (Some i, StateChanged capability fs) \<Rightarrow> check_delta_admission i inst capability fs st \<noteq> Ok ()
      | _ \<Rightarrow> False)"

definition project_event :: "string \<Rightarrow> int \<Rightarrow> key_value list event \<Rightarrow> store \<Rightarrow> store" where
  "project_event inst applied ev st =
     (case (event_device ev, payload ev) of
        (Some i, StateChanged capability fs) \<Rightarrow> apply_delta i inst capability fs (event_time ev) applied st
      | _ \<Rightarrow> st)"

text \<open>\<open>io\<close>: whether the database records the row; \<open>now\<close>, \<open>received\<close> and \<open>applied\<close> are the clocks the steps read.\<close>

definition host_publish_event ::
  "(jval \<Rightarrow> 8 word list) \<Rightarrow> plugin_ctx \<Rightarrow> bool \<Rightarrow> nat \<Rightarrow> int \<Rightarrow> int \<Rightarrow> key_value list event \<Rightarrow> host \<Rightarrow> host \<times> (wit_error + unit)" where
  "host_publish_event to_text pc io now received applied given h =
     (case require_publish_authorized (h_devices h) (pc_instance pc) given of
        Err e \<Rightarrow> (h, Err e)
      | Ok () \<Rightarrow>
          (let ev = given\<lparr>origin_plugin := pc_plugin pc, origin_instance := pc_instance pc\<rparr>;
               payload_blob = serialize_payload to_text (payload ev)
           in if length payload_blob > max_event_payload_bytes then (h, Err (PermissionDenied ''payload''))
           else case admit_publish (pc_instance pc) now (h_bus h) of
             (bus', Err _) \<Rightarrow> (h\<lparr>h_bus := bus'\<rparr>, Err (Unavailable (pc_instance pc)))
           | (bus', Ok ()) \<Rightarrow>
               if delta_refused (pc_instance pc) ev (h_state h) then (h\<lparr>h_bus := bus'\<rparr>, Err (InvalidArgument (topic_of ev)))
               else case record_prepared io received ev (pc_instance pc) (pc_plugin pc) payload_blob (h_log h) of
                 (log', Err _) \<Rightarrow> (h\<lparr>h_bus := bus', h_log := log'\<rparr>, Err (InternalError ''event_log''))
               | (log', Ok i) \<Rightarrow>
                   (h\<lparr>h_bus := fst (publish_with_id ev (Some i) bus'), h_log := log',
                      h_state := project_event (pc_instance pc) applied ev (h_state h)\<rparr>, Ok ())))"

section \<open>The reply of a command\<close>

datatype command_result = CmdOk | CmdOkWithState "key_value list" | CmdErr wit_error

definition project_command :: "plugin_ctx \<Rightarrow> int \<Rightarrow> string \<Rightarrow> string \<Rightarrow> command_result \<Rightarrow> host \<Rightarrow> host \<times> command_result" where
  "project_command pc received i capability result h =
     (case result of
        CmdOkWithState fs \<Rightarrow>
          if check_snapshot_admission fs \<noteq> Ok () then (h, CmdErr (InvalidArgument i))
          else
            (let projection_ok = (case get_device (pc_instance pc) i (h_devices h) of
                   Ok m \<Rightarrow> declares_capability (dev_info m) capability
                 | Err _ \<Rightarrow> False)
             in if projection_ok \<and> check_instance_snapshot_admission i (pc_instance pc) capability fs (h_state h) \<noteq> Ok ()
                then (h, CmdErr (InvalidArgument i))
                else
                  (let canonical = canonicalize_owned fs in
                   (if projection_ok
                    then h\<lparr>h_state := replace_snapshot i (pc_instance pc) capability canonical 0 received (h_state h)\<rparr>
                    else h,
                    CmdOkWithState canonical)))
      | other \<Rightarrow> (h, other))"

section \<open>Subscriptions of an instance\<close>

definition max_subscriptions_per_instance :: nat where
  "max_subscriptions_per_instance = 64"

text \<open>\<open>held\<close>: the subscriptions of the instance with their wake registrations.\<close>

definition host_subscribe ::
  "plugin_ctx \<Rightarrow> event_filter \<Rightarrow> nat \<Rightarrow> (nat \<times> nat option) list \<Rightarrow> host \<Rightarrow> (nat \<times> nat option) list \<times> host \<times> (wit_error + nat)" where
  "host_subscribe pc f wake held h =
     (if \<not> subscribes_events (pc_granted pc) then (held, h, Err (PermissionDenied ''subscribes_events''))
      else if length held \<ge> max_subscriptions_per_instance then (held, h, Err (PermissionDenied ''subscriptions''))
      else case subscribe_with_wake f wake (h_bus h) of
        (bus', i, w) \<Rightarrow> (held @ [(i, w)], h\<lparr>h_bus := bus'\<rparr>, Ok i))"

text \<open>Dropping a subscription: the receiver, the wake registration, the slot.\<close>

definition drop_subscription :: "nat \<times> nat option \<Rightarrow> key_value list bus \<Rightarrow> key_value list bus" where
  "drop_subscription = (\<lambda>(i, w) bus.
     drop_slot i (case w of Some n \<Rightarrow> drop_wake n (on_subscriber i close_receiver bus) | None \<Rightarrow> on_subscriber i close_receiver bus))"

definition host_unsubscribe ::
  "nat \<Rightarrow> (nat \<times> nat option) list \<Rightarrow> host \<Rightarrow> (nat \<times> nat option) list \<times> host \<times> (wit_error + unit)" where
  "host_unsubscribe i held h =
     (let held' = filter (\<lambda>s. fst s \<noteq> i) held;
          h' = h\<lparr>h_bus := fold drop_subscription (filter (\<lambda>s. fst s = i) held) (h_bus h)\<rparr>
      in if length held' = length held then (held', h', Err (NotFound ''subscription'')) else (held', h', Ok ()))"

section \<open>Runs\<close>

datatype host_op =
    HostRegister plugin_ctx int wit_device_info
  | HostUpdate plugin_ctx int string wit_device_info
  | HostRemove plugin_ctx int string
  | HostPublish plugin_ctx bool nat int int "key_value list event"
  | HostCommand plugin_ctx int string string command_result
  | SweepDevices string
  | SweepState int string
  | RestartLife int string

text \<open>The second component holds the instances whose devices were swept and whose entries were not yet.\<close>

fun host_step ::
  "(8 word list \<Rightarrow> 8 word list) \<Rightarrow> (jval \<Rightarrow> 8 word list) \<Rightarrow> host_op \<Rightarrow> host \<times> string list \<Rightarrow> host \<times> string list" where
  "host_step sha to_text (HostRegister pc re info) (h, sw) = (fst (host_register_device sha pc re info h), sw)"
| "host_step sha to_text (HostUpdate pc now i info) (h, sw) = (fst (host_update_device pc now i info h), sw)"
| "host_step sha to_text (HostRemove pc now i) (h, sw) = (fst (host_remove_device pc now i h), sw)"
| "host_step sha to_text (HostPublish pc io now re ap ev) (h, sw) = (fst (host_publish_event to_text pc io now re ap ev h), sw)"
| "host_step sha to_text (HostCommand pc re i cap res) (h, sw) = (fst (project_command pc re i cap res h), sw)"
| "host_step sha to_text (SweepDevices inst) (h, sw) =
     (h\<lparr>h_devices := fst (remove_devices_by_owner inst (h_devices h))\<rparr>, inst # sw)"
| "host_step sha to_text (SweepState now inst) (h, sw) =
     (h\<lparr>h_state := fst (mark_instance_stale now inst (h_state h))\<rparr>, filter (\<lambda>i. i \<noteq> inst) sw)"
| "host_step sha to_text (RestartLife now inst) (h, sw) =
     (h\<lparr>h_state := fst (restart_generation now inst (h_state h))\<rparr>, filter (\<lambda>i. i \<noteq> inst) sw)"

definition new_host :: "string \<Rightarrow> 8 word list \<Rightarrow> host" where
  "new_host epoch secret = \<lparr>h_devices = [], h_state = new_store epoch secret, h_log = [], h_bus = new_bus\<rparr>"

definition host_run ::
  "(8 word list \<Rightarrow> 8 word list) \<Rightarrow> (jval \<Rightarrow> 8 word list) \<Rightarrow> string \<Rightarrow> 8 word list \<Rightarrow> host_op list \<Rightarrow> host \<times> string list" where
  "host_run sha to_text epoch secret ops = fold (host_step sha to_text) ops (new_host epoch secret, [])"

end
