(* ===== verification/Host_Invariant.thy ===== *)
theory Host_Invariant
  imports Host_Devices
begin

text \<open>
  The stores agree: what the projection shows as fresh belongs to a registered device of the instance that wrote it,
  under a capability the device declares, and no instance projects more than its share, whatever the order of the
  calls of the instances, the commands and the sweeps.
\<close>

section \<open>A snapshot is admitted exactly\<close>

lemma canonical_merge: "merge_fields_unbounded [] (canonicalize_owned fs) = canonicalize_owned fs"
  using merge_into_Nil [of "[]" "canonicalize_owned fs"] merge_unbounded_distinct [of "[]" fs]
  by (simp add: canonicalize_is_merge keys_distinct_def)

lemma snapshot_admitted:
  assumes inv: "store_inv st" and own: "slots_owned st dev owner" and size: "fields_byte_estimate given \<le> u64_top"
    and ok: "check_instance_snapshot_admission dev owner cap given st = Ok ()"
    and st'_def: "st' = replace_snapshot dev owner cap (canonicalize_owned given) ob re st"
  shows "\<exists>e. fresh_map st' = (fresh_map st)((dev, cap) \<mapsto> e) \<and> ds_owner e = owner \<and> slot_fits (ds_fields e)
      \<and> ds_fields e = canonicalize_owned given"
    and "instance_bytes st' owner \<le> max_projected_bytes_per_instance"
    and "o' \<noteq> owner \<Longrightarrow> instance_bytes st' o' = instance_bytes st o'"
proof -
  from ok obtain n b where proj: "projected_slot_size [] given = Ok (n, b)"
    and caps: "check_instance_caps st owner (fresh_bytes (map_of (st_entries st) (dev, cap))) b = Ok ()"
    unfolding check_instance_snapshot_admission_def by (auto simp: bind_result_Ok_iff)
  have fits: "slot_fits (canonicalize_owned given)" and b: "b = fields_byte_estimate (canonicalize_owned given)"
    using projected_size_Ok [OF keys_distinct_Nil _ proj] size by (simp_all add: canonicalize_is_merge)
  have "replaced_fields (canonicalize_owned given) = canonicalize_owned given"
    using replaced_fits [of "canonicalize_owned given"] fits by (simp add: canonical_merge)
  then have final: "truncate_to_byte_cap (final_fields (map_of (st_entries st) (dev, cap)) False (generation_of st owner) (canonicalize_owned given))
      = canonicalize_owned given"
    using fits by (simp add: final_fields_def truncate_fits split: option.split)
  note put = write_fresh [OF inv, of False dev owner cap "canonicalize_owned given" ob re, unfolded final, folded replace_snapshot_def st'_def]
  have inv': "store_inv st'" using write_entry_good [OF inv] by (simp add: st'_def replace_snapshot_def good_step_def)
  note bytes = put_instance_bytes [OF inv inv' put own]
  show "\<exists>e. fresh_map st' = (fresh_map st)((dev, cap) \<mapsto> e) \<and> ds_owner e = owner \<and> slot_fits (ds_fields e)
      \<and> ds_fields e = canonicalize_owned given"
    by (rule exI, intro conjI, rule put) (simp_all add: fits)
  show "o' \<noteq> owner \<Longrightarrow> instance_bytes st' o' = instance_bytes st o'" by (rule bytes(2)) simp_all
  from bytes(1) caps show "instance_bytes st' owner \<le> max_projected_bytes_per_instance"
    unfolding check_instance_caps_Ok b by simp
qed

section \<open>Which slots the operations of the store touch\<close>

definition slots_in :: "(slot \<Rightarrow> bool) \<Rightarrow> store \<Rightarrow> bool" where
  "slots_in P st = list_all (\<lambda>(k, e). P k) (st_entries st)"

lemma slots_in_keys: "slots_in P st \<longleftrightarrow> (\<forall>k \<in> fst ` set (st_entries st). P k)"
  by (auto simp: slots_in_def list_all_iff)

lemma slots_put:
  assumes "slots_in P st" and "P k"
  shows "slots_in P (put_entry k e (fst (next_revision st)))"
proof -
  let ?t = "put_entry k e (fst (next_revision st))"
  have keys: "fst ` set (st_entries ?t) \<subseteq> insert k (fst ` set (st_entries st))"
    using bt_insert_keys [of k e "st_entries st"] by (simp add: put_entry_def next_revision_def)
  have old: "\<forall>x \<in> fst ` set (st_entries st). P x" using assms(1) unfolding slots_in_keys .
  show ?thesis unfolding slots_in_keys
  proof
    fix x assume "x \<in> fst ` set (st_entries ?t)"
    with keys have "x = k \<or> x \<in> fst ` set (st_entries st)" by blast
    with old assms(2) show "P x" by blast
  qed
qed

lemma slots_flip: "slots_in P st \<Longrightarrow> slots_in P (flip_stale now k st)"
proof (cases "map_of (st_entries st) k")
  case (Some e)
  assume all: "slots_in P st"
  have "P k" using all map_of_SomeD [OF Some] by (force simp: slots_in_keys)
  with slots_put [OF all] Some show ?thesis by (simp add: flip_stale_def case_prod_unfold Let_def)
qed (simp add: flip_stale_def)

lemma slots_evict: "slots_in P st \<Longrightarrow> slots_in P (evict_one v st)"
  by (auto simp: slots_in_keys evict_one_def AList.delete_eq split: prod.splits)

lemma slots_fold: "(\<And>x s. slots_in P s \<Longrightarrow> slots_in P (f x s)) \<Longrightarrow> slots_in P st \<Longrightarrow> slots_in P (fold f xs st)"
  by (induction xs arbitrary: st) simp_all

lemma slots_stale: "slots_in P st \<Longrightarrow> slots_in P (fst (stale_where_locked now p st))"
  unfolding stale_where_locked_def enforce_stale_cap_def Let_def by (auto intro!: slots_fold slots_flip slots_evict)

lemma slots_write: "slots_in P st \<Longrightarrow> P (dev, cap) \<Longrightarrow> slots_in P (write_entry m dev owner cap given ob re st)"
  by (simp add: write_entry_def case_prod_unfold Let_def slots_put)

lemma slots_bump: "slots_in P st \<Longrightarrow> slots_in P (fst (bump_generation owner st))"
  by (simp add: slots_in_def bump_generation_def Let_def)

lemma slots_seed:
  assumes "slots_in P st" and "\<forall>s \<in> set seeds. P (dev, fst s)"
  shows "slots_in P (reset_and_seed_device dev owner seeds ob re st)"
proof -
  have "slots_in P (fold (seed_slot dev owner g ob re) seeds s)" if "slots_in P s" for g s
    using that assms(2)
  proof (induction seeds arbitrary: s)
    case (Cons x xs)
    then have "slots_in P (seed_slot dev owner g ob re x s)"
      by (simp add: seed_slot_def case_prod_unfold Let_def slots_put)
    with Cons show ?case by simp
  qed simp
  then show ?thesis by (simp add: reset_and_seed_device_def Let_def slots_stale assms(1))
qed

section \<open>The invariant\<close>

definition good_slot :: "slot \<Rightarrow> bool" where
  "good_slot k = (fst k \<noteq> [] \<and> snd k < max_cap_sentinel)"

definition keyed :: "(8 word list \<Rightarrow> 8 word list) \<Rightarrow> (string \<times> string \<times> string) set \<Rightarrow> slot \<Rightarrow> device_state \<Rightarrow> bool" where
  "keyed sha K k e = (\<exists>uuid lid. (uuid, ds_owner e, lid) \<in> K \<and> fst k = stable_device_id sha uuid (ds_owner e) lid)"

definition backed :: "device_details device_registry \<Rightarrow> slot \<Rightarrow> device_state \<Rightarrow> bool" where
  "backed devs k e = (\<exists>m. map_of devs (fst k) = Some m \<and> dev_owner m = ds_owner e \<and> declares_capability (dev_info m) (snd k))"

definition host_inv :: "(8 word list \<Rightarrow> 8 word list) \<Rightarrow> (string \<times> string \<times> string) set \<Rightarrow> host \<times> string list \<Rightarrow> bool" where
  "host_inv sha K = (\<lambda>(h, sw).
     device_inv sha K 0 (h_devices h) \<and> store_inv (h_state h) \<and> length (stale_entries (h_state h)) \<le> max_stale_entries
     \<and> slots_in good_slot (h_state h)
     \<and> (\<forall>k e. fresh_map (h_state h) k = Some e \<longrightarrow> keyed sha K k e \<and> slot_fits (ds_fields e)
          \<and> (ds_owner e \<in> set sw \<or> backed (h_devices h) k e))
     \<and> (\<forall>i. instance_bytes (h_state h) i \<le> max_projected_bytes_per_instance))"

lemma host_invI:
  assumes "device_inv sha K 0 (h_devices h)" and "store_inv (h_state h)" and "length (stale_entries (h_state h)) \<le> max_stale_entries"
    and "slots_in good_slot (h_state h)"
    and "\<And>k e. fresh_map (h_state h) k = Some e \<Longrightarrow> keyed sha K k e \<and> slot_fits (ds_fields e) \<and> (ds_owner e \<in> set sw \<or> backed (h_devices h) k e)"
    and "\<And>i. instance_bytes (h_state h) i \<le> max_projected_bytes_per_instance"
  shows "host_inv sha K (h, sw)"
  unfolding host_inv_def prod.case using assms by blast

lemma host_invD:
  assumes "host_inv sha K (h, sw)"
  shows "device_inv sha K 0 (h_devices h)" "store_inv (h_state h)" "length (stale_entries (h_state h)) \<le> max_stale_entries"
    "slots_in good_slot (h_state h)"
    "fresh_map (h_state h) k = Some e \<Longrightarrow> keyed sha K k e \<and> slot_fits (ds_fields e) \<and> (ds_owner e \<in> set sw \<or> backed (h_devices h) k e)"
    "instance_bytes (h_state h) i \<le> max_projected_bytes_per_instance"
  using assms unfolding host_inv_def prod.case by blast+

lemma device_inv_any: "device_inv sha K n r = device_inv sha K m r"
  by (simp add: device_inv_def)

lemma new_host_inv: "no_collision sha K \<Longrightarrow> host_inv sha K (new_host epoch secret, [])"
  by (rule host_invI) (simp_all add: new_host_def device_inv_def new_store_inv slots_in_def stale_entries_def fresh_map_def instance_bytes_def,
      simp_all add: new_store_def)

text \<open>A device's slots belong to the instance its id was derived for.\<close>

lemma slots_owned_by_key:
  assumes inv: "host_inv sha K (h, sw)" and key: "(uuid, inst, lid) \<in> K"
  shows "slots_owned (h_state h) (stable_device_id sha uuid inst lid) inst"
proof -
  have inj: "inj_on (\<lambda>(uuid, inst, lid). stable_device_id sha uuid inst lid) K"
    using host_invD(1) [OF inv] by (simp add: device_inv_def no_collision_def)
  have "ds_owner e = inst" if e: "fresh_map (h_state h) (stable_device_id sha uuid inst lid, cap) = Some e" for cap e
  proof -
    from host_invD(5) [OF inv e] obtain u l where u: "(u, ds_owner e, l) \<in> K"
      "stable_device_id sha uuid inst lid = stable_device_id sha u (ds_owner e) l" by (auto simp: keyed_def)
    from inj_onD [OF inj, of "(uuid, inst, lid)" "(u, ds_owner e, l)"] key u show ?thesis by simp
  qed
  then show ?thesis by (simp add: slots_owned_def)
qed

lemma registered_key:
  assumes "host_inv sha K (h, sw)" and "map_of (h_devices h) i = Some m"
  obtains uuid where "(uuid, dev_owner m, dev_local_id (dev_info m)) \<in> K"
    and "i = stable_device_id sha uuid (dev_owner m) (dev_local_id (dev_info m))"
  using host_invD(1) [OF assms(1)] assms(2) unfolding device_inv_def by blast

lemma char_below_sentinel: "c < CHR 0xF4 \<Longrightarrow> c # cs < max_cap_sentinel"
  by (simp add: max_cap_sentinel_def)

lemma capability_below_sentinel: "capability_name spec < max_cap_sentinel"
  by (cases spec) (auto intro!: char_below_sentinel simp: less_char_def)

lemma good_device_slot: "good_slot (stable_device_id sha uuid inst lid, capability_name spec)"
  by (simp add: good_slot_def stable_device_id_def capability_below_sentinel)

end
