(* ===== verification/Host_Steps.thy ===== *)
theory Host_Steps
  imports Host_Invariant
begin

text \<open>
  Every step of the host keeps the agreement of its stores.
\<close>

section \<open>Sweeps of the projection\<close>

lemma stale_where_fresh:
  assumes "store_inv st" and "fresh_map (fst (stale_where_locked now p st)) k = Some e"
  shows "fresh_map st k = Some e \<and> \<not> p k e"
  using assms(2) unfolding fresh_stale_where [OF assms(1)] by (auto split: option.splits if_splits)

lemma map_total_mono:
  assumes "finite (dom m)" and "\<And>k e. m' k = Some e \<Longrightarrow> m k = Some e"
  shows "map_total w m' \<le> map_total w m"
proof -
  have sub: "dom m' \<subseteq> dom m" using assms(2) by blast
  have "map_total w m' = (\<Sum>k \<in> dom m'. w (the (m k)))"
    unfolding map_total_def using assms(2) by (intro sum.cong) (auto simp: dom_def)
  also have "\<dots> \<le> map_total w m" unfolding map_total_def by (rule sum_mono2 [OF assms(1) sub]) simp
  finally show ?thesis .
qed

lemma stale_where_bytes:
  assumes inv: "store_inv st"
  shows "instance_bytes (fst (stale_where_locked now p st)) i \<le> instance_bytes st i"
proof -
  have inv': "store_inv (fst (stale_where_locked now p st))" using stale_where_good [OF inv] by (simp add: good_step_def)
  show ?thesis
    unfolding instance_bytes_fresh [OF inv] instance_bytes_fresh [OF inv']
    by (rule map_total_mono [OF fresh_finite]) (use stale_where_fresh [OF inv] in blast)
qed

lemma bump_bytes: "instance_bytes (fst (bump_generation owner st)) i = instance_bytes st i"
  by (simp add: instance_bytes_def bump_generation_def Let_def)

text \<open>A sweep of the projection, with a registry and a list of swept instances that back what is left.\<close>

lemma swept_inv:
  assumes inv: "host_inv sha K (h, sw)" and devs: "device_inv sha K 0 (h_devices h')"
    and st: "h_state h' = fst (stale_where_locked now p (h_state h))"
    and backing: "\<And>k e. fresh_map (h_state h) k = Some e \<Longrightarrow> \<not> p k e \<Longrightarrow> ds_owner e \<in> set sw \<or> backed (h_devices h) k e
      \<Longrightarrow> ds_owner e \<in> set sw' \<or> backed (h_devices h') k e"
  shows "host_inv sha K (h', sw')"
proof (rule host_invI)
  note old = host_invD [OF inv]
  show "device_inv sha K 0 (h_devices h')" by (rule devs)
  show "store_inv (h_state h')" using stale_where_good [OF old(2)] by (simp add: st good_step_def)
  show "length (stale_entries (h_state h')) \<le> max_stale_entries" unfolding st by (rule stale_where_capped [OF old(2)])
  show "slots_in good_slot (h_state h')" unfolding st by (rule slots_stale [OF old(4)])
  show "instance_bytes (h_state h') i \<le> max_projected_bytes_per_instance" for i
    unfolding st using stale_where_bytes [OF old(2)] old(6) by (rule order_trans)
  show "keyed sha K k e \<and> slot_fits (ds_fields e) \<and> (ds_owner e \<in> set sw' \<or> backed (h_devices h') k e)"
    if "fresh_map (h_state h') k = Some e" for k e
  proof -
    have e: "fresh_map (h_state h) k = Some e" "\<not> p k e" using stale_where_fresh [OF old(2) that [unfolded st]] by blast+
    from old(5) [OF e(1)] backing [OF e] show ?thesis by blast
  qed
qed

lemma device_inv_after:
  assumes "host_inv sha K (h, sw)" and "set (device_keys op) \<subseteq> K"
  shows "device_inv sha K 0 (device_step sha op (h_devices h))"
  using device_step_inv [OF host_invD(1) [OF assms(1)] assms(2)] device_inv_any [of sha K _ _ 0] by blast

lemma host_wf: "host_inv sha K (h, sw) \<Longrightarrow> hm_wf (h_devices h)"
  by (rule device_inv_wf [OF host_invD(1)])

section \<open>Updates, removals, lifecycle\<close>

lemma update_step:
  assumes inv: "host_inv sha K (h, sw)"
  shows "host_inv sha K (fst (host_update_device pc now i info h), sw)"
proof (cases "authorize_device_info (declares_devices (pc_granted pc)) info")
  case (Inl e)
  with inv show ?thesis by (simp add: host_update_device_def)
next
  case (Inr u)
  obtain devices' res where upd: "update_device (pc_instance pc) i info (h_devices h) = (devices', res)" by (metis prod.collapse)
  show ?thesis
  proof (cases res)
    case (Inl e)
    then have "devices' = h_devices h" using upd by (auto simp: update_device_def split: option.splits if_splits)
    with Inr upd Inl inv show ?thesis by (simp add: host_update_device_def)
  next
    case ok: (Inr v)
    then obtain m where m: "map_of (h_devices h) i = Some m" "dev_owner m = pc_instance pc"
      "dev_local_id (dev_info m) = dev_local_id info" "devices' = AList.update i (m\<lparr>dev_info := info\<rparr>) (h_devices h)"
      using upd by (auto simp: update_device_def split: option.splits if_splits)
    have devs: "device_inv sha K 0 devices'"
      using device_inv_after [OF inv, of "UpdateDevice (pc_instance pc) i info"] upd by simp
    show ?thesis
    proof (rule swept_inv [OF inv])
      show "device_inv sha K 0 (h_devices (fst (host_update_device pc now i info h)))"
        using Inr upd ok devs by (simp add: host_update_device_def)
      show "h_state (fst (host_update_device pc now i info h)) = fst (stale_where_locked now
          (\<lambda>k e. fst k = i \<and> ds_quality e = Fresh \<and> snd k \<notin> set (map capability_name (capabilities_of info))) (h_state h))"
        using Inr upd ok by (simp add: host_update_device_def reconcile_capabilities_def)
    next
      fix k e
      assume e: "fresh_map (h_state h) k = Some e"
        and live: "\<not> (fst k = i \<and> ds_quality e = Fresh \<and> snd k \<notin> set (map capability_name (capabilities_of info)))"
        and old: "ds_owner e \<in> set sw \<or> backed (h_devices h) k e"
      have devs': "h_devices (fst (host_update_device pc now i info h)) = devices'"
        using Inr upd ok by (simp add: host_update_device_def)
      have fresh: "ds_quality e = Fresh" using e by (simp add: fresh_map_iff)
      show "ds_owner e \<in> set sw \<or> backed (h_devices (fst (host_update_device pc now i info h))) k e"
      proof (cases "ds_owner e \<in> set sw \<or> fst k \<noteq> i")
        case True
        then show ?thesis using old unfolding devs' m(4) by (auto simp: backed_def hm.find_put host_wf [OF inv])
      next
        case False
        with live fresh have "declares_capability info (snd k)" by (auto simp: declares_capability_def list_ex_iff)
        moreover have "dev_owner m = ds_owner e" using old False m(1) by (auto simp: backed_def)
        ultimately show ?thesis using False unfolding devs' m(4) by (auto simp: backed_def hm.find_put host_wf [OF inv])
      qed
    qed
  qed
qed

lemma remove_step:
  assumes inv: "host_inv sha K (h, sw)"
  shows "host_inv sha K (fst (host_remove_device pc now i h), sw)"
proof -
  obtain devices' res where rem: "remove_device (pc_instance pc) i (h_devices h) = (devices', res)" by (metis prod.collapse)
  show ?thesis
  proof (cases res)
    case (Inl e)
    then have "devices' = h_devices h" using rem by (auto simp: remove_device_def split: option.splits if_splits)
    with rem Inl inv show ?thesis by (simp add: host_remove_device_def)
  next
    case (Inr v)
    then have d: "devices' = AList.delete i (h_devices h)" using rem by (auto simp: remove_device_def split: option.splits if_splits)
    have h': "h_devices (fst (host_remove_device pc now i h)) = devices'"
      "h_state (fst (host_remove_device pc now i h)) = fst (stale_where_locked now (\<lambda>k e. fst k = i \<and> ds_quality e = Fresh) (h_state h))"
      using rem Inr by (simp_all add: host_remove_device_def mark_device_stale_def)
    have devs: "device_inv sha K 0 devices'" using device_inv_after [OF inv, of "RemoveDevice (pc_instance pc) i"] rem by simp
    show ?thesis
      by (rule swept_inv [OF inv _ h'(2)])
        (use devs in \<open>auto simp: h'(1) d backed_def hm.find_drop host_wf [OF inv] fresh_map_iff\<close>)
  qed
qed

lemma sweep_devices_step:
  assumes inv: "host_inv sha K (h, sw)"
  shows "host_inv sha K (h\<lparr>h_devices := fst (remove_devices_by_owner inst (h_devices h))\<rparr>, inst # sw)"
proof (rule host_invI)
  let ?h = "h\<lparr>h_devices := fst (remove_devices_by_owner inst (h_devices h))\<rparr>"
  note old = host_invD [OF inv]
  show "device_inv sha K 0 (h_devices ?h)" using device_inv_after [OF inv, of "RemoveDevices inst"] by simp
  show "keyed sha K k e \<and> slot_fits (ds_fields e) \<and> (ds_owner e \<in> set (inst # sw) \<or> backed (h_devices ?h) k e)"
    if "fresh_map (h_state ?h) k = Some e" for k e
    using old(5) [of k e] that
    by (auto simp: backed_def remove_devices_by_owner_def Let_def map_of_retain [OF host_wf [OF inv]])
qed (use host_invD [OF inv] in simp_all)

lemma sweep_state_step:
  assumes inv: "host_inv sha K (h, sw)"
  shows "host_inv sha K (h\<lparr>h_state := fst (mark_instance_stale now inst (h_state h))\<rparr>, filter (\<lambda>i. i \<noteq> inst) sw)"
  by (rule swept_inv [OF inv, where now = now and p = "\<lambda>_ e. ds_owner e = inst \<and> ds_quality e = Fresh"])
    (use host_invD(1) [OF inv] in \<open>auto simp: mark_instance_stale_def fresh_map_iff\<close>)

lemma restart_step:
  assumes inv: "host_inv sha K (h, sw)"
  shows "host_inv sha K (h\<lparr>h_state := fst (restart_generation now inst (h_state h))\<rparr>, filter (\<lambda>i. i \<noteq> inst) sw)"
proof -
  let ?h = "h\<lparr>h_state := fst (mark_instance_stale now inst (h_state h))\<rparr>"
  have st: "fst (restart_generation now inst (h_state h)) = fst (bump_generation inst (h_state ?h))"
    by (simp add: restart_generation_def mark_instance_stale_def case_prod_unfold Let_def)
  note mid = host_invD [OF sweep_state_step [OF inv, of now inst]]
  show ?thesis unfolding st
    by (rule host_invI)
      (use mid bump_generation_good [OF mid(2), of inst] in \<open>simp_all add: good_step_def slots_bump bump_bytes\<close>)
qed

section \<open>Authorisation\<close>

lemma first_repeat_None: "first_repeat seen ns = None \<longleftrightarrow> distinct ns \<and> set ns \<inter> set seen = {}"
  by (induction ns arbitrary: seen) auto

lemma find_none: "List.find P xs = None \<longleftrightarrow> (\<forall>x \<in> set xs. \<not> P x)"
  by (induction xs) auto

lemma authorize_Ok_iff:
  "authorize_device_info declared info = Ok () \<longleftrightarrow>
     length (capabilities_of info) \<le> max_capabilities_per_device
     \<and> (\<forall>s \<in> set (seed_state_from_initial info). check_snapshot_admission (snd s) = Ok ())
     \<and> distinct (map capability_name (capabilities_of info))
     \<and> distinct (map capability_state_name (initial_state_of info))
     \<and> set (map capability_state_name (initial_state_of info)) \<subseteq> set (map capability_name (capabilities_of info))
     \<and> set (map capability_name (capabilities_of info)) \<subseteq> set declared"
  (is "_ \<longleftrightarrow> ?len \<and> ?fit \<and> ?dc \<and> ?ds \<and> ?sub \<and> ?decl")
proof -
  let ?names = "map capability_name (capabilities_of info)" and ?states = "map capability_state_name (initial_state_of info)"
  have fit: "List.find (\<lambda>(name, fs). check_snapshot_admission fs \<noteq> Ok ()) (seed_state_from_initial info) = None \<longleftrightarrow> ?fit"
    unfolding find_none by (auto simp: case_prod_unfold)
  have sub: "List.find (\<lambda>name. name \<notin> set ?names) ?states = None \<longleftrightarrow> ?sub" unfolding find_none by blast
  have decl: "List.find (\<lambda>name. name \<notin> set declared) ?names = None \<longleftrightarrow> ?decl" unfolding find_none by blast
  have dc: "first_repeat [] ?names = None \<longleftrightarrow> ?dc" and ds: "first_repeat [] ?states = None \<longleftrightarrow> ?ds"
    by (simp_all only: first_repeat_None list.set Int_empty_right simp_thms)
  show ?thesis
    unfolding fit [symmetric] sub [symmetric] decl [symmetric] dc [symmetric] ds [symmetric] authorize_device_info_def Let_def
    by (simp only: split: if_split option.split) auto
qed

lemma seed_names: "map fst (seed_state_from_initial info) = map capability_state_name (initial_state_of info)"
  by (simp add: seed_state_from_initial_def)

section \<open>Registration\<close>

definition seeds_small :: "wit_device_info \<Rightarrow> bool" where
  "seeds_small info = list_all (\<lambda>s. fields_byte_estimate (snd s) \<le> u64_top) (seed_state_from_initial info)"

lemma register_cases:
  assumes reg: "host_register_device sha pc re info h = (h', res)"
  obtains (refused) e where "res = Err e" "h' = h"
  | (accepted) m where "authorize_device_info (declares_devices (pc_granted pc)) info = Ok ()"
      "check_instance_register_admission (stable_device_id sha (pc_uuid pc) (pc_instance pc) (dev_local_id info)) (pc_instance pc)
         (seed_state_from_initial info) (h_state h) = Ok ()"
      "m = new_meta sha (pc_uuid pc) (pc_instance pc) info"
      "try_register sha (pc_uuid pc) (pc_instance pc) info (h_devices h) = (AList.update (device_id m) m (h_devices h), Ok (device_id m))"
      "device_id m = stable_device_id sha (pc_uuid pc) (pc_instance pc) (dev_local_id info)" "res = Ok (device_id m)"
      "h' = h\<lparr>h_devices := AList.update (device_id m) m (h_devices h),
        h_state := reset_and_seed_device (device_id m) (pc_instance pc) (seed_state_from_initial info) 0 re (h_state h)\<rparr>"
proof (cases "authorize_device_info (declares_devices (pc_granted pc)) info")
  case (Inl e)
  with reg show thesis by (intro refused [of e]) (simp_all add: host_register_device_def)
next
  case auth: (Inr u)
  let ?adm = "check_instance_register_admission (stable_device_id sha (pc_uuid pc) (pc_instance pc) (dev_local_id info)) (pc_instance pc)
         (seed_state_from_initial info) (h_state h)"
  show thesis
  proof (cases ?adm)
    case (Inl e)
    with reg auth show thesis by (intro refused [of "InvalidArgument (stable_device_id sha (pc_uuid pc) (pc_instance pc) (dev_local_id info))"]) (simp_all add: host_register_device_def Let_def)
  next
    case adm: (Inr v)
    define m where "m = new_meta sha (pc_uuid pc) (pc_instance pc) info"
    show thesis
    proof (cases "map_of (h_devices h) (device_id m) = None \<and> owned_count (pc_instance pc) (h_devices h) \<ge> max_devices_per_instance")
      case True
      then have "try_register sha (pc_uuid pc) (pc_instance pc) info (h_devices h) = (h_devices h, Err (Unavailable (pc_instance pc)))"
        by (simp add: try_register_def m_def)
      with reg auth adm show thesis by (intro refused [of "Unavailable (pc_instance pc)"]) (simp_all add: host_register_device_def Let_def)
    next
      case False
      then have try': "try_register sha (pc_uuid pc) (pc_instance pc) info (h_devices h) = (AList.update (device_id m) m (h_devices h), Ok (device_id m))"
        unfolding try_register_def Let_def m_def [symmetric] by simp
      with reg auth adm show thesis
        by (intro accepted [OF _ _ m_def]) (simp_all add: host_register_device_def Let_def, simp_all add: m_def new_meta_def)
    qed
  qed
qed

lemma register_step:
  assumes inv: "host_inv sha K (h, sw)" and key: "(pc_uuid pc, pc_instance pc, dev_local_id info) \<in> K" and small: "seeds_small info"
  shows "host_inv sha K (fst (host_register_device sha pc re info h), sw)"
proof -
  obtain h' res where reg: "host_register_device sha pc re info h = (h', res)" by (metis prod.collapse)
  from reg show ?thesis
  proof (cases rule: register_cases)
    case (accepted m)
    let ?dev = "device_id m" and ?seeds = "seed_state_from_initial info"
    note old = host_invD [OF inv]
    have own: "slots_owned (h_state h) ?dev (pc_instance pc)" unfolding accepted(5) by (rule slots_owned_by_key [OF inv key])
    note auth = accepted(1) [unfolded authorize_Ok_iff]
    have distinct: "distinct (map fst ?seeds)" using auth by (simp add: seed_names)
    have sizes: "\<forall>(cap, given) \<in> set ?seeds. fields_byte_estimate given \<le> u64_top"
      using small by (auto simp: seeds_small_def list_all_iff)
    have st': "h_state h' = reset_and_seed_device ?dev (pc_instance pc) ?seeds 0 re (h_state h)" using accepted(7) by simp
    note adm = register_admitted [OF old(2) own distinct sizes accepted(2) [folded accepted(5)] st']
    have step: "h_state h' = state_step (ResetAndSeed ?dev (pc_instance pc) ?seeds 0 re) (h_state h)" by (simp add: st')
    have named: "\<exists>spec \<in> set (capabilities_of info). capability_name spec = fst s" if "s \<in> set ?seeds" for s
    proof -
      have "fst s \<in> set (map fst ?seeds)" using that by simp
      then have "fst s \<in> set (map capability_name (capabilities_of info))" using auth unfolding seed_names by blast
      then show ?thesis by auto
    qed
    have meta: "dev_owner m = pc_instance pc" "dev_info m = info" using accepted(3) by (simp_all add: new_meta_def)
    have devs: "h_devices h' = AList.update ?dev m (h_devices h)" using accepted(7) by simp
    have "host_inv sha K (h', sw)"
    proof (rule host_invI)
      show "device_inv sha K 0 (h_devices h')"
        using device_inv_after [OF inv, of "TryRegister (pc_uuid pc) (pc_instance pc) info"] key accepted(4) unfolding devs by simp
      show "store_inv (h_state h')" using state_step_good [OF old(2)] unfolding step good_step_def by blast
      show "length (stale_entries (h_state h')) \<le> max_stale_entries" unfolding step by (rule state_step_capped [OF old(2,3)])
      show "slots_in good_slot (h_state h')"
        unfolding st' by (rule slots_seed [OF old(4)]) (use named good_device_slot accepted(5) in metis)
      show "instance_bytes (h_state h') i \<le> max_projected_bytes_per_instance" for i
        using adm(1) adm(2) [of i] old(6) by (cases "i = pc_instance pc") simp_all
      show "keyed sha K k e \<and> slot_fits (ds_fields e) \<and> (ds_owner e \<in> set sw \<or> backed (h_devices h') k e)"
        if e: "fresh_map (h_state h') k = Some e" for k e
      proof (cases "fst k = ?dev")
        case True
        then obtain cap where k: "k = (?dev, cap)" by (cases k) simp
        have cap: "cap \<in> fst ` set ?seeds"
        proof (rule ccontr)
          assume "cap \<notin> fst ` set ?seeds"
          from adm(4) [OF this] e show False unfolding k by simp
        qed
        then obtain s where s: "s \<in> set ?seeds" "fst s = cap" by auto
        obtain e' where e': "fresh_map (h_state h') (?dev, cap) = Some e'" "ds_owner e' = pc_instance pc" "slot_fits (ds_fields e')"
          using adm(3) [OF s(1)] unfolding s(2) by blast
        have "e' = e" using e e'(1) unfolding k by simp
        with e' have here: "ds_owner e = pc_instance pc \<and> slot_fits (ds_fields e)" by simp
        have "keyed sha K k e" unfolding keyed_def using key here accepted(5) unfolding k by auto
        moreover have "backed (h_devices h') k e"
          using named [OF s(1)] s(2) here unfolding backed_def devs k
          by (auto simp: hm.find_put host_wf [OF inv] meta declares_capability_def list_ex_iff)
        ultimately show ?thesis using here by blast
      next
        case False
        have "fresh_map (h_state h) k = Some e" using adm(5) [OF False, of "snd k"] e by simp
        from old(5) [OF this] False show ?thesis unfolding backed_def devs by (auto simp: hm.find_put host_wf [OF inv])
      qed
    qed
    with reg show ?thesis by simp
  qed (use inv reg in simp)
qed

section \<open>Publications\<close>

definition stamped :: "plugin_ctx \<Rightarrow> key_value list event \<Rightarrow> key_value list event" where
  "stamped pc ev = ev\<lparr>origin_plugin := pc_plugin pc, origin_instance := pc_instance pc\<rparr>"

lemma stamped_sel [simp]:
  "event_device (stamped pc ev) = event_device ev" "event_time (stamped pc ev) = event_time ev" "payload (stamped pc ev) = payload ev"
  "topic_of (stamped pc ev) = topic_of ev" "origin_plugin (stamped pc ev) = pc_plugin pc" "origin_instance (stamped pc ev) = pc_instance pc"
  by (simp_all add: stamped_def topic_of_def)

lemma publish_cases:
  assumes pub: "host_publish_event to_text pc io now received applied ev h = (h', res)"
  obtains (refused) e where "res = Err e" "h_devices h' = h_devices h" "h_state h' = h_state h" "h_log h' = h_log h"
  | (accepted) i log' bus' where "require_publish_authorized (h_devices h) (pc_instance pc) ev = Ok ()"
      "length (serialize_payload to_text (payload ev)) \<le> max_event_payload_bytes"
      "admit_publish (pc_instance pc) now (h_bus h) = (bus', Ok ())" "\<not> delta_refused (pc_instance pc) (stamped pc ev) (h_state h)"
      "record_prepared io received (stamped pc ev) (pc_instance pc) (pc_plugin pc) (serialize_payload to_text (payload ev)) (h_log h) = (log', Ok i)"
      "res = Ok ()"
      "h' = h\<lparr>h_bus := fst (publish_with_id (stamped pc ev) (Some i) bus'), h_log := log',
        h_state := project_event (pc_instance pc) applied (stamped pc ev) (h_state h)\<rparr>"
proof (cases "require_publish_authorized (h_devices h) (pc_instance pc) ev")
  case (Inl e)
  with pub show thesis by (intro refused [of e]) (auto simp: host_publish_event_def)
next
  case auth: (Inr u)
  let ?blob = "serialize_payload to_text (payload ev)"
  note run = pub [unfolded host_publish_event_def auth sum.case case_unit Let_def stamped_def [symmetric] stamped_sel]
  show thesis
  proof (cases "length ?blob > max_event_payload_bytes")
    case True
    with run show thesis by (intro refused [of "PermissionDenied ''payload''"]) auto
  next
    case small: False
    obtain bus' adm where bus: "admit_publish (pc_instance pc) now (h_bus h) = (bus', adm)" by (metis prod.collapse)
    show thesis
    proof (cases adm)
      case (Inl d)
      with run bus small show thesis by (intro refused [of "Unavailable (pc_instance pc)"]) auto
    next
      case (Inr v)
      show thesis
      proof (cases "delta_refused (pc_instance pc) (stamped pc ev) (h_state h)")
        case True
        with run bus small Inr show thesis by (intro refused [of "InvalidArgument (topic_of ev)"]) auto
      next
        case ok: False
        obtain log' rec where log: "record_prepared io received (stamped pc ev) (pc_instance pc) (pc_plugin pc) ?blob (h_log h) = (log', rec)"
          by (metis prod.collapse)
        show thesis
        proof (cases rec)
          case (Inl x)
          then have "log' = h_log h" using log by (auto simp: record_prepared_def Let_def split: if_splits)
          with run bus small Inr ok log Inl show thesis by (intro refused [of "InternalError ''event_log''"]) auto
        next
          case rid: (Inr i)
          from run bus small Inr ok log rid auth show thesis
            by (intro accepted [of bus' log' i]) auto
        qed
      qed
    qed
  qed
qed

text \<open>What the authorisation of a state change says of the registry.\<close>

lemma authorized_state_change:
  assumes "require_publish_authorized devs inst ev = Ok ()" and "event_device ev = Some i" and "payload ev = StateChanged cap fs"
  obtains m where "map_of devs i = Some m" "dev_owner m = inst" "declares_capability (dev_info m) cap"
  using assms by (auto simp: require_publish_authorized_def required_capability_for_payload_def get_device_def
      split: option.splits if_splits sum.splits)

definition event_small :: "key_value list event \<Rightarrow> bool" where
  "event_small ev = (case payload ev of StateChanged cap fs \<Rightarrow> max_bytes_per_slot + fields_byte_estimate fs \<le> u64_top | _ \<Rightarrow> True)"

lemma declared_slot:
  assumes "declares_capability info cap" and "i = stable_device_id sha uuid inst lid"
  shows "good_slot (i, cap)"
  using assms good_device_slot by (auto simp: declares_capability_def list_ex_iff)

text \<open>A fresh write of an instance to a declared capability of its own device.\<close>

lemma fresh_write_inv:
  assumes inv: "host_inv sha K (h, sw)" and m: "map_of (h_devices h) i = Some m" "dev_owner m = inst" "declares_capability (dev_info m) cap"
    and h': "h_devices h' = h_devices h" and st: "store_inv (h_state h')" "length (stale_entries (h_state h')) \<le> max_stale_entries"
      "slots_in good_slot (h_state h')"
    and put: "fresh_map (h_state h') = (fresh_map (h_state h))((i, cap) \<mapsto> e)" "ds_owner e = inst" "slot_fits (ds_fields e)"
    and bytes: "instance_bytes (h_state h') inst \<le> max_projected_bytes_per_instance"
      "\<And>o'. o' \<noteq> inst \<Longrightarrow> instance_bytes (h_state h') o' = instance_bytes (h_state h) o'"
  shows "host_inv sha K (h', sw)"
proof (rule host_invI)
  note old = host_invD [OF inv]
  show "device_inv sha K 0 (h_devices h')" using old(1) unfolding h' .
  show "store_inv (h_state h')" "length (stale_entries (h_state h')) \<le> max_stale_entries" "slots_in good_slot (h_state h')" by (rule st)+
  show "instance_bytes (h_state h') i' \<le> max_projected_bytes_per_instance" for i'
    using bytes(1) bytes(2) [of i'] old(6) by (cases "i' = inst") simp_all
  show "keyed sha K k x \<and> slot_fits (ds_fields x) \<and> (ds_owner x \<in> set sw \<or> backed (h_devices h') k x)"
    if "fresh_map (h_state h') k = Some x" for k x
  proof (cases "k = (i, cap)")
    case True
    then have x: "x = e" using that unfolding put(1) by simp
    obtain uuid where "(uuid, dev_owner m, dev_local_id (dev_info m)) \<in> K" "i = stable_device_id sha uuid (dev_owner m) (dev_local_id (dev_info m))"
      by (rule registered_key [OF inv m(1)])
    then have "keyed sha K k x" unfolding keyed_def x True using put(2) m(2) by auto
    moreover have "backed (h_devices h') k x" unfolding backed_def h' x True using m put(2) by simp
    ultimately show ?thesis using put(3) unfolding x by blast
  next
    case False
    then have "fresh_map (h_state h) k = Some x" using that unfolding put(1) by simp
    from old(5) [OF this] show ?thesis unfolding h' .
  qed
qed

lemma same_stores_inv:
  assumes "host_inv sha K (h, sw)" and "h_devices h' = h_devices h" and "h_state h' = h_state h"
  shows "host_inv sha K (h', sw)"
  using assms unfolding host_inv_def prod.case by simp

lemma baseline_small:
  assumes inv: "host_inv sha K (h, sw)"
  shows "fields_byte_estimate (delta_baseline (h_state h) dev owner cap) \<le> max_bytes_per_slot"
proof -
  have "fields_byte_estimate (ds_fields e) \<le> max_bytes_per_slot"
    if "map_of (st_entries (h_state h)) (dev, cap) = Some e" "mergeable g e" for e g
  proof -
    have "fresh_map (h_state h) (dev, cap) = Some e" using that by (simp add: fresh_map_iff mergeable_def)
    from host_invD(5) [OF inv this] show ?thesis by (simp add: slot_fits_def)
  qed
  then show ?thesis by (auto simp: delta_baseline_def split: option.split)
qed

lemma registered_slots_owned:
  assumes inv: "host_inv sha K (h, sw)" and m: "map_of (h_devices h) i = Some m" "dev_owner m = inst"
  shows "slots_owned (h_state h) i inst"
  using registered_key [OF inv m(1)] slots_owned_by_key [OF inv] m(2) by metis

lemma publish_step:
  assumes inv: "host_inv sha K (h, sw)" and small: "event_small ev"
  shows "host_inv sha K (fst (host_publish_event to_text pc io now received applied ev h), sw)"
proof -
  obtain h' res where pub: "host_publish_event to_text pc io now received applied ev h = (h', res)" by (metis prod.collapse)
  note old = host_invD [OF inv]
  from pub have "host_inv sha K (h', sw)"
  proof (cases rule: publish_cases)
    case (accepted i log' bus')
    show ?thesis
    proof (cases "\<exists>dev cap fs. event_device ev = Some dev \<and> payload ev = StateChanged cap fs")
      case False
      then have "project_event (pc_instance pc) applied (stamped pc ev) (h_state h) = h_state h"
        by (auto simp: project_event_def split: option.split event_payload.split)
      with accepted(7) show ?thesis by (intro same_stores_inv [OF inv]) simp_all
    next
      case True
      then obtain dev cap fs where ev: "event_device ev = Some dev" "payload ev = StateChanged cap fs" by blast
      obtain m where m: "map_of (h_devices h) dev = Some m" "dev_owner m = pc_instance pc" "declares_capability (dev_info m) cap"
        by (rule authorized_state_change [OF accepted(1) ev])
      have st': "h_state h' = apply_delta dev (pc_instance pc) cap fs (event_time ev) applied (h_state h)"
        using accepted(7) by (simp add: project_event_def ev)
      then have step: "h_state h' = state_step (ApplyDelta dev (pc_instance pc) cap fs (event_time ev) applied) (h_state h)" by simp
      have adm: "check_delta_admission dev (pc_instance pc) cap fs (h_state h) = Ok ()"
        using accepted(4) by (simp add: delta_refused_def ev)
      have size: "fields_byte_estimate (delta_baseline (h_state h) dev (pc_instance pc) cap) + fields_byte_estimate fs \<le> u64_top"
        using baseline_small [OF inv, of dev "pc_instance pc" cap] small by (simp add: event_small_def ev)
      note delta = delta_admitted [OF old(2) registered_slots_owned [OF inv m(1,2)] size adm st']
      obtain e where e: "fresh_map (h_state h') = (fresh_map (h_state h))((dev, cap) \<mapsto> e)" "ds_owner e = pc_instance pc" "slot_fits (ds_fields e)"
        using delta(1) by blast
      obtain uuid where "dev = stable_device_id sha uuid (dev_owner m) (dev_local_id (dev_info m))" by (rule registered_key [OF inv m(1)])
      then have slot: "good_slot (dev, cap)" by (rule declared_slot [OF m(3)])
      show ?thesis
      proof (rule fresh_write_inv [OF inv m _ _ _ _ e delta(2,3)])
        show "h_devices h' = h_devices h" using accepted(7) by simp
        show "store_inv (h_state h')" using state_step_good [OF old(2)] unfolding step good_step_def by blast
        show "length (stale_entries (h_state h')) \<le> max_stale_entries" unfolding step by (rule state_step_capped [OF old(2,3)])
        show "slots_in good_slot (h_state h')" unfolding st' apply_delta_def by (rule slots_write [OF old(4) slot])
      qed
    qed
  qed (rule same_stores_inv [OF inv])
  with pub show ?thesis by simp
qed

section \<open>Replies of commands\<close>

definition reply_small :: "command_result \<Rightarrow> bool" where
  "reply_small res = (case res of CmdOkWithState fs \<Rightarrow> fields_byte_estimate fs \<le> u64_top | _ \<Rightarrow> True)"

lemma command_step:
  assumes inv: "host_inv sha K (h, sw)" and small: "reply_small res"
  shows "host_inv sha K (fst (project_command pc re i cap res h), sw)"
proof (cases "\<exists>fs m. res = CmdOkWithState fs \<and> check_snapshot_admission fs = Ok () \<and> get_device (pc_instance pc) i (h_devices h) = Ok m
    \<and> declares_capability (dev_info m) cap \<and> check_instance_snapshot_admission i (pc_instance pc) cap fs (h_state h) = Ok ()")
  case False
  then have "fst (project_command pc re i cap res h) = h"
    by (auto simp: project_command_def Let_def split: command_result.splits sum.splits)
  with inv show ?thesis by simp
next
  case True
  then obtain fs m where res: "res = CmdOkWithState fs" "check_snapshot_admission fs = Ok ()"
    and get: "get_device (pc_instance pc) i (h_devices h) = Ok m" and decl: "declares_capability (dev_info m) cap"
    and adm: "check_instance_snapshot_admission i (pc_instance pc) cap fs (h_state h) = Ok ()" by blast
  let ?h = "fst (project_command pc re i cap res h)"
  note old = host_invD [OF inv]
  have h': "?h = h\<lparr>h_state := replace_snapshot i (pc_instance pc) cap (canonicalize_owned fs) 0 re (h_state h)\<rparr>"
    using res get decl adm by (simp add: project_command_def Let_def)
  then have st': "h_state ?h = replace_snapshot i (pc_instance pc) cap (canonicalize_owned fs) 0 re (h_state h)" by simp
  then have step: "h_state ?h = state_step (ReplaceSnapshot i (pc_instance pc) cap (canonicalize_owned fs) 0 re) (h_state h)" by simp
  have m: "map_of (h_devices h) i = Some m" "dev_owner m = pc_instance pc"
    using get by (auto simp: get_device_def split: option.splits if_splits)
  have size: "fields_byte_estimate fs \<le> u64_top" using small res by (simp add: reply_small_def)
  note snap = snapshot_admitted [OF old(2) registered_slots_owned [OF inv m] size adm st']
  obtain e where e: "fresh_map (h_state ?h) = (fresh_map (h_state h))((i, cap) \<mapsto> e)" "ds_owner e = pc_instance pc" "slot_fits (ds_fields e)"
    using snap(1) by blast
  obtain uuid where "i = stable_device_id sha uuid (dev_owner m) (dev_local_id (dev_info m))" by (rule registered_key [OF inv m(1)])
  then have slot: "good_slot (i, cap)" by (rule declared_slot [OF decl])
  show ?thesis
  proof (rule fresh_write_inv [OF inv m decl _ _ _ _ e snap(2,3)])
    show "h_devices ?h = h_devices h" by (simp add: h')
    show "store_inv (h_state ?h)" using state_step_good [OF old(2)] unfolding step good_step_def by blast
    show "length (stale_entries (h_state ?h)) \<le> max_stale_entries" unfolding step by (rule state_step_capped [OF old(2,3)])
    show "slots_in good_slot (h_state ?h)" unfolding st' replace_snapshot_def by (rule slots_write [OF old(4) slot])
  qed
qed

end
