(* ===== verification/Host_Claims.thy ===== *)
theory Host_Claims
  imports Host_Steps
begin

text \<open>
  What the host keeps over any run of calls and sweeps, and what an accepted or a refused call does to the stores.
\<close>

section \<open>Runs\<close>

text \<open>Registrations use the keys of \<open>K\<close>, and the sizes of the fields given to one call fit in the address space.\<close>

definition op_ok :: "(string \<times> string \<times> string) set \<Rightarrow> host_op \<Rightarrow> bool" where
  "op_ok K op =
     (case op of
        HostRegister pc _ info \<Rightarrow> (pc_uuid pc, pc_instance pc, dev_local_id info) \<in> K \<and> seeds_small info
      | HostPublish _ _ _ _ _ ev \<Rightarrow> event_small ev
      | HostCommand _ _ _ _ res \<Rightarrow> reply_small res
      | _ \<Rightarrow> True)"

lemma host_step_inv:
  assumes inv: "host_inv sha K (h, sw)" and ok: "op_ok K op"
  shows "host_inv sha K (host_step sha to_text op (h, sw))"
proof (cases op)
  case (HostRegister pc re info)
  with ok register_step [OF inv] show ?thesis by (simp add: op_ok_def)
next
  case (HostPublish pc io now re ap ev)
  with ok publish_step [OF inv] show ?thesis by (simp add: op_ok_def)
next
  case (HostCommand pc re i cap res)
  with ok command_step [OF inv] show ?thesis by (simp add: op_ok_def)
qed (simp_all add: update_step [OF inv] remove_step [OF inv] sweep_devices_step [OF inv] sweep_state_step [OF inv] restart_step [OF inv])

lemma host_run_inv:
  assumes "no_collision sha K" and "list_all (op_ok K) ops" and run: "host_run sha to_text epoch secret ops = (h, sw)"
  shows "host_inv sha K (h, sw)"
proof -
  have "host_inv sha K (fold (host_step sha to_text) ops s)" if "host_inv sha K s" "list_all (op_ok K) ops" for s
    using that
  proof (induction ops arbitrary: s)
    case (Cons op ops)
    obtain h sw where s: "s = (h, sw)" by (cases s)
    have "host_inv sha K (host_step sha to_text op s)" using host_step_inv Cons.prems unfolding s by simp
    with Cons.IH Cons.prems(2) show ?case by simp
  qed simp
  from this [OF new_host_inv [OF assms(1), of epoch secret] assms(2)] show ?thesis using run unfolding host_run_def by simp
qed

text \<open>Claim C7: however the calls of the instances, the replies of commands and the sweeps of the lifecycle follow
  one another, an entry the projection shows as fresh is of a registered device that belongs to the instance that
  wrote it and declares the capability; only while an instance is being swept may its entries outlive its devices.\<close>

theorem fresh_state_is_backed:
  assumes "no_collision sha K" and "list_all (op_ok K) ops" and run: "host_run sha to_text epoch secret ops = (h, sw)"
    and "fresh_map (h_state h) (dev, cap) = Some e" and "ds_owner e \<notin> set sw"
  shows "\<exists>m. map_of (h_devices h) dev = Some m \<and> dev_owner m = ds_owner e \<and> declares_capability (dev_info m) cap"
  using host_invD(5) [OF host_run_inv [OF assms(1,2,3)] assms(4)] assms(5) by (simp add: backed_def)

text \<open>Claim C14: the projection stays bounded: each fresh slot within its field and byte caps, the fresh entries of
  every instance within the instance's share, the stale entries within their number.\<close>

theorem projection_bounded:
  assumes "no_collision sha K" and "list_all (op_ok K) ops" and run: "host_run sha to_text epoch secret ops = (h, sw)"
  shows "instance_bytes (h_state h) inst \<le> max_projected_bytes_per_instance \<and> length (stale_entries (h_state h)) \<le> max_stale_entries
    \<and> (\<forall>e \<in> ran (fresh_map (h_state h)). length (ds_fields e) \<le> max_fields_per_slot \<and> fields_byte_estimate (ds_fields e) \<le> max_bytes_per_slot)"
proof -
  note inv = host_invD [OF host_run_inv [OF assms]]
  have "slot_fits (ds_fields e)" if "e \<in> ran (fresh_map (h_state h))" for e using that inv(5) by (auto simp: ran_def)
  with inv(3,6) show ?thesis by (simp add: slot_fits_def)
qed

section \<open>Registering\<close>

lemma state_fields_merge: "merge_fields_unbounded [] (state_fields s) = state_fields s"
proof -
  have "keys_distinct (state_fields s)" by (cases s) (auto simp: keys_distinct_def field_def split: option.split)
  with merge_into_Nil [of "[]" "state_fields s"] show ?thesis by (simp add: keys_distinct_def)
qed

text \<open>Claim C21: a refused registration changes nothing.  An accepted one enters the device under the id of its key,
  replaces whatever the projection showed of it by exactly the initial state it was registered with, and leaves
  every other device's fresh state alone.\<close>

theorem registration_exact:
  assumes "no_collision sha K" and "list_all (op_ok K) ops" and run: "host_run sha to_text epoch secret ops = (h, sw)"
    and key: "(pc_uuid pc, pc_instance pc, dev_local_id info) \<in> K" and small: "seeds_small info"
    and reg: "host_register_device sha pc re info h = (h', res)"
  shows "case res of
      Err e \<Rightarrow> h' = h
    | Ok i \<Rightarrow>
        map_of (h_devices h') i = Some \<lparr>device_id = i, dev_owner = pc_instance pc, dev_info = info\<rparr>
        \<and> (\<forall>s \<in> set (initial_state_of info). \<exists>e. fresh_map (h_state h') (i, capability_state_name s) = Some e
              \<and> ds_owner e = pc_instance pc \<and> ds_fields e = state_fields s)
        \<and> (\<forall>cap. cap \<notin> capability_state_name ` set (initial_state_of info) \<longrightarrow> fresh_map (h_state h') (i, cap) = None)
        \<and> (\<forall>dev cap. dev \<noteq> i \<longrightarrow> fresh_map (h_state h') (dev, cap) = fresh_map (h_state h) (dev, cap))"
proof -
  note inv = host_run_inv [OF assms(1,2,3)]
  note old = host_invD [OF inv]
  from reg show ?thesis
  proof (cases rule: register_cases)
    case (accepted m)
    let ?dev = "device_id m" and ?seeds = "seed_state_from_initial info"
    have own: "slots_owned (h_state h) ?dev (pc_instance pc)" unfolding accepted(5) by (rule slots_owned_by_key [OF inv key])
    have distinct: "distinct (map fst ?seeds)" using accepted(1) by (simp add: authorize_Ok_iff seed_names)
    have sizes: "\<forall>(cap, given) \<in> set ?seeds. fields_byte_estimate given \<le> u64_top"
      using small by (auto simp: seeds_small_def list_all_iff)
    have st': "h_state h' = reset_and_seed_device ?dev (pc_instance pc) ?seeds 0 re (h_state h)" using accepted(7) by simp
    note adm = register_admitted [OF old(2) own distinct sizes accepted(2) [folded accepted(5)] st']
    have "m = \<lparr>device_id = ?dev, dev_owner = pc_instance pc, dev_info = info\<rparr>" unfolding accepted(3) new_meta_def by simp
    then have entry: "map_of (h_devices h') ?dev = Some \<lparr>device_id = ?dev, dev_owner = pc_instance pc, dev_info = info\<rparr>"
      using accepted(7) by (simp add: hm.find_put host_wf [OF inv])
    have seeded: "\<exists>e. fresh_map (h_state h') (?dev, capability_state_name s) = Some e \<and> ds_owner e = pc_instance pc \<and> ds_fields e = state_fields s"
      if "s \<in> set (initial_state_of info)" for s
    proof -
      have "(capability_state_name s, state_fields s) \<in> set ?seeds" using that by (simp add: seed_state_from_initial_def)
      from adm(3) [OF this] show ?thesis by (auto simp: state_fields_merge)
    qed
    have names: "fst ` set ?seeds = capability_state_name ` set (initial_state_of info)" by (force simp: seed_state_from_initial_def)
    show ?thesis using accepted(6) entry seeded adm(4,5) unfolding names by simp
  qed simp
qed

section \<open>Publishing\<close>


section \<open>Witnesses\<close>

definition sample_ctx :: plugin_ctx where
  "sample_ctx = \<lparr>pc_instance = ''i'', pc_uuid = ''u'', pc_plugin = ''p'',
     pc_granted = \<lparr>network = [], storage_quota_kb = 0, blob_quota_mb = 0, declares_devices = [''switch''], declares_services = [],
       consumes_services = [], subscribes_events = False\<rparr>\<rparr>"

definition sample_device :: wit_device_info where
  "sample_device = \<lparr>dev_local_id = ''l'', device_rest = \<lparr>dd_name = ''lamp'', dd_manufacturer = None, dd_model = None, dd_firmware = None,
     dd_capabilities = [SwitchSpec], dd_initial_state = [SwitchState True], dd_metadata = []\<rparr>\<rparr>"

definition sample_keys :: "(string \<times> string \<times> string) set" where
  "sample_keys = {(''u'', ''i'', ''l'')}"

lemma sample_ok: "no_collision sha sample_keys" "op_ok sample_keys (HostRegister sample_ctx re sample_device)"
  "(pc_uuid sample_ctx, pc_instance sample_ctx, dev_local_id sample_device) \<in> sample_keys" "seeds_small sample_device"
  by (simp_all add: no_collision_def sample_keys_def op_ok_def sample_ctx_def sample_device_def seeds_small_def
      seed_state_from_initial_def field_def fields_byte_estimate_def key_value_byte_estimate_def u64_top_def)

lemma sample_registered:
  "\<exists>h. host_register_device sha sample_ctx 5 sample_device (new_host ''e'' []) = (h, Ok (stable_device_id sha ''u'' ''i'' ''l''))
     \<and> host_run sha to_text ''e'' [] [HostRegister sample_ctx 5 sample_device] = (h, [])
     \<and> (\<exists>e. fresh_map (h_state h) (stable_device_id sha ''u'' ''i'' ''l'', ''switch'') = Some e \<and> ds_owner e = ''i'')"
  by (simp add: host_run_def host_register_device_def authorize_device_info_def Let_def sample_ctx_def sample_device_def
      max_capabilities_per_device_def seed_state_from_initial_def field_def check_snapshot_admission_def projected_slot_size_def bind_result_def
     key_value_byte_estimate_def saturating_add_def max_fields_per_slot_def max_bytes_per_slot_def u64_top_def
     check_instance_register_admission_def check_instance_caps_def instance_bytes_def device_bytes_def new_host_def new_store_def
     max_projected_bytes_per_instance_def try_register_def owned_count_def max_devices_per_instance_def new_meta_def
     reset_and_seed_device_def stale_where_locked_def enforce_stale_cap_def stale_entries_def seed_slot_def next_revision_def put_entry_def
     fresh_map_def generation_of_def)


theorem fresh_state_is_backed_witness:
  "\<exists>h e m. host_run (\<lambda>_. []) (\<lambda>_. []) ''e'' [] [HostRegister sample_ctx 5 sample_device] = (h, [])
     \<and> fresh_map (h_state h) (''dev-'', ''switch'') = Some e
     \<and> map_of (h_devices h) ''dev-'' = Some m \<and> dev_owner m = ''i'' \<and> declares_capability (dev_info m) ''switch''"
proof -
  have dev: "stable_device_id (\<lambda>_. []) u i l = ''dev-''" for u i l by (simp add: stable_device_id_def hex_bytes_def)
  from sample_registered [of "\<lambda>_. []" "\<lambda>_. []", unfolded dev] obtain h e
    where h: "host_run (\<lambda>_. []) (\<lambda>_. []) ''e'' [] [HostRegister sample_ctx 5 sample_device] = (h, [])"
      "fresh_map (h_state h) (''dev-'', ''switch'') = Some e" "ds_owner e = ''i''" by blast
  from fresh_state_is_backed [OF sample_ok(1) _ h(1,2)] sample_ok(2) h show ?thesis by simp
qed

theorem projection_bounded_witness:
  "\<exists>h. host_run (\<lambda>_. []) (\<lambda>_. []) ''e'' [] [HostRegister sample_ctx 5 sample_device] = (h, [])
     \<and> instance_bytes (h_state h) ''i'' \<le> max_projected_bytes_per_instance"
proof -
  from sample_registered [of "\<lambda>_. []" "\<lambda>_. []"] obtain h
    where h: "host_run (\<lambda>_. []) (\<lambda>_. []) ''e'' [] [HostRegister sample_ctx 5 sample_device] = (h, [])" by blast
  from projection_bounded [OF sample_ok(1) _ h, of "''i''"] sample_ok(2) h show ?thesis by simp
qed

theorem registration_exact_witness:
  "\<exists>h' e. host_register_device (\<lambda>_. []) sample_ctx 5 sample_device (new_host ''e'' []) = (h', Ok ''dev-'')
     \<and> fresh_map (h_state h') (''dev-'', ''switch'') = Some e \<and> ds_fields e = [field ''state'' (BoolVal True)]"
proof -
  have dev: "stable_device_id (\<lambda>_. []) u i l = ''dev-''" for u i l by (simp add: stable_device_id_def hex_bytes_def)
  from sample_registered [of "\<lambda>_. []" "\<lambda>_. []", unfolded dev] obtain h'
    where h': "host_register_device (\<lambda>_. []) sample_ctx 5 sample_device (new_host ''e'' []) = (h', Ok ''dev-'')" by blast
  have run: "host_run (\<lambda>_. []) (\<lambda>_. []) ''e'' [] [] = (new_host ''e'' [], [])" by (simp add: host_run_def)
  from registration_exact [OF sample_ok(1) _ run sample_ok(3,4) h'] h' show ?thesis by (auto simp: sample_device_def)
qed



end
