(* ===== verification/Plugin_Files.thy ===== *)
theory Plugin_Files
  imports Validate Devices "HOL-Library.Sublist"
begin

text \<open>
  The package directories (\<^verbatim>\<open>crates/oxidhome-core/src/state/installed_plugins.rs\<close>): reading a file without following
  links, the declared UI assets, the content digest, the copy of a source directory.  A file system is the map of its
  canonical paths, sorted as \<^verbatim>\<open>sort_by_key(path)\<close> sorts a listing.  The TOML reader and the JSON Schema library are the
  parameters \<open>toml\<close> and \<open>valid_schema\<close>, SHA-256 is \<open>sha\<close>.  Error texts are reduced to their subject.
\<close>

section \<open>Paths\<close>

type_synonym path = "string list"

text \<open>\<open>Unreadable\<close> is a file that cannot be opened; a link holds whether its target is absolute.\<close>

datatype file_object = RegFile "8 word list" | Unreadable | DirObject | Link bool path | OtherObject

type_synonym files = "(path, file_object) btree"

text \<open>The kernel's walk: at most 40 links; a name after a file is an error.\<close>

function canonicalize :: "nat \<Rightarrow> files \<Rightarrow> path \<Rightarrow> string list \<Rightarrow> path option" where
  "canonicalize n fs cwd [] = Some cwd"
| "canonicalize n fs cwd (c # cs) =
     (if c = [] \<or> c = ''.'' then canonicalize n fs cwd cs
      else if c = ''..'' then canonicalize n fs (butlast cwd) cs
      else case map_of fs (cwd @ [c]) of
        None \<Rightarrow> None
      | Some DirObject \<Rightarrow> canonicalize n fs (cwd @ [c]) cs
      | Some (Link absolute target) \<Rightarrow>
          (case n of 0 \<Rightarrow> None | Suc m \<Rightarrow> canonicalize m fs (if absolute then [] else cwd) (target @ cs))
      | Some _ \<Rightarrow> if cs = [] then Some (cwd @ [c]) else None)"
  by pat_completeness auto
termination by (relation "measures [\<lambda>(n, fs, cwd, cs). n, \<lambda>(n, fs, cwd, cs). length cs]") auto

definition max_links :: nat where
  "max_links = 40"

datatype io_error = NotFound_io | InvalidInput_io | Other_io

text \<open>The open with \<^verbatim>\<open>O_NOFOLLOW\<close>: only the last name is not followed.\<close>

definition open_no_follow :: "files \<Rightarrow> path \<Rightarrow> string \<Rightarrow> io_error + path" where
  "open_no_follow fs dir rel =
     (let names = split_char CHR ''/'' rel in
      if last names \<in> {[], ''.'', ''..''} then Err InvalidInput_io
      else case canonicalize max_links fs dir (butlast names) of
        None \<Rightarrow> Err NotFound_io
      | Some parent \<Rightarrow> Ok (parent @ [last names]))"

definition read_no_follow_within_bounded :: "files \<Rightarrow> path \<Rightarrow> string \<Rightarrow> nat option \<Rightarrow> io_error + 8 word list" where
  "read_no_follow_within_bounded fs dir rel max_bytes =
     bind_result (open_no_follow fs dir rel) (\<lambda>p.
       case map_of fs p of
         None \<Rightarrow> Err NotFound_io
       | Some (RegFile bytes) \<Rightarrow>
           if \<not> prefix dir p then Err InvalidInput_io
           else (case max_bytes of
               Some cap \<Rightarrow> if length bytes > cap then Err InvalidInput_io else Ok bytes
             | None \<Rightarrow> Ok bytes)
       | Some (Link _ _) \<Rightarrow> Err Other_io
       | Some Unreadable \<Rightarrow> Err Other_io
       | Some _ \<Rightarrow> Err InvalidInput_io)"

definition read_no_follow_within :: "files \<Rightarrow> path \<Rightarrow> string \<Rightarrow> io_error + 8 word list" where
  "read_no_follow_within fs dir rel = read_no_follow_within_bounded fs dir rel None"

section \<open>The manifest of a directory\<close>

text \<open>\<^verbatim>\<open>std::str::from_utf8\<close>: the well-formed byte sequences of the Unicode standard.\<close>

definition continuation :: "nat \<Rightarrow> bool" where
  "continuation b = (128 \<le> b \<and> b \<le> 191)"

definition second_of_three :: "nat \<Rightarrow> nat \<Rightarrow> bool" where
  "second_of_three a b = (continuation b \<and> (a = 224 \<longrightarrow> 160 \<le> b) \<and> (a = 237 \<longrightarrow> b \<le> 159))"

definition second_of_four :: "nat \<Rightarrow> nat \<Rightarrow> bool" where
  "second_of_four a b = (continuation b \<and> (a = 240 \<longrightarrow> 144 \<le> b) \<and> (a = 244 \<longrightarrow> b \<le> 143))"

fun utf8_ok :: "nat list \<Rightarrow> bool" where
  "utf8_ok [] = True"
| "utf8_ok (a # r) =
     (if a < 128 then utf8_ok r
      else case r of [] \<Rightarrow> False | b # r1 \<Rightarrow>
        if 194 \<le> a \<and> a \<le> 223 then continuation b \<and> utf8_ok r1
        else case r1 of [] \<Rightarrow> False | c # r2 \<Rightarrow>
          if 224 \<le> a \<and> a \<le> 239 then second_of_three a b \<and> continuation c \<and> utf8_ok r2
          else case r2 of [] \<Rightarrow> False | d # r3 \<Rightarrow>
            240 \<le> a \<and> a \<le> 244 \<and> second_of_four a b \<and> continuation c \<and> continuation d \<and> utf8_ok r3)"

definition bytes_text :: "8 word list \<Rightarrow> string" where
  "bytes_text bs = map (\<lambda>b. char_of (unat b)) bs"

definition parse_manifest_bytes :: "(string \<Rightarrow> plugin_manifest option) \<Rightarrow> 8 word list \<Rightarrow> plugin_manifest option" where
  "parse_manifest_bytes toml bytes =
     (if \<not> utf8_ok (map unat bytes) then None
      else case toml (bytes_text bytes) of
        None \<Rightarrow> None
      | Some m \<Rightarrow> if validate m = Ok () then Some m else None)"

definition read_manifest_sync_capturing_bytes ::
  "(string \<Rightarrow> plugin_manifest option) \<Rightarrow> files \<Rightarrow> path \<Rightarrow> (plugin_manifest \<times> 8 word list) option" where
  "read_manifest_sync_capturing_bytes toml fs dir =
     (case read_no_follow_within fs dir ''manifest.toml'' of
        Err _ \<Rightarrow> None
      | Ok bytes \<Rightarrow> map_option (\<lambda>m. (m, bytes)) (parse_manifest_bytes toml bytes))"

text \<open>The reader of a source directory follows links.\<close>

definition read_manifest_sync :: "(string \<Rightarrow> plugin_manifest option) \<Rightarrow> files \<Rightarrow> path \<Rightarrow> plugin_manifest option" where
  "read_manifest_sync toml fs dir =
     (case canonicalize max_links fs dir [''manifest.toml''] of
        None \<Rightarrow> None
      | Some p \<Rightarrow> (case map_of fs p of Some (RegFile bytes) \<Rightarrow> parse_manifest_bytes toml bytes | _ \<Rightarrow> None))"

section \<open>UI assets\<close>

definition max_ui_asset_bytes :: nat where
  "max_ui_asset_bytes = 1048576"

definition max_ui_schema_bytes :: nat where
  "max_ui_schema_bytes = 131072"

definition max_ui_total_bytes :: nat where
  "max_ui_total_bytes = 4 * 1048576"

definition is_schema_label :: "string \<Rightarrow> bool" where
  "is_schema_label label = (label = ''config-schema'' \<or> label = ''commands-schema'')"

definition read_ui_asset_file :: "files \<Rightarrow> path \<Rightarrow> string \<Rightarrow> string \<Rightarrow> string + 8 word list" where
  "read_ui_asset_file fs dir label rel =
     (case read_no_follow_within_bounded fs dir rel
             (Some (if is_schema_label label then max_ui_schema_bytes else max_ui_asset_bytes)) of
        Err _ \<Rightarrow> Err label
      | Ok bytes \<Rightarrow> Ok bytes)"

text \<open>One loop over declared assets; the first component of the result is the aggregate size.\<close>

fun read_assets :: "files \<Rightarrow> path \<Rightarrow> nat \<Rightarrow> (string \<times> string) list \<Rightarrow> string + nat \<times> (string \<times> 8 word list) list" where
  "read_assets fs dir total_bytes [] = Ok (total_bytes, [])"
| "read_assets fs dir total_bytes ((label, rel) # assets) =
     bind_result (read_ui_asset_file fs dir label rel) (\<lambda>bytes.
       let now_total = total_bytes + length bytes in
       if now_total > max_ui_total_bytes then Err label
       else bind_result (read_assets fs dir now_total assets) (\<lambda>(t, items). Ok (t, (label, bytes) # items)))"

definition scalar_assets :: "ui_section \<Rightarrow> (string \<times> string) list" where
  "scalar_assets u =
     List.map_filter (\<lambda>(label, rel). map_option (Pair label) rel)
       [(''config'', ui_config u), (''device-config'', ui_device_config u), (''commands'', ui_commands u),
        (''config-schema'', ui_config_schema u), (''commands-schema'', ui_commands_schema u)]"

definition widget_label :: "nat \<Rightarrow> string" where
  "widget_label i = ''widgets['' @ show_nat i @ '']''"

definition widget_assets :: "ui_section \<Rightarrow> (string \<times> string) list" where
  "widget_assets u = map (\<lambda>i. (widget_label i, ui_widgets u ! i)) [0..<length (ui_widgets u)]"

type_synonym ui_assets = "(string \<times> 8 word list) list \<times> (string \<times> 8 word list) list"

definition read_declared_ui_asset_bytes :: "files \<Rightarrow> path \<Rightarrow> ui_section \<Rightarrow> string + ui_assets" where
  "read_declared_ui_asset_bytes fs dir u =
     bind_result (read_assets fs dir 0 (scalar_assets u)) (\<lambda>(total_bytes, items).
       bind_result (read_assets fs dir total_bytes (widget_assets u)) (\<lambda>(_, ws). Ok (items, ws)))"

definition validate_ui_package :: "(8 word list \<Rightarrow> bool) \<Rightarrow> files \<Rightarrow> path \<Rightarrow> ui_section \<Rightarrow> string + ui_assets" where
  "validate_ui_package valid_schema fs dir u =
     bind_result (read_declared_ui_asset_bytes fs dir u) (\<lambda>assets.
       case List.find (\<lambda>(label, bytes). is_schema_label label \<and> \<not> valid_schema bytes) (fst assets) of
         Some (label, _) \<Rightarrow> Err label
       | None \<Rightarrow> Ok assets)"

definition ui_asset_digest_frames :: "ui_assets \<Rightarrow> (string \<times> 8 word list) list" where
  "ui_asset_digest_frames assets = fst assets @ snd assets"

text \<open>\<^verbatim>\<open>ui.map(f)\<close> over an optional section.\<close>

definition optional_assets :: "(ui_section \<Rightarrow> string + ui_assets) \<Rightarrow> ui_section option \<Rightarrow> string + ui_assets" where
  "optional_assets f u = (case u of None \<Rightarrow> Ok ([], []) | Some s \<Rightarrow> f s)"

section \<open>The content digest\<close>

definition framed_bytes :: "8 word list \<Rightarrow> 8 word list" where
  "framed_bytes b = be32 (length b mod 2 ^ 32) @ b"

definition digest_preimage :: "8 word list \<Rightarrow> 8 word list \<Rightarrow> (string \<times> 8 word list) list \<Rightarrow> 8 word list" where
  "digest_preimage manifest_bytes wasm_bytes frames =
     framed ''oxidhome:plugin-content:v3'' @ framed_bytes manifest_bytes @ framed_bytes wasm_bytes @
     be32 (length frames mod 2 ^ 32) @ concat (map (\<lambda>(label, bytes). framed label @ framed_bytes bytes) frames)"

definition content_digest ::
  "(8 word list \<Rightarrow> 8 word list) \<Rightarrow> 8 word list \<Rightarrow> 8 word list \<Rightarrow> (string \<times> 8 word list) list \<Rightarrow> string" where
  "content_digest sha manifest_bytes wasm_bytes frames = hex_bytes (sha (digest_preimage manifest_bytes wasm_bytes frames))"

definition scan_digest_with_validated_ui ::
  "(8 word list \<Rightarrow> 8 word list) \<Rightarrow> files \<Rightarrow> path \<Rightarrow> 8 word list \<Rightarrow> string \<Rightarrow> ui_assets \<Rightarrow> io_error + string" where
  "scan_digest_with_validated_ui sha fs dir manifest_bytes wasm_rel assets =
     bind_result (read_no_follow_within fs dir wasm_rel)
       (\<lambda>wasm_bytes. Ok (content_digest sha manifest_bytes wasm_bytes (ui_asset_digest_frames assets)))"

definition recompute_installed_digest ::
  "(8 word list \<Rightarrow> 8 word list) \<Rightarrow> files \<Rightarrow> path \<Rightarrow> plugin_manifest \<Rightarrow> 8 word list \<Rightarrow> 8 word list \<Rightarrow> string + string" where
  "recompute_installed_digest sha fs dir m manifest_bytes wasm_bytes =
     bind_result (optional_assets (read_declared_ui_asset_bytes fs dir) (ui m))
       (\<lambda>assets. Ok (content_digest sha manifest_bytes wasm_bytes (ui_asset_digest_frames assets)))"

section \<open>Directories\<close>

text \<open>\<^verbatim>\<open>read_dir\<close> of a directory, sorted by path.\<close>

definition dir_children :: "files \<Rightarrow> path \<Rightarrow> (string \<times> file_object) list" where
  "dir_children fs dir = map (\<lambda>(p, ob). (last p, ob)) (filter (\<lambda>(p, _). p \<noteq> [] \<and> butlast p = dir) fs)"

text \<open>\<^verbatim>\<open>remove_dir_all\<close>; when it fails, \<open>keep\<close> tells what it leaves, the directory among it.\<close>

definition remove_dir_all :: "(path \<Rightarrow> bool) \<Rightarrow> path \<Rightarrow> files \<Rightarrow> files \<times> bool" where
  "remove_dir_all keep p fs = (filter (\<lambda>(q, _). \<not> prefix p q \<or> keep p \<and> keep q) fs, \<not> keep p)"

definition add_files :: "(path \<times> file_object) list \<Rightarrow> files \<Rightarrow> files" where
  "add_files new fs = fold (\<lambda>(q, ob). bt_insert q ob) new fs"

definition moved :: "path \<Rightarrow> path \<Rightarrow> path \<Rightarrow> path" where
  "moved src dst q = dst @ drop (length src) q"

fun uncopyable :: "file_object \<Rightarrow> io_error option" where
  "uncopyable (Link _ _) = Some InvalidInput_io"
| "uncopyable Unreadable = Some Other_io"
| "uncopyable _ = None"

text \<open>
  The copy reads the source from \<open>given\<close>, in the order of the listing, and stops at the first link or file it cannot
  read, or at \<open>stop\<close>, where writing fails.
\<close>

definition copy_dir_recursive :: "(path \<Rightarrow> bool) \<Rightarrow> files \<Rightarrow> path \<Rightarrow> path \<Rightarrow> files \<Rightarrow> files \<times> (io_error + unit)" where
  "copy_dir_recursive stop given src dst fs =
     (let objects = filter (\<lambda>(q, _). strict_prefix src q) given;
          copied = takeWhile (\<lambda>(q, ob). uncopyable ob = None \<and> \<not> stop q) objects;
          written = map (\<lambda>(q, ob). (moved src dst q, ob)) (filter (\<lambda>(_, ob). ob \<noteq> OtherObject) copied)
      in (add_files ((dst, DirObject) # written) fs,
          case drop (length copied) objects of
            [] \<Rightarrow> Ok ()
          | (q, ob) # _ \<Rightarrow> Err (case uncopyable ob of Some e \<Rightarrow> e | None \<Rightarrow> Other_io)))"

text \<open>\<^verbatim>\<open>rename\<close> of a directory: fails on a name that exists, unless it is an empty directory.\<close>

definition rename_dir :: "bool \<Rightarrow> path \<Rightarrow> path \<Rightarrow> files \<Rightarrow> files \<times> bool" where
  "rename_dir io src dst fs =
     (if io \<and> (map_of fs dst = None
          \<or> map_of fs dst = Some DirObject \<and> \<not> list_ex (\<lambda>(q, _). strict_prefix dst q) fs)
      then (add_files (map (\<lambda>(q, ob). (moved src dst q, ob)) (filter (\<lambda>(q, _). prefix src q) fs))
              (filter (\<lambda>(q, _). \<not> prefix src q) fs), True)
      else (fs, False))"

end
