(* ===== verification/Installed_Plugins.thy ===== *)
theory Installed_Plugins
  imports Plugin_Files
begin

text \<open>
  \<^verbatim>\<open>crates/oxidhome-core/src/state/installed_plugins.rs\<close>: the registry of the installed plugins, the table
  \<^verbatim>\<open>plugin_installation\<close> and the directories under the plugins root, kept together by \<^verbatim>\<open>scan\<close>, \<^verbatim>\<open>install\<close> and
  \<^verbatim>\<open>uninstall\<close>.  The outcome of every call to the file system and the database is an argument, so a crash between
  two steps leaves the disk as a run leaves it whose later steps fail.  \<open>rng\<close> is the stream of the system's random bytes;
  \<open>to_json\<close> and \<open>of_json\<close> are the JSON encoding of a grant.  Error texts are reduced to their subject.
\<close>

section \<open>The table\<close>

record installation_row =
  pi_uuid :: string
  pi_plugin :: string
  pi_version :: version
  pi_installed :: int
  pi_uninstalled :: "int option"
  pi_grant :: "string option"
  pi_digest :: "string option"

type_synonym installation_table = "installation_row list"

record installed_plugin =
  ip_plugin :: string
  ip_uuid :: string
  ip_version :: version
  ip_path :: path
  ip_granted :: capabilities_section
  ip_digest :: string
  ip_singleton :: bool

definition is_live :: "installation_row \<Rightarrow> bool" where
  "is_live r = (pi_uninstalled r = None)"

datatype row_error = GrantTooLarge | UniqueConstraint | Sql_row

text \<open>The primary key, and the index \<^verbatim>\<open>plugin_installation_live\<close>: one live row for each plugin.\<close>

definition violates_unique :: "installation_row \<Rightarrow> installation_table \<Rightarrow> bool" where
  "violates_unique r db = list_ex (\<lambda>r'. pi_uuid r' = pi_uuid r \<or> is_live r' \<and> is_live r \<and> pi_plugin r' = pi_plugin r) db"

definition insert_installation_row ::
  "(capabilities_section \<Rightarrow> string) \<Rightarrow> bool \<Rightarrow> int \<Rightarrow> installed_plugin \<Rightarrow> installation_table \<Rightarrow> installation_table \<times> (row_error + unit)" where
  "insert_installation_row to_json io now p db =
     (if check_capability_limits_owned (ip_granted p) \<noteq> Ok () then (db, Err GrantTooLarge)
      else
        (let r = \<lparr>pi_uuid = ip_uuid p, pi_plugin = ip_plugin p, pi_version = ip_version p, pi_installed = now,
                  pi_uninstalled = None, pi_grant = Some (to_json (ip_granted p)), pi_digest = Some (ip_digest p)\<rparr>
         in if \<not> io then (db, Err Sql_row)
            else if violates_unique r db then (db, Err UniqueConstraint)
            else (db @ [r], Ok ())))"

definition delete_installation_row :: "bool \<Rightarrow> string \<Rightarrow> installation_table \<Rightarrow> installation_table" where
  "delete_installation_row io uuid db = (if io then filter (\<lambda>r. pi_uuid r \<noteq> uuid) db else db)"

definition tombstone_installation_row :: "int \<Rightarrow> string \<Rightarrow> installation_table \<Rightarrow> installation_table" where
  "tombstone_installation_row now uuid db =
     map (\<lambda>r. if pi_uuid r = uuid \<and> is_live r then r\<lparr>pi_uninstalled := Some now\<rparr> else r) db"

record live_installation =
  li_uuid :: string
  li_granted :: capabilities_section
  li_digest :: string

text \<open>One live row: a row without a digest or a readable grant within the limits goes to the second map.\<close>

definition load_row ::
  "(string \<Rightarrow> capabilities_section option) \<Rightarrow> installation_row
    \<Rightarrow> (string, live_installation) hmap \<times> (string, string) hmap
    \<Rightarrow> (string, live_installation) hmap \<times> (string, string) hmap" where
  "load_row of_json r = (\<lambda>(live, quarantined).
     (let quarantine = (live, AList.update (pi_plugin r) (pi_uuid r) quarantined) in
      case pi_digest r of
        None \<Rightarrow> quarantine
      | Some digest \<Rightarrow>
      (case pi_grant r of
        None \<Rightarrow> quarantine
      | Some json \<Rightarrow>
      (case of_json json of
        None \<Rightarrow> quarantine
      | Some cap \<Rightarrow>
          if check_capability_limits_owned cap \<noteq> Ok () then quarantine
          else (AList.update (pi_plugin r) \<lparr>li_uuid = pi_uuid r, li_granted = cap, li_digest = digest\<rparr> live, quarantined)))))"

definition load_live_installations ::
  "(string \<Rightarrow> capabilities_section option) \<Rightarrow> installation_table
    \<Rightarrow> (string, live_installation) hmap \<times> (string, string) hmap" where
  "load_live_installations of_json db = fold (load_row of_json) (filter is_live db) ([], [])"

section \<open>The registry\<close>

record quarantine_entry =
  qe_uuid :: string
  qe_paths :: "path list"

record installation =
  in_files :: files
  in_rows :: installation_table
  in_entries :: "(string, installed_plugin) hmap"
  in_quarantined :: "(string, quarantine_entry) hmap"
  in_minted :: nat

definition no_sql_row_uuid :: string where
  "no_sql_row_uuid = ''no-sql-row''"

definition mint_installation_uuid :: "(nat \<Rightarrow> 8 word list) \<Rightarrow> nat \<Rightarrow> string" where
  "mint_installation_uuid rng n = ''inst-'' @ hex_bytes (rng n)"

definition contains :: "string \<Rightarrow> string \<Rightarrow> bool" where
  "contains p s = (split_once_str p s \<noteq> None)"

definition is_safe_plugin_id :: "string \<Rightarrow> bool" where
  "is_safe_plugin_id i =
     (i \<noteq> [] \<and> CHR ''/'' \<notin> set i \<and> CHR 0x5C \<notin> set i \<and> \<not> contains ''..'' i \<and> \<not> starts_with ''.'' i)"

definition get_installed :: "string \<Rightarrow> installation \<Rightarrow> installed_plugin option" where
  "get_installed i st = map_of (in_entries st) i"

definition list_installed :: "installation \<Rightarrow> installed_plugin list" where
  "list_installed st = map snd (in_entries st)"

definition is_quarantined :: "string \<Rightarrow> installation \<Rightarrow> bool" where
  "is_quarantined i st = (map_of (in_quarantined st) i \<noteq> None)"

definition installation_uuid_for :: "string \<Rightarrow> installation \<Rightarrow> string option" where
  "installation_uuid_for i st =
     (case map_of (in_entries st) i of
        Some p \<Rightarrow> Some (ip_uuid p)
      | None \<Rightarrow> map_option qe_uuid (map_of (in_quarantined st) i))"

section \<open>Scanning\<close>

text \<open>
  The outcomes of a scan's calls: the root and the table can be read; which names are listed and typed; what the removal
  of a staging directory leaves; which rows can be tombstoned (by installation) and inserted (by plugin).
\<close>

record scan_io =
  si_open :: bool
  si_listed :: "string \<Rightarrow> bool"
  si_typed :: "string \<Rightarrow> bool"
  si_left :: "path \<Rightarrow> bool"
  si_tombstone :: "string \<Rightarrow> bool"
  si_insert :: "string \<Rightarrow> bool"
  si_now :: int

record scan_state =
  sc_files :: files
  sc_entries :: "(string, installed_plugin) hmap"
  sc_backfills :: "installed_plugin list"
  sc_observed :: "(string, path) hmap"
  sc_duplicates :: "string list"
  sc_defer :: bool
  sc_quarantined :: "(string, quarantine_entry) hmap"
  sc_minted :: nat

definition add_path :: "path \<Rightarrow> quarantine_entry \<Rightarrow> quarantine_entry" where
  "add_path p q = (if p \<in> set (qe_paths q) then q else q\<lparr>qe_paths := qe_paths q @ [p]\<rparr>)"

text \<open>\<^verbatim>\<open>or_else\<close> chains.\<close>

fun first_of :: "'a option list \<Rightarrow> 'a \<Rightarrow> 'a" where
  "first_of [] d = d"
| "first_of (x # xs) d = (case x of Some a \<Rightarrow> a | None \<Rightarrow> first_of xs d)"

definition note_dir_name :: "string \<Rightarrow> path \<Rightarrow> scan_state \<Rightarrow> scan_state" where
  "note_dir_name name p s =
     (case map_of (sc_quarantined s) name of
        Some q \<Rightarrow> if name \<noteq> [] then s\<lparr>sc_quarantined := AList.update name (add_path p q) (sc_quarantined s)\<rparr> else s
      | None \<Rightarrow> s)"

text \<open>The second directory of an identifier: the first one is evicted and quarantined.\<close>

definition first_duplicate ::
  "(string, live_installation) hmap \<Rightarrow> (string, string) hmap \<Rightarrow> string \<Rightarrow> scan_state \<Rightarrow> scan_state" where
  "first_duplicate live quarantined i s =
     (let prior_uuid = first_of
            [map_option ip_uuid (map_of (sc_entries s) i), map_option li_uuid (map_of live i), map_of quarantined i,
             map_option qe_uuid (map_of (sc_quarantined s) i)] ''dup-unknown'';
          s1 = s\<lparr>sc_duplicates := i # sc_duplicates s, sc_entries := AList.delete i (sc_entries s)\<rparr>
      in case map_of (sc_observed s) i of
           Some prior_path \<Rightarrow>
             s1\<lparr>sc_quarantined := AList.update i
                  (case map_of (sc_quarantined s) i of
                     Some q \<Rightarrow> add_path prior_path (q\<lparr>qe_uuid := prior_uuid\<rparr>)
                   | None \<Rightarrow> \<lparr>qe_uuid = prior_uuid, qe_paths = [prior_path]\<rparr>) (sc_quarantined s)\<rparr>
         | None \<Rightarrow> s1)"

definition note_duplicate ::
  "(string, live_installation) hmap \<Rightarrow> (string, string) hmap \<Rightarrow> string \<Rightarrow> path \<Rightarrow> scan_state \<Rightarrow> scan_state" where
  "note_duplicate live quarantined i p s =
     (let s1 = (if i \<in> set (sc_duplicates s) then s else first_duplicate live quarantined i s)
      in s1\<lparr>sc_quarantined := AList.update i
             (case map_of (sc_quarantined s1) i of
                Some q \<Rightarrow> add_path p q
              | None \<Rightarrow> \<lparr>qe_uuid = first_of [map_of quarantined i, map_option li_uuid (map_of live i)] ''dup-unknown'',
                         qe_paths = [p]\<rparr>) (sc_quarantined s1)\<rparr>)"

definition handle_invalid_ui_dir ::
  "string \<Rightarrow> path \<Rightarrow> (string, live_installation) hmap \<Rightarrow> (string, string) hmap
    \<Rightarrow> (string, quarantine_entry) hmap \<Rightarrow> (string, quarantine_entry) hmap" where
  "handle_invalid_ui_dir i p live quarantined registry =
     (let uuid = first_of [map_option li_uuid (map_of live i), map_of quarantined i] no_sql_row_uuid
      in AList.update i
           (case map_of registry i of
              Some q \<Rightarrow> add_path p (if qe_uuid q = no_sql_row_uuid then q\<lparr>qe_uuid := uuid\<rparr> else q)
            | None \<Rightarrow> \<lparr>qe_uuid = uuid, qe_paths = [p]\<rparr>) registry)"

definition plugin_record ::
  "plugin_manifest \<Rightarrow> path \<Rightarrow> string \<Rightarrow> capabilities_section \<Rightarrow> string \<Rightarrow> installed_plugin" where
  "plugin_record m p uuid granted digest =
     \<lparr>ip_plugin = plugin_id (plugin m), ip_uuid = uuid, ip_version = plugin_version (plugin m), ip_path = p,
      ip_granted = granted, ip_digest = digest, ip_singleton = singleton (runtime m)\<rparr>"

text \<open>A readable directory, the only one so far of its plugin.\<close>

definition index_dir ::
  "(nat \<Rightarrow> 8 word list) \<Rightarrow> (string, live_installation) hmap \<Rightarrow> (string, string) hmap
    \<Rightarrow> plugin_manifest \<Rightarrow> io_error + string \<Rightarrow> path \<Rightarrow> scan_state \<Rightarrow> scan_state" where
  "index_dir rng live quarantined m current p s =
     (let i = plugin_id (plugin m);
          quarantine = (\<lambda>uuid. s\<lparr>sc_quarantined := AList.update i \<lparr>qe_uuid = uuid, qe_paths = [p]\<rparr> (sc_quarantined s)\<rparr>)
      in case map_of quarantined i of
           Some uuid \<Rightarrow> quarantine uuid
         | None \<Rightarrow>
      (case map_of live i of
           Some l \<Rightarrow>
             if current = Ok (li_digest l)
             then s\<lparr>sc_entries := AList.update i (plugin_record m p (li_uuid l) (li_granted l) (li_digest l)) (sc_entries s)\<rparr>
             else quarantine (li_uuid l)
         | None \<Rightarrow>
             (let uuid = mint_installation_uuid rng (sc_minted s);
                  s1 = s\<lparr>sc_minted := sc_minted s + 1\<rparr>
              in case current of
                   Err _ \<Rightarrow>
                     s1\<lparr>sc_quarantined := AList.update i
                          (case map_of (sc_quarantined s) i of
                             Some q \<Rightarrow> add_path p q
                           | None \<Rightarrow> \<lparr>qe_uuid = no_sql_row_uuid, qe_paths = [p]\<rparr>) (sc_quarantined s)\<rparr>
                 | Ok digest \<Rightarrow>
                     (let row = plugin_record m p uuid (capabilities m) digest
                      in s1\<lparr>sc_backfills := sc_backfills s @ [row], sc_entries := AList.update i row (sc_entries s)\<rparr>))))"

text \<open>The readers of the packages: TOML, JSON Schema, SHA-256.\<close>

record readers =
  rd_toml :: "string \<Rightarrow> plugin_manifest option"
  rd_schema :: "8 word list \<Rightarrow> bool"
  rd_sha :: "8 word list \<Rightarrow> 8 word list"

definition scan_dir ::
  "readers \<Rightarrow> (nat \<Rightarrow> 8 word list) \<Rightarrow> (string, live_installation) hmap \<Rightarrow> (string, string) hmap
    \<Rightarrow> string \<Rightarrow> path \<Rightarrow> scan_state \<Rightarrow> scan_state" where
  "scan_dir rd rng live quarantined name p s0 =
     (let s = note_dir_name name p s0 in
      case read_manifest_sync_capturing_bytes (rd_toml rd) (sc_files s) p of
        None \<Rightarrow> s\<lparr>sc_defer := True\<rparr>
      | Some (m, manifest_bytes) \<Rightarrow>
          (let i = plugin_id (plugin m) in
           if \<not> is_safe_plugin_id i then s\<lparr>sc_defer := True\<rparr>
           else if i \<in> set (sc_duplicates s) \<or> map_of (sc_observed s) i \<noteq> None then note_duplicate live quarantined i p s
           else
             (let s1 = s\<lparr>sc_observed := AList.update i p (sc_observed s)\<rparr> in
              case optional_assets (validate_ui_package (rd_schema rd) (sc_files s) p) (ui m) of
                Err _ \<Rightarrow> s1\<lparr>sc_quarantined := handle_invalid_ui_dir i p live quarantined (sc_quarantined s)\<rparr>
              | Ok assets \<Rightarrow>
                  index_dir rng live quarantined m
                    (scan_digest_with_validated_ui (rd_sha rd) (sc_files s) p manifest_bytes (wasm (runtime m)) assets) p s1)))"

definition scan_child ::
  "readers \<Rightarrow> (nat \<Rightarrow> 8 word list) \<Rightarrow> scan_io \<Rightarrow> path \<Rightarrow> (string, live_installation) hmap \<Rightarrow> (string, string) hmap
    \<Rightarrow> string \<times> file_object \<Rightarrow> scan_state \<Rightarrow> scan_state" where
  "scan_child rd rng io top_dir live quarantined = (\<lambda>(name, ob) s.
     (if \<not> si_typed io name then s\<lparr>sc_defer := True\<rparr>
      else if ob \<noteq> DirObject then s
      else if starts_with ''.staging-'' name
        then s\<lparr>sc_files := fst (remove_dir_all (si_left io) (top_dir @ [name]) (sc_files s))\<rparr>
      else scan_dir rd rng live quarantined name (top_dir @ [name]) s))"

definition orphaned :: "scan_state \<Rightarrow> string \<Rightarrow> bool" where
  "orphaned s i = (map_of (sc_observed s) i = None \<and> i \<notin> set (sc_duplicates s))"

definition sweep_row ::
  "scan_io \<Rightarrow> scan_state \<Rightarrow> string \<times> live_installation \<Rightarrow> installation_table \<Rightarrow> installation_table" where
  "sweep_row io s = (\<lambda>(i, l) db.
     (if orphaned s i \<and> si_tombstone io (li_uuid l) then tombstone_installation_row (si_now io) (li_uuid l) db else db))"

fun insert_backfills ::
  "(capabilities_section \<Rightarrow> string) \<Rightarrow> scan_io \<Rightarrow> installed_plugin list \<Rightarrow> installation_table \<Rightarrow> installation_table \<times> (row_error + unit)" where
  "insert_backfills to_json io [] db = (db, Ok ())"
| "insert_backfills to_json io (p # ps) db =
     (case insert_installation_row to_json (si_insert io (ip_plugin p)) (si_now io) p db of
        (db', Err e) \<Rightarrow> (db', Err e)
      | (db', Ok ()) \<Rightarrow> insert_backfills to_json io ps db')"

definition scan_children ::
  "readers \<Rightarrow> (nat \<Rightarrow> 8 word list) \<Rightarrow> scan_io \<Rightarrow> path \<Rightarrow> (string, live_installation) hmap \<Rightarrow> (string, string) hmap
    \<Rightarrow> installation \<Rightarrow> scan_state" where
  "scan_children rd rng io top_dir live quarantined st =
     (let children = dir_children (in_files st) top_dir in
      fold (scan_child rd rng io top_dir live quarantined) (filter (\<lambda>(name, _). si_listed io name) children)
        \<lparr>sc_files = in_files st, sc_entries = [], sc_backfills = [], sc_observed = [], sc_duplicates = [],
         sc_defer = list_ex (\<lambda>(name, _). \<not> si_listed io name) children,
         sc_quarantined = map (\<lambda>(i, uuid). (i, \<lparr>qe_uuid = uuid, qe_paths = []\<rparr>)) quarantined,
         sc_minted = in_minted st\<rparr>)"

text \<open>The registry of a process is built by its scan; a scan that fails leaves none.\<close>

definition scan ::
  "readers \<Rightarrow> (capabilities_section \<Rightarrow> string) \<Rightarrow> (string \<Rightarrow> capabilities_section option) \<Rightarrow> (nat \<Rightarrow> 8 word list)
    \<Rightarrow> scan_io \<Rightarrow> path \<Rightarrow> installation \<Rightarrow> installation \<times> bool" where
  "scan rd to_json of_json rng io top_dir st =
     (if \<not> si_open io then (st\<lparr>in_entries := [], in_quarantined := []\<rparr>, False)
      else case load_live_installations of_json (in_rows st) of (live, quarantined) \<Rightarrow>
        (let s = scan_children rd rng io top_dir live quarantined st;
             swept = (if sc_defer s then in_rows st else fold (sweep_row io s) live (in_rows st))
         in case insert_backfills to_json io (sc_backfills s) swept of
              (rows, Ok ()) \<Rightarrow>
                (\<lparr>in_files = sc_files s, in_rows = rows, in_entries = sc_entries s, in_quarantined = sc_quarantined s,
                  in_minted = sc_minted s\<rparr>, True)
            | (rows, Err _) \<Rightarrow>
                (\<lparr>in_files = sc_files s, in_rows = rows, in_entries = [], in_quarantined = [], in_minted = sc_minted s\<rparr>, False)))"


section \<open>Installing\<close>

datatype install_error =
    NoPluginsRoot
  | SourceMissing
  | BadManifest string
  | AlreadyInstalled string
  | InstallIo
  | Persistence
  | ConstraintDenied string string

text \<open>
  The outcomes of an installation's calls: the file system the copy reads (it may have changed since the manifest was
  read), where writing stops, what removing the staging directory leaves, and whether the row is inserted, the staging
  directory renamed, and the row deleted again.
\<close>

record install_io =
  ii_source :: files
  ii_stop :: "path \<Rightarrow> bool"
  ii_left :: "path \<Rightarrow> bool"
  ii_insert :: bool
  ii_rename :: bool
  ii_rollback :: bool
  ii_now :: int

definition path_exists :: "files \<Rightarrow> path \<Rightarrow> string \<Rightarrow> bool" where
  "path_exists fs dir name = (canonicalize max_links fs dir [name] \<noteq> None)"

definition source_directory :: "files \<Rightarrow> string list \<Rightarrow> path option" where
  "source_directory fs source_dir =
     (case canonicalize max_links fs [] source_dir of
        None \<Rightarrow> None
      | Some src \<Rightarrow>
          if (src = [] \<or> map_of fs src = Some DirObject)
             \<and> (case canonicalize max_links fs src [''manifest.toml''] of
                  None \<Rightarrow> False
                | Some p \<Rightarrow> (case map_of fs p of Some (RegFile _) \<Rightarrow> True | Some Unreadable \<Rightarrow> True | _ \<Rightarrow> False))
          then Some src else None)"

definition clear_staging :: "(path \<Rightarrow> bool) \<Rightarrow> path \<Rightarrow> string \<Rightarrow> files \<Rightarrow> files \<times> bool" where
  "clear_staging keep top_dir name fs =
     (if path_exists fs top_dir name then remove_dir_all keep (top_dir @ [name]) fs else (fs, True))"

text \<open>What the staged package is found to be: its manifest and its digest.\<close>

definition check_staged ::
  "readers \<Rightarrow> files \<Rightarrow> path \<Rightarrow> string \<Rightarrow> install_error + plugin_manifest \<times> string" where
  "check_staged rd fs staging i =
     (case read_manifest_sync_capturing_bytes (rd_toml rd) fs staging of
        None \<Rightarrow> Err (BadManifest ''staged manifest'')
      | Some (m, manifest_bytes) \<Rightarrow>
          if plugin_id (plugin m) \<noteq> i then Err (BadManifest ''staged plugin.id'')
          else case optional_assets (validate_ui_package (rd_schema rd) fs staging) (ui m) of
            Err label \<Rightarrow> Err (BadManifest label)
          | Ok assets \<Rightarrow>
              (case read_no_follow_within fs staging (wasm (runtime m)) of
                 Err _ \<Rightarrow> Err InstallIo
               | Ok wasm_bytes \<Rightarrow>
                   Ok (m, content_digest (rd_sha rd) manifest_bytes wasm_bytes (ui_asset_digest_frames assets))))"

text \<open>The installation once the staging directory is ready: the row, the rename, the entry.\<close>

definition activate ::
  "(capabilities_section \<Rightarrow> string) \<Rightarrow> install_io \<Rightarrow> path \<Rightarrow> path \<Rightarrow> installed_plugin
    \<Rightarrow> installation \<Rightarrow> installation \<times> (install_error + installed_plugin)" where
  "activate to_json io staging dest row st =
     (let clean = (\<lambda>st. st\<lparr>in_files := fst (remove_dir_all (ii_left io) staging (in_files st))\<rparr>) in
      case insert_installation_row to_json (ii_insert io) (ii_now io) row (in_rows st) of
        (_, Err UniqueConstraint) \<Rightarrow> (clean st, Err (AlreadyInstalled (ip_plugin row)))
      | (_, Err _) \<Rightarrow> (clean st, Err Persistence)
      | (rows, Ok ()) \<Rightarrow>
          (case rename_dir (ii_rename io) staging dest (in_files st) of
             (fs, True) \<Rightarrow>
               (st\<lparr>in_files := fs, in_rows := rows, in_entries := AList.update (ip_plugin row) row (in_entries st)\<rparr>, Ok row)
           | (fs, False) \<Rightarrow>
               (clean (st\<lparr>in_rows := delete_installation_row (ii_rollback io) (ip_uuid row) rows\<rparr>), Err InstallIo)))"

definition install_gated ::
  "readers \<Rightarrow> (capabilities_section \<Rightarrow> string) \<Rightarrow> (nat \<Rightarrow> 8 word list) \<Rightarrow> install_io \<Rightarrow> path option \<Rightarrow> string list
    \<Rightarrow> (string \<Rightarrow> string + unit) \<Rightarrow> installation \<Rightarrow> installation \<times> (install_error + installed_plugin)" where
  "install_gated rd to_json rng io plugins_root source_dir id_gate st =
     (case plugins_root of
        None \<Rightarrow> (st, Err NoPluginsRoot)
      | Some top_dir \<Rightarrow>
      (case source_directory (in_files st) source_dir of
        None \<Rightarrow> (st, Err SourceMissing)
      | Some src \<Rightarrow>
      (case read_manifest_sync (rd_toml rd) (in_files st) src of
        None \<Rightarrow> (st, Err (BadManifest ''manifest''))
      | Some manifest \<Rightarrow>
      (let i = plugin_id (plugin manifest) in
       if \<not> is_safe_plugin_id i then (st, Err (BadManifest ''plugin id''))
       else case id_gate i of
         Err required \<Rightarrow> (st, Err (ConstraintDenied i required))
       | Ok () \<Rightarrow>
         if path_exists (in_files st) top_dir i then (st, Err (AlreadyInstalled i))
         else
           (let uuid = mint_installation_uuid rng (in_minted st);
                staging = top_dir @ [''.staging-'' @ uuid];
                st1 = st\<lparr>in_minted := in_minted st + 1\<rparr>;
                (fs0, removed) = clear_staging (ii_left io) top_dir (''.staging-'' @ uuid) (in_files st)
            in if \<not> removed then (st1\<lparr>in_files := fs0\<rparr>, Err InstallIo)
               else case copy_dir_recursive (ii_stop io) (ii_source io) src staging fs0 of
                 (fs1, Err e) \<Rightarrow>
                   (st1\<lparr>in_files := fst (remove_dir_all (ii_left io) staging fs1)\<rparr>,
                    Err (if e = InvalidInput_io then BadManifest ''link'' else InstallIo))
               | (fs1, Ok ()) \<Rightarrow>
                   (case check_staged rd fs1 staging i of
                      Err e \<Rightarrow> (st1\<lparr>in_files := fst (remove_dir_all (ii_left io) staging fs1)\<rparr>, Err e)
                    | Ok (m, digest) \<Rightarrow>
                        activate to_json io staging (top_dir @ [i])
                          (plugin_record m (top_dir @ [i]) uuid (capabilities m) digest) (st1\<lparr>in_files := fs1\<rparr>)))))))"

definition install ::
  "readers \<Rightarrow> (capabilities_section \<Rightarrow> string) \<Rightarrow> (nat \<Rightarrow> 8 word list) \<Rightarrow> install_io \<Rightarrow> path option \<Rightarrow> string list
    \<Rightarrow> installation \<Rightarrow> installation \<times> (install_error + installed_plugin)" where
  "install rd to_json rng io plugins_root source_dir st =
     install_gated rd to_json rng io plugins_root source_dir (\<lambda>_. Ok ()) st"

section \<open>Uninstalling\<close>

datatype uninstall_error = NoRoot | NotInstalled string | UninstallIo | TombstoneFailed

text \<open>What removing each directory leaves, and whether the row is tombstoned.\<close>

record uninstall_io =
  ui_left :: "path \<Rightarrow> bool"
  ui_tombstone :: bool
  ui_now :: int

fun remove_dirs :: "(path \<Rightarrow> bool) \<Rightarrow> path list \<Rightarrow> files \<Rightarrow> files \<times> bool" where
  "remove_dirs keep [] fs = (fs, True)"
| "remove_dirs keep (p # ps) fs =
     (if path_exists fs (butlast p) (last p)
      then (case remove_dir_all keep p fs of
              (fs', True) \<Rightarrow> remove_dirs keep ps fs'
            | (fs', False) \<Rightarrow> (fs', False))
      else remove_dirs keep ps fs)"

definition uninstall ::
  "uninstall_io \<Rightarrow> path option \<Rightarrow> string \<Rightarrow> installation \<Rightarrow> installation \<times> (uninstall_error + string)" where
  "uninstall io plugins_root i st =
     (case plugins_root of
        None \<Rightarrow> (st, Err NoRoot)
      | Some top_dir \<Rightarrow>
      (case (case map_of (in_entries st) i of
               Some p \<Rightarrow> Some (ip_uuid p, [ip_path p], False)
             | None \<Rightarrow> map_option (\<lambda>q. (qe_uuid q, qe_paths q, True)) (map_of (in_quarantined st) i)) of
        None \<Rightarrow> (st, Err (NotInstalled i))
      | Some (uuid, dests, was_quarantined) \<Rightarrow>
          if \<not> list_all (prefix top_dir) dests then (st, Err (NotInstalled i))
          else case remove_dirs (ui_left io) dests (in_files st) of
            (fs, False) \<Rightarrow> (st\<lparr>in_files := fs\<rparr>, Err UninstallIo)
          | (fs, True) \<Rightarrow>
              if \<not> ui_tombstone io then (st\<lparr>in_files := fs\<rparr>, Err TombstoneFailed)
              else
                (let st1 = st\<lparr>in_files := fs, in_rows := tombstone_installation_row (ui_now io) uuid (in_rows st)\<rparr>
                 in (if was_quarantined then st1\<lparr>in_quarantined := AList.delete i (in_quarantined st)\<rparr>
                     else st1\<lparr>in_entries := AList.delete i (in_entries st)\<rparr>,
                     Ok uuid))))"

section \<open>Grants\<close>

definition intersect_by_eq :: "'a list \<Rightarrow> 'a list \<Rightarrow> 'a list" where
  "intersect_by_eq a b = filter (\<lambda>x. x \<in> set b) a"

definition effective_capabilities :: "capabilities_section \<Rightarrow> capabilities_section \<Rightarrow> capabilities_section" where
  "effective_capabilities requested granted =
     \<lparr>network = intersect_by_eq (network requested) (network granted),
      storage_quota_kb = min (storage_quota_kb requested) (storage_quota_kb granted),
      blob_quota_mb = min (blob_quota_mb requested) (blob_quota_mb granted),
      declares_devices = intersect_by_eq (declares_devices requested) (declares_devices granted),
      declares_services = intersect_by_eq (declares_services requested) (declares_services granted),
      consumes_services = consumes_services granted,
      subscribes_events = (subscribes_events requested \<and> subscribes_events granted)\<rparr>"

end
