(* ===== verification/Plugin_Scan.thy ===== *)
theory Plugin_Scan
  imports Installed_Plugins
begin

text \<open>
  What a scan of the package directories leaves for each plugin: an entry, a quarantine, or neither.  The state of the
  loop is looked at one plugin at a time, since a directory touches the plugin it declares and, by its name, the
  quarantine of one more.
\<close>

section \<open>The live rows\<close>

definition readable_row :: "(string \<Rightarrow> capabilities_section option) \<Rightarrow> installation_row \<Rightarrow> live_installation option" where
  "readable_row of_json r =
     (case (pi_digest r, pi_grant r) of
        (Some digest, Some json) \<Rightarrow>
          (case of_json json of
             Some cap \<Rightarrow> if check_capability_limits_owned cap = Ok ()
                         then Some \<lparr>li_uuid = pi_uuid r, li_granted = cap, li_digest = digest\<rparr> else None
           | None \<Rightarrow> None)
      | _ \<Rightarrow> None)"

lemma load_row_readable:
  "load_row of_json r (live, quarantined) =
     (case readable_row of_json r of
        Some l \<Rightarrow> (AList.update (pi_plugin r) l live, quarantined)
      | None \<Rightarrow> (live, AList.update (pi_plugin r) (pi_uuid r) quarantined))"
  by (auto simp: load_row_def readable_row_def Let_def split: option.splits)

definition live_plugins_distinct :: "installation_table \<Rightarrow> bool" where
  "live_plugins_distinct db = distinct (map pi_plugin (filter is_live db))"

definition live_row :: "installation_table \<Rightarrow> string \<Rightarrow> installation_row option" where
  "live_row db i = List.find (\<lambda>r. is_live r \<and> pi_plugin r = i) db"

lemma live_row_Some: "live_row db i = Some r \<Longrightarrow> r \<in> set db \<and> is_live r \<and> pi_plugin r = i"
  by (auto simp: live_row_def find_Some_iff)

lemma live_row_unique: "live_plugins_distinct db \<Longrightarrow> r \<in> set db \<Longrightarrow> is_live r \<Longrightarrow> live_row db (pi_plugin r) = Some r"
proof (induction db)
  case (Cons a db)
  then show ?case by (auto simp: live_plugins_distinct_def live_row_def image_iff split: if_splits)
qed simp

lemma load_fold:
  assumes "distinct (map pi_plugin rs)"
  shows "fold (load_row of_json) rs (live, quarantined) = (live', quarantined') \<Longrightarrow>
    map_of live' i = (case List.find (\<lambda>r. pi_plugin r = i) rs of
        Some r \<Rightarrow> (case readable_row of_json r of Some l \<Rightarrow> Some l | None \<Rightarrow> map_of live i) | None \<Rightarrow> map_of live i)
    \<and> map_of quarantined' i = (case List.find (\<lambda>r. pi_plugin r = i) rs of
        Some r \<Rightarrow> (case readable_row of_json r of Some l \<Rightarrow> map_of quarantined i | None \<Rightarrow> Some (pi_uuid r))
      | None \<Rightarrow> map_of quarantined i)"
  using assms
proof (induction rs arbitrary: live quarantined)
  case (Cons r rs)
  have none: "List.find (\<lambda>x. pi_plugin x = pi_plugin r) rs = None"
    using Cons.prems(2) by (simp add: find_None_iff) (metis imageI)
  show ?case
  proof (cases "readable_row of_json r")
    case None
    then show ?thesis
      using Cons.prems none Cons.IH [of live "AList.update (pi_plugin r) (pi_uuid r) quarantined"]
      by (auto simp: load_row_readable update_conv' split: option.splits)
  next
    case (Some l)
    then show ?thesis
      using Cons.prems none Cons.IH [of "AList.update (pi_plugin r) l live" quarantined]
      by (auto simp: load_row_readable update_conv' split: option.splits)
  qed
qed simp

lemma load_live:
  assumes "live_plugins_distinct db" and "load_live_installations of_json db = (live, quarantined)"
  shows "map_of live i = Option.bind (live_row db i) (readable_row of_json)"
    and "map_of quarantined i =
      Option.bind (live_row db i) (\<lambda>r. if readable_row of_json r = None then Some (pi_uuid r) else None)"
proof -
  have find: "List.find (\<lambda>r. pi_plugin r = i) (filter is_live db) = live_row db i"
    unfolding live_row_def by (induction db) auto
  have "distinct (map pi_plugin (filter is_live db))" using assms(1) by (simp add: live_plugins_distinct_def)
  from load_fold [OF this, of of_json "[]" "[]" live quarantined i] assms(2) find
  show "map_of live i = Option.bind (live_row db i) (readable_row of_json)"
    and "map_of quarantined i =
      Option.bind (live_row db i) (\<lambda>r. if readable_row of_json r = None then Some (pi_uuid r) else None)"
    by (auto simp: load_live_installations_def split: option.splits)
qed

lemma load_row_wf:
  "hm_wf (fst m) \<Longrightarrow> hm_wf (snd m) \<Longrightarrow> hm_wf (fst (load_row of_json r m)) \<and> hm_wf (snd (load_row of_json r m))"
  by (cases m) (simp add: load_row_readable hm_wf_put split: option.split)

lemma load_wf:
  assumes "load_live_installations of_json db = (live, quarantined)"
  shows "hm_wf live" and "hm_wf quarantined"
proof -
  have "hm_wf (fst m) \<Longrightarrow> hm_wf (snd m) \<Longrightarrow>
      hm_wf (fst (fold (load_row of_json) rs m)) \<and> hm_wf (snd (fold (load_row of_json) rs m))" for rs m
  proof (induction rs arbitrary: m)
    case (Cons r rs)
    from load_row_wf [OF Cons.prems] Cons.IH show ?case by simp
  qed simp
  from this [of "([], [])" "filter is_live db"] assms show "hm_wf live" and "hm_wf quarantined"
    by (simp_all add: load_live_installations_def)
qed

section \<open>One plugin\<close>

text \<open>
  \<open>rs\<close> are the directories that declared the plugin so far, \<open>bs\<close> its backfills; the other arguments are what the loop's
  maps hold for it.
\<close>

definition quarantine_uuid_ok ::
  "live_installation option \<Rightarrow> string option \<Rightarrow> installed_plugin list \<Rightarrow> quarantine_entry \<Rightarrow> bool" where
  "quarantine_uuid_ok l u bs q =
     (case l of Some x \<Rightarrow> qe_uuid q = li_uuid x
      | None \<Rightarrow> (case u of Some x \<Rightarrow> qe_uuid q = x
                 | None \<Rightarrow> (case bs of b # _ \<Rightarrow> qe_uuid q = ip_uuid b
                           | [] \<Rightarrow> qe_uuid q = no_sql_row_uuid \<or> qe_uuid q = ''dup-unknown'')))"

definition entry_source_ok ::
  "live_installation option \<Rightarrow> string option \<Rightarrow> installed_plugin list \<Rightarrow> installed_plugin \<Rightarrow> bool" where
  "entry_source_ok l u bs e =
     (u = None \<and> (case l of Some x \<Rightarrow> ip_uuid e = li_uuid x \<and> ip_granted e = li_granted x \<and> ip_digest e = li_digest x
                   | None \<Rightarrow> bs = [e]))"

text \<open>One directory was seen, or the plugin is a duplicate.\<close>

definition seen_ok :: "path set \<Rightarrow> path option \<Rightarrow> bool \<Rightarrow> bool" where
  "seen_ok rs seen dup \<longleftrightarrow>
     (seen = None \<longleftrightarrow> rs = {}) \<and> (\<forall>p. seen = Some p \<longrightarrow> p \<in> rs) \<and> (dup \<longrightarrow> seen \<noteq> None) \<and> (\<not> dup \<longrightarrow> (\<forall>p \<in> rs. seen = Some p))"

definition entry_ok ::
  "string \<Rightarrow> live_installation option \<Rightarrow> string option \<Rightarrow> installed_plugin list \<Rightarrow> installed_plugin option
    \<Rightarrow> quarantine_entry option \<Rightarrow> path option \<Rightarrow> bool \<Rightarrow> bool" where
  "entry_ok i l u bs e q seen dup \<longleftrightarrow>
     (\<forall>x. e = Some x \<longrightarrow> ip_plugin x = i \<and> seen = Some (ip_path x) \<and> \<not> dup \<and> q = None \<and> entry_source_ok l u bs x)"

definition quar_ok ::
  "live_installation option \<Rightarrow> string option \<Rightarrow> installed_plugin list \<Rightarrow> quarantine_entry option \<Rightarrow> path option \<Rightarrow> bool" where
  "quar_ok l u bs q seen \<longleftrightarrow>
     (q = None \<longrightarrow> u = None) \<and> (\<forall>x. q = Some x \<longrightarrow> quarantine_uuid_ok l u bs x \<and> (u \<noteq> None \<or> seen \<noteq> None))"

definition paths_kept :: "path set \<Rightarrow> installed_plugin option \<Rightarrow> quarantine_entry option \<Rightarrow> bool" where
  "paths_kept rs e q \<longleftrightarrow> (e = None \<longrightarrow> (\<forall>p \<in> rs. \<exists>x. q = Some x \<and> p \<in> set (qe_paths x)))"

definition fill_ok ::
  "string \<Rightarrow> live_installation option \<Rightarrow> string option \<Rightarrow> installed_plugin option \<Rightarrow> quarantine_entry option
    \<Rightarrow> path option \<Rightarrow> installed_plugin list \<Rightarrow> bool" where
  "fill_ok i l u e q seen bs \<longleftrightarrow>
     (\<forall>b bs'. bs = b # bs' \<longrightarrow>
        bs' = [] \<and> ip_plugin b = i \<and> l = None \<and> u = None \<and> seen \<noteq> None \<and> (e = Some b \<or> e = None \<and> q \<noteq> None))"

definition key_ok ::
  "string \<Rightarrow> live_installation option \<Rightarrow> string option \<Rightarrow> path set \<Rightarrow> installed_plugin option \<Rightarrow> quarantine_entry option
    \<Rightarrow> path option \<Rightarrow> bool \<Rightarrow> installed_plugin list \<Rightarrow> bool" where
  "key_ok i l u rs e q seen dup bs \<longleftrightarrow>
     seen_ok rs seen dup \<and> entry_ok i l u bs e q seen dup \<and> quar_ok l u bs q seen \<and> paths_kept rs e q \<and> fill_ok i l u e q seen bs"

definition backfills_of :: "scan_state \<Rightarrow> string \<Rightarrow> installed_plugin list" where
  "backfills_of s i = filter (\<lambda>b. ip_plugin b = i) (sc_backfills s)"

definition scan_key_ok ::
  "(string, live_installation) hmap \<Rightarrow> (string, string) hmap \<Rightarrow> (string \<times> path) set \<Rightarrow> scan_state \<Rightarrow> string \<Rightarrow> bool" where
  "scan_key_ok live quarantined R s i =
     key_ok i (map_of live i) (map_of quarantined i) {p. (i, p) \<in> R} (map_of (sc_entries s) i) (map_of (sc_quarantined s) i)
       (map_of (sc_observed s) i) (i \<in> set (sc_duplicates s)) (backfills_of s i)"

definition scan_ok ::
  "(string, live_installation) hmap \<Rightarrow> (string, string) hmap \<Rightarrow> (string \<times> path) set \<Rightarrow> scan_state \<Rightarrow> bool" where
  "scan_ok live quarantined R s = (\<forall>i. scan_key_ok live quarantined R s i)"

text \<open>Only the plugin \<open>i\<close> differs.\<close>

definition same_but :: "string \<Rightarrow> scan_state \<Rightarrow> scan_state \<Rightarrow> bool" where
  "same_but i s s' =
     (\<forall>j. j \<noteq> i \<longrightarrow> map_of (sc_entries s') j = map_of (sc_entries s) j
        \<and> map_of (sc_quarantined s') j = map_of (sc_quarantined s) j \<and> map_of (sc_observed s') j = map_of (sc_observed s) j
        \<and> (j \<in> set (sc_duplicates s') \<longleftrightarrow> j \<in> set (sc_duplicates s)) \<and> backfills_of s' j = backfills_of s j)"

lemma scan_ok_at:
  assumes "scan_ok live quarantined R s" and "same_but i s s'"
    and "\<And>j p. j \<noteq> i \<Longrightarrow> (j, p) \<in> R' \<longleftrightarrow> (j, p) \<in> R"
    and "scan_key_ok live quarantined R' s' i"
  shows "scan_ok live quarantined R' s'"
  unfolding scan_ok_def
proof
  fix j
  show "scan_key_ok live quarantined R' s' j"
  proof (cases "j = i")
    case False
    then have "{p. (j, p) \<in> R'} = {p. (j, p) \<in> R}" using assms(3) by blast
    with False assms(1,2) show ?thesis by (simp add: scan_ok_def scan_key_ok_def same_but_def)
  qed (use assms(4) in simp)
qed

lemma add_path_simps [simp]:
  "qe_uuid (add_path p q) = qe_uuid q" "set (qe_paths (add_path p q)) = insert p (set (qe_paths q))"
  by (auto simp: add_path_def)

lemma quarantine_uuid_same: "qe_uuid q' = qe_uuid q \<Longrightarrow> quarantine_uuid_ok l u bs q' = quarantine_uuid_ok l u bs q"
  by (simp add: quarantine_uuid_ok_def split: option.splits list.splits)

lemma key_ok_more_paths:
  assumes "key_ok i l u rs e (Some q) seen dup bs" and "qe_uuid q' = qe_uuid q" and "set (qe_paths q) \<subseteq> set (qe_paths q')"
  shows "key_ok i l u rs e (Some q') seen dup bs"
  using assms quarantine_uuid_same [OF assms(2), of l u bs]
  by (auto simp: key_ok_def entry_ok_def quar_ok_def paths_kept_def fill_ok_def)

text \<open>A path is added to the quarantine of the plugin the directory is named after.\<close>

lemma note_dir_name_ok:
  assumes "scan_ok live quarantined R s"
  shows "scan_ok live quarantined R (note_dir_name name p s)"
proof (cases "map_of (sc_quarantined s) name")
  case None
  with assms show ?thesis by (simp add: note_dir_name_def)
next
  case (Some q)
  let ?s = "s\<lparr>sc_quarantined := AList.update name (add_path p q) (sc_quarantined s)\<rparr>"
  have "scan_key_ok live quarantined R s name" using assms by (simp add: scan_ok_def)
  then have "scan_key_ok live quarantined R ?s name"
    unfolding scan_key_ok_def Some backfills_of_def
    by (simp add: update_conv' key_ok_more_paths [where q = q] subset_insertI)
  moreover have "same_but name s ?s" by (simp add: same_but_def update_conv' backfills_of_def)
  ultimately have "scan_ok live quarantined R ?s" using scan_ok_at [OF assms] by blast
  with Some assms show ?thesis by (simp add: note_dir_name_def)
qed

text \<open>A plugin no directory has declared yet.\<close>

lemma key_ok_unseen:
  assumes "key_ok i l u rs e q None dup bs"
  shows "e = None" and "bs = []" and "rs = {}" and "\<not> dup" and "q = None \<longleftrightarrow> u = None" and "quar_ok l u [] q None"
proof -
  show bs: "bs = []" using assms by (cases bs) (auto simp: key_ok_def fill_ok_def)
  show "e = None" and "rs = {}" and "\<not> dup" and "q = None \<longleftrightarrow> u = None" and "quar_ok l u [] q None"
    using assms bs by (auto simp: key_ok_def seen_ok_def entry_ok_def quar_ok_def)
qed

lemma key_ok_first_duplicate:
  assumes ok: "key_ok i l u rs e q (Some p0) False bs"
    and prior: "prior = first_of [map_option ip_uuid e, map_option li_uuid l, u, map_option qe_uuid q] ''dup-unknown''"
  shows "key_ok i l u rs None
    (Some (case q of Some x \<Rightarrow> add_path p0 (x\<lparr>qe_uuid := prior\<rparr>) | None \<Rightarrow> \<lparr>qe_uuid = prior, qe_paths = [p0]\<rparr>))
    (Some p0) True bs"
proof -
  from ok have rs: "rs = {p0}" by (auto simp: key_ok_def seen_ok_def)
  have uuid: "qe_uuid x = prior \<Longrightarrow> quarantine_uuid_ok l u bs x" for x
  proof (cases e)
    case (Some y)
    with ok prior show "qe_uuid x = prior \<Longrightarrow> ?thesis"
      by (auto simp: key_ok_def entry_ok_def entry_source_ok_def quarantine_uuid_ok_def split: option.splits)
  next
    case None
    with ok rs obtain y where q: "q = Some y" by (auto simp: key_ok_def paths_kept_def)
    with ok have "quarantine_uuid_ok l u bs y" by (auto simp: key_ok_def quar_ok_def)
    with None q prior show "qe_uuid x = prior \<Longrightarrow> ?thesis"
      by (auto simp: quarantine_uuid_ok_def split: option.splits list.splits)
  qed
  let ?q = "case q of Some x \<Rightarrow> add_path p0 (x\<lparr>qe_uuid := prior\<rparr>) | None \<Rightarrow> \<lparr>qe_uuid = prior, qe_paths = [p0]\<rparr>"
  have q': "qe_uuid ?q = prior" "p0 \<in> set (qe_paths ?q)" by (auto split: option.splits)
  have "seen_ok rs (Some p0) True" using rs by (simp add: seen_ok_def)
  moreover have "fill_ok i l u None (Some ?q) (Some p0) bs" using ok by (auto simp: key_ok_def fill_ok_def)
  ultimately show ?thesis
    using q' rs uuid [OF q'(1)] by (simp add: key_ok_def entry_ok_def quar_ok_def paths_kept_def)
qed

lemma key_ok_duplicate_path:
  assumes ok: "key_ok i l u rs e q seen True bs"
  shows "\<exists>x. q = Some x \<and> e = None \<and> key_ok i l u (insert p rs) None (Some (add_path p x)) seen True bs"
proof -
  from ok have e: "e = None" and "rs \<noteq> {}" by (auto simp: key_ok_def entry_ok_def seen_ok_def)
  with ok obtain x where q: "q = Some x" by (auto simp: key_ok_def paths_kept_def)
  have "quarantine_uuid_ok l u bs (add_path p x)" using ok q
    by (simp add: key_ok_def quar_ok_def quarantine_uuid_same [of "add_path p x" x])
  moreover have "seen_ok (insert p rs) seen True" using ok by (auto simp: key_ok_def seen_ok_def)
  moreover have "paths_kept (insert p rs) None (Some (add_path p x))" using ok q e by (auto simp: key_ok_def paths_kept_def)
  moreover have "fill_ok i l u None (Some (add_path p x)) seen bs" using ok q by (auto simp: key_ok_def fill_ok_def)
  moreover have "u \<noteq> None \<or> seen \<noteq> None" using ok q by (auto simp: key_ok_def quar_ok_def)
  ultimately show ?thesis using q e by (simp add: key_ok_def entry_ok_def quar_ok_def)
qed

text \<open>The first directory of a plugin ends in a quarantine, as the entry of a live row, or as a backfill.\<close>

lemma key_ok_quarantined:
  assumes "key_ok i l u rs e q None dup bs" and "p \<in> set (qe_paths x)" and "quarantine_uuid_ok l u [] x"
  shows "key_ok i l u {p} e (Some x) (Some p) dup bs"
  using key_ok_unseen [OF assms(1)] assms(2,3)
  by (simp add: key_ok_def seen_ok_def entry_ok_def quar_ok_def paths_kept_def fill_ok_def)

lemma key_ok_indexed:
  assumes "key_ok i l None rs e q None dup bs" and "ip_plugin x = i" and "ip_path x = p"
    and "l = None \<longrightarrow> bs' = [x]" and "l \<noteq> None \<longrightarrow> bs' = bs"
    and "\<And>y. l = Some y \<Longrightarrow> ip_uuid x = li_uuid y \<and> ip_granted x = li_granted y \<and> ip_digest x = li_digest y"
  shows "key_ok i l None {p} (Some x) q (Some p) dup bs'"
  using key_ok_unseen [OF assms(1)] assms(2-)
  by (cases l) (auto simp: key_ok_def seen_ok_def entry_ok_def entry_source_ok_def quar_ok_def paths_kept_def fill_ok_def)

lemma quarantine_uuid_live:
  "quarantine_uuid_ok (Some y) u bs x = (qe_uuid x = li_uuid y)"
  "quarantine_uuid_ok None (Some v) bs x = (qe_uuid x = v)"
  "quarantine_uuid_ok None None [] x = (qe_uuid x = no_sql_row_uuid \<or> qe_uuid x = ''dup-unknown'')"
  by (simp_all add: quarantine_uuid_ok_def)

section \<open>The loop\<close>

text \<open>The plugin a directory declares, when it does.\<close>

definition declared_by :: "readers \<Rightarrow> files \<Rightarrow> path \<Rightarrow> string option" where
  "declared_by rd fs p =
     (case read_manifest_sync_capturing_bytes (rd_toml rd) fs p of
        None \<Rightarrow> None
      | Some (m, _) \<Rightarrow> if is_safe_plugin_id (plugin_id (plugin m)) then Some (plugin_id (plugin m)) else None)"

definition declarations :: "readers \<Rightarrow> files \<Rightarrow> path \<Rightarrow> (string \<times> path) set" where
  "declarations rd fs p = (case declared_by rd fs p of None \<Rightarrow> {} | Some i \<Rightarrow> {(i, p)})"

lemma scan_key: "scan_ok live quarantined R s \<Longrightarrow> scan_key_ok live quarantined R s i"
  by (simp add: scan_ok_def)

lemma scan_ok_cong:
  "sc_entries s' = sc_entries s \<Longrightarrow> sc_quarantined s' = sc_quarantined s \<Longrightarrow> sc_observed s' = sc_observed s \<Longrightarrow>
   sc_duplicates s' = sc_duplicates s \<Longrightarrow> sc_backfills s' = sc_backfills s \<Longrightarrow>
   scan_ok live quarantined R s' = scan_ok live quarantined R s"
  by (simp add: scan_ok_def scan_key_ok_def backfills_of_def)

lemma first_duplicate_ok:
  assumes ok: "scan_ok live quarantined R s" and seen: "map_of (sc_observed s) i = Some p0" and dup: "i \<notin> set (sc_duplicates s)"
  shows "scan_ok live quarantined R (first_duplicate live quarantined i s)"
proof (rule scan_ok_at [OF ok, where i = i])
  let ?s = "first_duplicate live quarantined i s"
  show "same_but i s ?s"
    by (simp add: same_but_def first_duplicate_def Let_def seen update_conv' delete_conv' backfills_of_def)
  have "key_ok i (map_of live i) (map_of quarantined i) {p. (i, p) \<in> R} (map_of (sc_entries s) i) (map_of (sc_quarantined s) i)
      (Some p0) False (backfills_of s i)"
    using scan_key [OF ok, of i] dup seen by (simp add: scan_key_ok_def)
  note key = key_ok_first_duplicate [OF this refl]
  show "scan_key_ok live quarantined R ?s i"
    unfolding scan_key_ok_def first_duplicate_def Let_def seen option.case
    using key by (simp add: update_conv' delete_conv' backfills_of_def seen)
qed simp

lemma note_duplicate_ok:
  assumes ok: "scan_ok live quarantined R s" and seen: "map_of (sc_observed s) i \<noteq> None"
  shows "scan_ok live quarantined (insert (i, p) R) (note_duplicate live quarantined i p s)"
proof -
  let ?s1 = "if i \<in> set (sc_duplicates s) then s else first_duplicate live quarantined i s"
  from seen obtain p0 where p0: "map_of (sc_observed s) i = Some p0" by auto
  with ok have ok1: "scan_ok live quarantined R ?s1" by (simp add: first_duplicate_ok)
  have dup: "i \<in> set (sc_duplicates ?s1)" by (simp add: first_duplicate_def Let_def p0)
  from scan_key [OF ok1, of i] dup
  have "key_ok i (map_of live i) (map_of quarantined i) {p. (i, p) \<in> R} (map_of (sc_entries ?s1) i)
      (map_of (sc_quarantined ?s1) i) (map_of (sc_observed ?s1) i) True (backfills_of ?s1 i)"
    unfolding scan_key_ok_def by simp
  from key_ok_duplicate_path [OF this, of p] obtain x
    where q: "map_of (sc_quarantined ?s1) i = Some x" and e: "map_of (sc_entries ?s1) i = None"
      and key: "key_ok i (map_of live i) (map_of quarantined i) (insert p {p. (i, p) \<in> R}) None (Some (add_path p x))
        (map_of (sc_observed ?s1) i) True (backfills_of ?s1 i)" by blast
  let ?s = "?s1\<lparr>sc_quarantined := AList.update i (add_path p x) (sc_quarantined ?s1)\<rparr>"
  have "{p'. (i, p') \<in> insert (i, p) R} = insert p {p. (i, p) \<in> R}" by auto
  then have "scan_key_ok live quarantined (insert (i, p) R) ?s i"
    using key dup e unfolding scan_key_ok_def by (simp add: update_conv' backfills_of_def)
  moreover have "same_but i ?s1 ?s" by (simp add: same_but_def update_conv' backfills_of_def)
  ultimately have "scan_ok live quarantined (insert (i, p) R) ?s" by (rule_tac scan_ok_at [OF ok1]) auto
  with q show ?thesis by (simp add: note_duplicate_def Let_def)
qed

text \<open>A directory that is the first of its plugin.\<close>

lemma unseen_key:
  assumes ok: "scan_ok live quarantined R s" and seen: "map_of (sc_observed s) i = None"
  shows "key_ok i (map_of live i) (map_of quarantined i) {p. (i, p) \<in> R} (map_of (sc_entries s) i) (map_of (sc_quarantined s) i)
      None (i \<in> set (sc_duplicates s)) (backfills_of s i)"
    and "{p'. (i, p') \<in> insert (i, p) R} = {p}"
proof -
  show key: "key_ok i (map_of live i) (map_of quarantined i) {p. (i, p) \<in> R} (map_of (sc_entries s) i)
      (map_of (sc_quarantined s) i) None (i \<in> set (sc_duplicates s)) (backfills_of s i)"
    using scan_key [OF ok, of i] seen by (simp add: scan_key_ok_def)
  from key_ok_unseen(3) [OF this] show "{p'. (i, p') \<in> insert (i, p) R} = {p}" by auto
qed

lemma scan_first_ok:
  assumes ok: "scan_ok live quarantined R s" and seen: "map_of (sc_observed s) i = None"
    and same: "same_but i s s'" and obs: "map_of (sc_observed s') i = Some p"
    and dup: "sc_duplicates s' = sc_duplicates s"
    and key: "key_ok i (map_of live i) (map_of quarantined i) {p} (map_of (sc_entries s') i) (map_of (sc_quarantined s') i)
      (Some p) (i \<in> set (sc_duplicates s)) (backfills_of s' i)"
  shows "scan_ok live quarantined (insert (i, p) R) s'"
  by (rule scan_ok_at [OF ok same]) (use key unseen_key(2) [OF ok seen, of p] obs dup in \<open>auto simp: scan_key_ok_def\<close>)

lemma invalid_ui_ok:
  assumes ok: "scan_ok live quarantined R s" and seen: "map_of (sc_observed s) i = None"
  shows "scan_ok live quarantined (insert (i, p) R)
    (s\<lparr>sc_observed := AList.update i p (sc_observed s),
       sc_quarantined := handle_invalid_ui_dir i p live quarantined (sc_quarantined s)\<rparr>)"
    (is "scan_ok live quarantined _ ?s")
proof (rule scan_first_ok [OF ok seen])
  note key = unseen_key(1) [OF ok seen]
  obtain x where q: "map_of (sc_quarantined ?s) i = Some x" "p \<in> set (qe_paths x)"
    and uuid: "quarantine_uuid_ok (map_of live i) (map_of quarantined i) [] x"
  proof (cases "map_of (sc_quarantined s) i")
    case None
    with that show ?thesis using key_ok_unseen(5) [OF key]
      by (auto simp: handle_invalid_ui_dir_def Let_def update_conv' quarantine_uuid_live split: option.splits)
  next
    case (Some y)
    with key_ok_unseen(6) [OF key] have "quarantine_uuid_ok (map_of live i) (map_of quarantined i) [] y"
      by (simp add: quar_ok_def)
    with Some that show ?thesis using key_ok_unseen(5) [OF key]
      by (cases "map_of live i"; cases "map_of quarantined i")
        (auto simp: handle_invalid_ui_dir_def Let_def update_conv' quarantine_uuid_live)
  qed
  show "key_ok i (map_of live i) (map_of quarantined i) {p} (map_of (sc_entries ?s) i) (map_of (sc_quarantined ?s) i)
      (Some p) (i \<in> set (sc_duplicates s)) (backfills_of ?s i)"
    using key_ok_quarantined [OF key q(2) uuid] q(1) by (simp add: backfills_of_def)
qed (simp_all add: same_but_def update_conv' handle_invalid_ui_dir_def backfills_of_def Let_def)

lemma index_dir_ok:
  assumes ok: "scan_ok live quarantined R s" and seen: "map_of (sc_observed s) (plugin_id (plugin m)) = None"
    and one: "map_of quarantined (plugin_id (plugin m)) = None \<or> map_of live (plugin_id (plugin m)) = None"
  shows "scan_ok live quarantined (insert (plugin_id (plugin m), p) R)
    (index_dir rng live quarantined m current p (s\<lparr>sc_observed := AList.update (plugin_id (plugin m)) p (sc_observed s)\<rparr>))"
    (is "scan_ok _ _ _ ?s")
proof (rule scan_first_ok [OF ok seen])
  let ?i = "plugin_id (plugin m)"
  note key = unseen_key(1) [OF ok seen]
  have quar: "key_ok ?i (map_of live ?i) (map_of quarantined ?i) {p} (map_of (sc_entries s) ?i) (Some x)
      (Some p) (?i \<in> set (sc_duplicates s)) (backfills_of s ?i)"
    if "p \<in> set (qe_paths x)" "quarantine_uuid_ok (map_of live ?i) (map_of quarantined ?i) [] x" for x
    using key_ok_quarantined [OF key that] .
  show "same_but ?i s ?s"
    by (auto simp: same_but_def index_dir_def Let_def update_conv' backfills_of_def plugin_record_def split: option.split sum.split)
  show "map_of (sc_observed ?s) ?i = Some p" and "sc_duplicates ?s = sc_duplicates s"
    by (simp_all add: index_dir_def Let_def update_conv' split: option.split sum.split)
  show "key_ok ?i (map_of live ?i) (map_of quarantined ?i) {p} (map_of (sc_entries ?s) ?i) (map_of (sc_quarantined ?s) ?i)
      (Some p) (?i \<in> set (sc_duplicates s)) (backfills_of ?s ?i)"
  proof (cases "map_of quarantined ?i")
    case (Some uuid)
    with one quar [of "\<lparr>qe_uuid = uuid, qe_paths = [p]\<rparr>"] show ?thesis
      by (simp add: index_dir_def Let_def update_conv' backfills_of_def quarantine_uuid_live)
  next
    case u: None
    show ?thesis
    proof (cases "map_of live ?i")
      case None
      from u key_ok_unseen(5) [OF key] have q: "map_of (sc_quarantined s) ?i = None" by simp
      show ?thesis
      proof (cases current)
        case (Inl e)
        with u None q quar [of "\<lparr>qe_uuid = no_sql_row_uuid, qe_paths = [p]\<rparr>"] show ?thesis
          by (simp add: index_dir_def Let_def update_conv' backfills_of_def quarantine_uuid_live)
      next
        case (Inr digest)
        let ?x = "plugin_record m p (mint_installation_uuid rng (sc_minted s)) (capabilities m) digest"
        have "key_ok ?i (map_of live ?i) None {p} (Some ?x) (map_of (sc_quarantined s) ?i) (Some p)
            (?i \<in> set (sc_duplicates s)) [?x]"
          using key_ok_indexed [OF key [unfolded u], of ?x p "[?x]"] None by (simp add: plugin_record_def)
        moreover have "backfills_of ?s ?i = [?x]" using key_ok_unseen(2) [OF key] Inr u None
          by (simp add: index_dir_def Let_def backfills_of_def plugin_record_def)
        ultimately show ?thesis using Inr u None by (simp add: index_dir_def Let_def update_conv')
      qed
    next
      case (Some l)
      show ?thesis
      proof (cases "current = Ok (li_digest l)")
        case True
        let ?x = "plugin_record m p (li_uuid l) (li_granted l) (li_digest l)"
        have "key_ok ?i (map_of live ?i) None {p} (Some ?x) (map_of (sc_quarantined s) ?i) (Some p)
            (?i \<in> set (sc_duplicates s)) (backfills_of s ?i)"
          using key_ok_indexed [OF key [unfolded u], of ?x p "backfills_of s ?i"] Some by (simp add: plugin_record_def)
        with True u Some show ?thesis by (simp add: index_dir_def Let_def update_conv' backfills_of_def)
      next
        case False
        with u Some quar [of "\<lparr>qe_uuid = li_uuid l, qe_paths = [p]\<rparr>"] show ?thesis
          by (simp add: index_dir_def Let_def update_conv' backfills_of_def quarantine_uuid_live)
      qed
    qed
  qed
qed

lemma note_dir_name_sel [simp]:
  "sc_files (note_dir_name name p s) = sc_files s" "sc_entries (note_dir_name name p s) = sc_entries s"
  "sc_observed (note_dir_name name p s) = sc_observed s" "sc_duplicates (note_dir_name name p s) = sc_duplicates s"
  "sc_backfills (note_dir_name name p s) = sc_backfills s" "sc_minted (note_dir_name name p s) = sc_minted s"
  by (simp_all add: note_dir_name_def split: option.split)

definition disjoint_tables :: "(string, live_installation) hmap \<Rightarrow> (string, string) hmap \<Rightarrow> bool" where
  "disjoint_tables live quarantined = (\<forall>i. map_of quarantined i = None \<or> map_of live i = None)"

lemma load_disjoint:
  assumes "live_plugins_distinct db" and "load_live_installations of_json db = (live, quarantined)"
  shows "disjoint_tables live quarantined"
  unfolding disjoint_tables_def
proof
  fix i
  from load_live [OF assms, of i] show "map_of quarantined i = None \<or> map_of live i = None"
    by (cases "live_row db i") auto
qed

lemma scan_dir_ok:
  assumes ok: "scan_ok live quarantined R s" and tables: "disjoint_tables live quarantined"
  shows "scan_ok live quarantined (R \<union> declarations rd (sc_files s) p) (scan_dir rd rng live quarantined name p s)"
proof -
  let ?s = "note_dir_name name p s"
  note ok1 = note_dir_name_ok [OF ok, of name p]
  show ?thesis
  proof (cases "read_manifest_sync_capturing_bytes (rd_toml rd) (sc_files s) p")
    case None
    then have "scan_dir rd rng live quarantined name p s = ?s\<lparr>sc_defer := True\<rparr>" by (simp add: scan_dir_def Let_def)
    with None ok1 show ?thesis
      by (simp add: declarations_def declared_by_def scan_ok_cong [of "?s\<lparr>sc_defer := True\<rparr>" ?s])
  next
    case (Some mb)
    obtain m bytes where mb: "mb = (m, bytes)" by (cases mb)
    let ?i = "plugin_id (plugin m)"
    show ?thesis
    proof (cases "is_safe_plugin_id ?i")
      case False
      then have "scan_dir rd rng live quarantined name p s = ?s\<lparr>sc_defer := True\<rparr>"
        using Some mb by (simp add: scan_dir_def Let_def)
      with False Some mb ok1 show ?thesis
        by (simp add: declarations_def declared_by_def scan_ok_cong [of "?s\<lparr>sc_defer := True\<rparr>" ?s])
    next
      case True
      then have R: "R \<union> declarations rd (sc_files s) p = insert (?i, p) R"
        using Some mb by (simp add: declarations_def declared_by_def)
      show ?thesis
      proof (cases "?i \<in> set (sc_duplicates s) \<or> map_of (sc_observed s) ?i \<noteq> None")
        case dup: True
        then have "map_of (sc_observed ?s) ?i \<noteq> None"
          using scan_key [OF ok, of ?i] by (auto simp: scan_key_ok_def key_ok_def seen_ok_def)
        from note_duplicate_ok [OF ok1 this, of p] R True dup Some mb show ?thesis by (simp add: scan_dir_def Let_def)
      next
        case False
        then have seen: "map_of (sc_observed ?s) ?i = None" by simp
        show ?thesis
          using invalid_ui_ok [OF ok1 seen, of p] index_dir_ok [OF ok1 seen] tables R True False Some mb
          by (simp add: scan_dir_def Let_def disjoint_tables_def split: sum.split)
      qed
    qed
  qed
qed

definition child_files :: "scan_io \<Rightarrow> path \<Rightarrow> string \<times> file_object \<Rightarrow> files \<Rightarrow> files" where
  "child_files io top_dir = (\<lambda>(name, ob) fs.
     (if si_typed io name \<and> ob = DirObject \<and> starts_with ''.staging-'' name
      then fst (remove_dir_all (si_left io) (top_dir @ [name]) fs) else fs))"

definition child_declarations :: "readers \<Rightarrow> scan_io \<Rightarrow> path \<Rightarrow> files \<Rightarrow> string \<times> file_object \<Rightarrow> (string \<times> path) set" where
  "child_declarations rd io top_dir fs = (\<lambda>(name, ob).
     (if si_typed io name \<and> ob = DirObject \<and> \<not> starts_with ''.staging-'' name
      then declarations rd fs (top_dir @ [name]) else {}))"

text \<open>What the children declare when the loop comes to them.\<close>

fun all_declarations :: "readers \<Rightarrow> scan_io \<Rightarrow> path \<Rightarrow> files \<Rightarrow> (string \<times> file_object) list \<Rightarrow> (string \<times> path) set" where
  "all_declarations rd io top_dir fs [] = {}"
| "all_declarations rd io top_dir fs (c # cs) =
     child_declarations rd io top_dir fs c \<union> all_declarations rd io top_dir (child_files io top_dir c fs) cs"

lemma scan_dir_files [simp]: "sc_files (scan_dir rd rng live quarantined name p s) = sc_files s"
  by (simp add: scan_dir_def Let_def note_duplicate_def first_duplicate_def index_dir_def split: option.split sum.split)

lemma scan_child_files: "sc_files (scan_child rd rng io top_dir live quarantined c s) = child_files io top_dir c (sc_files s)"
  by (cases c) (simp add: scan_child_def child_files_def)

lemma scan_child_ok:
  assumes "scan_ok live quarantined R s" and "disjoint_tables live quarantined"
  shows "scan_ok live quarantined (R \<union> child_declarations rd io top_dir (sc_files s) c)
    (scan_child rd rng io top_dir live quarantined c s)"
  using scan_dir_ok [OF assms] assms(1)
  by (cases c) (simp add: scan_child_def child_declarations_def
      scan_ok_cong [of "s\<lparr>sc_defer := True\<rparr>" s] scan_ok_cong [of "s\<lparr>sc_files := fs\<rparr>" s for fs])

lemma scan_loop_ok:
  assumes "scan_ok live quarantined R s" and "disjoint_tables live quarantined"
  shows "scan_ok live quarantined (R \<union> all_declarations rd io top_dir (sc_files s) cs)
    (fold (scan_child rd rng io top_dir live quarantined) cs s)"
  using assms(1)
proof (induction cs arbitrary: R s)
  case (Cons c cs)
  from Cons.IH [OF scan_child_ok [OF Cons.prems assms(2), of rd io top_dir c rng]] show ?case
    by (simp add: scan_child_files Un_assoc)
qed simp

section \<open>What the entries and the backfills come from\<close>

definition scan_wf :: "scan_state \<Rightarrow> bool" where
  "scan_wf s = (hm_wf (sc_entries s) \<and> hm_wf (sc_quarantined s))"

lemma scan_dir_wf: "scan_wf s \<Longrightarrow> scan_wf (scan_dir rd rng live quarantined name p s)"
proof -
  assume wf: "scan_wf s"
  then have "scan_wf (note_dir_name name p s)" by (simp add: scan_wf_def note_dir_name_def hm_wf_put split: option.split)
  then show ?thesis
    by (simp add: scan_dir_def Let_def note_duplicate_def first_duplicate_def index_dir_def handle_invalid_ui_dir_def
        scan_wf_def hm_wf_put hm_wf_drop split: option.split sum.split)
qed

lemma scan_child_wf: "scan_wf s \<Longrightarrow> scan_wf (scan_child rd rng io top_dir live quarantined c s)"
  by (cases c) (simp add: scan_child_def scan_dir_wf scan_wf_def [of "s\<lparr>sc_defer := b\<rparr>" for b]
      scan_wf_def [of "s\<lparr>sc_files := fs\<rparr>" for fs] scan_wf_def [of s])

lemma scan_loop_wf: "scan_wf s \<Longrightarrow> scan_wf (fold (scan_child rd rng io top_dir live quarantined) cs s)"
  by (induction cs arbitrary: s) (simp_all add: scan_child_wf)

text \<open>The backfills take identities of their own from the stream, in order.\<close>

definition minted_ok :: "(nat \<Rightarrow> 8 word list) \<Rightarrow> nat \<Rightarrow> scan_state \<Rightarrow> bool" where
  "minted_ok rng base s =
     (\<exists>ns. map ip_uuid (sc_backfills s) = map (mint_installation_uuid rng) ns \<and> sorted_wrt (<) ns
        \<and> (\<forall>n \<in> set ns. base \<le> n \<and> n < sc_minted s) \<and> base \<le> sc_minted s)"

lemma minted_ok_same:
  "minted_ok rng base s \<Longrightarrow> sc_backfills s' = sc_backfills s \<Longrightarrow> sc_minted s' = sc_minted s \<Longrightarrow> minted_ok rng base s'"
  by (simp add: minted_ok_def)

lemma minted_ok_next:
  assumes "minted_ok rng base s" and "sc_minted s' = sc_minted s + 1"
    and "sc_backfills s' = sc_backfills s \<or> sc_backfills s' = sc_backfills s @ [x] \<and> ip_uuid x = mint_installation_uuid rng (sc_minted s)"
  shows "minted_ok rng base s'"
proof -
  from assms(1) obtain ns where ns: "map ip_uuid (sc_backfills s) = map (mint_installation_uuid rng) ns"
    "sorted_wrt (<) ns" "\<forall>n \<in> set ns. base \<le> n \<and> n < sc_minted s" "base \<le> sc_minted s" unfolding minted_ok_def by blast
  from assms(3) show ?thesis
  proof
    assume "sc_backfills s' = sc_backfills s"
    with ns assms(2) show ?thesis unfolding minted_ok_def by (intro exI [of _ ns]) auto
  next
    assume "sc_backfills s' = sc_backfills s @ [x] \<and> ip_uuid x = mint_installation_uuid rng (sc_minted s)"
    with ns assms(2) show ?thesis unfolding minted_ok_def
      by (intro exI [of _ "ns @ [sc_minted s]"]) (auto simp: sorted_wrt_append)
  qed
qed

lemma index_dir_minted:
  assumes "minted_ok rng base s"
  shows "minted_ok rng base (index_dir rng live quarantined m current p s)"
proof (cases "map_of quarantined (plugin_id (plugin m)) = None \<and> map_of live (plugin_id (plugin m)) = None")
  case True
  show ?thesis
    by (rule minted_ok_next [OF assms, where x =
          "plugin_record m p (mint_installation_uuid rng (sc_minted s)) (capabilities m) (case current of Inr d \<Rightarrow> d)"])
      (use True in \<open>simp_all add: index_dir_def Let_def plugin_record_def split: sum.split\<close>)
next
  case False
  then have "sc_backfills (index_dir rng live quarantined m current p s) = sc_backfills s"
    and "sc_minted (index_dir rng live quarantined m current p s) = sc_minted s"
    by (auto simp: index_dir_def Let_def split: option.split)
  with assms show ?thesis by (rule minted_ok_same)
qed

lemma note_duplicate_sel [simp]:
  "sc_backfills (note_duplicate live quarantined i p s) = sc_backfills s"
  "sc_minted (note_duplicate live quarantined i p s) = sc_minted s"
  "sc_files (note_duplicate live quarantined i p s) = sc_files s"
  by (simp_all add: note_duplicate_def first_duplicate_def Let_def split: option.split)

lemma scan_dir_minted:
  assumes "minted_ok rng base s"
  shows "minted_ok rng base (scan_dir rd rng live quarantined name p s)"
  unfolding scan_dir_def Let_def
  by (auto split: option.split sum.split intro!: index_dir_minted intro: minted_ok_same [OF assms])

lemma scan_loop_minted:
  "minted_ok rng base s \<Longrightarrow> minted_ok rng base (fold (scan_child rd rng io top_dir live quarantined) cs s)"
proof (induction cs arbitrary: s)
  case (Cons c cs)
  from scan_dir_minted [OF Cons.prems] Cons.prems
  have "minted_ok rng base (scan_child rd rng io top_dir live quarantined c s)"
    by (cases c) (auto simp: scan_child_def intro: minted_ok_same [OF Cons.prems])
  with Cons.IH show ?case by simp
qed simp

text \<open>The contents of a package as the daemon reads them.\<close>

definition package_content ::
  "readers \<Rightarrow> files \<Rightarrow> path \<Rightarrow> (plugin_manifest \<times> 8 word list \<times> 8 word list \<times> (string \<times> 8 word list) list) option" where
  "package_content rd fs p =
     (case read_manifest_sync_capturing_bytes (rd_toml rd) fs p of
        None \<Rightarrow> None
      | Some (m, manifest_bytes) \<Rightarrow>
          (case optional_assets (validate_ui_package (rd_schema rd) fs p) (ui m) of
             Err _ \<Rightarrow> None
           | Ok assets \<Rightarrow>
               (case read_no_follow_within fs p (wasm (runtime m)) of
                  Err _ \<Rightarrow> None
                | Ok wasm_bytes \<Rightarrow> Some (m, manifest_bytes, wasm_bytes, ui_asset_digest_frames assets))))"

definition entry_intact :: "readers \<Rightarrow> files \<Rightarrow> installed_plugin \<Rightarrow> bool" where
  "entry_intact rd fs x =
     (case package_content rd fs (ip_path x) of
        None \<Rightarrow> False
      | Some (m, mb, wb, frames) \<Rightarrow>
          plugin_id (plugin m) = ip_plugin x \<and> is_safe_plugin_id (ip_plugin x) \<and> plugin_version (plugin m) = ip_version x
          \<and> singleton (runtime m) = ip_singleton x \<and> ip_digest x = content_digest (rd_sha rd) mb wb frames)"

text \<open>The files at a moment of the scan: leftover staging directories may be gone.\<close>

definition snapshot :: "path \<Rightarrow> files \<Rightarrow> files \<Rightarrow> bool" where
  "snapshot top_dir fs0 fs =
     (\<exists>keep. fs = filter (\<lambda>(q, _). keep q) fs0
        \<and> (\<forall>q. keep q \<or> (\<exists>name. starts_with ''.staging-'' name \<and> prefix (top_dir @ [name]) q)))"

lemma snapshot_refl: "snapshot top_dir fs fs"
  unfolding snapshot_def by (intro exI [of _ "\<lambda>_. True"]) (simp add: case_prod_unfold)

lemma snapshot_child:
  assumes "snapshot top_dir fs0 fs"
  shows "snapshot top_dir fs0 (child_files io top_dir c fs)"
proof (cases c)
  case (Pair name ob)
  show ?thesis
  proof (cases "si_typed io name \<and> ob = DirObject \<and> starts_with ''.staging-'' name")
    case True
    from assms obtain keep where k: "fs = filter (\<lambda>(q, _). keep q) fs0"
      "\<forall>q. keep q \<or> (\<exists>name. starts_with ''.staging-'' name \<and> prefix (top_dir @ [name]) q)" unfolding snapshot_def by blast
    let ?keep = "\<lambda>q. keep q \<and> (\<not> prefix (top_dir @ [name]) q \<or> si_left io (top_dir @ [name]) \<and> si_left io q)"
    have "child_files io top_dir c fs = filter (\<lambda>(q, _). ?keep q) fs0"
      using True Pair k(1) by (simp add: child_files_def remove_dir_all_def case_prod_unfold conj_commute)
    moreover have "\<forall>q. ?keep q \<or> (\<exists>name. starts_with ''.staging-'' name \<and> prefix (top_dir @ [name]) q)"
      using k(2) True by blast
    ultimately show ?thesis unfolding snapshot_def by (intro exI [of _ ?keep] conjI)
  next
    case False
    with Pair assms show ?thesis by (auto simp: child_files_def)
  qed
qed

definition scan_intact :: "readers \<Rightarrow> path \<Rightarrow> files \<Rightarrow> scan_state \<Rightarrow> bool" where
  "scan_intact rd top_dir fs0 s =
     (\<forall>i x. map_of (sc_entries s) i = Some x \<longrightarrow>
        (\<exists>fs name. snapshot top_dir fs0 fs \<and> entry_intact rd fs x \<and> ip_path x = top_dir @ [name]
           \<and> \<not> starts_with ''.staging-'' name))"

lemma scan_dir_entries:
  assumes "map_of (sc_entries (scan_dir rd rng live quarantined name p s)) i = Some x"
  shows "map_of (sc_entries s) i = Some x \<or> entry_intact rd (sc_files s) x \<and> ip_path x = p"
proof (cases "read_manifest_sync_capturing_bytes (rd_toml rd) (sc_files s) p")
  case None
  with assms show ?thesis by (simp add: scan_dir_def Let_def)
next
  case (Some mb)
  obtain m bytes where mb: "mb = (m, bytes)" by (cases mb)
  let ?s = "note_dir_name name p s"
  have dup: "map_of (sc_entries (note_duplicate live quarantined j q ?s)) i = Some x \<Longrightarrow> map_of (sc_entries s) i = Some x" for j q
    by (auto simp: note_duplicate_def first_duplicate_def Let_def delete_conv' split: option.splits if_splits)
  show ?thesis
    using assms Some mb dup
    by (cases "read_no_follow_within (sc_files s) p (wasm (runtime m))")
      (auto simp: scan_dir_def Let_def index_dir_def update_conv' entry_intact_def package_content_def plugin_record_def
        scan_digest_with_validated_ui_def split: if_split_asm option.split_asm sum.split_asm)
qed

lemma scan_loop_intact:
  "scan_intact rd top_dir fs0 s \<Longrightarrow> snapshot top_dir fs0 (sc_files s) \<Longrightarrow>
   scan_intact rd top_dir fs0 (fold (scan_child rd rng io top_dir live quarantined) cs s)"
proof (induction cs arbitrary: s)
  case (Cons c cs)
  obtain name ob where c: "c = (name, ob)" by (cases c)
  let ?s = "scan_child rd rng io top_dir live quarantined c s"
  have "scan_intact rd top_dir fs0 ?s"
    unfolding scan_intact_def
  proof (intro allI impI)
    fix i x
    assume x: "map_of (sc_entries ?s) i = Some x"
    show "\<exists>fs name. snapshot top_dir fs0 fs \<and> entry_intact rd fs x \<and> ip_path x = top_dir @ [name] \<and> \<not> starts_with ''.staging-'' name"
    proof (cases "map_of (sc_entries s) i = Some x")
      case True
      with Cons.prems(1) show ?thesis by (simp add: scan_intact_def)
    next
      case False
      with x c have here: "si_typed io name" "ob = DirObject" "\<not> starts_with ''.staging-'' name"
        by (auto simp: scan_child_def split: if_splits)
      with x c have "map_of (sc_entries (scan_dir rd rng live quarantined name (top_dir @ [name]) s)) i = Some x"
        by (simp add: scan_child_def)
      from scan_dir_entries [OF this] False Cons.prems(2) here show ?thesis by blast
    qed
  qed
  with Cons.IH snapshot_child [OF Cons.prems(2)] show ?case by (simp add: scan_child_files)
qed simp

end
