(* ===== verification/Plugin_Registry.thy ===== *)
theory Plugin_Registry
  imports Plugin_Scan
begin

text \<open>
  Runs of the installed-plugin registry: reboots, installations, removals and arbitrary changes of the files by others,
  with every outcome of the calls to the file system and the database.  The table and the registry stay together.
\<close>

section \<open>Runs\<close>

text \<open>What is fixed while the daemon is installed.\<close>

record install_env =
  en_readers :: readers
  en_to_json :: "capabilities_section \<Rightarrow> string"
  en_of_json :: "string \<Rightarrow> capabilities_section option"
  en_rng :: "nat \<Rightarrow> 8 word list"
  en_top :: path

datatype install_op =
    ScanPlugins scan_io
  | InstallPlugin install_io "string list" "string \<Rightarrow> string + unit"
  | UninstallPlugin uninstall_io string
  | EditFiles files

fun install_step :: "install_env \<Rightarrow> install_op \<Rightarrow> installation \<Rightarrow> installation" where
  "install_step en (ScanPlugins io) st =
     fst (scan (en_readers en) (en_to_json en) (en_of_json en) (en_rng en) io (en_top en) st)"
| "install_step en (InstallPlugin io source_dir gate) st =
     fst (install_gated (en_readers en) (en_to_json en) (en_rng en) io (Some (en_top en)) source_dir gate st)"
| "install_step en (UninstallPlugin io i) st = fst (uninstall io (Some (en_top en)) i st)"
| "install_step en (EditFiles fs) st = st\<lparr>in_files := fs\<rparr>"

definition new_installation :: "files \<Rightarrow> installation" where
  "new_installation fs = \<lparr>in_files = fs, in_rows = [], in_entries = [], in_quarantined = [], in_minted = 0\<rparr>"

definition install_run :: "install_env \<Rightarrow> files \<Rightarrow> install_op list \<Rightarrow> installation" where
  "install_run en fs ops = fold (install_step en) ops (new_installation fs)"

text \<open>The first \<open>n\<close> random identities differ.\<close>

definition identities_fresh :: "install_env \<Rightarrow> nat \<Rightarrow> bool" where
  "identities_fresh en n = inj_on (mint_installation_uuid (en_rng en)) {..<n}"

section \<open>The invariant\<close>

definition minted_before :: "install_env \<Rightarrow> nat \<Rightarrow> string \<Rightarrow> bool" where
  "minted_before en n uuid = (\<exists>k < n. uuid = mint_installation_uuid (en_rng en) k)"

definition rows_ok :: "install_env \<Rightarrow> nat \<Rightarrow> installation_table \<Rightarrow> bool" where
  "rows_ok en n db \<longleftrightarrow>
     distinct (map pi_uuid db) \<and> live_plugins_distinct db \<and> (\<forall>r \<in> set db. minted_before en n (pi_uuid r))"

text \<open>The live row an entry rests on.\<close>

definition row_of_entry :: "install_env \<Rightarrow> installed_plugin \<Rightarrow> installation_row \<Rightarrow> bool" where
  "row_of_entry en x r \<longleftrightarrow>
     is_live r \<and> pi_uuid r = ip_uuid x \<and> pi_plugin r = ip_plugin x \<and> pi_digest r = Some (ip_digest x)
     \<and> (\<exists>j. pi_grant r = Some j \<and> (en_of_json en j = Some (ip_granted x) \<or> j = en_to_json en (ip_granted x)))"

definition entries_backed :: "install_env \<Rightarrow> installation_table \<Rightarrow> (string, installed_plugin) hmap \<Rightarrow> bool" where
  "entries_backed en db es \<longleftrightarrow>
     hm_wf es \<and> (\<forall>i x. map_of es i = Some x \<longrightarrow> ip_plugin x = i \<and> (\<exists>r \<in> set db. row_of_entry en x r))"

definition quarantine_backed ::
  "install_env \<Rightarrow> nat \<Rightarrow> installation_table \<Rightarrow> (string, quarantine_entry) hmap \<Rightarrow> bool" where
  "quarantine_backed en n db qs \<longleftrightarrow>
     hm_wf qs \<and> (\<forall>i q. map_of qs i = Some q \<longrightarrow>
        (\<forall>r \<in> set db. pi_uuid r = qe_uuid q \<longrightarrow> pi_plugin r = i)
        \<and> (minted_before en n (qe_uuid q) \<or> qe_uuid q = no_sql_row_uuid \<or> qe_uuid q = ''dup-unknown''))"

definition install_inv :: "install_env \<Rightarrow> installation \<Rightarrow> bool" where
  "install_inv en st \<longleftrightarrow>
     rows_ok en (in_minted st) (in_rows st) \<and> entries_backed en (in_rows st) (in_entries st)
     \<and> quarantine_backed en (in_minted st) (in_rows st) (in_quarantined st)"

lemma minted_before_mono: "minted_before en n u \<Longrightarrow> n \<le> n' \<Longrightarrow> minted_before en n' u"
  by (auto simp: minted_before_def intro: less_le_trans)

lemma minted_not_special: "minted_before en n u \<Longrightarrow> u \<noteq> no_sql_row_uuid \<and> u \<noteq> ''dup-unknown''"
  by (auto simp: minted_before_def mint_installation_uuid_def no_sql_row_uuid_def)

lemma minted_fresh:
  "identities_fresh en N \<Longrightarrow> n \<le> k \<Longrightarrow> k < N \<Longrightarrow> \<not> minted_before en n (mint_installation_uuid (en_rng en) k)"
  by (auto simp: minted_before_def identities_fresh_def dest!: inj_onD [of _ _ k])

lemma identities_fresh_mono: "identities_fresh en N \<Longrightarrow> n \<le> N \<Longrightarrow> identities_fresh en n"
  by (auto simp: identities_fresh_def intro: inj_on_subset)

lemma new_installation_inv: "install_inv en (new_installation fs)"
  by (simp add: install_inv_def new_installation_def rows_ok_def live_plugins_distinct_def entries_backed_def
      quarantine_backed_def hm_wf_def)

section \<open>The table\<close>

text \<open>A row as \<^verbatim>\<open>insert_installation_row\<close> writes it.\<close>

definition written_row :: "(capabilities_section \<Rightarrow> string) \<Rightarrow> int \<Rightarrow> installed_plugin \<Rightarrow> installation_row" where
  "written_row to_json now p =
     \<lparr>pi_uuid = ip_uuid p, pi_plugin = ip_plugin p, pi_version = ip_version p, pi_installed = now,
      pi_uninstalled = None, pi_grant = Some (to_json (ip_granted p)), pi_digest = Some (ip_digest p)\<rparr>"

lemma insert_row_cases:
  "insert_installation_row to_json io now p db = (db', res) \<Longrightarrow>
   db' = db \<and> res \<noteq> Ok ()
   \<or> res = Ok () \<and> db' = db @ [written_row to_json now p] \<and> \<not> violates_unique (written_row to_json now p) db
     \<and> check_capability_limits_owned (ip_granted p) = Ok ()"
  by (auto simp: insert_installation_row_def written_row_def Let_def split: if_splits)

lemma written_row_sel [simp]:
  "pi_uuid (written_row f now p) = ip_uuid p" "pi_plugin (written_row f now p) = ip_plugin p" "is_live (written_row f now p)"
  by (simp_all add: written_row_def is_live_def)

lemma written_row_of_entry: "row_of_entry en p (written_row (en_to_json en) now p)"
  by (simp add: row_of_entry_def) (simp add: written_row_def)

lemma rows_ok_append:
  assumes "rows_ok en n db" and "\<not> violates_unique r db" and "minted_before en n' (pi_uuid r)" and "n \<le> n'" and "is_live r"
  shows "rows_ok en n' (db @ [r])"
proof -
  have "minted_before en n' (pi_uuid x)" if "x \<in> set db" for x
    using assms(1,4) that unfolding rows_ok_def by (blast intro: minted_before_mono)
  with assms show ?thesis
    by (auto simp: rows_ok_def live_plugins_distinct_def violates_unique_def list_ex_iff)
qed

lemma rows_ok_mono: "rows_ok en n db \<Longrightarrow> n \<le> n' \<Longrightarrow> rows_ok en n' db"
  using minted_before_mono by (fastforce simp: rows_ok_def)

lemma same_row: "rows_ok en n db \<Longrightarrow> r \<in> set db \<Longrightarrow> r' \<in> set db \<Longrightarrow> pi_uuid r = pi_uuid r' \<Longrightarrow> r = r'"
  by (auto simp: rows_ok_def distinct_map inj_on_def)

lemma rows_ok_filter: "rows_ok en n db \<Longrightarrow> rows_ok en n (filter P db)"
proof -
  assume ok: "rows_ok en n db"
  have "filter is_live (filter P db) = filter P (filter is_live db)" by (simp add: conj_commute)
  then have "live_plugins_distinct (filter P db)"
    using ok distinct_map_filter [of pi_plugin "filter is_live db" P]
    unfolding rows_ok_def live_plugins_distinct_def by argo
  with ok show ?thesis by (simp add: rows_ok_def distinct_map_filter)
qed

text \<open>Tombstones: the rows keep all but their liveness.\<close>

definition retired :: "installation_row \<Rightarrow> installation_row \<Rightarrow> bool" where
  "retired r r' \<longleftrightarrow> r' = r \<or> (\<exists>t. r' = r\<lparr>pi_uninstalled := Some t\<rparr>)"

lemma retired_sel: "retired r r' \<Longrightarrow> pi_uuid r' = pi_uuid r \<and> pi_plugin r' = pi_plugin r \<and> (is_live r' \<longrightarrow> r' = r)"
  by (auto simp: retired_def is_live_def)

lemma live_distinct_Cons:
  "live_plugins_distinct (r # db) \<longleftrightarrow>
     live_plugins_distinct db \<and> (is_live r \<longrightarrow> pi_plugin r \<notin> set (map pi_plugin (filter is_live db)))"
  by (auto simp: live_plugins_distinct_def)

lemma live_distinct_retired:
  assumes "list_all2 retired db db'" and "live_plugins_distinct db"
  shows "live_plugins_distinct db' \<and> set (map pi_plugin (filter is_live db')) \<subseteq> set (map pi_plugin (filter is_live db))"
  using assms
proof (induction rule: list_all2_induct)
  case (Cons r db r' db')
  then have IH: "live_plugins_distinct db'" "set (map pi_plugin (filter is_live db')) \<subseteq> set (map pi_plugin (filter is_live db))"
    by (simp_all add: live_distinct_Cons)
  show ?case
  proof (cases "is_live r'")
    case True
    with retired_sel [OF Cons(1)] have "r' = r" by simp
    with Cons.prems IH show ?thesis by (auto simp: live_distinct_Cons)
  next
    case False
    with IH show ?thesis by (auto simp: live_distinct_Cons)
  qed
qed simp

lemma retired_uuids: "list_all2 retired db db' \<Longrightarrow> map pi_uuid db' = map pi_uuid db"
  by (induction rule: list_all2_induct) (auto dest: retired_sel)

lemma retired_in: "list_all2 retired db db' \<Longrightarrow> r' \<in> set db' \<Longrightarrow> \<exists>r \<in> set db. retired r r'"
  by (induction rule: list_all2_induct) auto

lemma rows_ok_retired:
  assumes "list_all2 retired db db'" and "rows_ok en n db"
  shows "rows_ok en n db'"
  unfolding rows_ok_def
proof (intro conjI ballI)
  show "distinct (map pi_uuid db')" and "live_plugins_distinct db'"
    using assms(2) retired_uuids [OF assms(1)] live_distinct_retired [OF assms(1)] by (simp_all add: rows_ok_def)
next
  fix r'
  assume "r' \<in> set db'"
  from retired_in [OF assms(1) this] obtain r where "r \<in> set db" "retired r r'" by blast
  with assms(2) retired_sel show "minted_before en n (pi_uuid r')" by (metis rows_ok_def)
qed

lemma tombstone_retired: "list_all2 retired db (tombstone_installation_row now uuid db)"
  by (induction db) (auto simp: tombstone_installation_row_def retired_def)

lemma retired_refl: "list_all2 retired db db"
  by (induction db) (auto simp: retired_def)

lemma retired_trans: "list_all2 retired a b \<Longrightarrow> list_all2 retired b c \<Longrightarrow> list_all2 retired a c"
proof (rule list_all2_trans [where ?P1.0 = retired and ?P2.0 = retired])
  fix x y z
  assume "retired x y" "retired y z"
  then show "retired x z" by (auto simp: retired_def)
qed

lemma tombstone_in: "r \<in> set db \<Longrightarrow> pi_uuid r \<noteq> uuid \<Longrightarrow> r \<in> set (tombstone_installation_row now uuid db)"
  by (force simp: tombstone_installation_row_def)

lemma quarantine_retired:
  assumes "list_all2 retired db db'" and "quarantine_backed en n db qs"
  shows "quarantine_backed en n db' qs"
  using assms retired_in [OF assms(1)] by (fastforce simp: quarantine_backed_def dest: retired_sel)

section \<open>Uninstalling\<close>

text \<open>The rows of the other plugins survive the tombstone of a uuid none of them has.\<close>

lemma entries_tombstoned:
  assumes "entries_backed en db es" and "\<And>i x. map_of es i = Some x \<Longrightarrow> ip_uuid x \<noteq> uuid"
  shows "entries_backed en (tombstone_installation_row now uuid db) es"
  unfolding entries_backed_def
proof (intro conjI allI impI)
  show "hm_wf es" using assms(1) by (simp add: entries_backed_def)
next
  fix i x
  assume x: "map_of es i = Some x"
  with assms(1) obtain r where "r \<in> set db" "row_of_entry en x r" "ip_plugin x = i" by (auto simp: entries_backed_def)
  moreover from this assms(2) [OF x] have "r \<in> set (tombstone_installation_row now uuid db)"
    by (intro tombstone_in) (auto simp: row_of_entry_def)
  ultimately show "ip_plugin x = i" and "\<exists>r \<in> set (tombstone_installation_row now uuid db). row_of_entry en x r" by blast+
qed

lemma entries_dropped: "entries_backed en db es \<Longrightarrow> entries_backed en db (AList.delete i es)"
  by (auto simp: entries_backed_def hm_wf_drop delete_conv' split: if_splits)

lemma quarantine_dropped: "quarantine_backed en n db qs \<Longrightarrow> quarantine_backed en n db (AList.delete i qs)"
  by (auto simp: quarantine_backed_def hm_wf_drop delete_conv' split: if_splits)

lemma entry_uuids_differ:
  assumes "rows_ok en n db" and "entries_backed en db es" and "map_of es i = Some x" and "map_of es j = Some y" and "i \<noteq> j"
  shows "ip_uuid x \<noteq> ip_uuid y"
proof
  assume same: "ip_uuid x = ip_uuid y"
  from assms(2,3) obtain r where r: "r \<in> set db" "row_of_entry en x r" "ip_plugin x = i" by (auto simp: entries_backed_def)
  from assms(2,4) obtain r' where r': "r' \<in> set db" "row_of_entry en y r'" "ip_plugin y = j" by (auto simp: entries_backed_def)
  from same r r' have "r = r'" by (intro same_row [OF assms(1)]) (auto simp: row_of_entry_def)
  with r r' assms(5) show False by (auto simp: row_of_entry_def)
qed

lemma quarantine_uuid_differs:
  assumes "entries_backed en db es" and "quarantine_backed en n db qs" and "map_of qs i = Some q" and "map_of es i = None"
    and "map_of es j = Some y"
  shows "ip_uuid y \<noteq> qe_uuid q"
proof
  assume same: "ip_uuid y = qe_uuid q"
  from assms(1,5) obtain r where r: "r \<in> set db" "row_of_entry en y r" "ip_plugin y = j" by (auto simp: entries_backed_def)
  with same assms(2,3) have "pi_plugin r = i" by (auto simp: quarantine_backed_def row_of_entry_def)
  with r assms(4,5) show False by (auto simp: row_of_entry_def)
qed

text \<open>An uninstallation either leaves the table and the registry, or retires one plugin.\<close>

lemma uninstall_cases:
  assumes "uninstall io (Some top_dir) i st = (st', res)"
  obtains (refused) fs e where "st' = st\<lparr>in_files := fs\<rparr>" and "res = Err e"
  | (entry) fs x where "map_of (in_entries st) i = Some x" and "res = Ok (ip_uuid x)"
      and "remove_dirs (ui_left io) [ip_path x] (in_files st) = (fs, True)" and "prefix top_dir (ip_path x)"
      and "st' = st\<lparr>in_files := fs, in_rows := tombstone_installation_row (ui_now io) (ip_uuid x) (in_rows st),
        in_entries := AList.delete i (in_entries st)\<rparr>"
  | (quarantined) fs q where "map_of (in_entries st) i = None" and "map_of (in_quarantined st) i = Some q"
      and "remove_dirs (ui_left io) (qe_paths q) (in_files st) = (fs, True)" and "res = Ok (qe_uuid q)"
      and "list_all (prefix top_dir) (qe_paths q)"
      and "st' = st\<lparr>in_files := fs, in_rows := tombstone_installation_row (ui_now io) (qe_uuid q) (in_rows st),
        in_quarantined := AList.delete i (in_quarantined st)\<rparr>"
proof -
  have same: "st = st\<lparr>in_files := in_files st\<rparr>" by simp
  show ?thesis
  proof (cases "map_of (in_entries st) i")
    case (Some x)
    obtain fs ok where rm: "remove_dirs (ui_left io) [ip_path x] (in_files st) = (fs, ok)" by fastforce
    show ?thesis
    proof (cases "prefix top_dir (ip_path x) \<and> ok \<and> ui_tombstone io")
      case True
      with assms Some rm have "res = Ok (ip_uuid x)"
        and "st' = st\<lparr>in_files := fs, in_rows := tombstone_installation_row (ui_now io) (ip_uuid x) (in_rows st),
          in_entries := AList.delete i (in_entries st)\<rparr>"
        by (simp_all add: uninstall_def Let_def del: remove_dirs.simps)
      with True rm that(2) [OF Some] show ?thesis by simp
    next
      case False
      with assms Some rm have "(\<exists>e. res = Err e) \<and> (st' = st \<or> st' = st\<lparr>in_files := fs\<rparr>)"
        by (cases ok) (auto simp: uninstall_def Let_def simp del: remove_dirs.simps split: if_split_asm)
      with same that(1) show ?thesis by metis
    qed
  next
    case none: None
    show ?thesis
    proof (cases "map_of (in_quarantined st) i")
      case None
      with assms none have "res = Err (NotInstalled i) \<and> st' = st" by (simp add: uninstall_def)
      with same that(1) show ?thesis by metis
    next
      case (Some q)
      obtain fs ok where rm: "remove_dirs (ui_left io) (qe_paths q) (in_files st) = (fs, ok)" by fastforce
      show ?thesis
      proof (cases "list_all (prefix top_dir) (qe_paths q) \<and> ok \<and> ui_tombstone io")
        case True
        with assms none Some rm have "res = Ok (qe_uuid q)"
          and "st' = st\<lparr>in_files := fs, in_rows := tombstone_installation_row (ui_now io) (qe_uuid q) (in_rows st),
            in_quarantined := AList.delete i (in_quarantined st)\<rparr>"
          by (simp_all add: uninstall_def Let_def)
        with True rm that(3) [OF none Some] show ?thesis by simp
      next
        case False
        with assms none Some rm have "(\<exists>e. res = Err e) \<and> (st' = st \<or> st' = st\<lparr>in_files := fs\<rparr>)"
          by (cases ok) (auto simp: uninstall_def Let_def split: if_split_asm)
        with same that(1) show ?thesis by metis
      qed
    qed
  qed
qed

lemma uninstall_inv:
  assumes inv: "install_inv en st" and run: "uninstall io (Some top_dir) i st = (st', res)"
  shows "install_inv en st'"
  using run
proof (cases rule: uninstall_cases)
  case refused
  with inv show ?thesis by (simp add: install_inv_def)
next
  case (entry fs x)
  let ?rows = "tombstone_installation_row (ui_now io) (ip_uuid x) (in_rows st)"
  from inv entry(1) have "entries_backed en ?rows (AList.delete i (in_entries st))"
    by (intro entries_tombstoned entries_dropped)
      (auto simp: install_inv_def delete_conv' split: if_splits dest: entry_uuids_differ [of en _ _ "in_entries st" i])
  with inv entry(5) rows_ok_retired [OF tombstone_retired] quarantine_retired [OF tombstone_retired] show ?thesis
    by (simp add: install_inv_def)
next
  case (quarantined fs q)
  let ?rows = "tombstone_installation_row (ui_now io) (qe_uuid q) (in_rows st)"
  from inv quarantined(1,2) have "entries_backed en ?rows (in_entries st)"
    by (intro entries_tombstoned) (auto simp: install_inv_def dest: quarantine_uuid_differs)
  with inv quarantined(6) rows_ok_retired [OF tombstone_retired]
    quarantine_dropped [OF quarantine_retired [OF tombstone_retired]] show ?thesis
    by (simp add: install_inv_def)
qed

section \<open>Installing\<close>

lemma entries_more_rows: "entries_backed en db es \<Longrightarrow> entries_backed en (db @ db') es"
  by (fastforce simp: entries_backed_def)

lemma quarantine_more_rows:
  assumes "quarantine_backed en n db qs" and "n \<le> n'"
    and "\<And>r. r \<in> set db' \<Longrightarrow> \<not> minted_before en n (pi_uuid r) \<and> pi_uuid r \<noteq> no_sql_row_uuid \<and> pi_uuid r \<noteq> ''dup-unknown''"
  shows "quarantine_backed en n' (db @ db') qs"
  unfolding quarantine_backed_def
proof (intro conjI allI impI ballI)
  show "hm_wf qs" using assms(1) by (simp add: quarantine_backed_def)
next
  fix i q r
  assume q: "map_of qs i = Some q" and r: "r \<in> set (db @ db')" and u: "pi_uuid r = qe_uuid q"
  from assms(1) q have old: "minted_before en n (qe_uuid q) \<or> qe_uuid q = no_sql_row_uuid \<or> qe_uuid q = ''dup-unknown''"
    by (auto simp: quarantine_backed_def)
  with assms(3) [of r] u have "r \<notin> set db'" by auto
  with r q u assms(1) show "pi_plugin r = i" by (auto simp: quarantine_backed_def)
next
  fix i q
  assume "map_of qs i = Some q"
  with assms(1,2) show "minted_before en n' (qe_uuid q) \<or> qe_uuid q = no_sql_row_uuid \<or> qe_uuid q = ''dup-unknown''"
    by (auto simp: quarantine_backed_def intro: minted_before_mono)
qed

lemma install_inv_minted:
  "install_inv en st \<Longrightarrow> install_inv en (st\<lparr>in_minted := in_minted st + 1, in_files := fs\<rparr>)"
  using quarantine_more_rows [of en "in_minted st" "in_rows st" "in_quarantined st" "in_minted st + 1" "[]"]
    rows_ok_mono [of en "in_minted st" "in_rows st" "in_minted st + 1"]
  by (simp add: install_inv_def)

text \<open>What an installation does to the table and the registry.\<close>

lemma activate_cases:
  assumes "activate to_json io staging dest row st = (st', res)"
  obtains (refused) fs e where "st' = st\<lparr>in_files := fs\<rparr>" and "res = Err e"
  | (installed) fs where "res = Ok row" and "\<not> violates_unique (written_row to_json (ii_now io) row) (in_rows st)"
      and "rename_dir (ii_rename io) staging dest (in_files st) = (fs, True)"
      and "check_capability_limits_owned (ip_granted row) = Ok ()"
      and "st' = st\<lparr>in_files := fs, in_rows := in_rows st @ [written_row to_json (ii_now io) row],
        in_entries := AList.update (ip_plugin row) row (in_entries st)\<rparr>"
  | (rolled_back) fs where "res = Err InstallIo" and "\<not> violates_unique (written_row to_json (ii_now io) row) (in_rows st)"
      and "st' = st\<lparr>in_rows := delete_installation_row (ii_rollback io) (ip_uuid row)
        (in_rows st @ [written_row to_json (ii_now io) row]), in_files := fs\<rparr>"
proof -
  obtain rows r where ins: "insert_installation_row to_json (ii_insert io) (ii_now io) row (in_rows st) = (rows, r)" by fastforce
  obtain fs ok where ren: "rename_dir (ii_rename io) staging dest (in_files st) = (fs, ok)" by fastforce
  from insert_row_cases [OF ins] show ?thesis
  proof
    assume "rows = in_rows st \<and> r \<noteq> Ok ()"
    then show ?thesis using assms ins that(1)
      by (cases r) (auto simp: activate_def Let_def split: row_error.splits)
  next
    assume "r = Ok () \<and> rows = in_rows st @ [written_row to_json (ii_now io) row]
        \<and> \<not> violates_unique (written_row to_json (ii_now io) row) (in_rows st) \<and> check_capability_limits_owned (ip_granted row) = Ok ()"
    then show ?thesis using assms ins ren that(2,3) by (cases ok) (auto simp: activate_def Let_def)
  qed
qed

text \<open>An installation is refused before it mints, is refused with its staging directory, or comes to the activation.\<close>

lemma install_gated_cases:
  assumes "install_gated rd to_json rng io (Some top_dir) source_dir gate st = (st', res)"
  obtains (refused) e where "st' = st" and "res = Err e"
  | (unstaged) fs e where "st' = st\<lparr>in_minted := in_minted st + 1, in_files := fs\<rparr>" and "res = Err e"
  | (activated) src manifest staging i fs0 fs1 m digest where
      "source_directory (in_files st) source_dir = Some src"
      and "read_manifest_sync (rd_toml rd) (in_files st) src = Some manifest" and "i = plugin_id (plugin manifest)"
      and "is_safe_plugin_id i" and "gate i = Ok ()" and "\<not> path_exists (in_files st) top_dir i"
      and "staging = top_dir @ [''.staging-'' @ mint_installation_uuid rng (in_minted st)]"
      and "fs0 = in_files st \<or> fs0 = fst (remove_dir_all (ii_left io) staging (in_files st))"
      and "copy_dir_recursive (ii_stop io) (ii_source io) src staging fs0 = (fs1, Ok ())"
      and "check_staged rd fs1 staging i = Ok (m, digest)"
      and "activate to_json io staging (top_dir @ [i])
        (plugin_record m (top_dir @ [i]) (mint_installation_uuid rng (in_minted st)) (capabilities m) digest)
        (st\<lparr>in_minted := in_minted st + 1, in_files := fs1\<rparr>) = (st', res)"
proof (cases "source_directory (in_files st) source_dir")
  case None
  with assms that(1) show ?thesis by (auto simp: install_gated_def)
next
  case src: (Some src)
  show ?thesis
  proof (cases "read_manifest_sync (rd_toml rd) (in_files st) src")
    case None
    with assms src that(1) show ?thesis by (auto simp: install_gated_def)
  next
    case man: (Some manifest)
    let ?i = "plugin_id (plugin manifest)"
    show ?thesis
    proof (cases "is_safe_plugin_id ?i \<and> gate ?i = Ok () \<and> \<not> path_exists (in_files st) top_dir ?i")
      case False
      with assms src man that(1) show ?thesis
        by (auto simp: install_gated_def Let_def split: if_split_asm sum.split_asm)
    next
      case go: True
      let ?uuid = "mint_installation_uuid rng (in_minted st)"
      let ?staging = "top_dir @ [''.staging-'' @ ?uuid]"
      let ?st = "\<lambda>fs. st\<lparr>in_minted := in_minted st + 1, in_files := fs\<rparr>"
      obtain fs0 removed where rm: "clear_staging (ii_left io) top_dir (''.staging-'' @ ?uuid) (in_files st) = (fs0, removed)"
        by fastforce
      then have fs0: "fs0 = in_files st \<or> fs0 = fst (remove_dir_all (ii_left io) ?staging (in_files st))"
        by (auto simp: clear_staging_def split: if_split_asm)
      obtain fs1 copied where cp: "copy_dir_recursive (ii_stop io) (ii_source io) src ?staging fs0 = (fs1, copied)" by fastforce
      show ?thesis
      proof (cases removed)
        case False
        with assms src man go rm have "st' = ?st fs0 \<and> res = Err InstallIo" by (auto simp: install_gated_def Let_def)
        with that(2) show ?thesis by blast
      next
        case True
        show ?thesis
        proof (cases copied)
          case (Inl e)
          with assms src man go rm cp True have "\<exists>fs e. st' = ?st fs \<and> res = Err e"
            by (auto simp: install_gated_def Let_def)
          with that(2) show ?thesis by blast
        next
          case (Inr u)
          show ?thesis
          proof (cases "check_staged rd fs1 ?staging ?i")
            case (Inl e)
            with assms src man go rm cp True Inr have "\<exists>fs e. st' = ?st fs \<and> res = Err e"
              by (auto simp: install_gated_def Let_def)
            with that(2) show ?thesis by blast
          next
            case staged: (Inr md)
            obtain m digest where md: "md = (m, digest)" by (cases md)
            with assms src man go rm cp True Inr staged
            have "activate to_json io ?staging (top_dir @ [?i]) (plugin_record m (top_dir @ [?i]) ?uuid (capabilities m) digest)
                (?st fs1) = (st', res)"
              by (simp add: install_gated_def Let_def)
            with that(3) [OF src man refl _ _ _ refl fs0 _ _ this] go cp staged md Inr show ?thesis by simp
          qed
        qed
      qed
    qed
  qed
qed

lemma staged_plugin: "check_staged rd fs staging i = Ok (m, digest) \<Longrightarrow> plugin_id (plugin m) = i"
  by (auto simp: check_staged_def split: option.splits prod.splits if_splits sum.splits)

lemma entries_added:
  assumes "entries_backed en db es" and "r \<in> set db" and "row_of_entry en x r" and "ip_plugin x = i"
  shows "entries_backed en db (AList.update i x es)"
  using assms by (auto simp: entries_backed_def hm_wf_put update_conv' split: if_splits)

lemma activate_inv:
  assumes fresh: "identities_fresh en (in_minted st + 1)" and inv: "install_inv en st"
    and uuid: "ip_uuid row = mint_installation_uuid (en_rng en) (in_minted st)"
    and run: "activate (en_to_json en) io staging dest row (st\<lparr>in_minted := in_minted st + 1, in_files := fs1\<rparr>) = (st', res)"
  shows "install_inv en st'"
proof -
  let ?st = "st\<lparr>in_minted := in_minted st + 1, in_files := fs1\<rparr>"
  let ?r = "written_row (en_to_json en) (ii_now io) row"
  from inv have old: "install_inv en ?st" by (rule install_inv_minted)
  have new: "minted_before en (in_minted st + 1) (pi_uuid ?r)" using uuid by (auto simp: minted_before_def)
  then have not_old: "\<not> minted_before en (in_minted st) (pi_uuid ?r)" and special: "pi_uuid ?r \<noteq> no_sql_row_uuid \<and> pi_uuid ?r \<noteq> ''dup-unknown''"
    using minted_fresh [OF fresh] minted_not_special [OF new] uuid by simp_all
  from inv not_old special have quar: "quarantine_backed en (in_minted st + 1) (in_rows st @ [?r]) (in_quarantined st)"
    by (intro quarantine_more_rows) (auto simp: install_inv_def)
  from run show ?thesis
  proof (cases rule: activate_cases)
    case refused
    with old show ?thesis by (simp add: install_inv_def)
  next
    case (installed fs)
    from inv installed(2) new have "rows_ok en (in_minted st + 1) (in_rows st @ [?r])"
      by (intro rows_ok_append) (auto simp: install_inv_def)
    moreover from inv have "entries_backed en (in_rows st @ [?r]) (AList.update (ip_plugin row) row (in_entries st))"
      by (intro entries_added [where r = ?r] entries_more_rows written_row_of_entry) (auto simp: install_inv_def)
    ultimately show ?thesis using installed(5) quar by (simp add: install_inv_def)
  next
    case (rolled_back fs)
    from inv rolled_back(2) new have rows: "rows_ok en (in_minted st + 1) (in_rows st @ [?r])"
      by (intro rows_ok_append) (auto simp: install_inv_def)
    show ?thesis
    proof (cases "ii_rollback io")
      case False
      with inv rows quar rolled_back(3) show ?thesis
        by (simp add: install_inv_def delete_installation_row_def entries_more_rows)
    next
      case True
      from inv not_old have "\<forall>r \<in> set (in_rows st). pi_uuid r \<noteq> ip_uuid row" by (auto simp: install_inv_def rows_ok_def)
      then have "filter (\<lambda>r. pi_uuid r \<noteq> ip_uuid row) (in_rows st @ [?r]) = in_rows st" by simp
      with True old rolled_back(3) show ?thesis by (simp add: install_inv_def delete_installation_row_def)
    qed
  qed
qed

lemma activate_minted: "activate to_json io staging dest row st = (st', res) \<Longrightarrow> in_minted st' = in_minted st"
  by (erule activate_cases) simp_all

lemma install_gated_minted:
  "install_gated rd to_json rng io (Some top_dir) source_dir gate st = (st', res) \<Longrightarrow> in_minted st \<le> in_minted st'"
  by (erule install_gated_cases) (auto dest: activate_minted)

lemma install_gated_inv:
  assumes "identities_fresh en (in_minted st')" and "install_inv en st"
    and "install_gated rd (en_to_json en) (en_rng en) io (Some top_dir) source_dir gate st = (st', res)"
  shows "install_inv en st'"
  using assms(3)
proof (cases rule: install_gated_cases)
  case refused
  with assms(2) show ?thesis by simp
next
  case (unstaged fs e)
  with install_inv_minted [OF assms(2)] show ?thesis by simp
next
  case (activated src manifest staging i fs0 fs1 m digest)
  from assms(1) activate_minted [OF activated(11)] have "identities_fresh en (in_minted st + 1)" by simp
  from activate_inv [OF this assms(2) _ activated(11)] show ?thesis by (simp add: plugin_record_def)
qed

section \<open>Scanning\<close>

lemma scan_children_facts:
  fixes rd rng io top_dir
  assumes load: "load_live_installations of_json (in_rows st) = (live, quarantined)" and distinct: "live_plugins_distinct (in_rows st)"
  defines "s \<equiv> scan_children rd rng io top_dir live quarantined st"
    and "cs \<equiv> filter (\<lambda>(name, _). si_listed io name) (dir_children (in_files st) top_dir)"
  shows "scan_ok live quarantined (all_declarations rd io top_dir (in_files st) cs) s"
    and "scan_wf s" and "minted_ok rng (in_minted st) s" and "scan_intact rd top_dir (in_files st) s"
proof -
  let ?s0 = "\<lparr>sc_files = in_files st, sc_entries = [], sc_backfills = [], sc_observed = [], sc_duplicates = [],
         sc_defer = list_ex (\<lambda>(name, _). \<not> si_listed io name) (dir_children (in_files st) top_dir),
         sc_quarantined = map (\<lambda>(i, uuid). (i, \<lparr>qe_uuid = uuid, qe_paths = []\<rparr>)) quarantined, sc_minted = in_minted st\<rparr>"
  have s: "s = fold (scan_child rd rng io top_dir live quarantined) cs ?s0"
    unfolding s_def cs_def scan_children_def Let_def ..
  have quar: "map_of (map (\<lambda>(i, uuid). (i, \<lparr>qe_uuid = uuid, qe_paths = []\<rparr>)) quarantined) i
      = map_option (\<lambda>uuid. \<lparr>qe_uuid = uuid, qe_paths = []\<rparr>) (map_of quarantined i)" for i
    by (induction quarantined) auto
  from load_disjoint [OF distinct load] have tables: "disjoint_tables live quarantined" .
  have "scan_ok live quarantined {} ?s0"
    unfolding scan_ok_def
  proof
    fix i
    from tables have "map_of quarantined i = None \<or> map_of live i = None" by (simp add: disjoint_tables_def)
    then show "scan_key_ok live quarantined {} ?s0 i"
      by (auto simp: scan_key_ok_def key_ok_def seen_ok_def entry_ok_def quar_ok_def paths_kept_def fill_ok_def backfills_of_def
          quar quarantine_uuid_live)
  qed
  from scan_loop_ok [OF this tables, of rd io top_dir cs rng] s
  show "scan_ok live quarantined (all_declarations rd io top_dir (in_files st) cs) s" by simp
  have "map fst (map (\<lambda>(i, uuid). (i, \<lparr>qe_uuid = uuid, qe_paths = []\<rparr>)) quarantined) = map fst quarantined"
    by (simp add: case_prod_unfold comp_def)
  with load_wf(2) [OF load] have "scan_wf ?s0"
    unfolding scan_wf_def hm_wf_def by (simp only: scan_state.simps list.map distinct.simps simp_thms)
  then show "scan_wf s" unfolding s by (rule scan_loop_wf)
  have "minted_ok rng (in_minted st) ?s0" by (simp add: minted_ok_def)
  then show "minted_ok rng (in_minted st) s" unfolding s by (rule scan_loop_minted)
  have "scan_intact rd top_dir (in_files st) ?s0" by (simp add: scan_intact_def)
  then show "scan_intact rd top_dir (in_files st) s" unfolding s by (rule scan_loop_intact) (simp add: snapshot_refl)
qed

lemma insert_backfills_cases:
  assumes "insert_backfills to_json io ps db = (db', res)"
  shows "\<exists>ps1 ps2. ps = ps1 @ ps2 \<and> db' = db @ map (written_row to_json (si_now io)) ps1 \<and> (res = Ok () \<longrightarrow> ps2 = [])"
  using assms
proof (induction ps arbitrary: db)
  case (Cons p ps)
  obtain db1 r where ins: "insert_installation_row to_json (si_insert io (ip_plugin p)) (si_now io) p db = (db1, r)" by fastforce
  show ?case
  proof (cases r)
    case (Inl e)
    with ins insert_row_cases [OF ins] Cons.prems show ?thesis by (intro exI [of _ "[]"] exI [of _ "p # ps"]) auto
  next
    case (Inr u)
    with ins Cons.prems have "insert_backfills to_json io ps db1 = (db', res)" by simp
    from Cons.IH [OF this] obtain ps1 ps2 where "ps = ps1 @ ps2" "db' = db1 @ map (written_row to_json (si_now io)) ps1"
      "res = Ok () \<longrightarrow> ps2 = []" by blast
    with insert_row_cases [OF ins] Inr show ?thesis by (intro exI [of _ "p # ps1"] exI [of _ ps2]) auto
  qed
qed simp

lemma insert_backfills_rows_ok:
  assumes "rows_ok en n db" and "\<And>p. p \<in> set ps \<Longrightarrow> minted_before en n (ip_uuid p)"
    and "insert_backfills to_json io ps db = (db', res)"
  shows "rows_ok en n db'"
  using assms
proof (induction ps arbitrary: db)
  case (Cons p ps)
  obtain db1 r where ins: "insert_installation_row to_json (si_insert io (ip_plugin p)) (si_now io) p db = (db1, r)" by fastforce
  from insert_row_cases [OF ins] Cons.prems(1,2) have db1: "rows_ok en n db1"
    by (auto intro: rows_ok_append)
  show ?case
  proof (cases r)
    case (Inl e)
    with ins Cons.prems(3) db1 show ?thesis by simp
  next
    case (Inr u)
    with ins Cons.prems Cons.IH [OF db1] show ?thesis by simp
  qed
qed simp

lemma sweep_retired: "list_all2 retired db (fold (sweep_row io s) ls db)"
proof (induction ls arbitrary: db)
  case (Cons a ls)
  have "list_all2 retired db (sweep_row io s a db)"
    by (cases a) (simp add: sweep_row_def tombstone_retired retired_refl)
  from retired_trans [OF this Cons.IH] show ?case by simp
qed (simp add: retired_refl)

lemma sweep_keeps:
  assumes "r \<in> set db" and "\<And>i l. (i, l) \<in> set ls \<Longrightarrow> orphaned s i \<Longrightarrow> li_uuid l \<noteq> pi_uuid r"
  shows "r \<in> set (fold (sweep_row io s) ls db)"
  using assms
proof (induction ls arbitrary: db)
  case (Cons a ls)
  obtain i l where a: "a = (i, l)" by (cases a)
  with Cons.prems have "orphaned s i \<Longrightarrow> pi_uuid r \<noteq> li_uuid l" by fastforce
  with a Cons.prems(1) have "r \<in> set (sweep_row io s a db)" by (simp add: sweep_row_def tombstone_in)
  then show ?case unfolding fold_simps by (rule Cons.IH) (use Cons.prems(2) in auto)
qed simp

lemma live_entry_row:
  assumes "live_plugins_distinct db" and "load_live_installations of_json db = (live, quarantined)"
    and "map_of live i = Some l"
  shows "\<exists>r \<in> set db. is_live r \<and> pi_plugin r = i \<and> readable_row of_json r = Some l \<and> pi_uuid r = li_uuid l"
proof -
  from load_live(1) [OF assms(1,2), of i] assms(3) obtain r where r: "live_row db i = Some r" "readable_row of_json r = Some l"
    by (cases "live_row db i") auto
  then have "pi_uuid r = li_uuid l" by (auto simp: readable_row_def split: option.splits if_splits)
  with r live_row_Some [OF r(1)] show ?thesis by blast
qed

lemma quarantined_row:
  assumes "live_plugins_distinct db" and "load_live_installations of_json db = (live, quarantined)"
    and "map_of quarantined i = Some u"
  shows "\<exists>r \<in> set db. is_live r \<and> pi_plugin r = i \<and> pi_uuid r = u"
  using load_live(2) [OF assms(1,2), of i] assms(3) live_row_Some [of db i]
  by (cases "live_row db i") (auto split: if_splits)

text \<open>The stages of a scan that read the root and the table.\<close>

definition scanned ::
  "install_env \<Rightarrow> scan_io \<Rightarrow> installation \<Rightarrow> (string, live_installation) hmap \<Rightarrow> (string, string) hmap \<Rightarrow> scan_state
    \<Rightarrow> installation_table \<Rightarrow> installation_table \<Rightarrow> bool" where
  "scanned en io st live quarantined s swept rows \<longleftrightarrow>
     load_live_installations (en_of_json en) (in_rows st) = (live, quarantined)
     \<and> s = scan_children (en_readers en) (en_rng en) io (en_top en) live quarantined st
     \<and> swept = (if sc_defer s then in_rows st else fold (sweep_row io s) live (in_rows st))
     \<and> (\<exists>res. insert_backfills (en_to_json en) io (sc_backfills s) swept = (rows, res))"

lemma scan_cases:
  assumes "scan (en_readers en) (en_to_json en) (en_of_json en) (en_rng en) io (en_top en) st = (st', ok)"
  obtains (closed) "st' = st\<lparr>in_entries := [], in_quarantined := []\<rparr>" and "\<not> ok"
  | (aborted) live quarantined s swept rows where "\<not> ok" and "scanned en io st live quarantined s swept rows"
      and "st' = \<lparr>in_files = sc_files s, in_rows = rows, in_entries = [], in_quarantined = [], in_minted = sc_minted s\<rparr>"
  | (built) live quarantined s swept rows where "ok" and "scanned en io st live quarantined s swept rows"
      and "rows = swept @ map (written_row (en_to_json en) (si_now io)) (sc_backfills s)"
      and "st' = \<lparr>in_files = sc_files s, in_rows = rows, in_entries = sc_entries s, in_quarantined = sc_quarantined s,
        in_minted = sc_minted s\<rparr>"
proof (cases "si_open io")
  case False
  with assms that(1) show ?thesis by (simp add: scan_def)
next
  case True
  obtain live quarantined where load: "load_live_installations (en_of_json en) (in_rows st) = (live, quarantined)" by fastforce
  define s where "s = scan_children (en_readers en) (en_rng en) io (en_top en) live quarantined st"
  define swept where "swept = (if sc_defer s then in_rows st else fold (sweep_row io s) live (in_rows st))"
  obtain rows res where ins: "insert_backfills (en_to_json en) io (sc_backfills s) swept = (rows, res)" by fastforce
  have sc: "scanned en io st live quarantined s swept rows"
    unfolding scanned_def using load s_def swept_def ins by blast
  show ?thesis
  proof (cases res)
    case (Inl e)
    have "\<not> ok \<and> st' = \<lparr>in_files = sc_files s, in_rows = rows, in_entries = [], in_quarantined = [], in_minted = sc_minted s\<rparr>"
      using assms True load ins Inl
      unfolding scan_def Let_def load prod.case s_def [symmetric] swept_def [symmetric] by auto
    with that(2) sc show ?thesis by blast
  next
    case (Inr u)
    have "ok \<and> st' = \<lparr>in_files = sc_files s, in_rows = rows, in_entries = sc_entries s, in_quarantined = sc_quarantined s,
        in_minted = sc_minted s\<rparr>"
      using assms True load ins Inr
      unfolding scan_def Let_def load prod.case s_def [symmetric] swept_def [symmetric] by auto
    moreover have "rows = swept @ map (written_row (en_to_json en) (si_now io)) (sc_backfills s)"
      using insert_backfills_cases [OF ins] Inr by auto
    ultimately show ?thesis using that(3) sc by blast
  qed
qed

lemma scanned_facts:
  assumes "rows_ok en n (in_rows st)" and "scanned en io st live quarantined s swept rows"
  shows "load_live_installations (en_of_json en) (in_rows st) = (live, quarantined)"
    and "list_all2 retired (in_rows st) swept" and "scan_wf s" and "minted_ok (en_rng en) (in_minted st) s"
    and "scan_intact (en_readers en) (en_top en) (in_files st) s"
    and "scan_ok live quarantined (all_declarations (en_readers en) io (en_top en) (in_files st)
      (filter (\<lambda>(name, _). si_listed io name) (dir_children (in_files st) (en_top en)))) s"
    and "\<And>r. r \<in> set (in_rows st) \<Longrightarrow> (\<And>i l. map_of live i = Some l \<Longrightarrow> orphaned s i \<Longrightarrow> li_uuid l \<noteq> pi_uuid r) \<Longrightarrow> r \<in> set swept"
proof -
  show load: "load_live_installations (en_of_json en) (in_rows st) = (live, quarantined)"
    using assms(2) by (simp add: scanned_def)
  have s: "s = scan_children (en_readers en) (en_rng en) io (en_top en) live quarantined st"
    using assms(2) by (simp add: scanned_def)
  have "live_plugins_distinct (in_rows st)" using assms(1) by (simp add: rows_ok_def)
  note facts = scan_children_facts [OF load this, where rd = "en_readers en" and rng = "en_rng en" and io = io and top_dir = "en_top en", folded s]
  show "scan_wf s" and "minted_ok (en_rng en) (in_minted st) s" and "scan_intact (en_readers en) (en_top en) (in_files st) s"
    and "scan_ok live quarantined (all_declarations (en_readers en) io (en_top en) (in_files st)
      (filter (\<lambda>(name, _). si_listed io name) (dir_children (in_files st) (en_top en)))) s"
    using facts by blast+
  show "list_all2 retired (in_rows st) swept"
    using assms(2) by (auto simp: scanned_def sweep_retired retired_refl)
  fix r
  assume "r \<in> set (in_rows st)" and "\<And>i l. map_of live i = Some l \<Longrightarrow> orphaned s i \<Longrightarrow> li_uuid l \<noteq> pi_uuid r"
  with load_wf(1) [OF load] show "r \<in> set swept"
    using assms(2) by (auto simp: scanned_def hm_entry_iff intro: sweep_keeps)
qed

lemma backfill_minted:
  assumes "minted_ok (en_rng en) base s" and "b \<in> set (sc_backfills s)"
  shows "minted_before en (sc_minted s) (ip_uuid b)"
proof -
  from assms(1) obtain ns where ns: "map ip_uuid (sc_backfills s) = map (mint_installation_uuid (en_rng en)) ns"
    "\<forall>n \<in> set ns. base \<le> n \<and> n < sc_minted s" unfolding minted_ok_def by blast
  from assms(2) have "ip_uuid b \<in> set (map ip_uuid (sc_backfills s))" by simp
  with ns(1) obtain n where "n \<in> set ns" "ip_uuid b = mint_installation_uuid (en_rng en) n"
    by (metis (no_types, lifting) image_iff list.set_map)
  with ns(2) show ?thesis by (auto simp: minted_before_def)
qed

lemma scanned_rows_ok:
  assumes inv: "rows_ok en (in_minted st) (in_rows st)" and sc: "scanned en io st live quarantined s swept rows"
  shows "rows_ok en (sc_minted s) rows" and "rows_ok en (in_minted st) swept" and "in_minted st \<le> sc_minted s"
proof -
  note facts = scanned_facts [OF inv sc]
  show le: "in_minted st \<le> sc_minted s" using facts(4) by (auto simp: minted_ok_def)
  show swept: "rows_ok en (in_minted st) swept" by (rule rows_ok_retired [OF facts(2) inv])
  from sc obtain res where ins: "insert_backfills (en_to_json en) io (sc_backfills s) swept = (rows, res)"
    by (auto simp: scanned_def)
  show "rows_ok en (sc_minted s) rows"
    by (rule insert_backfills_rows_ok [OF rows_ok_mono [OF swept le] _ ins]) (rule backfill_minted [OF facts(4)])
qed

text \<open>A live row whose plugin was seen is not swept.\<close>

lemma seen_row_kept:
  assumes inv: "rows_ok en n (in_rows st)" and sc: "scanned en io st live quarantined s swept rows"
    and r: "r \<in> set (in_rows st)" "is_live r" and seen: "\<not> orphaned s (pi_plugin r)"
  shows "r \<in> set swept"
proof (rule scanned_facts(7) [OF inv sc r(1)])
  fix i l
  assume l: "map_of live i = Some l" and orphan: "orphaned s i"
  from inv have "live_plugins_distinct (in_rows st)" by (simp add: rows_ok_def)
  from live_entry_row [OF this scanned_facts(1) [OF inv sc] l] obtain r' where
    r': "r' \<in> set (in_rows st)" "pi_plugin r' = i" "pi_uuid r' = li_uuid l" by blast
  show "li_uuid l \<noteq> pi_uuid r"
  proof
    assume "li_uuid l = pi_uuid r"
    with r' have "r' = r" by (intro same_row [OF inv r'(1) r(1)]) simp
    with r' orphan seen show False by simp
  qed
qed

lemma built_entry:
  assumes inv: "rows_ok en n (in_rows st)" and sc: "scanned en io st live quarantined s swept rows"
    and rows: "rows = swept @ map (written_row (en_to_json en) (si_now io)) (sc_backfills s)"
    and x: "map_of (sc_entries s) i = Some x"
  shows "ip_plugin x = i" and "\<exists>r \<in> set rows. row_of_entry en x r"
proof -
  note facts = scanned_facts [OF inv sc]
  have key: "ip_plugin x = i \<and> map_of (sc_observed s) i = Some (ip_path x)
      \<and> entry_source_ok (map_of live i) (map_of quarantined i) (backfills_of s i) x"
    using scan_key [OF facts(6), of i] x by (auto simp: scan_key_ok_def key_ok_def entry_ok_def)
  then show "ip_plugin x = i" by blast
  show "\<exists>r \<in> set rows. row_of_entry en x r"
  proof (cases "map_of live i")
    case None
    with key have "backfills_of s i = [x]" by (simp add: entry_source_ok_def)
    then have "x \<in> set (backfills_of s i)" by simp
    then have "written_row (en_to_json en) (si_now io) x \<in> set rows" by (simp add: rows backfills_of_def)
    with written_row_of_entry show ?thesis by blast
  next
    case (Some l)
    from inv have "live_plugins_distinct (in_rows st)" by (simp add: rows_ok_def)
    from live_entry_row [OF this facts(1) Some] obtain r where
      r: "r \<in> set (in_rows st)" "is_live r" "pi_plugin r = i" "readable_row (en_of_json en) r = Some l" "pi_uuid r = li_uuid l"
      by blast
    with key have "\<not> orphaned s (pi_plugin r)" by (simp add: orphaned_def)
    from seen_row_kept [OF inv sc r(1,2) this] have "r \<in> set rows" by (simp add: rows)
    moreover have "row_of_entry en x r" using r key Some
      by (cases l) (auto simp: row_of_entry_def entry_source_ok_def readable_row_def split: option.splits if_splits)
    ultimately show ?thesis by blast
  qed
qed

lemma built_quarantine:
  assumes inv: "rows_ok en (in_minted st) (in_rows st)"
    and sc: "scanned en io st live quarantined s swept rows"
    and rows: "rows = swept @ map (written_row (en_to_json en) (si_now io)) (sc_backfills s)"
    and q: "map_of (sc_quarantined s) i = Some q"
  shows "(minted_before en (sc_minted s) (qe_uuid q) \<and> (\<exists>r \<in> set rows. pi_plugin r = i \<and> pi_uuid r = qe_uuid q))
    \<or> qe_uuid q = no_sql_row_uuid \<or> qe_uuid q = ''dup-unknown''"
proof -
  note facts = scanned_facts [OF inv sc]
  note ok = scanned_rows_ok [OF inv sc]
  from inv have distinct: "live_plugins_distinct (in_rows st)" by (simp add: rows_ok_def)
  have old: ?thesis if r: "r \<in> set (in_rows st)" "pi_plugin r = i" "pi_uuid r = qe_uuid q" for r
  proof -
    from retired_uuids [OF facts(2)] r(1) obtain r' where r': "r' \<in> set swept" "pi_uuid r' = pi_uuid r"
      by (metis (no_types, lifting) image_iff list.set_map)
    from retired_in [OF facts(2) r'(1)] obtain r2 where "r2 \<in> set (in_rows st)" "retired r2 r'" by blast
    with r' r same_row [OF inv, of r2 r] have "pi_plugin r' = i" using retired_sel [of r2 r'] by auto
    moreover have "minted_before en (sc_minted s) (pi_uuid r)"
      using inv r(1) ok(3) by (auto simp: rows_ok_def intro: minted_before_mono)
    ultimately show ?thesis using r r' rows by auto
  qed
  have uuid: "quarantine_uuid_ok (map_of live i) (map_of quarantined i) (backfills_of s i) q"
    using scan_key [OF facts(6), of i] q by (auto simp: scan_key_ok_def key_ok_def quar_ok_def)
  show ?thesis
  proof (cases "map_of live i")
    case (Some l)
    from live_entry_row [OF distinct facts(1) Some] uuid Some old show ?thesis by (auto simp: quarantine_uuid_live)
  next
    case live: None
    show ?thesis
    proof (cases "map_of quarantined i")
      case (Some u)
      from quarantined_row [OF distinct facts(1) Some] uuid Some live old show ?thesis by (auto simp: quarantine_uuid_live)
    next
      case None
      show ?thesis
      proof (cases "backfills_of s i")
        case Nil
        with uuid live None show ?thesis by (auto simp: quarantine_uuid_live)
      next
        case (Cons b bs)
        with uuid live None have "qe_uuid q = ip_uuid b" by (simp add: quarantine_uuid_ok_def)
        moreover from Cons have "b \<in> set (backfills_of s i)" by simp
        then have "b \<in> set (sc_backfills s)" "ip_plugin b = i" by (simp_all add: backfills_of_def)
        moreover from this have "written_row (en_to_json en) (si_now io) b \<in> set rows" by (simp add: rows)
        ultimately show ?thesis using backfill_minted [OF facts(4), of b]
          by (auto intro!: bexI [of _ "written_row (en_to_json en) (si_now io) b"])
      qed
    qed
  qed
qed

lemma scan_inv:
  assumes inv: "install_inv en st"
    and run: "scan (en_readers en) (en_to_json en) (en_of_json en) (en_rng en) io (en_top en) st = (st', ok)"
  shows "install_inv en st'"
proof -
  from inv have rows: "rows_ok en (in_minted st) (in_rows st)" by (simp add: install_inv_def)
  from run show ?thesis
  proof (cases rule: scan_cases)
    case closed
    with inv show ?thesis by (simp add: install_inv_def entries_backed_def quarantine_backed_def hm_wf_def)
  next
    case (aborted live quarantined s swept rows)
    with scanned_rows_ok(1) [OF rows aborted(2)] show ?thesis
      by (simp add: install_inv_def entries_backed_def quarantine_backed_def hm_wf_def)
  next
    case (built live quarantined s swept rows')
    note ok = scanned_rows_ok(1) [OF rows built(2)]
    have wf: "hm_wf (sc_entries s)" "hm_wf (sc_quarantined s)"
      using scanned_facts(3) [OF rows built(2)] by (simp_all add: scan_wf_def)
    have "entries_backed en rows' (sc_entries s)"
      using wf built_entry [OF rows built(2,3)] by (simp add: entries_backed_def)
    moreover have "quarantine_backed en (sc_minted s) rows' (sc_quarantined s)"
      unfolding quarantine_backed_def
    proof (intro conjI allI impI ballI)
      fix i q r
      assume q: "map_of (sc_quarantined s) i = Some q" and r: "r \<in> set rows'" "pi_uuid r = qe_uuid q"
      from r(1) ok have "minted_before en (sc_minted s) (pi_uuid r)" by (simp add: rows_ok_def)
      with r(2) minted_not_special have "qe_uuid q \<noteq> no_sql_row_uuid" "qe_uuid q \<noteq> ''dup-unknown''" by auto
      with built_quarantine [OF rows built(2,3) q] obtain r' where
        "r' \<in> set rows'" "pi_plugin r' = i" "pi_uuid r' = qe_uuid q" by blast
      with r same_row [OF ok, of r r'] show "pi_plugin r = i" by simp
    next
      fix i q
      assume "map_of (sc_quarantined s) i = Some q"
      from built_quarantine [OF rows built(2,3) this]
      show "minted_before en (sc_minted s) (qe_uuid q) \<or> qe_uuid q = no_sql_row_uuid \<or> qe_uuid q = ''dup-unknown''" by blast
    qed (rule wf(2))
    ultimately show ?thesis using built(4) ok by (simp add: install_inv_def)
  qed
qed

lemma scanned_minted:
  assumes "scanned en io st live quarantined s swept rows"
  shows "in_minted st \<le> sc_minted s"
proof -
  have "minted_ok (en_rng en) (in_minted st) s"
    using assms unfolding scanned_def scan_children_def Let_def
    by (elim conjE, simp only:) (rule scan_loop_minted, simp add: minted_ok_def)
  then show ?thesis by (auto simp: minted_ok_def)
qed

lemma scan_minted:
  fixes en :: install_env
  assumes "scan (en_readers en) (en_to_json en) (en_of_json en) (en_rng en) io (en_top en) st = (st', ok)"
  shows "in_minted st \<le> in_minted st'"
  using assms by (cases rule: scan_cases) (auto dest: scanned_minted)

lemma uninstall_minted: "uninstall io (Some top_dir) i st = (st', res) \<Longrightarrow> in_minted st' = in_minted st"
  by (erule uninstall_cases) simp_all

lemma install_step_minted: "in_minted st \<le> in_minted (install_step en op st)"
proof (cases op)
  case (ScanPlugins io)
  with scan_minted [of en io st] show ?thesis by (auto simp: prod_eq_iff)
next
  case (InstallPlugin io src gate)
  with install_gated_minted [of "en_readers en" "en_to_json en" "en_rng en" io "en_top en" src gate st] show ?thesis
    by (auto simp: prod_eq_iff)
next
  case (UninstallPlugin io i)
  with uninstall_minted [of io "en_top en" i st] show ?thesis by (auto simp: prod_eq_iff)
qed simp

lemma install_step_inv:
  "identities_fresh en (in_minted (install_step en op st)) \<Longrightarrow> install_inv en st \<Longrightarrow> install_inv en (install_step en op st)"
proof (cases op)
  case (ScanPlugins io)
  assume "install_inv en st"
  with ScanPlugins scan_inv [of en st io] show ?thesis by (auto simp: prod_eq_iff)
next
  case (InstallPlugin io src gate)
  assume "identities_fresh en (in_minted (install_step en op st))" "install_inv en st"
  with InstallPlugin install_gated_inv [of en _ st _ io "en_top en" src gate] show ?thesis by (auto simp: prod_eq_iff)
next
  case (UninstallPlugin io i)
  assume "install_inv en st"
  with UninstallPlugin uninstall_inv [of en st io "en_top en" i] show ?thesis by (auto simp: prod_eq_iff)
next
  case (EditFiles fs)
  assume "install_inv en st"
  with EditFiles show ?thesis by (simp add: install_inv_def)
qed

lemma install_run_inv: "identities_fresh en (in_minted (install_run en fs ops)) \<Longrightarrow> install_inv en (install_run en fs ops)"
proof (induction ops rule: rev_induct)
  case Nil
  show ?case by (simp add: install_run_def new_installation_inv)
next
  case (snoc op ops)
  let ?st = "install_run en fs ops"
  have step: "install_run en fs (ops @ [op]) = install_step en op ?st" by (simp add: install_run_def)
  from snoc.prems step install_step_minted have "identities_fresh en (in_minted ?st)"
    by (auto intro: identities_fresh_mono)
  with snoc.IH have "install_inv en ?st" .
  with snoc.prems step install_step_inv show ?case by simp
qed

end
