(* ===== verification/Plugin_Claims.thy ===== *)
theory Plugin_Claims
  imports Plugin_Registry
begin

text \<open>
  What the registry of the installed plugins guarantees after any run: an indexed plugin rests on a granted live row, a
  scan accounts for every package directory it can read, and an uninstallation leaves nothing behind.
\<close>

section \<open>After a scan\<close>

lemma built_live_row:
  assumes inv: "rows_ok en (in_minted st) (in_rows st)" and sc: "scanned en io st live quarantined s swept rows"
    and rows: "rows = swept @ map (written_row (en_to_json en) (si_now io)) (sc_backfills s)"
    and r: "r \<in> set rows" "is_live r" "pi_plugin r = i"
  shows "map_of (sc_entries s) i = Some x \<Longrightarrow> ip_uuid x = pi_uuid r"
    and "map_of (sc_quarantined s) i = Some q \<Longrightarrow> qe_uuid q = pi_uuid r"
proof -
  note facts = scanned_facts [OF inv sc]
  from inv have distinct: "live_plugins_distinct (in_rows st)" by (simp add: rows_ok_def)
  note key = scan_key [OF facts(6), of i, unfolded scan_key_ok_def key_ok_def]
  have source: "(\<exists>l. map_of live i = Some l \<and> li_uuid l = pi_uuid r) \<or> (map_of live i = None \<and> map_of quarantined i = Some (pi_uuid r))
    \<or> (map_of live i = None \<and> map_of quarantined i = None \<and> (\<exists>b. backfills_of s i = [b] \<and> ip_uuid b = pi_uuid r))"
  proof (cases "r \<in> set swept")
    case True
    from retired_in [OF facts(2) True] obtain r' where "r' \<in> set (in_rows st)" "retired r' r" by blast
    with r(2) retired_sel have "r \<in> set (in_rows st)" by metis
    from live_row_unique [OF distinct this r(2)] r(3) have "live_row (in_rows st) i = Some r" by simp
    with load_live [OF distinct facts(1), of i] show ?thesis
      by (auto simp: readable_row_def split: option.splits if_splits)
  next
    case False
    with r(1) rows obtain b where b: "b \<in> set (sc_backfills s)" "r = written_row (en_to_json en) (si_now io) b" by auto
    with r(3) have "b \<in> set (backfills_of s i)" by (simp add: backfills_of_def)
    then obtain b' bs where "backfills_of s i = b' # bs" by (cases "backfills_of s i") auto
    with key \<open>b \<in> set (backfills_of s i)\<close> b(2) show ?thesis by (auto simp: fill_ok_def)
  qed
  show "map_of (sc_entries s) i = Some x \<Longrightarrow> ip_uuid x = pi_uuid r"
    using key source by (auto simp: entry_ok_def entry_source_ok_def)
  show "map_of (sc_quarantined s) i = Some q \<Longrightarrow> qe_uuid q = pi_uuid r"
    using key source by (auto simp: quar_ok_def quarantine_uuid_ok_def)
qed

lemma declared_path:
  "(i, p) \<in> all_declarations rd io top_dir fs cs \<Longrightarrow>
   \<exists>name. (name, DirObject) \<in> set cs \<and> p = top_dir @ [name] \<and> \<not> starts_with ''.staging-'' name"
proof (induction cs arbitrary: fs)
  case (Cons c cs)
  obtain name ob where c: "c = (name, ob)" by (cases c)
  from Cons.prems consider "(i, p) \<in> child_declarations rd io top_dir fs c"
    | "(i, p) \<in> all_declarations rd io top_dir (child_files io top_dir c fs) cs" by auto
  then show ?case
  proof cases
    case 1
    with c show ?thesis by (auto simp: child_declarations_def declarations_def split: if_splits option.splits)
  next
    case 2
    from Cons.IH [OF this] show ?thesis by auto
  qed
qed simp

lemma dir_child_in: "(name, ob) \<in> set (dir_children fs dir) \<Longrightarrow> (dir @ [name], ob) \<in> set fs"
proof -
  assume "(name, ob) \<in> set (dir_children fs dir)"
  then obtain p where "(p, ob) \<in> set fs" "p \<noteq> []" "butlast p = dir" "last p = name" by (auto simp: dir_children_def)
  then show ?thesis by (metis append_butlast_last_id)
qed

lemma snapshot_in:
  assumes "snapshot top_dir fs0 fs" and "(top_dir @ [name], ob) \<in> set fs0" and "\<not> starts_with ''.staging-'' name"
  shows "(top_dir @ [name], ob) \<in> set fs"
  using assms by (auto simp: snapshot_def)

lemma snapshot_keys: "snapshot top_dir fs0 fs \<Longrightarrow> distinct (map fst fs0) \<Longrightarrow> distinct (map fst fs)"
  by (auto simp: snapshot_def distinct_map_filter)

lemma scan_loop_snapshot:
  "snapshot top_dir fs0 (sc_files s) \<Longrightarrow>
   snapshot top_dir fs0 (sc_files (fold (scan_child rd rng io top_dir live quarantined) cs s))"
  by (induction cs arbitrary: s) (simp_all add: scan_child_files snapshot_child)

lemma scanned_snapshot:
  "scanned en io st live quarantined s swept rows \<Longrightarrow> snapshot (en_top en) (in_files st) (sc_files s)"
  unfolding scanned_def scan_children_def Let_def by (auto intro!: scan_loop_snapshot simp: snapshot_refl)

section \<open>Removing directories\<close>

text \<open>No name of a path is empty or one of the two the kernel treats specially.\<close>

definition proper_files :: "files \<Rightarrow> bool" where
  "proper_files fs = (distinct (map fst fs) \<and> (\<forall>(p, ob) \<in> set fs. \<forall>n \<in> set p. n \<noteq> [] \<and> n \<noteq> ''.'' \<and> n \<noteq> ''..''))"

lemma proper_filter: "proper_files fs \<Longrightarrow> proper_files (filter P fs)"
  by (auto simp: proper_files_def distinct_map_filter)

lemma proper_snapshot: "snapshot top_dir fs0 fs \<Longrightarrow> proper_files fs0 \<Longrightarrow> proper_files fs"
  by (auto simp: snapshot_def intro: proper_filter)

lemma dir_exists:
  assumes "proper_files fs" and "(dir @ [name], DirObject) \<in> set fs"
  shows "path_exists fs dir name"
proof -
  from assms have "name \<noteq> [] \<and> name \<noteq> ''.'' \<and> name \<noteq> ''..''" by (auto simp: proper_files_def)
  moreover from assms have "map_of fs (dir @ [name]) = Some DirObject" by (simp add: proper_files_def)
  ultimately show ?thesis by (simp add: path_exists_def)
qed

lemma remove_dirs_subset: "remove_dirs keep ps fs = (fs', ok) \<Longrightarrow> set fs' \<subseteq> set fs"
proof (induction ps arbitrary: fs)
  case (Cons p ps)
  obtain fs1 done1 where rm: "remove_dir_all keep p fs = (fs1, done1)" by fastforce
  then have "set fs1 \<subseteq> set fs" by (auto simp: remove_dir_all_def)
  with Cons rm show ?case by (cases done1) (auto split: if_splits dest: Cons.IH)
qed simp

lemma remove_dirs_gone:
  assumes "remove_dirs keep ps fs = (fs', True)" and "proper_files fs" and "p \<in> set ps" and "(p, DirObject) \<in> set fs"
    and "p \<noteq> []" and "prefix p q"
  shows "q \<notin> fst ` set fs'"
  using assms(1-4)
proof (induction ps arbitrary: fs)
  case (Cons a ps)
  show ?case
  proof (cases "path_exists fs (butlast a) (last a)")
    case False
    have "a \<noteq> p"
    proof
      assume "a = p"
      with Cons.prems(2,4) assms(5) have "path_exists fs (butlast p) (last p)" by (intro dir_exists) simp_all
      with False \<open>a = p\<close> show False by simp
    qed
    with False Cons show ?thesis by simp
  next
    case True
    obtain fs1 where rm: "remove_dir_all keep a fs = (fs1, True)" and rest: "remove_dirs keep ps fs1 = (fs', True)"
      using Cons.prems(1) True by (auto split: prod.splits bool.splits)
    from rm have fs1: "fs1 = filter (\<lambda>(q, _). \<not> prefix a q) fs" by (auto simp: remove_dir_all_def)
    show ?thesis
    proof (cases "prefix a p")
      case True
      with assms(6) have "prefix a q" by (meson prefix_order.trans)
      with fs1 remove_dirs_subset [OF rest] show ?thesis by fastforce
    next
      case False
      with Cons.prems(3,4) fs1 have "p \<in> set ps" "(p, DirObject) \<in> set fs1" by auto
      with Cons.IH [OF rest] Cons.prems(2) fs1 proper_filter show ?thesis by blast
    qed
  qed
qed simp

section \<open>A small installation\<close>

text \<open>One package directory, found by the first scan and then uninstalled.\<close>

definition sample_install_env :: install_env where
  "sample_install_env = \<lparr>en_readers = \<lparr>rd_toml = \<lambda>_. Some sample_manifest, rd_schema = \<lambda>_. True, rd_sha = \<lambda>_. []\<rparr>,
     en_to_json = \<lambda>_. ''{}'', en_of_json = \<lambda>_. Some (capabilities sample_manifest), en_rng = \<lambda>n. replicate 15 0 @ [of_nat n],
     en_top = [''plugins'']\<rparr>"

definition sample_files :: files where
  "sample_files = [([''plugins''], DirObject), ([''plugins'', ''a''], DirObject), ([''plugins'', ''a'', ''bin''], DirObject),
     ([''plugins'', ''a'', ''bin'', ''p.wasm''], RegFile [0]), ([''plugins'', ''a'', ''manifest.toml''], RegFile [1])]"

definition sample_scan_io :: scan_io where
  "sample_scan_io = \<lparr>si_open = True, si_listed = \<lambda>_. True, si_typed = \<lambda>_. True, si_left = \<lambda>_. False,
     si_tombstone = \<lambda>_. True, si_insert = \<lambda>_. True, si_now = 5\<rparr>"


definition sample_scan :: "installation \<times> bool" where
  "sample_scan = scan (en_readers sample_install_env) (en_to_json sample_install_env) (en_of_json sample_install_env) (en_rng sample_install_env) sample_scan_io
     (en_top sample_install_env) (install_run sample_install_env sample_files [])"

definition sample_uninstall :: "installation \<times> (uninstall_error + string)" where
  "sample_uninstall = uninstall \<lparr>ui_left = \<lambda>_. False, ui_tombstone = True, ui_now = 9\<rparr> (Some (en_top sample_install_env)) ''example.switch''
     (fst sample_scan)"

definition sample_declarations :: "(string \<times> path) set" where
  "sample_declarations = all_declarations (en_readers sample_install_env) sample_scan_io (en_top sample_install_env)
     (in_files (install_run sample_install_env sample_files []))
     (filter (\<lambda>(name, _). si_listed sample_scan_io name)
        (dir_children (in_files (install_run sample_install_env sample_files [])) (en_top sample_install_env)))"

lemma sample_run_none: "install_run sample_install_env sample_files [] = new_installation sample_files"
  by (simp add: install_run_def)

lemma sample_fresh:
  "identities_fresh sample_install_env (in_minted (install_run sample_install_env sample_files []))"
  "identities_fresh sample_install_env (in_minted (install_run sample_install_env sample_files [ScanPlugins sample_scan_io]))"
proof -
  have "in_minted (install_run sample_install_env sample_files [ScanPlugins sample_scan_io]) = 1" by code_simp
  then show "identities_fresh sample_install_env (in_minted (install_run sample_install_env sample_files [ScanPlugins sample_scan_io]))"
    by (simp add: identities_fresh_def lessThan_Suc)
  show "identities_fresh sample_install_env (in_minted (install_run sample_install_env sample_files []))"
    by (simp add: identities_fresh_def sample_run_none new_installation_def)
qed

lemma sample_scan_ok: "snd sample_scan" "get_installed ''example.switch'' (fst sample_scan) \<noteq> None"
  by code_simp+

lemma sample_uninstall_ok: "\<exists>uuid. snd sample_uninstall = Ok uuid"
proof -
  have "(case snd sample_uninstall of Ok _ \<Rightarrow> True | Err _ \<Rightarrow> False)" by code_simp
  then show ?thesis by (auto split: sum.splits)
qed

lemma sample_proper: "proper_files (in_files (install_run sample_install_env sample_files []))"
  unfolding sample_run_none by (simp add: new_installation_def sample_files_def proper_files_def)

lemma sample_declared: "(''example.switch'', [''plugins'', ''a'']) \<in> sample_declarations"
  by code_simp

section \<open>Claims\<close>


lemma entry_row:
  assumes inv: "install_inv en st" and x: "get_installed i st = Some x"
  obtains r j where "live_row (in_rows st) i = Some r" and "r \<in> set (in_rows st)" and "ip_plugin x = i" and "pi_uuid r = ip_uuid x"
    and "pi_digest r = Some (ip_digest x)" and "pi_grant r = Some j"
    and "en_of_json en j = Some (ip_granted x) \<or> j = en_to_json en (ip_granted x)"
proof -
  from inv x obtain r where r: "r \<in> set (in_rows st)" "row_of_entry en x r" "ip_plugin x = i"
    by (auto simp: install_inv_def entries_backed_def get_installed_def)
  then have "is_live r" "pi_plugin r = i" by (simp_all add: row_of_entry_def)
  moreover from inv have "live_plugins_distinct (in_rows st)" by (simp add: install_inv_def rows_ok_def)
  ultimately have "live_row (in_rows st) i = Some r" using live_row_unique r(1) by blast
  moreover from r(2) obtain j where "pi_uuid r = ip_uuid x" "pi_digest r = Some (ip_digest x)" "pi_grant r = Some j"
    "en_of_json en j = Some (ip_granted x) \<or> j = en_to_json en (ip_granted x)" by (auto simp: row_of_entry_def)
  ultimately show ?thesis using r(1,3) that by blast
qed

lemma live_rows_same:
  "rows_ok en n db \<Longrightarrow> live_row db i = Some r \<Longrightarrow> r' \<in> set db \<Longrightarrow> is_live r' \<Longrightarrow> pi_plugin r' = i \<Longrightarrow> r' = r"
  using live_row_unique by (fastforce simp: rows_ok_def)

text \<open>
  Claim C20.  Whatever happens to the files, to the calls of the file system and the database, and in whatever order plugins are
  scanned, installed and uninstalled: a plugin the registry shows as installed rests on a live row of the table.  It is
  the only live row of the plugin; the entry has its identity and the content digest granted with it, and the grant is
  the one the row holds, as the codec reads it back or as it was written.
\<close>

theorem indexed_is_granted:
  assumes fresh: "identities_fresh en (in_minted st)" and run: "st = install_run en fs ops" and x: "get_installed i st = Some x"
  shows "\<exists>r j. live_row (in_rows st) i = Some r \<and> (\<forall>r' \<in> set (in_rows st). is_live r' \<and> pi_plugin r' = i \<longrightarrow> r' = r)
    \<and> ip_plugin x = i \<and> pi_uuid r = ip_uuid x \<and> pi_digest r = Some (ip_digest x) \<and> pi_grant r = Some j
    \<and> (en_of_json en j = Some (ip_granted x) \<or> j = en_to_json en (ip_granted x))"
proof -
  from install_run_inv [of en fs ops] fresh run have inv: "install_inv en st" by simp
  then have "rows_ok en (in_minted st) (in_rows st)" by (simp add: install_inv_def)
  note same = live_rows_same [OF this]
  from entry_row [OF inv x] obtain r j where r: "live_row (in_rows st) i = Some r" "ip_plugin x = i" "pi_uuid r = ip_uuid x"
    "pi_digest r = Some (ip_digest x)" "pi_grant r = Some j"
    "en_of_json en j = Some (ip_granted x) \<or> j = en_to_json en (ip_granted x)" .
  moreover have "\<forall>r' \<in> set (in_rows st). is_live r' \<and> pi_plugin r' = i \<longrightarrow> r' = r" using same [OF r(1)] by blast
  ultimately show ?thesis by blast
qed

theorem indexed_is_granted_witness:
  "\<exists>r. live_row (in_rows (install_run sample_install_env sample_files [ScanPlugins sample_scan_io])) ''example.switch'' = Some r
     \<and> (en_of_json sample_install_env (the (pi_grant r)) = Some (capabilities sample_manifest))"
proof -
  have "get_installed ''example.switch'' (install_run sample_install_env sample_files [ScanPlugins sample_scan_io]) \<noteq> None" by code_simp
  then obtain x where "get_installed ''example.switch'' (install_run sample_install_env sample_files [ScanPlugins sample_scan_io]) = Some x" by blast
  from indexed_is_granted [OF sample_fresh(2) refl this] show ?thesis by (auto simp: sample_install_env_def)
qed

text \<open>
  Claim C19.  A scan accounts for the plugins root.  An indexed plugin is read from a directory right below the root, in a
  package whose identifier is safe and the entry's, whose version and singleton flag are the entry's, and whose
  manifest, component and validated UI assets, as the scan read them, have the digest of the entry; no other directory
  declared the plugin, and it is not quarantined.  Every directory that declared a plugin is the plugin's entry or among
  the paths of its quarantine.
\<close>

theorem scan_accounts:
  assumes fresh: "identities_fresh en (in_minted st)" and run: "st = install_run en fs ops"
    and scan: "scan (en_readers en) (en_to_json en) (en_of_json en) (en_rng en) io (en_top en) st = (st', True)"
    and R: "R = all_declarations (en_readers en) io (en_top en) (in_files st)
      (filter (\<lambda>(name, _). si_listed io name) (dir_children (in_files st) (en_top en)))"
  shows "(\<forall>i x. get_installed i st' = Some x \<longrightarrow>
      (\<exists>fs'. snapshot (en_top en) (in_files st) fs' \<and> entry_intact (en_readers en) fs' x)
      \<and> (\<exists>name. ip_path x = en_top en @ [name]) \<and> \<not> is_quarantined i st' \<and> {p. (i, p) \<in> R} = {ip_path x})
    \<and> (\<forall>i p. (i, p) \<in> R \<longrightarrow>
      (\<exists>x. get_installed i st' = Some x \<and> ip_path x = p) \<or> (\<exists>q. map_of (in_quarantined st') i = Some q \<and> p \<in> set (qe_paths q)))"
proof -
  from install_run_inv [of en fs ops] fresh run have rows: "rows_ok en (in_minted st) (in_rows st)" by (simp add: install_inv_def)
  from scan obtain live quarantined s swept rows' where sc: "scanned en io st live quarantined s swept rows'"
    and st': "st' = \<lparr>in_files = sc_files s, in_rows = rows', in_entries = sc_entries s, in_quarantined = sc_quarantined s,
        in_minted = sc_minted s\<rparr>" by (cases rule: scan_cases) auto
  note facts = scanned_facts [OF rows sc]
  note key = scan_key [OF facts(6) [folded R], unfolded scan_key_ok_def key_ok_def]
  show ?thesis
  proof (intro conjI allI impI)
    fix i x
    assume "get_installed i st' = Some x"
    with st' have x: "map_of (sc_entries s) i = Some x" by (simp add: get_installed_def)
    with facts(5) show "\<exists>fs'. snapshot (en_top en) (in_files st) fs' \<and> entry_intact (en_readers en) fs' x"
      and "\<exists>name. ip_path x = en_top en @ [name]" unfolding scan_intact_def by blast+
    from x key [of i] have entry: "map_of (sc_observed s) i = Some (ip_path x)" "i \<notin> set (sc_duplicates s)"
      "map_of (sc_quarantined s) i = None" by (simp_all add: entry_ok_def)
    from entry(3) st' show "\<not> is_quarantined i st'" by (simp add: is_quarantined_def)
    from entry(1,2) key [of i] show "{p. (i, p) \<in> R} = {ip_path x}" by (auto simp: seen_ok_def)
  next
    fix i p
    assume p: "(i, p) \<in> R"
    show "(\<exists>x. get_installed i st' = Some x \<and> ip_path x = p) \<or> (\<exists>q. map_of (in_quarantined st') i = Some q \<and> p \<in> set (qe_paths q))"
    proof (cases "map_of (sc_entries s) i")
      case None
      with key [of i] p st' show ?thesis by (simp add: paths_kept_def)
    next
      case (Some x)
      with key [of i] have "map_of (sc_observed s) i = Some (ip_path x)" "i \<notin> set (sc_duplicates s)" by (simp_all add: entry_ok_def)
      with key [of i] p have "ip_path x = p" by (auto simp: seen_ok_def)
      with Some st' show ?thesis by (simp add: get_installed_def)
    qed
  qed
qed

theorem scan_accounts_witness:
  "\<exists>x. get_installed ''example.switch'' (fst sample_scan) = Some x \<and> {p. (''example.switch'', p) \<in> sample_declarations} = {ip_path x}"
proof -
  from sample_scan_ok obtain x where x: "get_installed ''example.switch'' (fst sample_scan) = Some x" by blast
  have "sample_scan = (fst sample_scan, True)" using sample_scan_ok(1) by (simp add: prod_eq_iff)
  from scan_accounts [OF sample_fresh(1) refl this [unfolded sample_scan_def] refl, folded sample_scan_def sample_declarations_def]
  have "{p. (''example.switch'', p) \<in> sample_declarations} = {ip_path x}" using x by blast
  with x show ?thesis by blast
qed

text \<open>What an uninstallation right after a scan retires: the identity of the plugin's rows, and its directories.\<close>

lemma uninstalled:
  assumes inv: "install_inv en st"
    and sc: "scanned en io st live quarantined s swept rows'"
    and rows': "rows' = swept @ map (written_row (en_to_json en) (si_now io)) (sc_backfills s)"
    and R: "R = all_declarations (en_readers en) io (en_top en) (in_files st)
      (filter (\<lambda>(name, _). si_listed io name) (dir_children (in_files st) (en_top en)))"
    and inv1: "install_inv en st1"
    and st1: "st1 = \<lparr>in_files = sc_files s, in_rows = rows', in_entries = sc_entries s, in_quarantined = sc_quarantined s,
        in_minted = sc_minted s\<rparr>"
    and un: "uninstall uio (Some (en_top en)) i st1 = (st2, Ok uuid)"
  obtains dests where "in_rows st2 = tombstone_installation_row (ui_now uio) uuid rows'"
    and "get_installed i st2 = None" and "\<not> is_quarantined i st2"
    and "\<And>r. r \<in> set rows' \<Longrightarrow> is_live r \<Longrightarrow> pi_plugin r = i \<Longrightarrow> pi_uuid r = uuid"
    and "\<And>r. r \<in> set rows' \<Longrightarrow> pi_uuid r = uuid \<Longrightarrow> pi_plugin r = i"
    and "remove_dirs (ui_left uio) dests (sc_files s) = (in_files st2, True)" and "{p. (i, p) \<in> R} \<subseteq> set dests"
proof -
  from inv have rows: "rows_ok en (in_minted st) (in_rows st)" by (simp add: install_inv_def)
  note facts = scanned_facts [OF rows sc]
  note key = scan_key [OF facts(6) [folded R], of i, unfolded scan_key_ok_def key_ok_def]
  note built = built_live_row [OF rows sc rows']
  from un show ?thesis
  proof (cases rule: uninstall_cases)
    case (entry fs' x)
    with st1 have x: "map_of (sc_entries s) i = Some x" and uuid: "uuid = ip_uuid x" by simp_all
    from x key have free: "map_of (sc_quarantined s) i = None" "map_of (sc_observed s) i = Some (ip_path x)"
      "i \<notin> set (sc_duplicates s)" by (simp_all add: entry_ok_def)
    have R_x: "{p. (i, p) \<in> R} \<subseteq> set [ip_path x]" using free key by (auto simp: seen_ok_def)
    have st2: "in_rows st2 = tombstone_installation_row (ui_now uio) uuid rows'" "get_installed i st2 = None" "\<not> is_quarantined i st2"
      using entry st1 free uuid by (simp_all add: get_installed_def is_quarantined_def delete_conv')
    have rm: "remove_dirs (ui_left uio) [ip_path x] (sc_files s) = (in_files st2, True)" using entry st1 by simp
    from x st1 have "get_installed i st1 = Some x" by (simp add: get_installed_def)
    from entry_row [OF inv1 this] obtain r where r: "live_row (in_rows st1) i = Some r" "r \<in> set (in_rows st1)" "pi_uuid r = ip_uuid x" .
    from r(1) have "pi_plugin r = i" by (auto simp: live_row_def find_Some_iff)
    moreover from inv1 have "rows_ok en (in_minted st1) (in_rows st1)" by (simp add: install_inv_def)
    ultimately have other: "pi_plugin r' = i" if "r' \<in> set rows'" "pi_uuid r' = uuid" for r'
      using same_row [of en _ "in_rows st1" r' r] that r st1 uuid by simp
    show ?thesis
    proof (rule that [OF st2 _ _ rm R_x])
      show "pi_uuid r = uuid" if "r \<in> set rows'" "is_live r" "pi_plugin r = i" for r
        using built(1) [OF that x] uuid by simp
    qed (rule other)
  next
    case (quarantined fs' q)
    with st1 have q: "map_of (sc_quarantined s) i = Some q" and uuid: "uuid = qe_uuid q"
      and free: "map_of (sc_entries s) i = None" by simp_all
    have R_q: "{p. (i, p) \<in> R} \<subseteq> set (qe_paths q)" using q free key by (auto simp: paths_kept_def)
    have st2: "in_rows st2 = tombstone_installation_row (ui_now uio) uuid rows'" "get_installed i st2 = None" "\<not> is_quarantined i st2"
      using quarantined st1 free uuid by (simp_all add: get_installed_def is_quarantined_def delete_conv')
    have rm: "remove_dirs (ui_left uio) (qe_paths q) (sc_files s) = (in_files st2, True)" using quarantined st1 by simp
    have other: "pi_plugin r' = i" if "r' \<in> set rows'" "pi_uuid r' = uuid" for r'
      using inv1 q uuid that st1 by (simp add: install_inv_def quarantine_backed_def)
    show ?thesis
    proof (rule that [OF st2 _ _ rm R_q])
      show "pi_uuid r = uuid" if "r \<in> set rows'" "is_live r" "pi_plugin r = i" for r
        using built(2) [OF that q] uuid by simp
    qed (rule other)
  qed simp
qed

lemma tombstoned_live: "r \<in> set (tombstone_installation_row now uuid db) \<Longrightarrow> is_live r \<Longrightarrow> r \<in> set db \<and> pi_uuid r \<noteq> uuid"
  by (auto simp: tombstone_installation_row_def is_live_def)

text \<open>
  Claim C18.  An uninstallation after a scan is complete: the plugin is neither indexed nor quarantined any more, no live row of
  the table belongs to it, and of every directory that declared it in the scan, duplicates and broken packages among
  them, nothing is left; the rows of other plugins are as they were.  So the next scan cannot bring it back, and an
  installation is not refused because of the old one's row.
\<close>

theorem uninstall_complete:
  assumes fresh: "identities_fresh en (in_minted st)" and run: "st = install_run en fs ops" and proper: "proper_files (in_files st)"
    and scan: "scan (en_readers en) (en_to_json en) (en_of_json en) (en_rng en) io (en_top en) st = (st1, True)"
    and R: "R = all_declarations (en_readers en) io (en_top en) (in_files st)
      (filter (\<lambda>(name, _). si_listed io name) (dir_children (in_files st) (en_top en)))"
    and un: "uninstall uio (Some (en_top en)) i st1 = (st2, Ok uuid)"
  shows "get_installed i st2 = None \<and> \<not> is_quarantined i st2 \<and> live_row (in_rows st2) i = None
    \<and> (\<forall>p q. (i, p) \<in> R \<and> prefix p q \<longrightarrow> q \<notin> fst ` set (in_files st2))
    \<and> (\<forall>r \<in> set (in_rows st1). pi_plugin r \<noteq> i \<longrightarrow> r \<in> set (in_rows st2))"
proof -
  from install_run_inv [of en fs ops] fresh run have inv: "install_inv en st" by simp
  from scan_inv [OF inv scan] have inv1: "install_inv en st1" .
  from scan obtain live quarantined s swept rows' where sc: "scanned en io st live quarantined s swept rows'"
    and rows': "rows' = swept @ map (written_row (en_to_json en) (si_now io)) (sc_backfills s)"
    and st1: "st1 = \<lparr>in_files = sc_files s, in_rows = rows', in_entries = sc_entries s, in_quarantined = sc_quarantined s,
        in_minted = sc_minted s\<rparr>" by (cases rule: scan_cases) auto
  from uninstalled [OF inv sc rows' R inv1 st1 un] obtain dests
    where rows2: "in_rows st2 = tombstone_installation_row (ui_now uio) uuid rows'"
    and gone: "get_installed i st2 = None" "\<not> is_quarantined i st2"
    and live: "\<And>r. r \<in> set rows' \<Longrightarrow> is_live r \<Longrightarrow> pi_plugin r = i \<Longrightarrow> pi_uuid r = uuid"
    and other: "\<And>r. r \<in> set rows' \<Longrightarrow> pi_uuid r = uuid \<Longrightarrow> pi_plugin r = i"
    and rm: "remove_dirs (ui_left uio) dests (sc_files s) = (in_files st2, True)" and all: "{p. (i, p) \<in> R} \<subseteq> set dests"
    by metis
  note snap = scanned_snapshot [OF sc]
  have dir: "(p, DirObject) \<in> set (sc_files s) \<and> p \<noteq> []" if "(i, p) \<in> R" for p
  proof -
    from that R have "(i, p) \<in> all_declarations (en_readers en) io (en_top en) (in_files st)
      (filter (\<lambda>(name, _). si_listed io name) (dir_children (in_files st) (en_top en)))" by simp
    from declared_path [OF this] obtain name where "(name, DirObject) \<in> set (dir_children (in_files st) (en_top en))"
      "p = en_top en @ [name]" "\<not> starts_with ''.staging-'' name" by auto
    with snapshot_in [OF snap] dir_child_in show ?thesis by blast
  qed
  have "\<not> is_live r" if "r \<in> set (in_rows st2)" "pi_plugin r = i" for r
    using that rows2 live tombstoned_live [of r "ui_now uio" uuid rows'] by auto
  then have "live_row (in_rows st2) i = None" by (auto simp: live_row_def find_None_iff)
  moreover have "q \<notin> fst ` set (in_files st2)" if "(i, p) \<in> R" "prefix p q" for p q
    using remove_dirs_gone [OF rm proper_snapshot [OF snap proper], of p q] dir [OF that(1)] that all by blast
  moreover have "r \<in> set (in_rows st2)" if "r \<in> set (in_rows st1)" "pi_plugin r \<noteq> i" for r
    using that other st1 rows2 tombstone_in [of r rows' uuid] by auto
  ultimately show ?thesis using gone by blast
qed

theorem uninstall_complete_witness:
  "get_installed ''example.switch'' (fst sample_uninstall) = None
   \<and> [''plugins'', ''a'', ''manifest.toml''] \<notin> fst ` set (in_files (fst sample_uninstall))"
proof -
  from sample_uninstall_ok obtain uuid where un: "sample_uninstall = (fst sample_uninstall, Ok uuid)" by (auto simp: prod_eq_iff)
  have scan: "sample_scan = (fst sample_scan, True)" using sample_scan_ok(1) by (simp add: prod_eq_iff)
  from uninstall_complete [OF sample_fresh(1) refl sample_proper scan [unfolded sample_scan_def] refl
      un [unfolded sample_uninstall_def sample_scan_def], folded sample_scan_def sample_declarations_def, folded sample_uninstall_def]
  have "get_installed ''example.switch'' (fst sample_uninstall) = None"
    and "\<forall>p q. (''example.switch'', p) \<in> sample_declarations \<and> prefix p q \<longrightarrow> q \<notin> fst ` set (in_files (fst sample_uninstall))"
    by blast+
  moreover have "prefix [''plugins'', ''a''] [''plugins'', ''a'', ''manifest.toml'']" by simp
  ultimately show ?thesis using sample_declared by blast
qed

end
