(* ===== verification/Plugin_Approval.thy ===== *)
theory Plugin_Approval
  imports Plugin_Claims
begin

text \<open>
  What an installation approves stays approved: the digest and the grant recorded for an identity never change, and the
  digest separates contents.
\<close>

section \<open>The table over a run\<close>

text \<open>A step adds rows of new identities only; the rows there were may be retired or dropped.\<close>

definition rows_evolve :: "install_env \<Rightarrow> installation \<Rightarrow> installation \<Rightarrow> bool" where
  "rows_evolve en st st' \<longleftrightarrow>
     (\<forall>r' \<in> set (in_rows st'). (\<exists>r \<in> set (in_rows st). retired r r')
        \<or> (\<exists>k. in_minted st \<le> k \<and> k < in_minted st' \<and> pi_uuid r' = mint_installation_uuid (en_rng en) k))"

lemma rows_evolve_retired: "list_all2 retired (in_rows st) (in_rows st') \<Longrightarrow> rows_evolve en st st'"
  unfolding rows_evolve_def using retired_in by blast

lemma retired_self: "retired r r"
  by (simp add: retired_def)

lemma rows_evolve_same: "set (in_rows st') \<subseteq> set (in_rows st) \<Longrightarrow> rows_evolve en st st'"
  unfolding rows_evolve_def using retired_self by blast

lemma backfill_fresh:
  assumes "minted_ok (en_rng en) base s" and "b \<in> set (sc_backfills s)"
  shows "\<exists>k. base \<le> k \<and> k < sc_minted s \<and> ip_uuid b = mint_installation_uuid (en_rng en) k"
proof -
  from assms(1) obtain ns where ns: "map ip_uuid (sc_backfills s) = map (mint_installation_uuid (en_rng en)) ns"
    "\<forall>n \<in> set ns. base \<le> n \<and> n < sc_minted s" unfolding minted_ok_def by blast
  from assms(2) have "ip_uuid b \<in> set (map ip_uuid (sc_backfills s))" by simp
  with ns show ?thesis by (metis (no_types, lifting) image_iff list.set_map)
qed

lemma insert_backfills_rows:
  "insert_backfills to_json io ps db = (db', res) \<Longrightarrow> r \<in> set db' \<Longrightarrow> r \<in> set db \<or> (\<exists>b \<in> set ps. r = written_row to_json (si_now io) b)"
  using insert_backfills_cases [of to_json io ps db db' res] by auto

lemma scan_evolves:
  assumes inv: "install_inv en st"
    and run: "scan (en_readers en) (en_to_json en) (en_of_json en) (en_rng en) io (en_top en) st = (st', ok)"
  shows "rows_evolve en st st'"
proof -
  from inv have rows: "rows_ok en (in_minted st) (in_rows st)" by (simp add: install_inv_def)
  have added: "rows_evolve en st st'"
    if sc: "scanned en io st live quarantined s swept rows" and st': "in_rows st' = rows" "in_minted st' = sc_minted s"
    for live quarantined s swept rows
    unfolding rows_evolve_def
  proof
    fix r'
    assume "r' \<in> set (in_rows st')"
    note facts = scanned_facts [OF rows sc]
    from sc obtain res where ins: "insert_backfills (en_to_json en) io (sc_backfills s) swept = (rows, res)" by (auto simp: scanned_def)
    from \<open>r' \<in> set (in_rows st')\<close> st' insert_backfills_rows [OF ins, of r'] consider "r' \<in> set swept"
      | b where "b \<in> set (sc_backfills s)" "r' = written_row (en_to_json en) (si_now io) b" by auto
    then show "(\<exists>r \<in> set (in_rows st). retired r r')
        \<or> (\<exists>k. in_minted st \<le> k \<and> k < in_minted st' \<and> pi_uuid r' = mint_installation_uuid (en_rng en) k)"
    proof cases
      case 1
      from retired_in [OF facts(2) this] show ?thesis by blast
    next
      case 2
      with backfill_fresh [OF facts(4) 2(1)] st' show ?thesis by auto
    qed
  qed
  from run show ?thesis
  proof (cases rule: scan_cases)
    case closed
    then show ?thesis by (intro rows_evolve_same) simp
  next
    case (aborted live quarantined s swept rows)
    with added [OF aborted(2)] show ?thesis by simp
  next
    case (built live quarantined s swept rows)
    with added [OF built(2)] show ?thesis by simp
  qed
qed

lemma activate_evolves:
  assumes "activate (en_to_json en) io staging dest row (st\<lparr>in_minted := in_minted st + 1, in_files := fs1\<rparr>) = (st', res)"
    and uuid: "ip_uuid row = mint_installation_uuid (en_rng en) (in_minted st)"
  shows "rows_evolve en st st'"
  using assms(1)
proof (cases rule: activate_cases)
  case refused
  then show ?thesis by (intro rows_evolve_same) simp
next
  case (installed fs)
  with uuid retired_self show ?thesis by (auto simp: rows_evolve_def)
next
  case (rolled_back fs)
  have "set (in_rows st') \<subseteq> insert (written_row (en_to_json en) (ii_now io) row) (set (in_rows st))"
    unfolding rolled_back(3) by (auto simp: delete_installation_row_def)
  moreover have "in_minted st' = in_minted st + 1" unfolding rolled_back(3) by simp
  ultimately show ?thesis using uuid retired_self unfolding rows_evolve_def by (metis insertE less_add_one order_refl subsetD written_row_sel(1))
qed

lemma install_evolves:
  assumes "install_gated rd (en_to_json en) (en_rng en) io (Some top_dir) source_dir gate st = (st', res)"
  shows "rows_evolve en st st'"
  using assms
proof (cases rule: install_gated_cases)
  case (activated src manifest staging i fs0 fs1 m digest)
  show ?thesis by (rule activate_evolves [OF activated(11)]) (simp add: plugin_record_def)
qed (intro rows_evolve_same, simp)+

lemma uninstall_evolves:
  assumes "uninstall io (Some top_dir) i st = (st', res)"
  shows "rows_evolve en st st'"
  using assms
proof (cases rule: uninstall_cases)
  case refused
  then show ?thesis by (intro rows_evolve_same) simp
qed (intro rows_evolve_retired, simp add: tombstone_retired)+

lemma install_step_evolves: "install_inv en st \<Longrightarrow> rows_evolve en st (install_step en op st)"
proof (cases op)
  case (ScanPlugins io)
  assume "install_inv en st"
  with ScanPlugins scan_evolves [of en st io] show ?thesis by (auto simp: prod_eq_iff)
next
  case (InstallPlugin io src gate)
  with install_evolves [of "en_readers en" en io "en_top en" src gate st] show ?thesis by (auto simp: prod_eq_iff)
next
  case (UninstallPlugin io i)
  with uninstall_evolves [of io "en_top en" i st] show ?thesis by (auto simp: prod_eq_iff)
next
  case (EditFiles fs)
  then show ?thesis by (intro rows_evolve_same) simp
qed

text \<open>What the table holds for an identity.\<close>

definition recorded :: "installation \<Rightarrow> string \<Rightarrow> string \<Rightarrow> string \<Rightarrow> string \<Rightarrow> bool" where
  "recorded st u i digest grant \<longleftrightarrow>
     (\<forall>r \<in> set (in_rows st). pi_uuid r = u \<longrightarrow> pi_plugin r = i \<and> pi_digest r = Some digest \<and> pi_grant r = Some grant)"

lemma retired_contents: "retired r r' \<Longrightarrow> pi_digest r' = pi_digest r \<and> pi_grant r' = pi_grant r"
  by (auto simp: retired_def)

lemma recorded_evolves:
  assumes rec: "recorded st u i digest grant" and evolve: "rows_evolve en st st'"
    and old: "minted_before en (in_minted st) u" and fresh: "identities_fresh en (in_minted st')"
  shows "recorded st' u i digest grant"
  unfolding recorded_def
proof (intro ballI impI)
  fix r'
  assume r': "r' \<in> set (in_rows st')" "pi_uuid r' = u"
  have "\<not> (\<exists>k. in_minted st \<le> k \<and> k < in_minted st' \<and> pi_uuid r' = mint_installation_uuid (en_rng en) k)"
    using minted_fresh [OF fresh] old r'(2) by metis
  with evolve r'(1) obtain r where "r \<in> set (in_rows st)" "retired r r'" unfolding rows_evolve_def by blast
  with rec r'(2) retired_sel [of r r'] retired_contents [of r r']
  show "pi_plugin r' = i \<and> pi_digest r' = Some digest \<and> pi_grant r' = Some grant" by (simp add: recorded_def)
qed

lemma recorded_run:
  "install_inv en st \<Longrightarrow> recorded st u i digest grant \<Longrightarrow> minted_before en (in_minted st) u \<Longrightarrow>
   identities_fresh en (in_minted (fold (install_step en) ops st)) \<Longrightarrow>
   install_inv en (fold (install_step en) ops st) \<and> recorded (fold (install_step en) ops st) u i digest grant
   \<and> minted_before en (in_minted (fold (install_step en) ops st)) u"
proof (induction ops rule: rev_induct)
  case (snoc op ops)
  let ?st = "fold (install_step en) ops st"
  have mono: "in_minted ?st \<le> in_minted (install_step en op ?st)" by (rule install_step_minted)
  with snoc.prems(4) have "identities_fresh en (in_minted ?st)" by (auto intro: identities_fresh_mono)
  with snoc have IH: "install_inv en ?st" "recorded ?st u i digest grant" "minted_before en (in_minted ?st) u" by blast+
  from snoc.prems(4) have fresh: "identities_fresh en (in_minted (install_step en op ?st))" by simp
  with recorded_evolves [OF IH(2) install_step_evolves [OF IH(1)] IH(3)] install_step_inv [OF fresh IH(1)]
    minted_before_mono [OF IH(3) mono] show ?case by simp
qed simp

section \<open>What an installation approves\<close>

lemma staged_content:
  assumes "check_staged rd fs staging i = Ok (m, digest)"
  shows "\<exists>mb wb frames. package_content rd fs staging = Some (m, mb, wb, frames) \<and> digest = content_digest (rd_sha rd) mb wb frames"
  using assms by (auto simp: check_staged_def package_content_def split: option.splits prod.splits if_splits sum.splits)

lemma installed_record:
  assumes inv: "install_inv en st" and fresh: "identities_fresh en (in_minted st')"
    and run: "install_gated (en_readers en) (en_to_json en) (en_rng en) io (Some top_dir) source_dir gate st = (st', Ok x)"
  shows "install_inv en st'" and "recorded st' (ip_uuid x) (ip_plugin x) (ip_digest x) (en_to_json en (ip_granted x))"
    and "minted_before en (in_minted st') (ip_uuid x)"
    and "\<exists>fs staging m mb wb frames. package_content (en_readers en) fs staging = Some (m, mb, wb, frames)
      \<and> ip_plugin x = plugin_id (plugin m) \<and> ip_granted x = capabilities m
      \<and> ip_digest x = content_digest (rd_sha (en_readers en)) mb wb frames"
proof -
  show inv': "install_inv en st'" by (rule install_gated_inv [OF fresh inv run])
  from run obtain staging i fs1 m digest where
    checked: "check_staged (en_readers en) fs1 staging i = Ok (m, digest)" and
    act: "activate (en_to_json en) io staging (top_dir @ [i])
        (plugin_record m (top_dir @ [i]) (mint_installation_uuid (en_rng en) (in_minted st)) (capabilities m) digest)
        (st\<lparr>in_minted := in_minted st + 1, in_files := fs1\<rparr>) = (st', Ok x)"
    by (cases rule: install_gated_cases) auto
  from act have x: "x = plugin_record m (top_dir @ [i]) (mint_installation_uuid (en_rng en) (in_minted st)) (capabilities m) digest"
    and row: "written_row (en_to_json en) (ii_now io) x \<in> set (in_rows st')" and minted: "in_minted st' = in_minted st + 1"
    by (cases rule: activate_cases; auto)+
  from inv' have rows: "rows_ok en (in_minted st') (in_rows st')" by (simp add: install_inv_def)
  show "recorded st' (ip_uuid x) (ip_plugin x) (ip_digest x) (en_to_json en (ip_granted x))"
    unfolding recorded_def
  proof (intro ballI impI)
    fix r
    assume "r \<in> set (in_rows st')" "pi_uuid r = ip_uuid x"
    with same_row [OF rows this(1) row] have "r = written_row (en_to_json en) (ii_now io) x" by simp
    then show "pi_plugin r = ip_plugin x \<and> pi_digest r = Some (ip_digest x) \<and> pi_grant r = Some (en_to_json en (ip_granted x))"
      by (simp add: written_row_def)
  qed
  show "minted_before en (in_minted st') (ip_uuid x)" by (auto simp: x minted plugin_record_def minted_before_def)
  from staged_content [OF checked] obtain mb wb frames where
    "package_content (en_readers en) fs1 staging = Some (m, mb, wb, frames)" "digest = content_digest (rd_sha (en_readers en)) mb wb frames" by blast
  then show "\<exists>fs staging m mb wb frames. package_content (en_readers en) fs staging = Some (m, mb, wb, frames)
      \<and> ip_plugin x = plugin_id (plugin m) \<and> ip_granted x = capabilities m
      \<and> ip_digest x = content_digest (rd_sha (en_readers en)) mb wb frames"
    by (intro exI [of _ fs1] exI [of _ staging] exI [of _ m] exI [of _ mb] exI [of _ wb] exI [of _ frames]) (simp add: x plugin_record_def)
qed

section \<open>The digest separates contents\<close>

lemma digit_char_inj: "a < 16 \<Longrightarrow> b < 16 \<Longrightarrow> digit_char a = digit_char b \<Longrightarrow> a = b"
  unfolding digit_char_def by (subst (asm) nth_eq_iff_index_eq) auto

lemma hex_byte_inj: "hex_byte a = hex_byte b \<Longrightarrow> a = b"
proof -
  assume eq: "hex_byte a = hex_byte b"
  have small: "unat w < 256" for w :: "8 word" using unsigned_less [of w] by simp
  have nibbles: "unat w div 16 < 16" "unat w mod 16 < 16" for w :: "8 word" using small [of w] by (simp_all add: less_mult_imp_div_less)
  from eq have "digit_char (unat a div 16) = digit_char (unat b div 16)" "digit_char (unat a mod 16) = digit_char (unat b mod 16)"
    by (simp_all add: hex_byte_def)
  with digit_char_inj nibbles have "unat a div 16 = unat b div 16" "unat a mod 16 = unat b mod 16" by blast+
  then have "unat a = unat b" by (metis div_mod_decomp)
  then show ?thesis by (rule unsigned_word_eqI)
qed

lemma hex_bytes_inj: "hex_bytes a = hex_bytes b \<Longrightarrow> a = b"
proof (induction a arbitrary: b)
  case Nil
  then show ?case by (cases b) (auto simp: hex_bytes_def hex_byte_def)
next
  case (Cons x a)
  then obtain y b' where b: "b = y # b'" by (cases b) (auto simp: hex_bytes_def hex_byte_def)
  with Cons.prems have "hex_byte x = hex_byte y" "hex_bytes a = hex_bytes b'" by (auto simp: hex_bytes_def hex_byte_def)
  with Cons.IH hex_byte_inj b show ?case by blast
qed

definition framable :: "8 word list \<Rightarrow> 8 word list \<Rightarrow> (string \<times> 8 word list) list \<Rightarrow> bool" where
  "framable mb wb frames \<longleftrightarrow>
     length mb < 2 ^ 32 \<and> length wb < 2 ^ 32 \<and> length frames < 2 ^ 32 \<and> (\<forall>(l, b) \<in> set frames. length l < 2 ^ 32 \<and> length b < 2 ^ 32)"

lemma be32_append:
  assumes "be32 a @ x = be32 b @ y" and "a < 2 ^ 32" and "b < 2 ^ 32"
  shows "a = b \<and> x = y"
proof -
  from assms(1) have "be32 a = be32 b" "x = y" by (simp_all add: append_eq_append_conv)
  with assms(2,3) be32_inj show ?thesis by blast
qed

lemma framed_bytes_append:
  assumes eq: "framed_bytes a @ x = framed_bytes b @ y" and small: "length a < 2 ^ 32" "length b < 2 ^ 32"
  shows "a = b \<and> x = y"
proof -
  from eq small have "be32 (length a) @ a @ x = be32 (length b) @ b @ y" by (simp add: framed_bytes_def)
  from be32_append [OF this small] have "length a = length b" "a @ x = b @ y" by simp_all
  then show ?thesis by (metis append_eq_append_conv)
qed

lemma framed_append:
  assumes eq: "framed a @ x = framed b @ y" and small: "length a < 2 ^ 32" "length b < 2 ^ 32"
  shows "a = b \<and> x = y"
proof -
  from eq small have "be32 (length a) @ string_bytes a @ x = be32 (length b) @ string_bytes b @ y" by (simp add: framed_def)
  from be32_append [OF this small] have "length a = length b" "string_bytes a @ x = string_bytes b @ y" by simp_all
  then have "string_bytes a = string_bytes b" "x = y" by (simp_all add: append_eq_append_conv)
  with string_bytes_inj show ?thesis by blast
qed

lemma frames_inj:
  "length fr = length fr' \<Longrightarrow> concat (map (\<lambda>(l, b). framed l @ framed_bytes b) fr) = concat (map (\<lambda>(l, b). framed l @ framed_bytes b) fr') \<Longrightarrow>
   \<forall>(l, b) \<in> set fr. length l < 2 ^ 32 \<and> length b < 2 ^ 32 \<Longrightarrow> \<forall>(l, b) \<in> set fr'. length l < 2 ^ 32 \<and> length b < 2 ^ 32 \<Longrightarrow> fr = fr'"
proof (induction fr fr' rule: list_induct2)
  case (Cons x fr y fr')
  obtain l b l' b' where xy: "x = (l, b)" "y = (l', b')" by (cases x, cases y)
  with Cons.prems have small: "length l < 2 ^ 32" "length b < 2 ^ 32" "length l' < 2 ^ 32" "length b' < 2 ^ 32"
    and rest: "\<forall>(l, b) \<in> set fr. length l < 2 ^ 32 \<and> length b < 2 ^ 32" "\<forall>(l, b) \<in> set fr'. length l < 2 ^ 32 \<and> length b < 2 ^ 32" by auto
  from xy Cons.prems(1) have eq: "framed l @ framed_bytes b @ concat (map (\<lambda>(l, b). framed l @ framed_bytes b) fr)
      = framed l' @ framed_bytes b' @ concat (map (\<lambda>(l, b). framed l @ framed_bytes b) fr')" by simp
  from framed_append [OF eq small(1,3)] have l: "l = l'" and "framed_bytes b @ concat (map (\<lambda>(l, b). framed l @ framed_bytes b) fr)
      = framed_bytes b' @ concat (map (\<lambda>(l, b). framed l @ framed_bytes b) fr')" by simp_all
  from framed_bytes_append [OF this(2) small(2,4)] have "b = b'"
    "concat (map (\<lambda>(l, b). framed l @ framed_bytes b) fr) = concat (map (\<lambda>(l, b). framed l @ framed_bytes b) fr')" by simp_all
  with l xy Cons.IH [OF this(2) rest] show ?case by simp
qed simp

lemma digest_preimage_inj:
  assumes eq: "digest_preimage mb wb fr = digest_preimage mb' wb' fr'" and small: "framable mb wb fr" "framable mb' wb' fr'"
  shows "mb = mb' \<and> wb = wb' \<and> fr = fr'"
proof -
  let ?rest = "\<lambda>fr. concat (map (\<lambda>(l, b). framed l @ framed_bytes b) fr)"
  from small have len: "length mb < 2 ^ 32" "length mb' < 2 ^ 32" "length wb < 2 ^ 32" "length wb' < 2 ^ 32"
    "length fr < 2 ^ 32" "length fr' < 2 ^ 32" by (simp_all add: framable_def)
  from eq len have "framed_bytes mb @ framed_bytes wb @ be32 (length fr) @ ?rest fr = framed_bytes mb' @ framed_bytes wb' @ be32 (length fr') @ ?rest fr'"
    by (simp add: digest_preimage_def)
  from framed_bytes_append [OF this len(1,2)] have mb: "mb = mb'"
    and "framed_bytes wb @ be32 (length fr) @ ?rest fr = framed_bytes wb' @ be32 (length fr') @ ?rest fr'" by simp_all
  from framed_bytes_append [OF this(2) len(3,4)] have wb: "wb = wb'" and "be32 (length fr) @ ?rest fr = be32 (length fr') @ ?rest fr'" by simp_all
  from be32_append [OF this(2) len(5,6)] have "length fr = length fr'" "?rest fr = ?rest fr'" by simp_all
  with frames_inj small mb wb show ?thesis by (auto simp: framable_def)
qed

end
