(* ===== verification/Blobs.thy ===== *)
theory Blobs
  imports Kv_Store Ip_Addr "HOL-Library.Sublist"
begin

text \<open>
  \<^verbatim>\<open>crates/oxidhome-core/src/state/blobs.rs\<close>: the blob store, an index in the database (with the triggers of migration 14 in
  \<^verbatim>\<open>state/db.rs\<close>) over files below \<^verbatim>\<open><blobs_root>/<installation>/<instance>\<close>.  A file is named by its path below the root;
  an operation takes the outcome of each of its calls to the file system and the database, so a crash between two of them
  leaves what a run leaves whose later calls fail.  A transaction that fails leaves the tables as they were.
\<close>

section \<open>Tables and files\<close>

record blob_row =
  bl_id :: string
  bl_size :: int
  bl_created :: int
  bl_mime :: "string option"

type_synonym blob_path = "string list"

record blob_store =
  bs_rows :: "(owner \<times> string, blob_row) hmap"
  bs_usage :: "(owner, int \<times> int) hmap"
  bs_files :: "(blob_path, 8 word list) hmap"
  bs_dirs :: "string list"
  bs_counter :: nat

datatype blob_error =
    BlobUnavailable
  | BlobUnregistered string string
  | UnsafeSegment string
  | BlobQuotaExceeded string string nat nat
  | BlobNotFound string
  | BlobTooLarge nat nat
  | MimeTooLarge nat nat
  | BlobIo
  | BlobSql

text \<open>
  The outcomes of the calls of one operation: the clock, whether the directories are made and synced (or at least the
  one of the installation), whether the bytes are staged (or how many of them reach a file that stays), whether the
  database serves the statements, the rename, the sync of the directory, the commit, and the removal of a file; what the
  removal of a directory leaves.
\<close>

record blob_io =
  bi_now :: nat
  bi_created :: nat
  bi_mkdir :: bool
  bi_made :: bool
  bi_stage :: bool
  bi_partial :: "nat option"
  bi_sql :: bool
  bi_rename :: bool
  bi_sync :: bool
  bi_commit :: bool
  bi_unlink :: bool
  bi_keep :: "blob_path \<Rightarrow> bool"

definition max_instance_id_bytes :: nat where
  "max_instance_id_bytes = 128"

definition max_blob_mime_bytes :: nat where
  "max_blob_mime_bytes = 256"

definition mime_too_large :: "string option \<Rightarrow> bool" where
  "mime_too_large mime = (case mime of Some m \<Rightarrow> length m > max_blob_mime_bytes | None \<Rightarrow> False)"

definition is_safe_instance_id :: "string \<Rightarrow> bool" where
  "is_safe_instance_id i =
     (i \<noteq> [] \<and> length i \<le> max_instance_id_bytes \<and> CHR ''/'' \<notin> set i \<and> CHR 0x5C \<notin> set i
      \<and> split_once_str ''..'' i = None \<and> \<not> starts_with ''.'' i \<and> CHR 0x00 \<notin> set i \<and> i \<noteq> ''*'')"

definition check_segment :: "string \<Rightarrow> blob_error + unit" where
  "check_segment s = (if is_safe_instance_id s then Ok () else Err (UnsafeSegment s))"

definition check_owner :: "owner \<Rightarrow> blob_error + unit" where
  "check_owner ow = bind_result (check_segment (fst ow)) (\<lambda>_. check_segment (snd ow))"

definition final_path :: "owner \<Rightarrow> string \<Rightarrow> blob_path" where
  "final_path ow i = [fst ow, snd ow, i]"

definition staged_path :: "owner \<Rightarrow> string \<Rightarrow> blob_path" where
  "staged_path ow i = [fst ow, snd ow, ''.tmp'', i]"

text \<open>\<^verbatim>\<open>{:0wx}\<close>, and the identity made of the clock and the counter of the process.\<close>

definition padded_hex :: "nat \<Rightarrow> nat \<Rightarrow> string" where
  "padded_hex w n = (let s = show_hex n in replicate (w - length s) CHR ''0'' @ s)"

definition mint_id :: "nat \<Rightarrow> nat \<Rightarrow> string" where
  "mint_id now counter =
     padded_hex 13 (min (now div 1000000) u64_top) @ ''-'' @ padded_hex 8 counter @ ''-'' @ padded_hex 8 (now mod 1000000000)"

definition next_counter :: "nat \<Rightarrow> nat" where
  "next_counter c = (c + 1) mod 2 ^ 64"

section \<open>Operations\<close>

definition register_blobs :: "bool \<Rightarrow> owner \<Rightarrow> nat \<Rightarrow> blob_store \<Rightarrow> blob_store \<times> (blob_error + unit)" where
  "register_blobs io ow quota_bytes st =
     (case check_owner ow of
        Err e \<Rightarrow> (st, Err e)
      | Ok _ \<Rightarrow>
          if \<not> io then (st, Err BlobSql)
          else
            (let used = (case map_of (bs_usage st) ow of Some (used, _) \<Rightarrow> used | None \<Rightarrow> 0) in
             (st\<lparr>bs_usage := AList.update ow (used, min (int quota_bytes) i64_top) (bs_usage st)\<rparr>, Ok ())))"

definition blob_usage :: "bool \<Rightarrow> owner \<Rightarrow> blob_store \<Rightarrow> blob_error + (nat \<times> nat) option" where
  "blob_usage io ow st =
     bind_result (check_owner ow) (\<lambda>_.
       if \<not> io then Err BlobSql
       else Ok (map_option (\<lambda>(used, quota). (to_u64 used 0, to_u64 quota 0)) (map_of (bs_usage st) ow)))"

text \<open>The triggers \<^verbatim>\<open>blob_usage_insert\<close> and \<^verbatim>\<open>blob_usage_delete\<close> run with the statements.\<close>

definition delete_blob_row :: "owner \<Rightarrow> string \<Rightarrow> blob_store \<Rightarrow> blob_store" where
  "delete_blob_row ow name st =
     (case map_of (bs_rows st) (ow, name) of
        None \<Rightarrow> st
      | Some r \<Rightarrow> st\<lparr>bs_rows := AList.delete (ow, name) (bs_rows st), bs_usage := add_usage ow (- bl_size r) (bs_usage st)\<rparr>)"

definition insert_blob_row :: "owner \<Rightarrow> string \<Rightarrow> blob_row \<Rightarrow> blob_store \<Rightarrow> blob_store" where
  "insert_blob_row ow name r st =
     st\<lparr>bs_rows := AList.update (ow, name) r (bs_rows st), bs_usage := add_usage ow (bl_size r) (bs_usage st)\<rparr>"

definition id_taken :: "owner \<Rightarrow> string \<Rightarrow> blob_store \<Rightarrow> bool" where
  "id_taken ow i st = list_ex (\<lambda>((ow', _), r). ow' = ow \<and> bl_id r = i) (bs_rows st)"

text \<open>The statements of the transaction; the result is the store a commit would leave.\<close>

definition index_blob :: "bool \<Rightarrow> owner \<Rightarrow> string \<Rightarrow> blob_row \<Rightarrow> blob_store \<Rightarrow> blob_error + blob_store" where
  "index_blob io ow name r st =
     (if \<not> io then Err BlobSql
      else case map_of (bs_usage st) ow of
        None \<Rightarrow> Err (BlobUnregistered (fst ow) (snd ow))
      | Some (used, quota) \<Rightarrow>
          (let old_size = (case map_of (bs_rows st) (ow, name) of Some old \<Rightarrow> bl_size old | None \<Rightarrow> 0);
               projected = used - old_size + bl_size r;
               cleared = delete_blob_row ow name st in
           if projected > quota
           then Err (BlobQuotaExceeded (fst ow) (snd ow) (to_u64 projected u64_top) (to_u64 quota 0))
           else if id_taken ow (bl_id r) cleared then Err BlobSql
           else Ok (insert_blob_row ow name r cleared)))"

definition remove_file :: "bool \<Rightarrow> blob_path \<Rightarrow> blob_store \<Rightarrow> blob_store" where
  "remove_file io p st = (if io then st\<lparr>bs_files := AList.delete p (bs_files st)\<rparr> else st)"

definition put_file :: "blob_path \<Rightarrow> 8 word list \<Rightarrow> blob_store \<Rightarrow> blob_store" where
  "put_file p bytes st = st\<lparr>bs_files := AList.update p bytes (bs_files st)\<rparr>"

text \<open>The bytes are staged: the transaction with the rename in it, and the clean-up after it.\<close>

definition commit_blob ::
  "blob_io \<Rightarrow> owner \<Rightarrow> string \<Rightarrow> 8 word list \<Rightarrow> blob_row \<Rightarrow> blob_store \<Rightarrow> blob_store \<times> (blob_error + string)" where
  "commit_blob io ow name data r st =
     (let tmp = staged_path ow (bl_id r); dest = final_path ow (bl_id r) in
      case index_blob (bi_sql io) ow name r st of
        Err e \<Rightarrow> (remove_file (bi_unlink io) tmp st, Err e)
      | Ok indexed \<Rightarrow>
          if \<not> bi_rename io then (remove_file (bi_unlink io) tmp st, Err BlobIo)
          else
            (let renamed = (\<lambda>st. put_file dest data (remove_file True tmp st)) in
             if \<not> bi_sync io then (remove_file (bi_unlink io) tmp (renamed st), Err BlobIo)
             else if \<not> bi_commit io then (remove_file (bi_unlink io) dest (renamed st), Err BlobSql)
             else
               (case map_of (bs_rows st) (ow, name) of
                  None \<Rightarrow> (renamed indexed, Ok (bl_id r))
                | Some old \<Rightarrow> (remove_file (bi_unlink io) (final_path ow (bl_id old)) (renamed indexed), Ok (bl_id r)))))"

definition write_blob ::
  "bool \<Rightarrow> blob_io \<Rightarrow> owner \<Rightarrow> string \<Rightarrow> 8 word list \<Rightarrow> string option \<Rightarrow> blob_store \<Rightarrow> blob_store \<times> (blob_error + string)" where
  "write_blob root_set io ow name data mime st =
     (case check_owner ow of
        Err e \<Rightarrow> (st, Err e)
      | Ok _ \<Rightarrow>
          if mime_too_large mime
          then (st, Err (MimeTooLarge (length (the mime)) max_blob_mime_bytes))
          else if \<not> root_set then (st, Err BlobUnavailable)
          else
            (let i = mint_id (bi_now io) (bs_counter st);
                 st1 = st\<lparr>bs_counter := next_counter (bs_counter st)\<rparr>;
                 made = st1\<lparr>bs_dirs := List.insert (fst ow) (bs_dirs st1)\<rparr>;
                 r = \<lparr>bl_id = i, bl_size = int (length data), bl_created = min (int (bi_created io)) i64_top, bl_mime = mime\<rparr> in
             if \<not> bi_mkdir io then (if bi_made io then made else st1, Err BlobIo)
             else if \<not> bi_stage io
               then (case bi_partial io of
                       None \<Rightarrow> made
                     | Some n \<Rightarrow> put_file (staged_path ow i) (take n data) made, Err BlobIo)
             else commit_blob io ow name data r (put_file (staged_path ow i) data made)))"

record blob_info =
  bf_name :: string
  bf_id :: string
  bf_size :: nat
  bf_created :: nat
  bf_mime :: "string option"

text \<open>A row as the readers select it: a type beyond the cap is left out.\<close>

definition select_blob :: "string \<Rightarrow> blob_row \<Rightarrow> blob_info" where
  "select_blob name r =
     \<lparr>bf_name = name, bf_id = bl_id r, bf_size = to_u64 (bl_size r) 0, bf_created = to_u64 (bl_created r) 0,
      bf_mime = (case bl_mime r of Some m \<Rightarrow> if length m \<le> max_blob_mime_bytes then Some m else None | None \<Rightarrow> None)\<rparr>"

definition open_blob :: "bool \<Rightarrow> owner \<Rightarrow> string \<Rightarrow> blob_store \<Rightarrow> blob_error + 8 word list" where
  "open_blob io ow i st =
     (case map_of (bs_files st) (final_path ow i) of
        Some bytes \<Rightarrow> if io then Ok bytes else Err BlobIo
      | None \<Rightarrow> Err BlobIo)"

definition check_reader :: "bool \<Rightarrow> bool \<Rightarrow> owner \<Rightarrow> blob_error + unit" where
  "check_reader root_set sql ow =
     bind_result (check_owner ow) (\<lambda>_.
       if \<not> root_set then Err BlobUnavailable else if \<not> sql then Err BlobSql else Ok ())"

text \<open>The readers ask the index, release it, and then open the file: the two halves of \<^verbatim>\<open>read\<close> and \<^verbatim>\<open>read_by_name\<close>.\<close>

definition find_by_id :: "bool \<Rightarrow> bool \<Rightarrow> owner \<Rightarrow> string \<Rightarrow> blob_store \<Rightarrow> blob_error + string" where
  "find_by_id root_set sql ow i st =
     bind_result (check_reader root_set sql ow) (\<lambda>_. if id_taken ow i st then Ok i else Err (BlobNotFound i))"

definition find_by_name :: "bool \<Rightarrow> bool \<Rightarrow> owner \<Rightarrow> string \<Rightarrow> blob_store \<Rightarrow> blob_error + string" where
  "find_by_name root_set sql ow name st =
     bind_result (check_reader root_set sql ow) (\<lambda>_.
       case map_of (bs_rows st) (ow, name) of Some r \<Rightarrow> Ok (bl_id r) | None \<Rightarrow> Err (BlobNotFound name))"

definition read_blob :: "bool \<Rightarrow> bool \<Rightarrow> bool \<Rightarrow> owner \<Rightarrow> string \<Rightarrow> blob_store \<Rightarrow> blob_error + 8 word list" where
  "read_blob root_set sql io ow i st = bind_result (find_by_id root_set sql ow i st) (\<lambda>i. open_blob io ow i st)"

definition read_by_name :: "bool \<Rightarrow> bool \<Rightarrow> bool \<Rightarrow> owner \<Rightarrow> string \<Rightarrow> blob_store \<Rightarrow> blob_error + 8 word list" where
  "read_by_name root_set sql io ow name st = bind_result (find_by_name root_set sql ow name st) (\<lambda>i. open_blob io ow i st)"

text \<open>\<^verbatim>\<open>read_with_info\<close> opens the file before it releases the index.\<close>

definition read_with_info ::
  "bool \<Rightarrow> bool \<Rightarrow> bool \<Rightarrow> owner \<Rightarrow> string \<Rightarrow> nat option \<Rightarrow> blob_store \<Rightarrow> blob_error + blob_info \<times> 8 word list" where
  "read_with_info root_set sql io ow name size_max st =
     bind_result (check_reader root_set sql ow) (\<lambda>_.
       case map_of (bs_rows st) (ow, name) of
         None \<Rightarrow> Err (BlobNotFound name)
       | Some r \<Rightarrow>
           bind_result (open_blob io ow (bl_id r) st) (\<lambda>bytes.
             let info = select_blob name r in
             case size_max of
               Some cap \<Rightarrow> if bf_size info > cap then Err (BlobTooLarge (bf_size info) cap) else Ok (info, bytes)
             | None \<Rightarrow> Ok (info, bytes)))"

definition get_info :: "bool \<Rightarrow> owner \<Rightarrow> string \<Rightarrow> blob_store \<Rightarrow> blob_error + blob_info" where
  "get_info sql ow name st =
     bind_result (check_owner ow) (\<lambda>_.
       if \<not> sql then Err BlobSql
       else case map_of (bs_rows st) (ow, name) of None \<Rightarrow> Err (BlobNotFound name) | Some r \<Rightarrow> Ok (select_blob name r))"

definition list_blobs :: "bool \<Rightarrow> owner \<Rightarrow> string \<Rightarrow> blob_store \<Rightarrow> blob_error + blob_info list" where
  "list_blobs sql ow pre st =
     bind_result (check_owner ow) (\<lambda>_.
       if \<not> sql then Err BlobSql
       else Ok (map (\<lambda>((_, name), r). select_blob name r)
         (sort_key (\<lambda>((_, name), r). name)
           (filter (\<lambda>((ow', name), r). ow' = ow \<and> CHR 0x00 \<notin> set pre \<and> starts_with pre name) (bs_rows st)))))"

definition delete_blob :: "bool \<Rightarrow> blob_io \<Rightarrow> owner \<Rightarrow> string \<Rightarrow> blob_store \<Rightarrow> blob_store \<times> (blob_error + unit)" where
  "delete_blob root_set io ow name st =
     (case check_owner ow of
        Err e \<Rightarrow> (st, Err e)
      | Ok _ \<Rightarrow>
          if \<not> root_set then (st, Err BlobUnavailable)
          else if \<not> (bi_sql io \<and> bi_commit io) then (st, Err BlobSql)
          else
            (case map_of (bs_rows st) (ow, name) of
               None \<Rightarrow> (st, Ok ())
             | Some r \<Rightarrow> (remove_file (bi_unlink io) (final_path ow (bl_id r)) (delete_blob_row ow name st), Ok ())))"

definition purge_blobs :: "bool \<Rightarrow> blob_io \<Rightarrow> string \<Rightarrow> blob_store \<Rightarrow> blob_store \<times> (blob_error + nat)" where
  "purge_blobs root_set io uuid st =
     (case check_segment uuid of
        Err e \<Rightarrow> (st, Err e)
      | Ok _ \<Rightarrow>
          if \<not> (bi_sql io \<and> bi_commit io) then (st, Err BlobSql)
          else
            (let usage' = hm_retain (\<lambda>ow _. fst ow \<noteq> uuid) (bs_usage st);
                 rows' = hm_retain (\<lambda>(ow, _) _. fst ow \<noteq> uuid) (bs_rows st);
                 n = (length (bs_usage st) - length usage') + (length (bs_rows st) - length rows');
                 st1 = st\<lparr>bs_usage := usage', bs_rows := rows'\<rparr> in
             if \<not> root_set \<or> uuid \<notin> set (bs_dirs st) then (st1, Ok n)
             else
               (let kept = st1\<lparr>bs_files := hm_retain (\<lambda>p _. \<not> prefix [uuid] p \<or> bi_keep io [uuid] \<and> bi_keep io p) (bs_files st1)\<rparr> in
                if bi_keep io [uuid] then (kept, Err BlobIo)
                else (kept\<lparr>bs_dirs := removeAll uuid (bs_dirs kept)\<rparr>, if bi_sync io then Ok n else Err BlobIo))))"

section \<open>Runs\<close>

text \<open>A new process starts with a counter of its own.\<close>

datatype blob_op =
    RegisterBlobs bool owner nat
  | WriteBlob blob_io owner string "8 word list" "string option"
  | DeleteBlob blob_io owner string
  | PurgeBlobs blob_io string
  | StartProcess nat

fun blob_step :: "blob_op \<Rightarrow> blob_store \<Rightarrow> blob_store" where
  "blob_step (RegisterBlobs io ow q) st = fst (register_blobs io ow q st)"
| "blob_step (WriteBlob io ow name data mime) st = fst (write_blob True io ow name data mime st)"
| "blob_step (DeleteBlob io ow name) st = fst (delete_blob True io ow name st)"
| "blob_step (PurgeBlobs io uuid) st = fst (purge_blobs True io uuid st)"
| "blob_step (StartProcess seed) st = st\<lparr>bs_counter := seed\<rparr>"

definition new_blobs :: blob_store where
  "new_blobs = \<lparr>bs_rows = [], bs_usage = [], bs_files = [], bs_dirs = [], bs_counter = 0\<rparr>"

definition blob_run :: "blob_op list \<Rightarrow> blob_store" where
  "blob_run ops = fold blob_step ops new_blobs"

text \<open>The identities a run mints, in order.\<close>

fun minted_id :: "blob_op \<Rightarrow> blob_store \<Rightarrow> string option" where
  "minted_id (WriteBlob io ow name data mime) st =
     (if is_ok (check_owner ow) \<and> \<not> mime_too_large mime
      then Some (mint_id (bi_now io) (bs_counter st)) else None)"
| "minted_id _ _ = None"

fun minted_ids :: "blob_op list \<Rightarrow> blob_store \<Rightarrow> string list" where
  "minted_ids [] st = []"
| "minted_ids (op # ops) st =
     (case minted_id op st of Some i \<Rightarrow> [i] | None \<Rightarrow> []) @ minted_ids ops (blob_step op st)"

text \<open>What is stored under a name.\<close>

definition stored_blob :: "blob_store \<Rightarrow> owner \<Rightarrow> string \<Rightarrow> 8 word list option" where
  "stored_blob st ow name =
     (case map_of (bs_rows st) (ow, name) of
        None \<Rightarrow> None
      | Some r \<Rightarrow> map_of (bs_files st) (final_path ow (bl_id r)))"

end
