(* ===== verification/Blob_Claims.thy ===== *)
theory Blob_Claims
  imports Blobs
begin

text \<open>
  The blob store is a map from names to bytes: every row keeps its file, of the size it records, through any failure, and
  the usage is what the rows take.
\<close>

section \<open>What a run keeps\<close>

lemma final_path_eq [simp]: "final_path ow i = final_path ow' i' \<longleftrightarrow> ow = ow' \<and> i = i'"
  by (cases ow, cases ow') (auto simp: final_path_def)

lemma staged_not_final [simp]: "staged_path ow i \<noteq> final_path ow' i'" "final_path ow' i' \<noteq> staged_path ow i"
  by (auto simp: final_path_def staged_path_def)

lemma path_head [simp]:
  "final_path ow i \<noteq> []" "staged_path ow i \<noteq> []" "hd (final_path ow i) = fst ow" "hd (staged_path ow i) = fst ow"
  by (simp_all add: final_path_def staged_path_def)

definition blob_tables_ok :: "blob_store \<Rightarrow> bool" where
  "blob_tables_ok st = (hm_wf (bs_rows st) \<and> hm_wf (bs_usage st) \<and> hm_wf (bs_files st))"

text \<open>Every row has its file, of the recorded size.\<close>

definition rows_backed :: "string set \<Rightarrow> blob_store \<Rightarrow> bool" where
  "rows_backed us st =
     (\<forall>ow name r. map_of (bs_rows st) (ow, name) = Some r \<longrightarrow>
        bl_id r \<in> us \<and> (\<exists>bytes. map_of (bs_files st) (final_path ow (bl_id r)) = Some bytes \<and> int (length bytes) = bl_size r))"

definition ids_unique :: "blob_store \<Rightarrow> bool" where
  "ids_unique st =
     (\<forall>ow name name' r r'. map_of (bs_rows st) (ow, name) = Some r \<and> map_of (bs_rows st) (ow, name') = Some r'
        \<and> bl_id r = bl_id r' \<longrightarrow> name = name')"

definition files_minted :: "string set \<Rightarrow> blob_store \<Rightarrow> bool" where
  "files_minted us st = (\<forall>ow i. map_of (bs_files st) (final_path ow i) \<noteq> None \<longrightarrow> i \<in> us)"

definition files_in_dirs :: "blob_store \<Rightarrow> bool" where
  "files_in_dirs st = (\<forall>p. map_of (bs_files st) p \<noteq> None \<longrightarrow> p \<noteq> [] \<and> hd p \<in> set (bs_dirs st))"

definition blob_weight :: "owner \<Rightarrow> owner \<times> string \<Rightarrow> blob_row \<Rightarrow> int" where
  "blob_weight ow key r = (if fst key = ow then bl_size r else 0)"

definition blob_bytes :: "blob_store \<Rightarrow> owner \<Rightarrow> int" where
  "blob_bytes st ow = entry_sum (blob_weight ow) (bs_rows st)"

definition blob_accounted :: "blob_store \<Rightarrow> owner \<Rightarrow> bool" where
  "blob_accounted st ow =
     (case map_of (bs_usage st) ow of
        Some (used, quota) \<Rightarrow> used = blob_bytes st ow
      | None \<Rightarrow> \<forall>name. map_of (bs_rows st) (ow, name) = None)"

definition blob_inv :: "string set \<Rightarrow> blob_store \<Rightarrow> bool" where
  "blob_inv us st \<longleftrightarrow>
     blob_tables_ok st \<and> rows_backed us st \<and> ids_unique st \<and> files_minted us st \<and> files_in_dirs st \<and> All (blob_accounted st)"

lemmas blob_inv_defs = blob_inv_def blob_tables_ok_def rows_backed_def ids_unique_def files_minted_def files_in_dirs_def

lemma remove_file_sel [simp]:
  "bs_rows (remove_file io p st) = bs_rows st" "bs_usage (remove_file io p st) = bs_usage st"
  "bs_dirs (remove_file io p st) = bs_dirs st" "bs_counter (remove_file io p st) = bs_counter st"
  "map_of (bs_files (remove_file io p st)) = (if io then (map_of (bs_files st))(p := None) else map_of (bs_files st))"
  "hm_wf (bs_files st) \<Longrightarrow> hm_wf (bs_files (remove_file io p st))"
  by (simp_all add: remove_file_def delete_conv' hm_wf_drop)

lemma put_file_sel [simp]:
  "bs_rows (put_file p b st) = bs_rows st" "bs_usage (put_file p b st) = bs_usage st"
  "bs_dirs (put_file p b st) = bs_dirs st" "bs_counter (put_file p b st) = bs_counter st"
  "map_of (bs_files (put_file p b st)) = (map_of (bs_files st))(p \<mapsto> b)"
  "hm_wf (bs_files st) \<Longrightarrow> hm_wf (bs_files (put_file p b st))"
  by (simp_all add: put_file_def update_conv' hm_wf_put)

text \<open>A store that differs in files outside the given ones only.\<close>

definition same_blobs :: "owner \<Rightarrow> string \<Rightarrow> blob_store \<Rightarrow> blob_store \<Rightarrow> bool" where
  "same_blobs ow i st st' \<longleftrightarrow>
     bs_rows st' = bs_rows st \<and> bs_usage st' = bs_usage st
     \<and> (hm_wf (bs_files st) \<longrightarrow> hm_wf (bs_files st'))
     \<and> (\<forall>ow' i'. (ow', i') \<noteq> (ow, i) \<longrightarrow> map_of (bs_files st') (final_path ow' i') = map_of (bs_files st) (final_path ow' i'))
     \<and> set (bs_dirs st) \<subseteq> set (bs_dirs st')
     \<and> (\<forall>p. map_of (bs_files st') p \<noteq> None \<longrightarrow> map_of (bs_files st) p \<noteq> None \<or> p \<noteq> [] \<and> hd p = fst ow \<and> fst ow \<in> set (bs_dirs st'))"

lemma index_blob_Ok:
  assumes "index_blob io ow name r st = Ok st'"
  shows "st' = insert_blob_row ow name r (delete_blob_row ow name st)" and "\<not> id_taken ow (bl_id r) (delete_blob_row ow name st)"
    and "\<exists>used quota. map_of (bs_usage st) ow = Some (used, quota)
      \<and> used - (case map_of (bs_rows st) (ow, name) of Some old \<Rightarrow> bl_size old | None \<Rightarrow> 0) + bl_size r \<le> quota"
  using assms by (auto simp: index_blob_def Let_def split: if_splits option.splits)

lemma index_blob_ok_iff:
  "is_ok (index_blob io ow name r st) \<longleftrightarrow> io \<and> \<not> id_taken ow (bl_id r) (delete_blob_row ow name st)
    \<and> (\<exists>used quota. map_of (bs_usage st) ow = Some (used, quota)
      \<and> used - (case map_of (bs_rows st) (ow, name) of Some old \<Rightarrow> bl_size old | None \<Rightarrow> 0) + bl_size r \<le> quota)"
  by (auto simp: index_blob_def Let_def split: option.split if_split)

lemma write_cases:
  assumes "write_blob root_set io ow name data mime st = (st', res)"
  defines "i \<equiv> mint_id (bi_now io) (bs_counter st)"
  obtains (refused) e where "st' = st" and "res = Err e"
  | (failed) e where "res = Err e" and "same_blobs ow i st st'" and "is_ok (check_owner ow)"
      and "\<not> mime_too_large mime"
  | (written) st1 indexed r where "res = Ok i" and "bl_id r = i" and "bl_size r = int (length data)"
      and "st1 = put_file (staged_path ow i) data (st\<lparr>bs_counter := next_counter (bs_counter st), bs_dirs := List.insert (fst ow) (bs_dirs st)\<rparr>)"
      and "index_blob True ow name r st1 = Ok indexed" and "is_ok (check_owner ow)"
      and "\<not> mime_too_large mime"
      and "st' = (case map_of (bs_rows st) (ow, name) of
          None \<Rightarrow> put_file (final_path ow i) data (remove_file True (staged_path ow i) indexed)
        | Some old \<Rightarrow> remove_file (bi_unlink io) (final_path ow (bl_id old))
            (put_file (final_path ow i) data (remove_file True (staged_path ow i) indexed)))"
proof (cases "is_ok (check_owner ow) \<and> \<not> mime_too_large mime \<and> root_set")
  case False
  with assms that(1) show ?thesis by (auto simp: write_blob_def split: sum.splits if_splits)
next
  case True
  let ?st0 = "st\<lparr>bs_counter := next_counter (bs_counter st)\<rparr>"
  let ?made = "st\<lparr>bs_counter := next_counter (bs_counter st), bs_dirs := List.insert (fst ow) (bs_dirs st)\<rparr>"
  let ?st1 = "put_file (staged_path ow i) data ?made"
  let ?r = "\<lparr>bl_id = i, bl_size = int (length data), bl_created = min (int (bi_created io)) i64_top, bl_mime = mime\<rparr>"
  have kept: "same_blobs ow i st ?st0" "same_blobs ow i st ?made" "same_blobs ow i st (put_file (staged_path ow i) b ?made)" for b
    by (auto simp: same_blobs_def)
  show ?thesis
  proof (cases "bi_mkdir io \<and> bi_stage io")
    case False
    with True assms kept that(2) show ?thesis
      by (auto simp: write_blob_def Let_def i_def [symmetric] split: if_splits option.splits sum.splits)
  next
    case staged: True
    with True assms have run: "commit_blob io ow name data ?r ?st1 = (st', res)"
      by (auto simp: write_blob_def Let_def i_def [symmetric] split: sum.splits)
    have rm: "same_blobs ow i st (remove_file io' (staged_path ow i) ?st1)" for io'
      by (auto simp: same_blobs_def)
    let ?renamed = "put_file (final_path ow i) data (remove_file True (staged_path ow i) ?st1)"
    have ren: "same_blobs ow i st (remove_file io' (staged_path ow i) ?renamed)" "same_blobs ow i st (remove_file io' (final_path ow i) ?renamed)" for io'
      by (auto simp: same_blobs_def)
    show ?thesis
    proof (cases "index_blob (bi_sql io) ow name ?r ?st1")
      case (Inl e)
      with run rm True that(2) show ?thesis by (auto simp: commit_blob_def Let_def)
    next
      case (Inr indexed)
      show ?thesis
      proof (cases "bi_rename io \<and> bi_sync io \<and> bi_commit io")
        case False
        with run Inr rm ren True that(2) show ?thesis by (auto simp: commit_blob_def Let_def split: if_splits)
      next
        case fin: True
        from Inr have sql: "bi_sql io" by (auto simp: index_blob_def split: if_splits)
        with run Inr fin have "res = Ok i" and "st' = (case map_of (bs_rows st) (ow, name) of
            None \<Rightarrow> put_file (final_path ow i) data (remove_file True (staged_path ow i) indexed)
          | Some old \<Rightarrow> remove_file (bi_unlink io) (final_path ow (bl_id old))
              (put_file (final_path ow i) data (remove_file True (staged_path ow i) indexed)))"
          by (auto simp: commit_blob_def Let_def split: option.splits)
        with Inr sql True that(3) [of ?r ?st1 indexed] show ?thesis by simp
      qed
    qed
  qed
qed

lemma same_blobsD:
  assumes "same_blobs ow i st st'"
  shows "bs_rows st' = bs_rows st" and "bs_usage st' = bs_usage st"
    and "(ow', i') \<noteq> (ow, i) \<Longrightarrow> map_of (bs_files st') (final_path ow' i') = map_of (bs_files st) (final_path ow' i')"
  using assms unfolding same_blobs_def by blast+

lemma blob_accounted_same:
  "bs_rows st' = bs_rows st \<Longrightarrow> bs_usage st' = bs_usage st \<Longrightarrow> blob_accounted st' ow = blob_accounted st ow"
proof -
  assume rows: "bs_rows st' = bs_rows st" and usage: "bs_usage st' = bs_usage st"
  show ?thesis unfolding blob_accounted_def blob_bytes_def rows usage ..
qed

lemma stored_blob_cong: "bs_rows st' = bs_rows st \<Longrightarrow> bs_files st' = bs_files st \<Longrightarrow> stored_blob st' = stored_blob st"
  by (auto simp: stored_blob_def fun_eq_iff split: option.split)

lemma id_taken_iff: "hm_wf (bs_rows st) \<Longrightarrow> id_taken ow i st \<longleftrightarrow> (\<exists>n r. map_of (bs_rows st) (ow, n) = Some r \<and> bl_id r = i)"
proof -
  assume wf: "hm_wf (bs_rows st)"
  have "id_taken ow i st \<longleftrightarrow> (\<exists>n r. ((ow, n), r) \<in> set (bs_rows st) \<and> bl_id r = i)"
    unfolding id_taken_def list_ex_iff by (auto simp: case_prod_unfold intro!: bexI) (metis prod.collapse)
  then show ?thesis by (simp add: hm_entry_iff [OF wf])
qed

lemma blob_inv_accounted: "blob_inv us st \<Longrightarrow> blob_accounted st ow"
  unfolding blob_inv_def by blast

lemma blob_inv_row:
  "blob_inv us st \<Longrightarrow> map_of (bs_rows st) (ow, name) = Some r \<Longrightarrow>
   bl_id r \<in> us \<and> (\<exists>bytes. map_of (bs_files st) (final_path ow (bl_id r)) = Some bytes \<and> int (length bytes) = bl_size r)"
  unfolding blob_inv_def rows_backed_def by blast

lemma blob_inv_unique:
  "blob_inv us st \<Longrightarrow> map_of (bs_rows st) (ow, n) = Some r \<Longrightarrow> map_of (bs_rows st) (ow, n') = Some r' \<Longrightarrow> bl_id r = bl_id r' \<Longrightarrow> n = n'"
  unfolding blob_inv_def ids_unique_def by blast

lemma stored_blob_same:
  assumes "blob_inv us st" and "same_blobs ow i st st'" and "i \<notin> us"
  shows "stored_blob st' = stored_blob st"
proof (intro ext)
  fix ow' name
  show "stored_blob st' ow' name = stored_blob st ow' name"
  proof (cases "map_of (bs_rows st) (ow', name)")
    case None
    with assms(2) show ?thesis by (simp add: stored_blob_def same_blobs_def)
  next
    case (Some r)
    with blob_inv_row [OF assms(1)] have "bl_id r \<in> us" by blast
    with assms(3) have "(ow', bl_id r) \<noteq> (ow, i)" by auto
    from same_blobsD [OF assms(2)] same_blobsD(3) [OF assms(2) this] Some show ?thesis by (simp add: stored_blob_def)
  qed
qed

lemma same_blobs_inv:
  assumes inv: "blob_inv us st" and same: "same_blobs ow i st st'" and fresh: "i \<notin> us"
  shows "blob_inv (insert i us) st'"
  unfolding blob_inv_def
proof (intro conjI allI)
  from same have rows: "bs_rows st' = bs_rows st" "bs_usage st' = bs_usage st" by (simp_all add: same_blobs_def)
  note files = same_blobsD(3) [OF same]
  show "blob_tables_ok st'" using inv same by (auto simp: blob_inv_def blob_tables_ok_def same_blobs_def)
  show "rows_backed (insert i us) st'"
    unfolding rows_backed_def
  proof (intro allI impI)
    fix ow' name r
    assume r: "map_of (bs_rows st') (ow', name) = Some r"
    with blob_inv_row [OF inv] rows obtain bytes where "bl_id r \<in> us" "map_of (bs_files st) (final_path ow' (bl_id r)) = Some bytes"
      "int (length bytes) = bl_size r" by metis
    moreover from this fresh have "(ow', bl_id r) \<noteq> (ow, i)" by auto
    ultimately show "bl_id r \<in> insert i us \<and> (\<exists>bytes. map_of (bs_files st') (final_path ow' (bl_id r)) = Some bytes \<and> int (length bytes) = bl_size r)"
      using files by simp
  qed
  show "ids_unique st'" using inv rows by (simp add: blob_inv_def ids_unique_def)
  show "files_minted (insert i us) st'" using inv files unfolding blob_inv_def files_minted_def by (metis insert_iff prod.inject)
  show "files_in_dirs st'" using inv same unfolding blob_inv_def files_in_dirs_def same_blobs_def by (metis subsetD)
  fix ow'
  show "blob_accounted st' ow'" using blob_inv_accounted [OF inv] blob_accounted_same [OF rows] by simp
qed

text \<open>The accounting of the two statements.\<close>

lemma delete_blob_row_sel:
  "map_of (bs_rows (delete_blob_row ow name st)) = (map_of (bs_rows st))((ow, name) := None)"
  "bs_files (delete_blob_row ow name st) = bs_files st" "bs_dirs (delete_blob_row ow name st) = bs_dirs st"
  "hm_wf (bs_rows st) \<Longrightarrow> hm_wf (bs_rows (delete_blob_row ow name st))"
  "hm_wf (bs_usage st) \<Longrightarrow> hm_wf (bs_usage (delete_blob_row ow name st))"
  "map_of (bs_usage st) ow' \<noteq> None \<Longrightarrow> hm_wf (bs_usage st) \<Longrightarrow> map_of (bs_usage (delete_blob_row ow name st)) ow' \<noteq> None"
  by (auto simp: delete_blob_row_def delete_conv' hm_wf_drop add_usage_find fun_eq_iff split: option.split)

lemma delete_blob_row_accounted:
  assumes wf: "hm_wf (bs_rows st)" "hm_wf (bs_usage st)" and acc: "\<And>ow. blob_accounted st ow"
  shows "blob_accounted (delete_blob_row ow name st) ow'"
proof (cases "map_of (bs_rows st) (ow, name)")
  case None
  with acc show ?thesis by (simp add: delete_blob_row_def)
next
  case (Some r)
  have sum: "blob_bytes (delete_blob_row ow name st) ow' = blob_bytes st ow' - (if ow' = ow then bl_size r else 0)"
    using wf Some by (simp add: blob_bytes_def delete_blob_row_def entry_sum_drop blob_weight_def)
  from acc [of ow'] wf Some show ?thesis unfolding blob_accounted_def sum
    by (cases "map_of (bs_usage st) ow'") (auto simp: delete_blob_row_def add_usage_find delete_conv')
qed

lemma insert_blob_row_accounted:
  assumes wf: "hm_wf (bs_rows st)" "hm_wf (bs_usage st)" and acc: "\<And>ow. blob_accounted st ow"
    and new: "map_of (bs_rows st) (ow, name) = None" and reg: "map_of (bs_usage st) ow \<noteq> None"
  shows "blob_accounted (insert_blob_row ow name r st) ow'"
proof -
  have sum: "blob_bytes (insert_blob_row ow name r st) ow' = blob_bytes st ow' + (if ow' = ow then bl_size r else 0)"
    using wf new by (simp add: blob_bytes_def insert_blob_row_def entry_sum_put blob_weight_def)
  from acc [of ow'] wf reg show ?thesis unfolding blob_accounted_def sum
    by (cases "map_of (bs_usage st) ow'") (auto simp: insert_blob_row_def add_usage_find update_conv')
qed

lemma written_inv:
  assumes inv: "blob_inv us st" and fresh: "i \<notin> us" and r: "bl_id r = i" "bl_size r = int (length data)"
    and st1: "st1 = put_file (staged_path ow i) data (st\<lparr>bs_counter := c, bs_dirs := List.insert (fst ow) (bs_dirs st)\<rparr>)"
    and idx: "index_blob True ow name r st1 = Ok indexed"
    and st': "st' = (case map_of (bs_rows st) (ow, name) of
          None \<Rightarrow> put_file (final_path ow i) data (remove_file True (staged_path ow i) indexed)
        | Some old \<Rightarrow> remove_file io (final_path ow (bl_id old))
            (put_file (final_path ow i) data (remove_file True (staged_path ow i) indexed)))"
  shows "blob_inv (insert i us) st'" and "stored_blob st' ow' name' = (if ow' = ow \<and> name' = name then Some data else stored_blob st ow' name')"
proof -
  have wf: "hm_wf (bs_rows st1)" "hm_wf (bs_usage st1)" "hm_wf (bs_files st)" using inv st1 by (simp_all add: blob_inv_def blob_tables_ok_def)
  let ?cleared = "delete_blob_row ow name st1"
  note index_blob_Ok [OF idx]
  then have indexed: "indexed = insert_blob_row ow name r ?cleared" and reg: "map_of (bs_usage st1) ow \<noteq> None" by auto
  have rows: "map_of (bs_rows st') = (map_of (bs_rows st))((ow, name) \<mapsto> r)"
    using st' st1 indexed by (auto simp: insert_blob_row_def delete_blob_row_sel update_conv' split: option.split)
  have files: "map_of (bs_files st') p = (if p = final_path ow i then Some data
      else if p = staged_path ow i \<or> io \<and> (\<exists>old. map_of (bs_rows st) (ow, name) = Some old \<and> p = final_path ow (bl_id old)) then None
      else map_of (bs_files st) p)" for p
  proof (cases "map_of (bs_rows st) (ow, name)")
    case None
    with st' st1 indexed show ?thesis by (simp add: insert_blob_row_def delete_blob_row_sel)
  next
    case (Some old)
    with blob_inv_row [OF inv Some] fresh have "bl_id old \<noteq> i" by auto
    with Some st' st1 indexed show ?thesis by (simp add: insert_blob_row_def delete_blob_row_sel)
  qed
  have other: "map_of (bs_files st') (final_path ow2 (bl_id r2)) = map_of (bs_files st) (final_path ow2 (bl_id r2))"
    if r2: "map_of (bs_rows st) (ow2, n2) = Some r2" and "(ow2, n2) \<noteq> (ow, name)" for ow2 n2 r2
  proof -
    from blob_inv_row [OF inv r2] fresh have "bl_id r2 \<noteq> i" by auto
    moreover have "\<not> (ow2 = ow \<and> bl_id r2 = bl_id old)" if "map_of (bs_rows st) (ow, name) = Some old" for old
      using blob_inv_unique [OF inv] r2 that \<open>(ow2, n2) \<noteq> (ow, name)\<close> by blast
    ultimately show ?thesis by (auto simp: files)
  qed
  show "stored_blob st' ow' name' = (if ow' = ow \<and> name' = name then Some data else stored_blob st ow' name')"
    using other [of ow' name'] r by (auto simp: stored_blob_def rows files split: option.split)
  show "blob_inv (insert i us) st'"
    unfolding blob_inv_def
  proof (intro conjI allI)
    show "blob_tables_ok st'" using wf st' st1 indexed
      by (auto simp: blob_tables_ok_def insert_blob_row_def delete_blob_row_sel hm_wf_put split: option.split)
    show "rows_backed (insert i us) st'"
      unfolding rows_backed_def
    proof (intro allI impI)
      fix ow2 n2 r2
      assume r2: "map_of (bs_rows st') (ow2, n2) = Some r2"
      show "bl_id r2 \<in> insert i us \<and> (\<exists>bytes. map_of (bs_files st') (final_path ow2 (bl_id r2)) = Some bytes \<and> int (length bytes) = bl_size r2)"
      proof (cases "(ow2, n2) = (ow, name)")
        case True
        with r2 r rows show ?thesis by (simp add: files)
      next
        case False
        with r2 rows have "map_of (bs_rows st) (ow2, n2) = Some r2" by (simp split: if_splits)
        with other [OF this False] blob_inv_row [OF inv this] show ?thesis by simp
      qed
    qed
    show "ids_unique st'"
      unfolding ids_unique_def
    proof (intro allI impI, elim conjE)
      fix ow2 n2 n3 r2 r3
      assume "map_of (bs_rows st') (ow2, n2) = Some r2" "map_of (bs_rows st') (ow2, n3) = Some r3" and same: "bl_id r2 = bl_id r3"
      then have new: "(ow2, n2) = (ow, name) \<and> r2 = r \<or> map_of (bs_rows st) (ow2, n2) = Some r2"
        "(ow2, n3) = (ow, name) \<and> r3 = r \<or> map_of (bs_rows st) (ow2, n3) = Some r3" by (auto simp: rows split: if_splits)
      have "bl_id x \<noteq> bl_id r" if "map_of (bs_rows st) (ow2, n) = Some x" for n x
        using blob_inv_row [OF inv that] fresh r(1) by auto
      with new same show "n2 = n3" using blob_inv_unique [OF inv] by (metis prod.inject)
    qed
    show "files_minted (insert i us) st'" using inv by (auto simp: blob_inv_def files_minted_def files split: if_splits)
    have "set (bs_dirs st') = insert (fst ow) (set (bs_dirs st))"
      using st' st1 indexed by (auto simp: insert_blob_row_def delete_blob_row_sel split: option.splits)
    with inv show "files_in_dirs st'" by (auto simp: blob_inv_def files_in_dirs_def files split: if_splits)
    fix ow2
    have same: "blob_accounted st1 ow3" for ow3
      using blob_inv_accounted [OF inv] blob_accounted_same [of st1 st ow3] st1 by simp
    have "blob_accounted indexed ow2" unfolding indexed
      by (rule insert_blob_row_accounted)
        (use wf reg in \<open>simp_all add: delete_blob_row_sel delete_blob_row_accounted [OF wf(1,2) same]\<close>)
    then show "blob_accounted st' ow2" using st' blob_accounted_same [of st' indexed ow2] by (auto split: option.splits)
  qed
qed

lemma deleted_inv:
  assumes inv: "blob_inv us st" and r: "map_of (bs_rows st) (ow, name) = Some r"
    and st': "st' = remove_file io (final_path ow (bl_id r)) (delete_blob_row ow name st)"
  shows "blob_inv us st'" and "stored_blob st' ow' name' = (if ow' = ow \<and> name' = name then None else stored_blob st ow' name')"
proof -
  have wf: "hm_wf (bs_rows st)" "hm_wf (bs_usage st)" "hm_wf (bs_files st)" using inv by (simp_all add: blob_inv_def blob_tables_ok_def)
  have rows: "map_of (bs_rows st') = (map_of (bs_rows st))((ow, name) := None)" by (simp add: st' delete_blob_row_sel)
  have files: "map_of (bs_files st') p = (if io \<and> p = final_path ow (bl_id r) then None else map_of (bs_files st) p)" for p
    by (simp add: st' delete_blob_row_sel)
  have other: "map_of (bs_files st') (final_path ow2 (bl_id r2)) = map_of (bs_files st) (final_path ow2 (bl_id r2))"
    if "map_of (bs_rows st') (ow2, n2) = Some r2" for ow2 n2 r2
    using that blob_inv_unique [OF inv _ r, of n2 r2] by (auto simp: rows files split: if_splits)
  have old: "map_of (bs_rows st) (ow2, n2) = Some r2" if "map_of (bs_rows st') (ow2, n2) = Some r2" for ow2 n2 r2
    using that by (simp add: rows split: if_splits)
  show "stored_blob st' ow' name' = (if ow' = ow \<and> name' = name then None else stored_blob st ow' name')"
    using other [of ow' name'] by (auto simp: stored_blob_def rows split: option.split)
  show "blob_inv us st'"
    unfolding blob_inv_def
  proof (intro conjI allI)
    show "blob_tables_ok st'" using wf by (simp add: blob_tables_ok_def st' delete_blob_row_sel)
    show "rows_backed us st'" unfolding rows_backed_def using other old blob_inv_row [OF inv] by metis
    show "ids_unique st'" unfolding ids_unique_def using old blob_inv_unique [OF inv] by blast
    show "files_minted us st'" using inv by (auto simp: blob_inv_def files_minted_def files)
    show "files_in_dirs st'" using inv by (auto simp: blob_inv_def files_in_dirs_def files st' delete_blob_row_sel)
    fix ow2
    have "blob_accounted (delete_blob_row ow name st) ow2"
      by (rule delete_blob_row_accounted [OF wf(1,2)]) (rule blob_inv_accounted [OF inv])
    then show "blob_accounted st' ow2" using blob_accounted_same [of st' "delete_blob_row ow name st"] by (simp add: st')
  qed
qed

lemma prefix_installation: "prefix [uuid] (final_path ow i) \<longleftrightarrow> fst ow = uuid"
  by (auto simp: final_path_def prefix_def)

lemma blob_bytes_retained:
  "fst ow \<noteq> uuid \<Longrightarrow> entry_sum (blob_weight ow) (hm_retain (\<lambda>(ow, _) _. fst ow \<noteq> uuid) m) = entry_sum (blob_weight ow) m"
  by (rule entry_sum_retain) (auto simp: blob_weight_def split: if_splits)

lemma purged_inv:
  assumes inv: "blob_inv us st" and run: "purge_blobs root_set io uuid st = (st', res)"
    and went: "is_ok (check_segment uuid)" "bi_sql io \<and> bi_commit io"
  shows "blob_inv us st'" and "stored_blob st' ow name = (if fst ow = uuid then None else stored_blob st ow name)"
    and "is_ok res \<Longrightarrow> root_set \<Longrightarrow> map_of (bs_files st') (uuid # p) = None"
proof -
  have wf: "hm_wf (bs_rows st)" "hm_wf (bs_usage st)" "hm_wf (bs_files st)" using inv by (simp_all add: blob_inv_def blob_tables_ok_def)
  from run went have st': "bs_rows st' = hm_retain (\<lambda>(ow, _) _. fst ow \<noteq> uuid) (bs_rows st)"
    "bs_usage st' = hm_retain (\<lambda>ow _. fst ow \<noteq> uuid) (bs_usage st)"
    "bs_files st' = (if root_set \<and> uuid \<in> set (bs_dirs st)
      then hm_retain (\<lambda>p _. \<not> prefix [uuid] p \<or> bi_keep io [uuid] \<and> bi_keep io p) (bs_files st) else bs_files st)"
    "bs_dirs st' = (if root_set \<and> uuid \<in> set (bs_dirs st) \<and> \<not> bi_keep io [uuid] then removeAll uuid (bs_dirs st) else bs_dirs st)"
    and ok: "is_ok res \<Longrightarrow> root_set \<Longrightarrow> uuid \<in> set (bs_dirs st) \<Longrightarrow> \<not> bi_keep io [uuid]"
    by (auto simp: purge_blobs_def Let_def split: sum.splits if_splits)
  have rows: "map_of (bs_rows st') (ow, n) = (if fst ow = uuid then None else map_of (bs_rows st) (ow, n))" for ow n
    using wf by (simp add: st' map_of_retain split: option.split)
  have files: "map_of (bs_files st') p = (if root_set \<and> uuid \<in> set (bs_dirs st) \<and> prefix [uuid] p \<and> \<not> (bi_keep io [uuid] \<and> bi_keep io p)
      then None else map_of (bs_files st) p)" for p
    using wf by (simp add: st' map_of_retain split: option.split)
  have kept: "map_of (bs_files st') (final_path ow i) = map_of (bs_files st) (final_path ow i)" if "fst ow \<noteq> uuid" for ow i
    using that by (simp add: files prefix_installation)
  show "stored_blob st' ow name = (if fst ow = uuid then None else stored_blob st ow name)"
    using kept [of ow] by (auto simp: stored_blob_def rows split: option.split)
  have dirs: "files_in_dirs st'"
    unfolding files_in_dirs_def
  proof (intro allI impI)
    fix p
    assume p: "map_of (bs_files st') p \<noteq> None"
    then have "map_of (bs_files st) p \<noteq> None" by (auto simp: files split: if_splits)
    with inv have head: "p \<noteq> []" "hd p \<in> set (bs_dirs st)" unfolding blob_inv_def files_in_dirs_def by blast+
    then have "prefix [uuid] p \<longleftrightarrow> hd p = uuid" by (cases p) auto
    with p head show "p \<noteq> [] \<and> hd p \<in> set (bs_dirs st')" by (auto simp: files st'(4) split: if_splits)
  qed
  show "map_of (bs_files st') (uuid # p) = None" if "is_ok res" "root_set"
  proof (cases "uuid \<in> set (bs_dirs st)")
    case True
    with ok that show ?thesis by (simp add: files)
  next
    case False
    with inv have "map_of (bs_files st) (uuid # p) = None" unfolding blob_inv_def files_in_dirs_def by force
    then show ?thesis by (simp add: files)
  qed
  show "blob_inv us st'"
    unfolding blob_inv_def
  proof (intro conjI allI dirs)
    show "blob_tables_ok st'" using wf by (simp add: blob_tables_ok_def st' hm_wf_retain)
    show "rows_backed us st'" unfolding rows_backed_def
      using blob_inv_row [OF inv] by (simp add: rows kept split: if_splits)
    show "ids_unique st'" unfolding ids_unique_def using blob_inv_unique [OF inv] by (simp add: rows split: if_splits) blast
    show "files_minted us st'" using inv by (auto simp: blob_inv_def files_minted_def files split: if_splits)
    fix ow
    show "blob_accounted st' ow"
    proof (cases "fst ow = uuid")
      case True
      with wf show ?thesis by (simp add: blob_accounted_def rows st'(2) map_of_retain split: option.split)
    next
      case False
      with wf have "map_of (bs_usage st') ow = map_of (bs_usage st) ow" by (simp add: st'(2) map_of_retain split: option.split)
      moreover from False have "blob_bytes st' ow = blob_bytes st ow" by (simp add: blob_bytes_def st'(1) blob_bytes_retained)
      ultimately show ?thesis using False blob_inv_accounted [OF inv, of ow] by (simp add: blob_accounted_def rows case_prod_unfold split: option.split_asm)
    qed
  qed
qed

lemma registered_inv:
  assumes inv: "blob_inv us st"
  shows "blob_inv us (fst (register_blobs io ow q st))"
proof (cases "is_ok (check_owner ow) \<and> io")
  case True
  let ?st = "fst (register_blobs io ow q st)"
  have wf: "hm_wf (bs_rows st)" "hm_wf (bs_usage st)" using inv by (simp_all add: blob_inv_def blob_tables_ok_def)
  have st': "bs_rows ?st = bs_rows st" "bs_files ?st = bs_files st" "bs_dirs ?st = bs_dirs st"
    "bs_usage ?st = AList.update ow (case map_of (bs_usage st) ow of Some (used, _) \<Rightarrow> used | None \<Rightarrow> 0, min (int q) i64_top) (bs_usage st)"
    using True by (auto simp: register_blobs_def Let_def split: sum.split)
  have zero: "blob_bytes st ow = 0" if "\<forall>name. map_of (bs_rows st) (ow, name) = None"
    unfolding blob_bytes_def using that wf by (intro entry_sum_zero) (auto simp: blob_weight_def hm_entry_iff)
  have "blob_accounted ?st ow'" for ow'
    using blob_inv_accounted [OF inv, of ow'] zero
    by (auto simp: blob_accounted_def blob_bytes_def st' update_conv' split: option.splits)
  moreover have "hm_wf (bs_usage ?st)" using wf by (simp add: st' hm_wf_put)
  ultimately show ?thesis using inv
    by (simp add: blob_inv_def blob_tables_ok_def rows_backed_def ids_unique_def files_minted_def files_in_dirs_def st')
next
  case False
  with inv show ?thesis by (auto simp: register_blobs_def split: sum.splits)
qed

section \<open>Runs\<close>

lemma write_inv:
  assumes inv: "blob_inv us st" and fresh: "mint_id (bi_now io) (bs_counter st) \<notin> us"
    and run: "write_blob root_set io ow name data mime st = (st', res)"
  shows "blob_inv (us \<union> set (case minted_id (WriteBlob io ow name data mime) st of Some i \<Rightarrow> [i] | None \<Rightarrow> [])) st'"
    and "stored_blob st' ow' name' = (if is_ok res \<and> ow' = ow \<and> name' = name then Some data else stored_blob st ow' name')"
proof -
  have goal: "blob_inv (us \<union> set (case minted_id (WriteBlob io ow name data mime) st of Some i \<Rightarrow> [i] | None \<Rightarrow> [])) st'
    \<and> stored_blob st' ow' name' = (if is_ok res \<and> ow' = ow \<and> name' = name then Some data else stored_blob st ow' name')"
    using run
  proof (cases rule: write_cases)
    case (refused e)
    have "blob_inv (us \<union> X) st" for X
      using inv by (auto simp: blob_inv_def rows_backed_def files_minted_def)
    with refused show ?thesis by simp
  next
    case (failed e)
    with same_blobs_inv [OF inv failed(2) fresh] stored_blob_same [OF inv failed(2) fresh] show ?thesis by simp
  next
    case (written st1 indexed r)
    from written_inv [OF inv fresh written(2,3,4,5,8)] written(1,6,7) show ?thesis by simp
  qed
  then show "blob_inv (us \<union> set (case minted_id (WriteBlob io ow name data mime) st of Some i \<Rightarrow> [i] | None \<Rightarrow> [])) st'"
    and "stored_blob st' ow' name' = (if is_ok res \<and> ow' = ow \<and> name' = name then Some data else stored_blob st ow' name')"
    by blast+
qed

type_synonym blob_contents = "owner \<Rightarrow> string \<Rightarrow> 8 word list option"

text \<open>What an operation does to the stored blobs: all or nothing, by its result.\<close>

fun blob_effect :: "blob_op \<Rightarrow> blob_store \<Rightarrow> blob_contents \<Rightarrow> blob_contents" where
  "blob_effect (WriteBlob io ow name data mime) st c =
     (if is_ok (snd (write_blob True io ow name data mime st)) then c(ow := (c ow)(name \<mapsto> data)) else c)"
| "blob_effect (DeleteBlob io ow name) st c =
     (if is_ok (snd (delete_blob True io ow name st)) then c(ow := (c ow)(name := None)) else c)"
| "blob_effect (PurgeBlobs io uuid) st c =
     (if snd (purge_blobs True io uuid st) \<in> {Err BlobSql, Err (UnsafeSegment uuid)} then c
      else (\<lambda>ow. if fst ow = uuid then (\<lambda>_. None) else c ow))"
| "blob_effect _ st c = c"

fun blob_history :: "blob_op list \<Rightarrow> blob_store \<Rightarrow> blob_contents \<Rightarrow> blob_contents" where
  "blob_history [] st c = c"
| "blob_history (op # ops) st c = blob_history ops (blob_step op st) (blob_effect op st c)"

lemma blob_step_inv:
  assumes inv: "blob_inv us st" and fresh: "\<And>i. minted_id op st = Some i \<Longrightarrow> i \<notin> us"
  shows "blob_inv (us \<union> set (case minted_id op st of Some i \<Rightarrow> [i] | None \<Rightarrow> [])) (blob_step op st)"
    and "stored_blob (blob_step op st) = blob_effect op st (stored_blob st)"
proof -
  have "blob_inv (us \<union> set (case minted_id op st of Some i \<Rightarrow> [i] | None \<Rightarrow> [])) (blob_step op st)
    \<and> stored_blob (blob_step op st) = blob_effect op st (stored_blob st)"
  proof (cases op)
    case (RegisterBlobs io ow q)
    have "bs_rows (fst (register_blobs io ow q st)) = bs_rows st" "bs_files (fst (register_blobs io ow q st)) = bs_files st"
      by (auto simp: register_blobs_def Let_def split: sum.split)
    then have "stored_blob (fst (register_blobs io ow q st)) = stored_blob st" by (rule stored_blob_cong)
    with RegisterBlobs registered_inv [OF inv] show ?thesis by simp
  next
    case (WriteBlob io ow name data mime)
    obtain st' res where run: "write_blob True io ow name data mime st = (st', res)" by fastforce
    show ?thesis
    proof (cases "minted_id op st")
      case None
      with run WriteBlob have "st' = st \<and> \<not> is_ok res" by (auto simp: write_blob_def split: sum.splits if_splits)
      with inv None WriteBlob run show ?thesis by simp
    next
      case (Some i)
      with WriteBlob have "i = mint_id (bi_now io) (bs_counter st)" by (simp split: if_splits)
      with fresh Some have "mint_id (bi_now io) (bs_counter st) \<notin> us" by simp
      with write_inv [OF inv this run] WriteBlob run show ?thesis by (auto simp: fun_eq_iff)
    qed
  next
    case (DeleteBlob io ow name)
    show ?thesis
    proof (cases "is_ok (check_owner ow) \<and> bi_sql io \<and> bi_commit io")
      case False
      then have "fst (delete_blob True io ow name st) = st \<and> \<not> is_ok (snd (delete_blob True io ow name st))"
        by (auto simp: delete_blob_def split: sum.splits)
      with inv DeleteBlob show ?thesis by simp
    next
      case ok: True
      show ?thesis
      proof (cases "map_of (bs_rows st) (ow, name)")
        case None
        with ok have "delete_blob True io ow name st = (st, Ok ())" by (auto simp: delete_blob_def split: sum.splits)
        moreover from None have "stored_blob st ow name = None" by (simp add: stored_blob_def)
        ultimately show ?thesis using inv DeleteBlob by (auto simp: fun_eq_iff)
      next
        case (Some r)
        with ok have "delete_blob True io ow name st
            = (remove_file (bi_unlink io) (final_path ow (bl_id r)) (delete_blob_row ow name st), Ok ())"
          by (auto simp: delete_blob_def split: sum.splits)
        with deleted_inv [OF inv Some refl] DeleteBlob show ?thesis by (auto simp: fun_eq_iff)
      qed
    qed
  next
    case (PurgeBlobs io uuid)
    obtain st' res where run: "purge_blobs True io uuid st = (st', res)" by fastforce
    show ?thesis
    proof (cases "is_ok (check_segment uuid) \<and> bi_sql io \<and> bi_commit io")
      case False
      with run have "st' = st \<and> res \<in> {Err BlobSql, Err (UnsafeSegment uuid)}"
        by (auto simp: purge_blobs_def check_segment_def split: sum.splits if_splits)
      with inv PurgeBlobs run show ?thesis by simp
    next
      case True
      with run have "res \<notin> {Err BlobSql, Err (UnsafeSegment uuid)}"
        by (auto simp: purge_blobs_def check_segment_def Let_def split: sum.splits if_splits)
      with True purged_inv [OF inv run] PurgeBlobs run show ?thesis by (auto simp: fun_eq_iff)
    qed
  next
    case (StartProcess seed)
    have "blob_inv us (st\<lparr>bs_counter := seed\<rparr>)"
      using inv blob_accounted_same [of "st\<lparr>bs_counter := seed\<rparr>" st]
      by (simp add: blob_inv_def blob_tables_ok_def rows_backed_def ids_unique_def files_minted_def files_in_dirs_def)
    with StartProcess stored_blob_cong [of "st\<lparr>bs_counter := seed\<rparr>" st] show ?thesis by simp
  qed
  then show "blob_inv (us \<union> set (case minted_id op st of Some i \<Rightarrow> [i] | None \<Rightarrow> [])) (blob_step op st)"
    and "stored_blob (blob_step op st) = blob_effect op st (stored_blob st)" by blast+
qed

lemma blob_fold_inv:
  "blob_inv us st \<Longrightarrow> distinct (minted_ids ops st) \<Longrightarrow> us \<inter> set (minted_ids ops st) = {} \<Longrightarrow>
   blob_inv (us \<union> set (minted_ids ops st)) (fold blob_step ops st)
   \<and> stored_blob (fold blob_step ops st) = blob_history ops st (stored_blob st)"
proof (induction ops arbitrary: us st)
  case (Cons op ops)
  let ?new = "set (case minted_id op st of Some i \<Rightarrow> [i] | None \<Rightarrow> [])"
  have fresh: "i \<notin> us" if "minted_id op st = Some i" for i using Cons.prems(3) that by auto
  note step = blob_step_inv [OF Cons.prems(1) fresh]
  have "(us \<union> ?new) \<inter> set (minted_ids ops (blob_step op st)) = {}" using Cons.prems(2,3) by (auto split: option.splits)
  moreover have "distinct (minted_ids ops (blob_step op st))" using Cons.prems(2) by simp
  ultimately show ?case using Cons.IH [OF step(1)] step(2) by (simp add: Un_assoc)
qed simp

lemma new_blobs_inv: "blob_inv {} new_blobs"
  by (simp add: blob_inv_def blob_tables_ok_def rows_backed_def ids_unique_def files_minted_def files_in_dirs_def
      blob_accounted_def new_blobs_def)

lemma blob_run_inv:
  assumes "distinct (minted_ids ops new_blobs)"
  shows "blob_inv (set (minted_ids ops new_blobs)) (blob_run ops)"
    and "stored_blob (blob_run ops) = blob_history ops new_blobs (\<lambda>_ _. None)"
proof -
  have "stored_blob new_blobs = (\<lambda>_ _. None)" by (simp add: stored_blob_def new_blobs_def fun_eq_iff)
  with blob_fold_inv [OF new_blobs_inv assms] show "blob_inv (set (minted_ids ops new_blobs)) (blob_run ops)"
    and "stored_blob (blob_run ops) = blob_history ops new_blobs (\<lambda>_ _. None)" by (simp_all add: blob_run_def)
qed

lemma minted_ids_append: "minted_ids (ops @ ops') st = minted_ids ops st @ minted_ids ops' (fold blob_step ops st)"
  by (induction ops arbitrary: st) simp_all

text \<open>A file of an identity that is not minted again keeps its bytes until it is removed.\<close>

lemma blob_step_file:
  assumes "minted_id op st \<noteq> Some i" and wf: "hm_wf (bs_files st)"
  shows "map_of (bs_files (blob_step op st)) (final_path ow i) \<in> {map_of (bs_files st) (final_path ow i), None}"
proof (cases op)
  case (WriteBlob io ow' name data mime)
  obtain st' res where run: "write_blob True io ow' name data mime st = (st', res)" by fastforce
  then show ?thesis
  proof (cases rule: write_cases)
    case refused
    with WriteBlob run show ?thesis by simp
  next
    case (failed e)
    with WriteBlob assms have "(ow, i) \<noteq> (ow', mint_id (bi_now io) (bs_counter st))" by auto
    with same_blobsD(3) [OF failed(2) this] WriteBlob run show ?thesis by simp
  next
    case (written st1 indexed r)
    from WriteBlob assms written have "i \<noteq> mint_id (bi_now io) (bs_counter st)" by auto
    with written index_blob_Ok(1) [OF written(5)] WriteBlob run show ?thesis
      by (auto simp: insert_blob_row_def delete_blob_row_sel split: option.split)
  qed
next
  case (PurgeBlobs io uuid)
  with wf show ?thesis
    by (auto simp: purge_blobs_def Let_def map_of_retain split: sum.split option.split)
qed (auto simp: register_blobs_def Let_def delete_blob_def delete_blob_row_sel split: sum.split option.split)

lemma blob_fold_file:
  "blob_inv us st \<Longrightarrow> distinct (minted_ids ops st) \<Longrightarrow> us \<inter> set (minted_ids ops st) = {} \<Longrightarrow> i \<in> us \<Longrightarrow>
   map_of (bs_files (fold blob_step ops st)) (final_path ow i) \<in> {map_of (bs_files st) (final_path ow i), None}"
proof (induction ops arbitrary: us st)
  case (Cons op ops)
  let ?new = "set (case minted_id op st of Some i \<Rightarrow> [i] | None \<Rightarrow> [])"
  have fresh: "j \<notin> us" if "minted_id op st = Some j" for j using Cons.prems(3) that by auto
  note step = blob_step_inv [OF Cons.prems(1) fresh]
  have "(us \<union> ?new) \<inter> set (minted_ids ops (blob_step op st)) = {}" using Cons.prems(2,3) by (auto split: option.splits)
  moreover have "distinct (minted_ids ops (blob_step op st))" using Cons.prems(2) by simp
  ultimately have "map_of (bs_files (fold blob_step ops (blob_step op st))) (final_path ow i)
      \<in> {map_of (bs_files (blob_step op st)) (final_path ow i), None}"
    using Cons.IH [OF step(1)] Cons.prems(4) by blast
  moreover have "map_of (bs_files (blob_step op st)) (final_path ow i) \<in> {map_of (bs_files st) (final_path ow i), None}"
    by (rule blob_step_file) (use fresh Cons.prems(1,4) in \<open>auto simp: blob_inv_def blob_tables_ok_def\<close>)
  ultimately show ?case by auto
qed simp

lemma read_by_name_stored:
  assumes "blob_inv us st"
  shows "is_ok (check_owner ow) \<Longrightarrow> read_by_name True True True ow name st =
    (case stored_blob st ow name of Some bytes \<Rightarrow> Ok bytes | None \<Rightarrow> Err (BlobNotFound name))"
proof -
  assume "is_ok (check_owner ow)"
  then have "check_owner ow = Ok ()" by (simp add: is_ok_iff)
  with blob_inv_row [OF assms, of ow name] show ?thesis
    by (cases "map_of (bs_rows st) (ow, name)")
      (auto simp: read_by_name_def find_by_name_def check_reader_def stored_blob_def open_blob_def)
qed

section \<open>Claims\<close>

text \<open>
  Claim C9.  The store of blobs is a map, whatever fails.  However writes, deletions, purges, registrations and restarts follow
  each other, and whichever of their calls to the file system and the database fail, while no identity is minted twice:
  what is stored under a name is what the last successful write of that owner under that name wrote, unless a deletion
  or the purge of its installation came after; a write that fails at any point leaves every blob as it was; and a read by
  name returns exactly what is stored, and a missing blob as not found, never as a missing file.
\<close>

theorem blobs_all_or_nothing:
  assumes "distinct (minted_ids ops new_blobs)"
  shows "stored_blob (blob_run ops) = blob_history ops new_blobs (\<lambda>_ _. None)
    \<and> (is_ok (check_owner ow) \<longrightarrow> read_by_name True True True ow name (blob_run ops) =
        (case blob_history ops new_blobs (\<lambda>_ _. None) ow name of Some bytes \<Rightarrow> Ok bytes | None \<Rightarrow> Err (BlobNotFound name)))"
  using blob_run_inv [OF assms] read_by_name_stored [OF blob_run_inv(1) [OF assms]] by simp

text \<open>
  Claim C11.  A read that looks a name up and then opens the file, while others write, delete and purge in between, returns the
  bytes that were stored under the name when it looked, or an error: never a part of a write, the bytes of another
  version, or those of another blob.
\<close>

theorem blob_reads_consistent:
  assumes ids: "distinct (minted_ids (ops @ ops') new_blobs)"
    and found: "find_by_name True True ow name (blob_run ops) = Ok i"
    and opened: "open_blob io ow i (blob_run (ops @ ops')) = Ok bytes"
  shows "stored_blob (blob_run ops) ow name = Some bytes"
proof -
  let ?st = "blob_run ops" and ?us = "set (minted_ids ops new_blobs)"
  have split: "minted_ids (ops @ ops') new_blobs = minted_ids ops new_blobs @ minted_ids ops' ?st"
    by (simp add: minted_ids_append blob_run_def)
  with ids have "distinct (minted_ids ops new_blobs)" by simp
  note inv = blob_run_inv(1) [OF this]
  from found obtain r where r: "map_of (bs_rows ?st) (ow, name) = Some r" "bl_id r = i"
    by (auto simp: find_by_name_def bind_result_Ok_iff split: option.splits)
  from blob_inv_row [OF inv r(1)] r(2) have "i \<in> ?us" by simp
  with ids split blob_fold_file [OF inv, of ops' i ow]
  have "map_of (bs_files (blob_run (ops @ ops'))) (final_path ow i) \<in> {map_of (bs_files ?st) (final_path ow i), None}"
    by (simp add: blob_run_def)
  with opened r show ?thesis by (auto simp: open_blob_def stored_blob_def split: option.splits if_splits)
qed

text \<open>
  The blob quota is exact.  The usage recorded for an owner is the sum of the lengths of the blobs stored for it, so a write
  whose calls succeed is accepted exactly when the owner is registered and its blobs, the new one in place of the old,
  stay within its quota.
\<close>

theorem blob_quota_exact:
  assumes ids: "distinct (minted_ids (ops @ [WriteBlob io ow name data mime]) new_blobs)"
    and good: "is_ok (check_owner ow)" "\<not> mime_too_large mime"
      "bi_mkdir io \<and> bi_stage io \<and> bi_sql io \<and> bi_rename io \<and> bi_sync io \<and> bi_commit io"
  shows "blob_accounted (blob_run ops) ow
    \<and> (\<forall>n r. map_of (bs_rows (blob_run ops)) (ow, n) = Some r \<longrightarrow>
          (\<exists>bytes. stored_blob (blob_run ops) ow n = Some bytes \<and> bl_size r = int (length bytes)))
    \<and> (is_ok (snd (write_blob True io ow name data mime (blob_run ops))) \<longleftrightarrow>
        (\<exists>used quota. map_of (bs_usage (blob_run ops)) ow = Some (used, quota)
          \<and> blob_bytes (blob_run ops) ow - int (length (case stored_blob (blob_run ops) ow name of Some old \<Rightarrow> old | None \<Rightarrow> []))
              + int (length data) \<le> quota))"
proof (intro conjI)
  let ?st = "blob_run ops" and ?i = "mint_id (bi_now io) (bs_counter (blob_run ops))"
  have "minted_ids (ops @ [WriteBlob io ow name data mime]) new_blobs = minted_ids ops new_blobs @ [?i]"
    using good by (simp add: minted_ids_append blob_run_def)
  with ids have "distinct (minted_ids ops new_blobs)" and fresh: "?i \<notin> set (minted_ids ops new_blobs)" by simp_all
  note inv = blob_run_inv(1) [OF this(1)]
  show acc: "blob_accounted ?st ow" by (rule blob_inv_accounted [OF inv])
  show rows: "\<forall>n r. map_of (bs_rows ?st) (ow, n) = Some r \<longrightarrow> (\<exists>bytes. stored_blob ?st ow n = Some bytes \<and> bl_size r = int (length bytes))"
    using blob_inv_row [OF inv] by (fastforce simp: stored_blob_def)
  define st1 where "st1 = put_file (staged_path ow ?i) data
    (?st\<lparr>bs_counter := next_counter (bs_counter ?st), bs_dirs := List.insert (fst ow) (bs_dirs ?st)\<rparr>)"
  let ?r = "\<lparr>bl_id = ?i, bl_size = int (length data), bl_created = min (int (bi_created io)) i64_top, bl_mime = mime\<rparr>"
  have st1: "bs_rows st1 = bs_rows ?st" "bs_usage st1 = bs_usage ?st" by (simp_all add: st1_def)
  have "hm_wf (bs_rows ?st)" using inv by (simp add: blob_inv_def blob_tables_ok_def)
  moreover have "bl_id r \<noteq> ?i" if "map_of (bs_rows ?st) (ow, n) = Some r" for n r
    using blob_inv_row [OF inv that] fresh by auto
  ultimately have free: "\<not> id_taken ow ?i (delete_blob_row ow name st1)"
    using st1 by (auto simp: id_taken_iff delete_blob_row_sel split: if_splits)
  have size: "(case map_of (bs_rows ?st) (ow, name) of Some old \<Rightarrow> bl_size old | None \<Rightarrow> 0)
      = int (length (case stored_blob ?st ow name of Some old \<Rightarrow> old | None \<Rightarrow> []))"
  proof (cases "map_of (bs_rows ?st) (ow, name)")
    case None
    then show ?thesis by (simp add: stored_blob_def)
  next
    case (Some old)
    with rows obtain bytes where "stored_blob ?st ow name = Some bytes" "bl_size old = int (length bytes)" by blast
    with Some show ?thesis by simp
  qed
  have "check_owner ow = Ok ()" using good(1) by (simp add: is_ok_iff)
  with good have "write_blob True io ow name data mime ?st = commit_blob io ow name data ?r st1"
    by (simp add: write_blob_def Let_def st1_def)
  moreover have "is_ok (snd (commit_blob io ow name data ?r st1)) \<longleftrightarrow> is_ok (index_blob True ow name ?r st1)"
    using good by (auto simp: commit_blob_def Let_def split: sum.split option.split)
  ultimately show "is_ok (snd (write_blob True io ow name data mime ?st)) \<longleftrightarrow>
        (\<exists>used quota. map_of (bs_usage ?st) ow = Some (used, quota)
          \<and> blob_bytes ?st ow - int (length (case stored_blob ?st ow name of Some old \<Rightarrow> old | None \<Rightarrow> [])) + int (length data) \<le> quota)"
    using acc free st1 size by (auto simp: index_blob_ok_iff blob_accounted_def)
qed

definition good_blob_io :: blob_io where
  "good_blob_io = \<lparr>bi_now = 0, bi_created = 0, bi_mkdir = True, bi_made = True, bi_stage = True, bi_partial = None, bi_sql = True,
     bi_rename = True, bi_sync = True, bi_commit = True, bi_unlink = True, bi_keep = \<lambda>_. False\<rparr>"

text \<open>A blob is written, an overwrite fails at its commit, and an overwrite succeeds.\<close>

definition sample_blob_ops :: "blob_op list" where
  "sample_blob_ops =
     [RegisterBlobs True (''u'', ''i'') 4, WriteBlob good_blob_io (''u'', ''i'') ''a'' [1, 2] None,
      WriteBlob (good_blob_io\<lparr>bi_commit := False\<rparr>) (''u'', ''i'') ''a'' [3] None]"

definition sample_overwrite :: blob_op where
  "sample_overwrite = WriteBlob good_blob_io (''u'', ''i'') ''a'' [4, 5, 6] None"

lemma show_hex_small: "n < 16 \<Longrightarrow> show_hex n = [digit_char n]"
  by (simp add: show_hex.simps)

lemma sample_owner: "check_owner (''u'', ''i'') = Ok ()"
  by code_simp

lemmas sample_blob_defs = sample_owner mime_too_large_def Let_def
  sample_blob_ops_def sample_overwrite_def good_blob_io_def new_blobs_def register_blobs_def write_blob_def commit_blob_def index_blob_def
  id_taken_def delete_blob_row_def insert_blob_row_def remove_file_def put_file_def mint_id_def padded_hex_def show_hex_small digit_char_def
  next_counter_def staged_path_def final_path_def add_usage_def i64_top_def u64_top_def blob_run_def stored_blob_def

lemma sample_blob_ids: "distinct (minted_ids (sample_blob_ops @ [sample_overwrite]) new_blobs)"
  by (simp add: sample_blob_defs)


theorem blobs_all_or_nothing_witness:
  "read_by_name True True True (''u'', ''i'') ''a'' (blob_run sample_blob_ops) = Ok [1, 2]"
proof -
  have "distinct (minted_ids sample_blob_ops new_blobs)" using sample_blob_ids by (simp add: minted_ids_append)
  from blobs_all_or_nothing [OF this, of "(''u'', ''i'')" "''a''"] show ?thesis
    by (simp add: sample_blob_defs)
qed

theorem blob_reads_consistent_witness:
  "\<exists>i. find_by_name True True (''u'', ''i'') ''a'' (blob_run sample_blob_ops) = Ok i
     \<and> (\<forall>bytes. open_blob True (''u'', ''i'') i (blob_run (sample_blob_ops @ [sample_overwrite])) = Ok bytes \<longrightarrow> bytes = [1, 2])
     \<and> open_blob True (''u'', ''i'') i (blob_run (sample_blob_ops @ [])) = Ok [1, 2]"
proof -
  have "\<exists>i. find_by_name True True (''u'', ''i'') ''a'' (blob_run sample_blob_ops) = Ok i"
    by (simp add: find_by_name_def check_reader_def sample_blob_defs)
  then obtain i where i: "find_by_name True True (''u'', ''i'') ''a'' (blob_run sample_blob_ops) = Ok i" by blast
  have stored: "stored_blob (blob_run sample_blob_ops) (''u'', ''i'') ''a'' = Some [1, 2]" by (simp add: sample_blob_defs)
  show ?thesis using i stored blob_reads_consistent [OF sample_blob_ids i, of True]
    by (auto simp: find_by_name_def stored_blob_def open_blob_def bind_result_Ok_iff split: option.splits)
qed

theorem blob_quota_exact_witness:
  "\<not> is_ok (snd (write_blob True good_blob_io (''u'', ''i'') ''a'' [1, 2, 3, 4, 5] None (blob_run sample_blob_ops)))
   \<and> is_ok (snd (write_blob True good_blob_io (''u'', ''i'') ''a'' [1, 2, 3, 4] None (blob_run sample_blob_ops)))"
proof -
  have ids: "distinct (minted_ids (sample_blob_ops @ [WriteBlob good_blob_io (''u'', ''i'') ''a'' data None]) new_blobs)" for data
    by (simp add: sample_blob_defs)
  have good: "is_ok (check_owner (''u'', ''i''))" "\<not> mime_too_large None"
    "bi_mkdir good_blob_io \<and> bi_stage good_blob_io \<and> bi_sql good_blob_io \<and> bi_rename good_blob_io \<and> bi_sync good_blob_io \<and> bi_commit good_blob_io"
    by (simp_all add: sample_blob_defs)
  show ?thesis using blob_quota_exact [OF ids good, of "[1, 2, 3, 4, 5]"] blob_quota_exact [OF ids good, of "[1, 2, 3, 4]"]
    by (simp add: sample_blob_defs blob_bytes_def entry_sum_def blob_weight_def)
qed

end
