(* ===== verification/Plugin_Loading.thy ===== *)
theory Plugin_Loading
  imports Plugin_Approval Config_Merge Registry Blob_Claims "HOL-Library.Countable"
begin

text \<open>
  From an installed package to a running instance (\<^verbatim>\<open>crates/oxidhome-core/src/runtime.rs\<close> and \<^verbatim>\<open>runtime/instance.rs\<close>): the
  start of an instance, the load of its component under the identity and the capabilities it is granted, the quotas
  reserved for it, and the removal of a plugin with its data.  The files may change between any two reads of a load: each
  part takes the files it finds.  The compilation of the component and its instantiation are those of \<^verbatim>\<open>wasmtime\<close>; the
  load gives the bytes they are handed.
\<close>

section \<open>Starting\<close>

text \<open>\<^verbatim>\<open>read_manifest_with_bytes\<close> follows links, unlike the readers of the registry.\<close>

definition read_manifest_with_bytes ::
  "(string \<Rightarrow> plugin_manifest option) \<Rightarrow> files \<Rightarrow> path \<Rightarrow> (8 word list \<times> plugin_manifest) option" where
  "read_manifest_with_bytes toml fs dir =
     (case canonicalize max_links fs [] (dir @ [''manifest.toml'']) of
        None \<Rightarrow> None
      | Some p \<Rightarrow>
          (case map_of fs p of
             Some (RegFile bytes) \<Rightarrow> map_option (Pair bytes) (parse_manifest_bytes toml bytes)
           | _ \<Rightarrow> None))"

datatype start_error =
    EngineShuttingDown
  | UnsafeInstance string
  | ManifestUnreadable
  | Refused registry_error

text \<open>The singleton flag of the installed package counts, not the one of the manifest at hand.\<close>

definition authoritative_singleton :: "installation \<Rightarrow> plugin_manifest \<Rightarrow> bool" where
  "authoritative_singleton st m =
     (case get_installed (plugin_id (plugin m)) st of
        Some installed \<Rightarrow> ip_singleton installed
      | None \<Rightarrow> singleton (runtime m))"

definition start_instance ::
  "bool \<Rightarrow> (string \<Rightarrow> plugin_manifest option) \<Rightarrow> files \<Rightarrow> installation \<Rightarrow> path \<Rightarrow> string \<Rightarrow> 'h \<Rightarrow> 'h instance_registry
    \<Rightarrow> 'h instance_registry \<times> (start_error + 'h handle \<times> 8 word list \<times> plugin_manifest)" where
  "start_instance stopping toml fs st dir inst spawned r =
     (if stopping then (r, Err EngineShuttingDown)
      else if \<not> is_safe_instance_id inst then (r, Err (UnsafeInstance inst))
      else case read_manifest_with_bytes toml fs dir of
        None \<Rightarrow> (r, Err ManifestUnreadable)
      | Some (bytes, m) \<Rightarrow>
          (case register_instance inst (plugin_id (plugin m)) (authoritative_singleton st m) spawned r of
             (r', Err e) \<Rightarrow> (r', Err (Refused e))
           | (r', Ok h) \<Rightarrow> (r', Ok (h, bytes, m))))"

section \<open>Loading\<close>

datatype load_mode = InstalledLoad string | DevLoad

datatype load_error =
    ManifestFailed
  | Incompatible compat_error
  | ConfigFailed errors
  | WasmEscapes
  | WasmUnreadable
  | Quarantined string
  | DigestFailed string
  | DigestMismatch string
  | IdentityChanged string string
  | Disappeared string
  | ShadowsInstalled string

definition join_names :: "path \<Rightarrow> string \<Rightarrow> string list" where
  "join_names dir rel = (if is_absolute rel then split_char CHR ''/'' rel else dir @ split_char CHR ''/'' rel)"

definition resolve_wasm_path :: "files \<Rightarrow> path \<Rightarrow> string \<Rightarrow> path option" where
  "resolve_wasm_path fs dir rel =
     (case canonicalize max_links fs [] (join_names dir rel) of
        None \<Rightarrow> None
      | Some p \<Rightarrow>
          (case canonicalize max_links fs [] dir of
             None \<Rightarrow> None
           | Some d \<Rightarrow> if prefix d p then Some p else None))"

definition loaded_dir_matches_registry :: "files \<Rightarrow> path \<Rightarrow> path \<Rightarrow> bool" where
  "loaded_dir_matches_registry fs wasm_path registry_path =
     (case canonicalize max_links fs [] wasm_path of
        None \<Rightarrow> False
      | Some loaded \<Rightarrow>
          (case canonicalize max_links fs [] registry_path of
             None \<Rightarrow> False
           | Some package \<Rightarrow> prefix package loaded))"

text \<open>The directory the path leads to; reads below one that does not exist fail either way.\<close>

definition opened_dir :: "files \<Rightarrow> path \<Rightarrow> path" where
  "opened_dir fs dir = (case canonicalize max_links fs [] dir of Some d \<Rightarrow> d | None \<Rightarrow> dir)"

text \<open>The contents against the digest of the row, and the capabilities both the manifest and the row hold.\<close>

definition verify_installed ::
  "readers \<Rightarrow> files \<Rightarrow> path \<Rightarrow> plugin_manifest \<Rightarrow> 8 word list \<Rightarrow> 8 word list \<Rightarrow> installed_plugin
    \<Rightarrow> load_error + string \<times> capabilities_section" where
  "verify_installed rd fs dir m manifest_bytes wasm_bytes row =
     (case recompute_installed_digest (rd_sha rd) fs (opened_dir fs dir) m manifest_bytes wasm_bytes of
        Err _ \<Rightarrow> Err (DigestFailed (plugin_id (plugin m)))
      | Ok on_disk \<Rightarrow>
          if on_disk \<noteq> ip_digest row then Err (DigestMismatch (plugin_id (plugin m)))
          else Ok (ip_uuid row, effective_capabilities (capabilities m) (ip_granted row)))"

definition resolve_grant ::
  "readers \<Rightarrow> files \<Rightarrow> path \<Rightarrow> path \<Rightarrow> load_mode \<Rightarrow> plugin_manifest \<Rightarrow> 8 word list \<Rightarrow> 8 word list \<Rightarrow> installation
    \<Rightarrow> load_error + string \<times> capabilities_section" where
  "resolve_grant rd fs dir wasm_path mode m manifest_bytes wasm_bytes st =
     (let i = plugin_id (plugin m) in
      if is_quarantined i st then Err (Quarantined i)
      else case (mode, get_installed i st) of
        (InstalledLoad expected, Some row) \<Rightarrow>
          if ip_uuid row = expected \<and> loaded_dir_matches_registry fs wasm_path (ip_path row)
          then verify_installed rd fs dir m manifest_bytes wasm_bytes row
          else Err (IdentityChanged expected (ip_uuid row))
      | (InstalledLoad expected, None) \<Rightarrow> Err (Disappeared expected)
      | (DevLoad, Some row) \<Rightarrow>
          if loaded_dir_matches_registry fs wasm_path (ip_path row)
          then verify_installed rd fs dir m manifest_bytes wasm_bytes row
          else Err (ShadowsInstalled i)
      | (DevLoad, None) \<Rightarrow> Ok (i, capabilities m))"

record loaded_plugin =
  lp_uuid :: string
  lp_granted :: capabilities_section
  lp_manifest :: plugin_manifest
  lp_manifest_bytes :: "8 word list"
  lp_wasm :: "8 word list"
  lp_config :: "(string, config_value) btree"

text \<open>What is fixed for the host: the readers, the order of versions and the two versions of the SDK.\<close>

record load_env =
  le_readers :: readers
  le_version_lt :: "version \<Rightarrow> version \<Rightarrow> bool"
  le_core_sdk :: version
  le_min_sdk :: version

text \<open>
  A load: the manifest pinned at the start, or read from \<open>fs\<^sub>1\<close>; the component found and read in \<open>fs\<^sub>2\<close>; the registry
  and the UI assets as they are then, in \<open>fs\<^sub>3\<close>.
\<close>

definition load_plugin ::
  "load_env \<Rightarrow> files \<Rightarrow> files \<Rightarrow> files \<Rightarrow> path \<Rightarrow> toml option \<Rightarrow> load_mode \<Rightarrow> (8 word list \<times> plugin_manifest) option
    \<Rightarrow> installation \<Rightarrow> load_error + loaded_plugin" where
  "load_plugin le fs1 fs2 fs3 dir overrides mode pinned st =
     (case (case pinned of Some p \<Rightarrow> Some p | None \<Rightarrow> read_manifest_with_bytes (rd_toml (le_readers le)) fs1 dir) of
        None \<Rightarrow> Err ManifestFailed
      | Some (manifest_bytes, m) \<Rightarrow>
      (case compat_check (le_version_lt le) (sdk_version (plugin m)) (le_core_sdk le) (le_min_sdk le) of
        Err e \<Rightarrow> Err (Incompatible e)
      | Ok _ \<Rightarrow>
      (case merge m (case overrides of Some t \<Rightarrow> t | None \<Rightarrow> TTable []) of
        Err es \<Rightarrow> Err (ConfigFailed es)
      | Ok cfg \<Rightarrow>
      (case resolve_wasm_path fs2 dir (wasm (runtime m)) of
        None \<Rightarrow> Err WasmEscapes
      | Some wasm_path \<Rightarrow>
      (case map_of fs2 wasm_path of
        Some (RegFile wasm_bytes) \<Rightarrow>
          bind_result (resolve_grant (le_readers le) fs3 dir wasm_path mode m manifest_bytes wasm_bytes st) (\<lambda>(uuid, granted).
            Ok \<lparr>lp_uuid = uuid, lp_granted = granted, lp_manifest = m, lp_manifest_bytes = manifest_bytes,
                lp_wasm = wasm_bytes, lp_config = cfg\<rparr>)
      | _ \<Rightarrow> Err WasmUnreadable)))))"

section \<open>What is loaded\<close>

text \<open>A manifest pinned at the start is the parse of its bytes.\<close>

definition pinned_ok :: "(string \<Rightarrow> plugin_manifest option) \<Rightarrow> (8 word list \<times> plugin_manifest) option \<Rightarrow> bool" where
  "pinned_ok toml pinned = (case pinned of None \<Rightarrow> True | Some (bytes, m) \<Rightarrow> parse_manifest_bytes toml bytes = Some m)"

lemma read_manifest_parsed: "read_manifest_with_bytes toml fs dir = Some (bytes, m) \<Longrightarrow> parse_manifest_bytes toml bytes = Some m"
  by (auto simp: read_manifest_with_bytes_def split: option.splits file_object.splits)

lemma started_pinned: "start_instance stopping toml fs st dir inst spawned r = (r', Ok (h, bytes, m)) \<Longrightarrow> pinned_ok toml (Some (bytes, m))"
  by (auto simp: start_instance_def pinned_ok_def read_manifest_parsed split: if_splits option.splits prod.splits sum.splits)

lemma load_cases:
  assumes "load_plugin le fs1 fs2 fs3 dir overrides mode pinned st = Ok lp" and "pinned_ok (rd_toml (le_readers le)) pinned"
  obtains wasm_path where "parse_manifest_bytes (rd_toml (le_readers le)) (lp_manifest_bytes lp) = Some (lp_manifest lp)"
    and "resolve_wasm_path fs2 dir (wasm (runtime (lp_manifest lp))) = Some wasm_path"
    and "map_of fs2 wasm_path = Some (RegFile (lp_wasm lp))"
    and "resolve_grant (le_readers le) fs3 dir wasm_path mode (lp_manifest lp) (lp_manifest_bytes lp) (lp_wasm lp) st
      = Ok (lp_uuid lp, lp_granted lp)"
proof -
  obtain bytes m where read: "(case pinned of Some p \<Rightarrow> Some p
      | None \<Rightarrow> read_manifest_with_bytes (rd_toml (le_readers le)) fs1 dir) = Some (bytes, m)"
    using assms(1) by (auto simp: load_plugin_def split: option.splits)
  then have "parse_manifest_bytes (rd_toml (le_readers le)) bytes = Some m"
    using assms(2) read_manifest_parsed by (auto simp: pinned_ok_def split: option.splits)
  with assms(1) read that show ?thesis
    by (auto simp: load_plugin_def bind_result_Ok_iff split: option.splits sum.splits file_object.splits)
qed

lemma verify_installed_Ok:
  assumes "verify_installed rd fs dir m mb wb row = Ok (uuid, granted)"
  shows "uuid = ip_uuid row" and "granted = effective_capabilities (capabilities m) (ip_granted row)"
    and "\<exists>frames. ip_digest row = content_digest (rd_sha rd) mb wb frames"
proof -
  from assms obtain d where d: "recompute_installed_digest (rd_sha rd) fs (opened_dir fs dir) m mb wb = Ok d" "d = ip_digest row"
    and res: "uuid = ip_uuid row" "granted = effective_capabilities (capabilities m) (ip_granted row)"
    by (auto simp: verify_installed_def split: sum.splits if_splits)
  from d(1) obtain assets where "content_digest (rd_sha rd) mb wb (ui_asset_digest_frames assets) = d"
    unfolding recompute_installed_digest_def bind_result_Ok_iff by blast
  with d(2) show "\<exists>frames. ip_digest row = content_digest (rd_sha rd) mb wb frames" by metis
  from res show "uuid = ip_uuid row" and "granted = effective_capabilities (capabilities m) (ip_granted row)" .
qed

lemma installed_load:
  assumes "resolve_grant rd fs dir wasm_path (InstalledLoad expected) m mb wb st = Ok (uuid, granted)"
  obtains row where "get_installed (plugin_id (plugin m)) st = Some row" and "ip_uuid row = expected"
    and "loaded_dir_matches_registry fs wasm_path (ip_path row)" and "verify_installed rd fs dir m mb wb row = Ok (uuid, granted)"
    and "\<not> is_quarantined (plugin_id (plugin m)) st"
  using assms that by (auto simp: resolve_grant_def Let_def split: if_splits option.splits)

lemma effective_same: "effective_capabilities c c = c"
  by (simp add: effective_capabilities_def intersect_by_eq_def)

lemma package_parsed: "package_content rd fs p = Some (m, mb, wb, frames) \<Longrightarrow> parse_manifest_bytes (rd_toml rd) mb = Some m"
  by (auto simp: package_content_def read_manifest_sync_capturing_bytes_def split: option.splits sum.splits prod.splits)

text \<open>No other input is hashed to what the given contents are.\<close>

definition digest_resists :: "(8 word list \<Rightarrow> 8 word list) \<Rightarrow> 8 word list \<Rightarrow> 8 word list \<Rightarrow> (string \<times> 8 word list) list \<Rightarrow> bool" where
  "digest_resists sha mb wb frames \<longleftrightarrow>
     (\<forall>p. sha p = sha (digest_preimage mb wb frames) \<longrightarrow> p = digest_preimage mb wb frames)"

lemma digest_separates:
  assumes "content_digest sha mb wb fr = content_digest sha mb' wb' fr'" and "digest_resists sha mb' wb' fr'"
    and "framable mb wb fr" and "framable mb' wb' fr'"
  shows "mb = mb' \<and> wb = wb' \<and> fr = fr'"
proof -
  from assms(1) have "sha (digest_preimage mb wb fr) = sha (digest_preimage mb' wb' fr')"
    unfolding content_digest_def by (rule hex_bytes_inj)
  with assms(2) have "digest_preimage mb wb fr = digest_preimage mb' wb' fr'" unfolding digest_resists_def by blast
  with digest_preimage_inj assms(3,4) show ?thesis by blast
qed

text \<open>The index shows, for an identity, the digest and the grant that were recorded for it.\<close>

lemma indexed_recorded:
  assumes inv: "install_inv en st" and rec: "recorded st u p digest (en_to_json en granted)"
    and codec: "\<forall>c. en_of_json en (en_to_json en c) = Some c"
    and row: "get_installed i st = Some row" "ip_uuid row = u"
  shows "ip_digest row = digest" and "ip_granted row = granted" and "i = p"
proof -
  from entry_row [OF inv row(1)] obtain r j where r: "live_row (in_rows st) i = Some r" "r \<in> set (in_rows st)" "pi_uuid r = ip_uuid row"
    "pi_digest r = Some (ip_digest row)" "pi_grant r = Some j"
    and j: "en_of_json en j = Some (ip_granted row) \<or> j = en_to_json en (ip_granted row)" .
  from rec r row(2) have rec_r: "pi_plugin r = p" "pi_digest r = Some digest" "pi_grant r = Some (en_to_json en granted)"
    unfolding recorded_def by simp_all
  with r show "ip_digest row = digest" by simp
  from rec_r(3) r(5) j codec show "ip_granted row = granted" by (metis option.inject)
  from live_row_Some [OF r(1)] rec_r(1) show "i = p" by simp
qed

section \<open>A small host\<close>

text \<open>A grant has a faithful text: there are countably many grants.\<close>

instance service_grant_ext :: (countable) countable
proof (rule countable_classI)
  fix x y :: "'a service_grant_ext"
  let ?f = "\<lambda>g. to_nat (grant_plugin g, grant_service g, grant_instance g, grant_caller_instance g, grant_commands g, service_grant.more g)"
  assume "?f x = ?f y"
  then show "x = y" by simp
qed

instance ip_addr :: countable
  by countable_datatype

instance proto :: countable
  by countable_datatype

instance host_match :: countable
  by countable_datatype

instance port_match :: countable
  by countable_datatype

instance network_rule_ext :: (countable) countable
proof (rule countable_classI)
  fix x y :: "'a network_rule_ext"
  let ?f = "\<lambda>r. to_nat (rule_proto r, rule_host r, rule_port r, network_rule.more r)"
  assume "?f x = ?f y"
  then show "x = y" by simp
qed

instance capabilities_section_ext :: (countable) countable
proof (rule countable_classI)
  fix x y :: "'a capabilities_section_ext"
  let ?f = "\<lambda>c. to_nat (network c, storage_quota_kb c, blob_quota_mb c, declares_devices c, declares_services c, consumes_services c,
    subscribes_events c, capabilities_section.more c)"
  assume "?f x = ?f y"
  then show "x = y" by simp
qed

definition approval_env :: "(capabilities_section \<Rightarrow> string) \<Rightarrow> (string \<Rightarrow> capabilities_section option) \<Rightarrow> install_env" where
  "approval_env f g = sample_install_env\<lparr>en_to_json := f, en_of_json := g\<rparr>"

definition source_files :: files where
  "source_files = [([''plugins''], DirObject), ([''src''], DirObject), ([''src'', ''bin''], DirObject),
     ([''src'', ''bin'', ''p.wasm''], RegFile [0]), ([''src'', ''manifest.toml''], RegFile [1])]"

definition sample_install_io :: install_io where
  "sample_install_io = \<lparr>ii_source = source_files, ii_stop = \<lambda>_. False, ii_left = \<lambda>_. False, ii_insert = True, ii_rename = True,
     ii_rollback = True, ii_now = 1\<rparr>"

definition sample_approval ::
  "(capabilities_section \<Rightarrow> string) \<Rightarrow> (string \<Rightarrow> capabilities_section option) \<Rightarrow> installation \<times> (install_error + installed_plugin)" where
  "sample_approval f g = install_gated (en_readers (approval_env f g)) (en_to_json (approval_env f g)) (en_rng (approval_env f g))
     sample_install_io (Some (en_top (approval_env f g))) [''src''] (\<lambda>_. Ok ()) (install_run (approval_env f g) source_files [])"

definition sample_load ::
  "(capabilities_section \<Rightarrow> string) \<Rightarrow> (string \<Rightarrow> capabilities_section option) \<Rightarrow> string \<Rightarrow> load_error + loaded_plugin" where
  "sample_load f g uuid =
     (let fs = in_files (fst (sample_approval f g)) in
      load_plugin \<lparr>le_readers = en_readers (approval_env f g), le_version_lt = release_less,
        le_core_sdk = \<lparr>major = 0, minor = 1, patch = 0, prerelease = []\<rparr>, le_min_sdk = \<lparr>major = 0, minor = 1, patch = 0, prerelease = []\<rparr>\<rparr>
        fs fs fs [''plugins'', ''example.switch''] None (InstalledLoad uuid) None (fst (sample_approval f g)))"

lemma sample_approval_ok: "is_ok (snd (sample_approval f g))"
  by code_simp

lemma sample_load_ok: "is_ok (sample_load f g (mint_installation_uuid (en_rng sample_install_env) 0))"
  by code_simp

lemma sample_approval_uuid:
  "case snd (sample_approval f g) of Ok x \<Rightarrow> ip_uuid x = mint_installation_uuid (en_rng sample_install_env) 0 | Err _ \<Rightarrow> False"
  by code_simp

lemma sample_approval_minted: "in_minted (fst (sample_approval f g)) = 1"
  by code_simp
section \<open>Claims\<close>

text \<open>
  Claim C1.  What runs as an installed plugin is what was approved.  Let a package be installed and anything happen after: reboots with
  their scans, other installations and removals, changes of any file at any moment, between the reads of the load
  too.  If a component then loads under the identity of that installation, its manifest, its code and its UI assets have the
  digest of the package the installation checked, and its capabilities are those its manifest requests among those of that
  package; so, unless SHA-256 collides, they are the very bytes that were checked, and the capabilities exactly the ones
  approved.
\<close>

theorem loaded_is_approved:
  assumes run: "st = install_run en fs ops"
    and ins: "install_gated (en_readers en) (en_to_json en) (en_rng en) io (Some (en_top en)) source_dir gate st = (st1, Ok x)"
    and later: "st2 = fold (install_step en) ops' st1" and fresh: "identities_fresh en (in_minted st2)"
    and codec: "\<forall>c. en_of_json en (en_to_json en c) = Some c"
    and pinned: "pinned_ok (rd_toml (en_readers en)) pinned" and rd: "le_readers le = en_readers en"
    and load: "load_plugin le fs1 fs2 fs3 dir overrides (InstalledLoad (ip_uuid x)) pinned st2 = Ok lp"
  shows "\<exists>fs' staging m mb wb frames frames'.
    package_content (en_readers en) fs' staging = Some (m, mb, wb, frames)
    \<and> ip_granted x = capabilities m \<and> ip_digest x = content_digest (rd_sha (en_readers en)) mb wb frames
    \<and> lp_uuid lp = ip_uuid x \<and> plugin_id (plugin (lp_manifest lp)) = plugin_id (plugin m)
    \<and> content_digest (rd_sha (en_readers en)) (lp_manifest_bytes lp) (lp_wasm lp) frames' = ip_digest x
    \<and> lp_granted lp = effective_capabilities (capabilities (lp_manifest lp)) (capabilities m)
    \<and> (digest_resists (rd_sha (en_readers en)) mb wb frames \<and> framable mb wb frames
        \<and> framable (lp_manifest_bytes lp) (lp_wasm lp) frames' \<longrightarrow>
        lp_manifest_bytes lp = mb \<and> lp_wasm lp = wb \<and> frames' = frames \<and> lp_manifest lp = m \<and> lp_granted lp = capabilities m)"
proof -
  let ?sha = "rd_sha (en_readers en)"
  have mono: "in_minted st1 \<le> in_minted st2" unfolding later
    by (induction ops' rule: rev_induct) (auto intro: order_trans install_step_minted)
  with fresh have fresh1: "identities_fresh en (in_minted st1)" by (rule identities_fresh_mono)
  with install_gated_minted [OF ins] have "identities_fresh en (in_minted st)" by (auto intro: identities_fresh_mono)
  with install_run_inv [of en fs ops] run have "install_inv en st" by simp
  note ok = installed_record [OF this fresh1 ins]
  from ok(4) obtain fs' staging m mb wb frames where package: "package_content (en_readers en) fs' staging = Some (m, mb, wb, frames)"
    and x: "ip_plugin x = plugin_id (plugin m)" "ip_granted x = capabilities m" "ip_digest x = content_digest ?sha mb wb frames" by blast
  from recorded_run [OF ok(1-3)] fresh later have inv: "install_inv en st2"
    and rec: "recorded st2 (ip_uuid x) (ip_plugin x) (ip_digest x) (en_to_json en (ip_granted x))" by simp_all
  from load_cases [OF load] pinned rd obtain wasm_path where
    parsed: "parse_manifest_bytes (rd_toml (en_readers en)) (lp_manifest_bytes lp) = Some (lp_manifest lp)"
    and grant: "resolve_grant (en_readers en) fs3 dir wasm_path (InstalledLoad (ip_uuid x)) (lp_manifest lp) (lp_manifest_bytes lp) (lp_wasm lp) st2
      = Ok (lp_uuid lp, lp_granted lp)" by metis
  from installed_load [OF grant] obtain row where row: "get_installed (plugin_id (plugin (lp_manifest lp))) st2 = Some row" "ip_uuid row = ip_uuid x"
    and verify: "verify_installed (en_readers en) fs3 dir (lp_manifest lp) (lp_manifest_bytes lp) (lp_wasm lp) row = Ok (lp_uuid lp, lp_granted lp)" .
  note same = indexed_recorded [OF inv rec codec row]
  note verified = verify_installed_Ok [OF verify, unfolded same row(2) x(2)]
  from verified(3) obtain frames' where frames': "ip_digest x = content_digest ?sha (lp_manifest_bytes lp) (lp_wasm lp) frames'" by blast
  have "lp_manifest_bytes lp = mb \<and> lp_wasm lp = wb \<and> frames' = frames \<and> lp_manifest lp = m \<and> lp_granted lp = capabilities m"
    if resists: "digest_resists ?sha mb wb frames" "framable mb wb frames" "framable (lp_manifest_bytes lp) (lp_wasm lp) frames'"
  proof -
    from digest_separates [OF frames' [symmetric, unfolded x(3)] resists(1,3,2)]
    have bytes: "lp_manifest_bytes lp = mb \<and> lp_wasm lp = wb \<and> frames' = frames" .
    with parsed package_parsed [OF package] have "lp_manifest lp = m" by simp
    with bytes verified(2) show ?thesis by (simp add: effective_same)
  qed
  with package x verified same(3) frames' have "package_content (en_readers en) fs' staging = Some (m, mb, wb, frames)
    \<and> ip_granted x = capabilities m \<and> ip_digest x = content_digest ?sha mb wb frames
    \<and> lp_uuid lp = ip_uuid x \<and> plugin_id (plugin (lp_manifest lp)) = plugin_id (plugin m)
    \<and> content_digest ?sha (lp_manifest_bytes lp) (lp_wasm lp) frames' = ip_digest x
    \<and> lp_granted lp = effective_capabilities (capabilities (lp_manifest lp)) (capabilities m)
    \<and> (digest_resists ?sha mb wb frames \<and> framable mb wb frames \<and> framable (lp_manifest_bytes lp) (lp_wasm lp) frames' \<longrightarrow>
        lp_manifest_bytes lp = mb \<and> lp_wasm lp = wb \<and> frames' = frames \<and> lp_manifest lp = m \<and> lp_granted lp = capabilities m)"
    by (simp add: effective_same)
  then show ?thesis by (intro exI)
qed

theorem loaded_is_approved_witness:
  "\<exists>f g x lp. snd (sample_approval f g) = Ok x \<and> sample_load f g (ip_uuid x) = Ok lp
     \<and> lp_uuid lp = ip_uuid x \<and> lp_granted lp = effective_capabilities (capabilities (lp_manifest lp)) (ip_granted x)"
proof -
  define f :: "capabilities_section \<Rightarrow> string" where "f = (\<lambda>c. replicate (to_nat c) CHR ''x'')"
  define g :: "string \<Rightarrow> capabilities_section option" where "g = (\<lambda>s. Some (from_nat (length s)))"
  have codec: "\<forall>c. en_of_json (approval_env f g) (en_to_json (approval_env f g) c) = Some c"
    by (simp add: approval_env_def f_def g_def)
  from sample_approval_ok [of f g] obtain x where x: "snd (sample_approval f g) = Ok x" by (auto simp: is_ok_iff)
  then have ins: "sample_approval f g = (fst (sample_approval f g), Ok x)" by (simp add: prod_eq_iff)
  have uuid: "ip_uuid x = mint_installation_uuid (en_rng sample_install_env) 0"
  proof -
    have "(case snd (sample_approval f g) of Ok x \<Rightarrow> ip_uuid x = mint_installation_uuid (en_rng sample_install_env) 0 | Err _ \<Rightarrow> False)"
      by (rule sample_approval_uuid)
    with x show ?thesis by simp
  qed
  from sample_load_ok [of f g] obtain lp where lp: "sample_load f g (ip_uuid x) = Ok lp" unfolding uuid by (auto simp: is_ok_iff)
  have fresh: "identities_fresh (approval_env f g) (in_minted (fst (sample_approval f g)))"
    by (simp add: sample_approval_minted identities_fresh_def lessThan_Suc)
  from loaded_is_approved [OF refl ins [unfolded sample_approval_def] _ _ codec, of _ "[]" None
      "\<lparr>le_readers = en_readers (approval_env f g), le_version_lt = release_less,
        le_core_sdk = \<lparr>major = 0, minor = 1, patch = 0, prerelease = []\<rparr>, le_min_sdk = \<lparr>major = 0, minor = 1, patch = 0, prerelease = []\<rparr>\<rparr>",
      OF _ _ _ _ lp [unfolded sample_load_def Let_def], folded sample_approval_def] fresh
  have "lp_uuid lp = ip_uuid x \<and> lp_granted lp = effective_capabilities (capabilities (lp_manifest lp)) (ip_granted x)"
    by (auto simp: pinned_ok_def)
  with x lp show ?thesis by blast
qed
end
