(* ===== verification/Plugin_Data.thy ===== *)
theory Plugin_Data
  imports Plugin_Loading
begin

text \<open>
  The data of a plugin (\<^verbatim>\<open>runtime.rs\<close> and \<^verbatim>\<open>runtime/instance.rs\<close>): the quotas reserved for an instance when it is loaded, and
  the removal of a plugin with everything stored under its installation.
\<close>

record plugin_host =
  ph_plugins :: installation
  ph_kv :: kv_db
  ph_blobs :: blob_store

definition saturating_mul :: "nat \<Rightarrow> nat \<Rightarrow> nat" where
  "saturating_mul a b = min (a * b) u64_top"

datatype quota_error = KvQuota kv_error | BlobQuota blob_error

text \<open>The reservations of a load, under the identity and the grant it resolved.\<close>

definition reserve_quotas :: "bool \<Rightarrow> bool \<Rightarrow> string \<Rightarrow> loaded_plugin \<Rightarrow> plugin_host \<Rightarrow> plugin_host \<times> (quota_error + unit)" where
  "reserve_quotas kv_io blob_io inst lp h =
     (let ow = (lp_uuid lp, inst) in
      case register_quota kv_io ow (saturating_mul (storage_quota_kb (lp_granted lp)) 1024) (ph_kv h) of
        (kv', Err e) \<Rightarrow> (h\<lparr>ph_kv := kv'\<rparr>, Err (KvQuota e))
      | (kv', Ok _) \<Rightarrow>
          (case register_blobs blob_io ow (saturating_mul (blob_quota_mb (lp_granted lp)) (1024 * 1024)) (ph_blobs h) of
             (bs', Err e) \<Rightarrow> (h\<lparr>ph_kv := kv', ph_blobs := bs'\<rparr>, Err (BlobQuota e))
           | (bs', Ok _) \<Rightarrow> (h\<lparr>ph_kv := kv', ph_blobs := bs'\<rparr>, Ok ())))"

definition uninstall_plugin ::
  "bool \<Rightarrow> blob_io \<Rightarrow> bool \<Rightarrow> uninstall_io \<Rightarrow> path option \<Rightarrow> string \<Rightarrow> plugin_host \<Rightarrow> plugin_host \<times> (uninstall_error + unit)" where
  "uninstall_plugin kv_io blob_io root_set io plugins_root i h =
     (let purged =
        (case installation_uuid_for i (ph_plugins h) of
           None \<Rightarrow> (h, True)
         | Some uuid \<Rightarrow>
             (case purge_installation kv_io uuid (ph_kv h) of
                (kv', Err _) \<Rightarrow> (h\<lparr>ph_kv := kv'\<rparr>, False)
              | (kv', Ok _) \<Rightarrow>
                  (case purge_blobs root_set blob_io uuid (ph_blobs h) of
                     (bs', Err _) \<Rightarrow> (h\<lparr>ph_kv := kv', ph_blobs := bs'\<rparr>, False)
                   | (bs', Ok _) \<Rightarrow> (h\<lparr>ph_kv := kv', ph_blobs := bs'\<rparr>, True))))
      in case purged of
           (h', False) \<Rightarrow> (h', Err UninstallIo)
         | (h', True) \<Rightarrow>
             (case uninstall io plugins_root i (ph_plugins h') of
                (st', Err e) \<Rightarrow> (h'\<lparr>ph_plugins := st'\<rparr>, Err e)
              | (st', Ok _) \<Rightarrow> (h'\<lparr>ph_plugins := st'\<rparr>, Ok ())))"

lemma uninstall_plugin_cases:
  assumes "uninstall_plugin kv_io blob_io root_set io (Some top_dir) i h = (h', res)"
    and "installation_uuid_for i (ph_plugins h) = Some uuid"
  obtains (kv_failed) "\<not> kv_io" and "h' = h" and "res = Err UninstallIo"
  | (blobs_failed) bs' e where "kv_io" and "purge_blobs root_set blob_io uuid (ph_blobs h) = (bs', Err e)" and "res = Err UninstallIo"
      and "h' = h\<lparr>ph_kv := fst (purge_installation kv_io uuid (ph_kv h)), ph_blobs := bs'\<rparr>"
  | (purged) bs' n st' res' where "kv_io" and "purge_blobs root_set blob_io uuid (ph_blobs h) = (bs', Ok n)"
      and "uninstall io (Some top_dir) i (ph_plugins h) = (st', res')" and "is_ok res = is_ok res'"
      and "h' = h\<lparr>ph_kv := fst (purge_installation kv_io uuid (ph_kv h)), ph_blobs := bs', ph_plugins := st'\<rparr>"
proof -
  obtain bs' b where bs: "purge_blobs root_set blob_io uuid (ph_blobs h) = (bs', b)" by fastforce
  obtain st' res' where un: "uninstall io (Some top_dir) i (ph_plugins h) = (st', res')" by fastforce
  show ?thesis
  proof (cases kv_io)
    case False
    with assms that(1) show ?thesis by (auto simp: uninstall_plugin_def purge_installation_def)
  next
    case kv: True
    then obtain kv' n where kv': "purge_installation kv_io uuid (ph_kv h) = (kv', Ok n)"
      by (auto simp: purge_installation_def Let_def)
    show ?thesis
    proof (cases b)
      case (Inl e)
      have "res = Err UninstallIo" "h' = h\<lparr>ph_kv := fst (purge_installation kv_io uuid (ph_kv h)), ph_blobs := bs'\<rparr>"
        using assms bs Inl by (auto simp: uninstall_plugin_def kv' split: prod.splits sum.splits)
      with that(2) kv bs Inl show ?thesis by blast
    next
      case (Inr m)
      have "is_ok res = is_ok res'" "h' = h\<lparr>ph_kv := fst (purge_installation kv_io uuid (ph_kv h)), ph_blobs := bs', ph_plugins := st'\<rparr>"
        using assms bs Inr un by (auto simp: uninstall_plugin_def kv' split: prod.splits sum.splits)
      with that(3) kv bs Inr un show ?thesis by blast
    qed
  qed
qed

lemma purged_kv:
  assumes "hm_wf (kv db)" and "hm_wf (kv_usage db)" and "kv_io"
  shows "map_of (kv (fst (purge_installation kv_io uuid db))) (ow, k) = (if fst ow = uuid then None else map_of (kv db) (ow, k))"
    and "map_of (kv_usage (fst (purge_installation kv_io uuid db))) ow = (if fst ow = uuid then None else map_of (kv_usage db) ow)"
  using assms by (auto simp: purge_installation_def Let_def map_of_retain split: option.split)

lemma purge_blobs_went: "purge_blobs root_set io uuid st = (st', Ok n) \<Longrightarrow> is_ok (check_segment uuid) \<and> bi_sql io \<and> bi_commit io"
  by (auto simp: purge_blobs_def split: sum.splits if_splits)

lemma purge_blobs_stored:
  assumes "blob_inv us st" and "purge_blobs root_set io uuid st = (st', res)"
  shows "fst ow \<noteq> uuid \<Longrightarrow> stored_blob st' ow name = stored_blob st ow name"
proof -
  assume ow: "fst ow \<noteq> uuid"
  show ?thesis
  proof (cases "is_ok (check_segment uuid) \<and> bi_sql io \<and> bi_commit io")
    case True
    with purged_inv(2) [OF assms] ow show ?thesis by simp
  next
    case False
    with assms(2) have "st' = st" by (auto simp: purge_blobs_def split: sum.splits if_splits)
    then show ?thesis by simp
  qed
qed

lemma uninstall_refused: "uninstall io (Some top_dir) i st = (st', res) \<Longrightarrow> \<not> is_ok res \<Longrightarrow>
    in_entries st' = in_entries st \<and> in_quarantined st' = in_quarantined st \<and> in_rows st' = in_rows st"
  by (erule uninstall_cases) auto

lemma uninstall_done: "uninstall io (Some top_dir) i st = (st', Ok u) \<Longrightarrow> get_installed i st' = None"
  by (erule uninstall_cases) (auto simp: get_installed_def delete_conv')

section \<open>Claims\<close>

definition sample_uuid :: string where
  "sample_uuid = mint_installation_uuid (en_rng sample_install_env) 0"

definition sample_kv_ops :: "string kv_op list" where
  "sample_kv_ops = [RegisterQuota True (sample_uuid, ''i'') 100, SetKey True (sample_uuid, ''i'') ''k'' ''v'']"

definition sample_host :: plugin_host where
  "sample_host = \<lparr>ph_plugins = fst sample_scan, ph_kv = kv_run Some sample_kv_ops, ph_blobs = blob_run []\<rparr>"

definition sample_removal :: "plugin_host \<times> (uninstall_error + unit)" where
  "sample_removal = uninstall_plugin True good_blob_io True \<lparr>ui_left = \<lambda>_. False, ui_tombstone = True, ui_now = 9\<rparr>
     (Some [''plugins'']) ''example.switch'' sample_host"

lemma sample_known: "installation_uuid_for ''example.switch'' (ph_plugins sample_host) = Some sample_uuid"
  by code_simp

lemma sample_removal_ok: "is_ok (snd sample_removal)"
  by code_simp

text \<open>
  Claim C10.  The removal of a plugin leaves none of its data and touches nobody else's.  When it succeeds, no key, no usage
  record and no blob is left under its installation, and no file below the installation's directory, so a later
  installation, whose identity is new, starts empty.  When any part of it fails, the plugin is still registered, entry,
  quarantine and row alike, so that it can be removed again.  Either way the keys and the blobs of every other
  installation are as they were.
\<close>

theorem removal_wipes_data:
  assumes kvs: "ph_kv h = kv_run enc kv_ops" and blobs: "ph_blobs h = blob_run blob_ops" "distinct (minted_ids blob_ops new_blobs)"
    and known: "installation_uuid_for i (ph_plugins h) = Some uuid"
    and run: "uninstall_plugin kv_io blob_io True io (Some top_dir) i h = (h', res)"
  shows "(is_ok res \<longrightarrow> get_installed i (ph_plugins h') = None
      \<and> (\<forall>inst k. map_of (kv (ph_kv h')) ((uuid, inst), k) = None \<and> map_of (kv_usage (ph_kv h')) (uuid, inst) = None)
      \<and> (\<forall>inst name. stored_blob (ph_blobs h') (uuid, inst) name = None) \<and> (\<forall>p. map_of (bs_files (ph_blobs h')) (uuid # p) = None))
    \<and> (\<not> is_ok res \<longrightarrow> in_entries (ph_plugins h') = in_entries (ph_plugins h)
      \<and> in_quarantined (ph_plugins h') = in_quarantined (ph_plugins h) \<and> in_rows (ph_plugins h') = in_rows (ph_plugins h))
    \<and> (\<forall>ow k name. fst ow \<noteq> uuid \<longrightarrow> map_of (kv (ph_kv h')) (ow, k) = map_of (kv (ph_kv h)) (ow, k)
      \<and> stored_blob (ph_blobs h') ow name = stored_blob (ph_blobs h) ow name)"
proof -
  have "kv_inv (ph_kv h)" unfolding kvs by (rule kv_run_inv)
  then have wf: "hm_wf (kv (ph_kv h))" "hm_wf (kv_usage (ph_kv h))" by (simp_all add: kv_inv_def)
  from blob_run_inv(1) [OF blobs(2)] blobs(1) have inv: "blob_inv (set (minted_ids blob_ops new_blobs)) (ph_blobs h)" by simp
  from run known show ?thesis
  proof (cases rule: uninstall_plugin_cases)
    case kv_failed
    then show ?thesis by simp
  next
    case (blobs_failed bs' e)
    with purge_blobs_stored [OF inv blobs_failed(2)] purged_kv [OF wf] show ?thesis by simp
  next
    case (purged bs' n st' res')
    note gone = purged_inv [OF inv purged(2)] purge_blobs_went [OF purged(2)]
    from purged(3,4) uninstall_refused [of io top_dir i "ph_plugins h" st' res'] uninstall_done [of io top_dir i "ph_plugins h" st']
    have "is_ok res \<Longrightarrow> get_installed i st' = None"
      and "\<not> is_ok res \<Longrightarrow> in_entries st' = in_entries (ph_plugins h) \<and> in_quarantined st' = in_quarantined (ph_plugins h)
        \<and> in_rows st' = in_rows (ph_plugins h)"
      by (auto simp: is_ok_iff)
    with purged(1,5) gone purged_kv [OF wf] show ?thesis by (simp add: split_paired_all)
  qed
qed

theorem removal_wipes_data_witness:
  "is_ok (snd sample_removal) \<and> map_of (kv (ph_kv sample_host)) ((sample_uuid, ''i''), ''k'') = Some ''v''
   \<and> map_of (kv (ph_kv (fst sample_removal))) ((sample_uuid, ''i''), ''k'') = None"
proof -
  have "ph_kv sample_host = kv_run Some sample_kv_ops" "ph_blobs sample_host = blob_run []" by (simp_all add: sample_host_def)
  from removal_wipes_data [OF this _ sample_known, of True good_blob_io "\<lparr>ui_left = \<lambda>_. False, ui_tombstone = True, ui_now = 9\<rparr>"
      "[''plugins'']" "fst sample_removal" "snd sample_removal", folded sample_removal_def] sample_removal_ok
  have "map_of (kv (ph_kv (fst sample_removal))) ((sample_uuid, ''i''), ''k'') = None" by simp
  moreover have "map_of (kv (ph_kv sample_host)) ((sample_uuid, ''i''), ''k'') = Some ''v''"
    by (simp add: sample_host_def sample_kv_ops_def kv_run_def register_quota_def i64_top_def upsert_row_def kv_set_def Let_def entry_bytes_def)
  ultimately show ?thesis using sample_removal_ok by blast
qed

end
