(* ===== verification/Log_Store.thy ===== *)
theory Log_Store
  imports Event_Log Ip_Addr
begin

text \<open>
  \<^verbatim>\<open>crates/oxidhome-core/src/state/log_store.rs\<close>: the store of the host's log.  A \<^verbatim>\<open>tracing\<close> layer turns each event and the
  spans around it into a record, a bounded channel hands the records to a writer thread, and counters let \<^verbatim>\<open>flush\<close> wait
  for the writer.  The threads are a sequence of steps, each step one access to what they share.
\<close>

section \<open>Fields\<close>

datatype log_level = LevelTrace | LevelDebug | LevelInfo | LevelWarn | LevelError

fun level_int :: "log_level \<Rightarrow> int" where
  "level_int LevelTrace = 0"
| "level_int LevelDebug = 1"
| "level_int LevelInfo = 2"
| "level_int LevelWarn = 3"
| "level_int LevelError = 4"

definition int_to_level :: "int \<Rightarrow> log_level option" where
  "int_to_level i =
     (if i = 0 then Some LevelTrace else if i = 1 then Some LevelDebug else if i = 2 then Some LevelInfo
      else if i = 3 then Some LevelWarn else if i = 4 then Some LevelError else None)"







text \<open>
  What \<^verbatim>\<open>tracing\<close> hands to a visitor for a field: a typed value, or the output of the field's \<^verbatim>\<open>Debug\<close> formatter.
\<close>

datatype raw_value =
    RawBool bool
  | RawI64 int
  | RawU64 nat
  | RawF64 f64
  | RawStr string
  | RawDebug string

definition trim_quotes :: "string \<Rightarrow> string" where
  "trim_quotes s =
     (if s \<noteq> [] \<and> hd s = CHR 0x22 \<and> last s = CHR 0x22 \<and> length s \<ge> 2 then tl (butlast s) else s)"








text \<open>
  \<^verbatim>\<open>Visit for SpanFields\<close>.  A typed value other than a string reaches \<^verbatim>\<open>record_debug\<close>, through the default methods of
  the trait; \<open>show_f64\<close> is the \<^verbatim>\<open>Debug\<close> form of a float.
\<close>

record span_fields =
  sf_instance :: "string option"
  sf_plugin :: "string option"
  sf_device :: "string option"

definition no_span_fields :: span_fields where
  "no_span_fields = \<lparr>sf_instance = None, sf_plugin = None, sf_device = None\<rparr>"

definition span_text :: "(f64 \<Rightarrow> string) \<Rightarrow> raw_value \<Rightarrow> string" where
  "span_text show_f64 v =
     (case v of
        RawStr s \<Rightarrow> s
      | RawDebug s \<Rightarrow> trim_quotes s
      | RawBool b \<Rightarrow> if b then ''true'' else ''false''
      | RawI64 i \<Rightarrow> show_int i
      | RawU64 n \<Rightarrow> show_nat n
      | RawF64 f \<Rightarrow> show_f64 f)"

definition record_attribution :: "string \<Rightarrow> string \<Rightarrow> span_fields \<Rightarrow> span_fields" where
  "record_attribution name s sf =
     (if name = ''instance_id'' then sf\<lparr>sf_instance := Some s\<rparr>
      else if name = ''plugin_id'' then sf\<lparr>sf_plugin := Some s\<rparr>
      else if name = ''device_id'' then sf\<lparr>sf_device := Some s\<rparr>
      else sf)"

definition record_span_fields :: "(f64 \<Rightarrow> string) \<Rightarrow> (string \<times> raw_value) list \<Rightarrow> span_fields \<Rightarrow> span_fields" where
  "record_span_fields show_f64 = fold (\<lambda>(name, v). record_attribution name (span_text show_f64 v))"

section \<open>The layer\<close>

text \<open>A span of the registry of \<^verbatim>\<open>tracing-subscriber\<close>: its name and the extension the layer has put on it, if it saw it open.\<close>

type_synonym log_span = "string \<times> span_fields option"

definition on_new_span :: "(f64 \<Rightarrow> string) \<Rightarrow> (string \<times> raw_value) list \<Rightarrow> log_span \<Rightarrow> log_span" where
  "on_new_span show_f64 attrs sp = (fst sp, Some (record_span_fields show_f64 attrs no_span_fields))"

definition on_record :: "(f64 \<Rightarrow> string) \<Rightarrow> (string \<times> raw_value) list \<Rightarrow> log_span \<Rightarrow> log_span" where
  "on_record show_f64 vals sp = (fst sp, map_option (record_span_fields show_f64 vals) (snd sp))"

record log_record =
  lg_ts :: int
  lg_level :: int
  lg_instance :: "string option"
  lg_plugin :: "string option"
  lg_device :: "string option"
  lg_target :: string
  lg_span_path :: "string option"
  lg_message :: string
  lg_blob :: "8 word list"





section \<open>The table\<close>

record log_row =
  lr_id :: nat
  lr_rec :: log_record

datatype log_store_error = LogSql | LogLevelRange int | LogDecode nat

definition next_log_id :: "log_row list \<Rightarrow> nat" where
  "next_log_id rows = fold max (map lr_id rows) 0 + 1"

definition insert_record :: "log_record \<Rightarrow> log_row list \<Rightarrow> log_row list" where
  "insert_record r rows = rows @ [\<lparr>lr_id = next_log_id rows, lr_rec = r\<rparr>]"










definition count_logs :: "bool \<Rightarrow> log_row list \<Rightarrow> log_store_error + nat" where
  "count_logs io rows = (if \<not> io then Err LogSql else Ok (length rows))"

section \<open>The channel, the writer and the counters\<close>

text \<open>
  A call of \<^verbatim>\<open>on_event\<close> counts itself in \<^verbatim>\<open>sent\<close>, tries to send, and counts a refusal in \<^verbatim>\<open>dropped\<close>: three steps, between
  which other threads run.  The writer receives a record, inserts it, and counts the outcome.  The writer runs as long as
  a sender is held, so a send is refused only by a full channel (a channel of capacity zero, which hands over directly, is
  not modelled).
\<close>

datatype log_writer = Waiting | Holding log_record | Stored bool

record log_state =
  ls_capacity :: nat
  ls_calls :: "log_record list"
  ls_refused :: nat
  ls_chan :: "log_record list"
  ls_writer :: log_writer
  ls_sent :: nat
  ls_dropped :: nat
  ls_written :: nat
  ls_errors :: nat
  ls_timed_out :: bool
  ls_rows :: "log_row list"

datatype log_step =
    Observe log_record
  | TrySend nat
  | CountDrop
  | Receive
  | InsertRow bool
  | CountRow

definition new_log_store :: "nat \<Rightarrow> log_row list \<Rightarrow> log_state" where
  "new_log_store capacity rows =
     \<lparr>ls_capacity = capacity, ls_calls = [], ls_refused = 0, ls_chan = [], ls_writer = Waiting, ls_sent = 0,
      ls_dropped = 0, ls_written = 0, ls_errors = 0, ls_timed_out = False, ls_rows = rows\<rparr>"

definition try_send :: "nat \<Rightarrow> log_state \<Rightarrow> log_state" where
  "try_send i st =
     (if i < length (ls_calls st) then
        let r = ls_calls st ! i; st' = st\<lparr>ls_calls := take i (ls_calls st) @ drop (Suc i) (ls_calls st)\<rparr>
        in if length (ls_chan st) < ls_capacity st then st'\<lparr>ls_chan := ls_chan st @ [r]\<rparr>
           else st'\<lparr>ls_refused := Suc (ls_refused st)\<rparr>
      else st)"

definition writer_step :: "log_step \<Rightarrow> log_state \<Rightarrow> log_state" where
  "writer_step s st =
     (case (s, ls_writer st) of
        (Receive, Waiting) \<Rightarrow>
          (case ls_chan st of [] \<Rightarrow> st | r # rs \<Rightarrow> st\<lparr>ls_chan := rs, ls_writer := Holding r\<rparr>)
      | (InsertRow io, Holding r) \<Rightarrow>
          st\<lparr>ls_writer := Stored io, ls_rows := if io then insert_record r (ls_rows st) else ls_rows st\<rparr>
      | (CountRow, Stored ok) \<Rightarrow>
          if ok then st\<lparr>ls_writer := Waiting, ls_written := Suc (ls_written st)\<rparr>
          else st\<lparr>ls_writer := Waiting, ls_errors := Suc (ls_errors st)\<rparr>
      | _ \<Rightarrow> st)"

definition log_step :: "log_step \<Rightarrow> log_state \<Rightarrow> log_state" where
  "log_step s st =
     (case s of
        Observe r \<Rightarrow> st\<lparr>ls_sent := Suc (ls_sent st), ls_calls := ls_calls st @ [r]\<rparr>
      | TrySend i \<Rightarrow> try_send i st
      | CountDrop \<Rightarrow>
          if ls_refused st = 0 then st
          else st\<lparr>ls_refused := ls_refused st - 1, ls_dropped := Suc (ls_dropped st)\<rparr>
      | _ \<Rightarrow> writer_step s st)"

definition log_run :: "log_step list \<Rightarrow> log_state \<Rightarrow> log_state" where
  "log_run = fold log_step"

text \<open>
  \<^verbatim>\<open>flush\<close>: a poll reads the three counters one after the other; the script gives the steps of the other threads before
  each read, and whether the deadline has passed when the poll looks at the clock.  A script that ends leaves the call
  polling (\<open>None\<close>).
\<close>

record poll =
  before_written :: "log_step list"
  before_errors :: "log_step list"
  before_dropped :: "log_step list"
  past_deadline :: bool

definition poll_steps :: "poll \<Rightarrow> log_step list" where
  "poll_steps p = before_written p @ before_errors p @ before_dropped p"

definition read_processed :: "poll \<Rightarrow> log_state \<Rightarrow> nat" where
  "read_processed p st =
     (let st1 = log_run (before_written p) st; st2 = log_run (before_errors p) st1
      in ls_written st1 + ls_errors st2 + ls_dropped (log_run (before_dropped p) st2))"

fun flush_polls :: "nat \<Rightarrow> poll list \<Rightarrow> log_state \<Rightarrow> log_state \<times> bool option" where
  "flush_polls target [] st = (st, None)"
| "flush_polls target (p # ps) st =
     (let st' = log_run (poll_steps p) st in
      if read_processed p st \<ge> target then (st'\<lparr>ls_timed_out := False\<rparr>, Some True)
      else if past_deadline p then (st'\<lparr>ls_timed_out := True\<rparr>, Some False)
      else flush_polls target ps st')"

definition flush :: "poll list \<Rightarrow> log_state \<Rightarrow> log_state \<times> bool option" where
  "flush ps st = flush_polls (ls_sent st) ps st"

text \<open>\<^verbatim>\<open>trim_older_than\<close> flushes first and goes on whatever the outcome; dropping the store flushes unless a flush timed out.\<close>

definition trim_logs :: "poll list \<Rightarrow> bool \<Rightarrow> int \<Rightarrow> log_state \<Rightarrow> log_state \<times> (log_store_error + nat)" where
  "trim_logs ps io cutoff st =
     (let st' = fst (flush ps st) in
      if \<not> io then (st', Err LogSql)
      else let kept = filter (\<lambda>r. \<not> lg_ts (lr_rec r) < cutoff) (ls_rows st')
           in (st'\<lparr>ls_rows := kept\<rparr>, Ok (length (ls_rows st') - length kept)))"

definition drop_log_store :: "poll list \<Rightarrow> log_state \<Rightarrow> log_state" where
  "drop_log_store ps st = (if ls_timed_out st then st else fst (flush ps st))"


section \<open>Every event is accounted for\<close>

definition in_hand :: "log_writer \<Rightarrow> nat" where
  "in_hand w = (if w = Waiting then 0 else 1)"

definition pending_logs :: "log_state \<Rightarrow> nat" where
  "pending_logs st = length (ls_calls st) + ls_refused st + length (ls_chan st) + in_hand (ls_writer st)"

definition processed_logs :: "log_state \<Rightarrow> nat" where
  "processed_logs st = ls_written st + ls_errors st + ls_dropped st"

definition log_accounted :: "log_state \<Rightarrow> bool" where
  "log_accounted st \<longleftrightarrow> ls_sent st = pending_logs st + processed_logs st"

definition is_observe :: "log_step \<Rightarrow> bool" where
  "is_observe s = (case s of Observe _ \<Rightarrow> True | _ \<Rightarrow> False)"

lemma is_observe_simps [simp]:
  "is_observe (Observe r)" "\<not> is_observe (TrySend i)" "\<not> is_observe CountDrop" "\<not> is_observe Receive"
  "\<not> is_observe (InsertRow io)" "\<not> is_observe CountRow"
  by (simp_all add: is_observe_def)

lemmas log_step_defs = log_step_def try_send_def writer_step_def Let_def

lemma log_step_accounted [inv_intros]: "log_accounted st \<Longrightarrow> log_accounted (log_step s st)"
  unfolding log_accounted_def
  by (cases s; cases "ls_writer st")
    (auto simp: log_step_defs pending_logs_def processed_logs_def in_hand_def split: list.splits)

lemma log_step_sent: "ls_sent (log_step s st) = ls_sent st + (if is_observe s then 1 else 0)"
  by (cases s; cases "ls_writer st") (auto simp: log_step_defs split: list.splits)

lemma log_step_counters:
  "ls_written st \<le> ls_written (log_step s st)" "ls_errors st \<le> ls_errors (log_step s st)"
  "ls_dropped st \<le> ls_dropped (log_step s st)"
  by (cases s; cases "ls_writer st"; auto simp: log_step_defs split: list.splits)+

lemma log_run_simps [simp]:
  "log_run [] st = st" "log_run (s # ss) st = log_run ss (log_step s st)"
  "log_run (ss @ ss') st = log_run ss' (log_run ss st)"
  by (simp_all add: log_run_def)

lemma log_run_accounted: "log_accounted st \<Longrightarrow> log_accounted (log_run ss st)"
  by (induction ss arbitrary: st) (simp_all add: log_step_accounted)

lemma log_run_sent: "ls_sent (log_run ss st) = ls_sent st + length (filter is_observe ss)"
  by (induction ss arbitrary: st) (simp_all add: log_step_sent)

lemma log_run_counters:
  "ls_written st \<le> ls_written (log_run ss st)" "ls_errors st \<le> ls_errors (log_run ss st)"
  "ls_dropped st \<le> ls_dropped (log_run ss st)"
  by (induction ss arbitrary: st) (auto intro: order_trans [OF log_step_counters(1)]
    order_trans [OF log_step_counters(2)] order_trans [OF log_step_counters(3)])

lemma new_log_store_accounted: "log_accounted (new_log_store c rows)"
  by (simp add: log_accounted_def new_log_store_def pending_logs_def processed_logs_def in_hand_def)

text \<open>The three reads of a poll never exceed what the counters hold after it.\<close>

lemma read_processed_le: "read_processed p st \<le> processed_logs (log_run (poll_steps p) st)"
proof -
  let ?a = "log_run (before_written p) st"
  let ?b = "log_run (before_errors p) ?a"
  let ?c = "log_run (before_dropped p) ?b"
  have "ls_written ?a \<le> ls_written ?c" by (rule order_trans [OF log_run_counters(1) log_run_counters(1)])
  moreover have "ls_errors ?b \<le> ls_errors ?c" by (rule log_run_counters(2))
  ultimately show ?thesis by (simp add: read_processed_def processed_logs_def poll_steps_def Let_def)
qed

definition flush_steps :: "poll list \<Rightarrow> log_step list" where
  "flush_steps ps = concat (map poll_steps ps)"

lemma flush_steps_simps [simp]: "flush_steps [] = []" "flush_steps (p # ps) = poll_steps p @ flush_steps ps"
  by (simp_all add: flush_steps_def)

lemma accounted_timed_out [simp]:
  "log_accounted (st\<lparr>ls_timed_out := b\<rparr>) = log_accounted st"
  "pending_logs (st\<lparr>ls_timed_out := b\<rparr>) = pending_logs st"
  by (simp_all add: log_accounted_def pending_logs_def processed_logs_def)

lemma flush_polls_True:
  assumes "log_accounted st" and "flush_polls target ps st = (st', Some True)"
  shows "pending_logs st' + target \<le> ls_sent st + length (filter is_observe (flush_steps ps))"
  using assms
proof (induction ps arbitrary: st)
  case (Cons p ps)
  let ?s = "log_run (poll_steps p) st"
  have acc: "log_accounted ?s" by (rule log_run_accounted [OF Cons.prems(1)])
  have sent: "ls_sent ?s = ls_sent st + length (filter is_observe (poll_steps p))" by (rule log_run_sent)
  show ?case
  proof (cases "read_processed p st \<ge> target")
    case True
    with Cons.prems(2) have "pending_logs st' = pending_logs ?s" by (auto simp: Let_def)
    with acc sent True read_processed_le [of p st] show ?thesis by (simp add: log_accounted_def)
  next
    case False
    with Cons.prems(2) have "flush_polls target ps ?s = (st', Some True)" by (auto simp: Let_def split: if_splits)
    from Cons.IH [OF acc this] sent show ?thesis by simp
  qed
qed simp


lemma nothing_pending:
  assumes "pending_logs st = 0"
  shows "ls_calls st = [] \<and> ls_refused st = 0 \<and> ls_chan st = [] \<and> ls_writer st = Waiting"
  using assms by (cases "ls_writer st") (simp_all add: pending_logs_def in_hand_def)

section \<open>The threads catch up\<close>

text \<open>The number of steps the events under way still take at most.\<close>

fun writer_work :: "log_writer \<Rightarrow> nat" where
  "writer_work Waiting = 0"
| "writer_work (Holding r) = 2"
| "writer_work (Stored ok) = 1"

definition log_work :: "log_state \<Rightarrow> nat" where
  "log_work st = 4 * length (ls_calls st) + ls_refused st + 3 * length (ls_chan st) + writer_work (ls_writer st)"

lemma log_step_work: "\<not> is_observe s \<Longrightarrow> log_step s st \<noteq> st \<Longrightarrow> log_work (log_step s st) < log_work st"
  by (cases s; cases "ls_writer st") (auto simp: log_step_defs log_work_def split: list.splits if_splits)

lemma log_step_ready:
  assumes pending: "0 < pending_logs st"
  shows "\<exists>s. \<not> is_observe s \<and> log_step s st \<noteq> st"
proof (rule ccontr)
  assume none: "\<not> (\<exists>s. \<not> is_observe s \<and> log_step s st \<noteq> st)"
  then have eq: "log_step s st = st" if "\<not> is_observe s" for s using that by blast
  have "length (ls_calls (log_step (TrySend 0) st)) = length (ls_calls st)" "ls_dropped (log_step CountDrop st) = ls_dropped st"
    by (simp_all add: eq)
  then have calls: "ls_calls st = []" "ls_refused st = 0"
    by (cases "ls_calls st"; auto simp: log_step_defs split: if_splits)+
  show False
  proof (cases "ls_writer st")
    case Waiting
    have "ls_chan (log_step Receive st) = ls_chan st" by (simp add: eq)
    with Waiting have "ls_chan st = []" by (auto simp: log_step_defs split: list.splits)
    with pending calls Waiting show False by (simp add: pending_logs_def in_hand_def)
  next
    case (Holding r)
    have "ls_writer (log_step (InsertRow False) st) = ls_writer st" by (simp add: eq)
    with Holding show False by (simp add: log_step_defs)
  next
    case (Stored ok)
    have "ls_writer (log_step CountRow st) = ls_writer st" by (simp add: eq)
    with Stored show False by (simp add: log_step_defs split: if_splits)
  qed
qed

text \<open>The steps of a script that did something.\<close>

fun effective_steps :: "log_step list \<Rightarrow> log_state \<Rightarrow> nat" where
  "effective_steps [] st = 0"
| "effective_steps (s # ss) st = (if log_step s st = st then 0 else 1) + effective_steps ss (log_step s st)"

lemma log_run_work:
  assumes "\<not> list_ex is_observe ss"
  shows "log_work (log_run ss st) + effective_steps ss st \<le> log_work st"
  using assms
proof (induction ss arbitrary: st)
  case (Cons s ss)
  then have "log_work (log_run ss (log_step s st)) + effective_steps ss (log_step s st) \<le> log_work (log_step s st)" by simp
  with log_step_work [of s st] Cons.prems show ?case by (cases "log_step s st = st") auto
qed simp

definition idle_poll :: poll where
  "idle_poll = \<lparr>before_written = [], before_errors = [], before_dropped = [], past_deadline = False\<rparr>"

lemma flush_polls_returns:
  assumes "log_accounted st" and "target \<le> ls_sent st" and "\<forall>p \<in> set ps. \<not> past_deadline p"
    and "log_work (log_run (flush_steps ps) st) = 0"
  shows "snd (flush_polls target (ps @ [idle_poll]) st) = Some True"
  using assms
proof (induction ps arbitrary: st)
  case Nil
  then have "ls_sent st = processed_logs st"
    by (cases "ls_writer st") (auto simp: log_accounted_def pending_logs_def log_work_def in_hand_def)
  with Nil(2) show ?case by (simp add: idle_poll_def read_processed_def processed_logs_def poll_steps_def Let_def)
next
  case (Cons p ps)
  have "snd (flush_polls target (ps @ [idle_poll]) (log_run (poll_steps p) st)) = Some True"
    by (rule Cons.IH) (use Cons.prems log_run_sent [of "poll_steps p" st] in \<open>simp_all add: log_run_accounted\<close>)
  with Cons.prems(3) show ?case by (simp add: Let_def)
qed


section \<open>What is logged reads back\<close>



















lemma int_to_level_int [simp]: "int_to_level (level_int lv) = Some lv"
  by (cases lv) (simp_all add: int_to_level_def)











lemma flush_True:
  assumes acc: "log_accounted st" and ok: "flush ps st = (st', Some True)"
  shows "pending_logs st' \<le> length (filter is_observe (flush_steps ps))
    \<and> (\<not> list_ex is_observe (flush_steps ps) \<longrightarrow>
         ls_calls st' = [] \<and> ls_refused st' = 0 \<and> ls_chan st' = [] \<and> ls_writer st' = Waiting)"
proof -
  have bound: "pending_logs st' \<le> length (filter is_observe (flush_steps ps))"
    using flush_polls_True [OF acc ok [unfolded flush_def]] by simp
  moreover have "pending_logs st' = 0" if "\<not> list_ex is_observe (flush_steps ps)"
    using bound that by (auto simp: list_ex_iff filter_empty_conv simp flip: length_0_conv)
  ultimately show ?thesis using nothing_pending by blast
qed

text \<open>
  Claim C26.  A flush that reports success leaves at most as many events on their way to the table as were emitted while it
  ran: with none, nothing is left in the channel or in the hands of the writer.  It does report success, before its
  deadline, once the threads have taken as many steps as the events under way need, and while one is under way some
  thread can take a step.
\<close>

theorem flush_drains:
  assumes st: "st = log_run ss (new_log_store capacity rows)"
  shows "(\<forall>ps st'. flush ps st = (st', Some True) \<longrightarrow>
        pending_logs st' \<le> length (filter is_observe (flush_steps ps))
        \<and> (\<not> list_ex is_observe (flush_steps ps) \<longrightarrow>
             ls_calls st' = [] \<and> ls_refused st' = 0 \<and> ls_chan st' = [] \<and> ls_writer st' = Waiting))
    \<and> (\<forall>ps. \<not> list_ex is_observe (flush_steps ps) \<and> (\<forall>p \<in> set ps. \<not> past_deadline p)
          \<and> log_work st \<le> effective_steps (flush_steps ps) st \<longrightarrow> snd (flush (ps @ [idle_poll]) st) = Some True)
    \<and> (0 < pending_logs st \<longrightarrow> (\<exists>s. \<not> is_observe s \<and> log_step s st \<noteq> st))"
proof -
  have acc: "log_accounted st" unfolding st by (rule log_run_accounted [OF new_log_store_accounted])
  have "snd (flush (ps @ [idle_poll]) st) = Some True"
    if "\<not> list_ex is_observe (flush_steps ps)" "\<forall>p \<in> set ps. \<not> past_deadline p"
      "log_work st \<le> effective_steps (flush_steps ps) st" for ps
  proof -
    have "log_work (log_run (flush_steps ps) st) = 0" using log_run_work [OF that(1), of st] that(3) by simp
    then show ?thesis unfolding flush_def by (rule flush_polls_returns [OF acc order_refl that(2)])
  qed
  with flush_True [OF acc] log_step_ready [of st] show ?thesis by blast
qed



section \<open>Samples\<close>

definition sample_record :: "string \<Rightarrow> log_record" where
  "sample_record m =
     \<lparr>lg_ts = 5, lg_level = 2, lg_instance = None, lg_plugin = None, lg_device = None, lg_target = ''host'',
      lg_span_path = None, lg_message = m, lg_blob = []\<rparr>"

definition calm_poll :: "log_step list \<Rightarrow> poll" where
  "calm_poll ss = \<lparr>before_written = ss, before_errors = [], before_dropped = [], past_deadline = False\<rparr>"

lemmas log_run_defs =
  flush_def calm_poll_def idle_poll_def read_processed_def poll_steps_def log_step_defs new_log_store_def insert_record_def
  next_log_id_def

theorem flush_drains_witness:
  "let st = log_run [Observe (sample_record ''a''), TrySend 0] (new_log_store 1 []);
       ps = [calm_poll [Receive, InsertRow True], calm_poll [CountRow]]
   in snd (flush (ps @ [idle_poll]) st) = Some True \<and> map (lg_message \<circ> lr_rec) (ls_rows (fst (flush ps st))) = [''a'']
      \<and> ls_chan (fst (flush ps st)) = []"
proof -
  define st where "st = log_run [Observe (sample_record ''a''), TrySend 0] (new_log_store 1 [])"
  define ps where "ps = [calm_poll [Receive, InsertRow True], calm_poll [CountRow]]"
  have calm: "\<not> list_ex is_observe (flush_steps ps)" "\<forall>p \<in> set ps. \<not> past_deadline p"
    by (simp_all add: ps_def calm_poll_def poll_steps_def)
  have "log_work st \<le> effective_steps (flush_steps ps) st"
    by (simp add: st_def ps_def log_run_defs log_work_def)
  with flush_drains [OF st_def] calm have "snd (flush (ps @ [idle_poll]) st) = Some True" by blast
  moreover have run: "flush ps st = (fst (flush ps st), Some True)" "map (lg_message \<circ> lr_rec) (ls_rows (fst (flush ps st))) = [''a'']"
    by (simp_all add: st_def ps_def log_run_defs sample_record_def)
  moreover have "ls_chan (fst (flush ps st)) = []" using flush_drains [OF st_def] calm run(1) by blast
  ultimately show ?thesis by (simp add: st_def ps_def Let_def)
qed

text \<open>
  An event emitted while a flush runs, and refused by the full channel, counts as processed: the flush reports success
  with an older event still in the channel.
\<close>

lemma flush_overtaken:
  "let st = log_run [Observe (sample_record ''old''), TrySend 0] (new_log_store 1 []);
       (st', r) = flush [calm_poll [Observe (sample_record ''new''), TrySend 0, CountDrop]] st
   in r = Some True \<and> ls_chan st' = [sample_record ''old''] \<and> ls_rows st' = []"
  by (simp add: log_run_defs)





end
