(* ===== verification/Host_Limits.thy ===== *)
theory Host_Limits
  imports Log_Store Token_Bucket
begin

text \<open>
  The ceilings of a plugin instance (\<^verbatim>\<open>crates/oxidhome-core/src/runtime/state.rs\<close>): the memory and the tables of its store,
  and the messages it logs.
\<close>

section \<open>Memory and tables\<close>

text \<open>\<^verbatim>\<open>PluginResourceLimits\<close>; the caps on the number of memories, tables and instances are only read by \<^verbatim>\<open>wasmtime\<close>.\<close>

record resource_limits =
  aggregate_memory_bytes :: nat
  max_aggregate_memory_bytes :: nat
  aggregate_table_elements :: nat
  max_aggregate_table_elements :: nat
  max_memories :: nat
  max_tables :: nat
  max_instances :: nat

definition new_limits :: resource_limits where
  "new_limits =
     \<lparr>aggregate_memory_bytes = 0, max_aggregate_memory_bytes = 128 * 1024 * 1024, aggregate_table_elements = 0,
      max_aggregate_table_elements = 100000, max_memories = 8, max_tables = 16, max_instances = 128\<rparr>"

datatype cap_exceeded = MemoryCap nat nat | TableCap nat nat

text \<open>\<open>Ok False\<close> makes the growth fail in the guest, an error is a trap.\<close>

definition memory_growing :: "nat \<Rightarrow> nat \<Rightarrow> nat option \<Rightarrow> resource_limits \<Rightarrow> resource_limits \<times> (cap_exceeded + bool)" where
  "memory_growing current desired maximum l =
     (if case maximum of Some m \<Rightarrow> desired > m | None \<Rightarrow> False then (l, Ok False)
      else let projected = saturating_add (aggregate_memory_bytes l) (desired - current)
           in if projected > max_aggregate_memory_bytes l then (l, Err (MemoryCap projected (max_aggregate_memory_bytes l)))
              else (l\<lparr>aggregate_memory_bytes := projected\<rparr>, Ok True))"

definition table_growing :: "nat \<Rightarrow> nat \<Rightarrow> nat option \<Rightarrow> resource_limits \<Rightarrow> resource_limits \<times> (cap_exceeded + bool)" where
  "table_growing current desired maximum l =
     (if case maximum of Some m \<Rightarrow> desired > m | None \<Rightarrow> False then (l, Ok False)
      else let projected = saturating_add (aggregate_table_elements l) (desired - current)
           in if projected > max_aggregate_table_elements l then (l, Err (TableCap projected (max_aggregate_table_elements l)))
              else (l\<lparr>aggregate_table_elements := projected\<rparr>, Ok True))"

text \<open>
  A store as \<^verbatim>\<open>wasmtime\<close> keeps it: the sizes of its memories and tables.  A new one grows from zero; a growth that the
  limiter admits may still fail, for want of memory, and leaves the size; a trap ends the instance.
\<close>

record wasm_store =
  ws_limits :: resource_limits
  ws_memories :: "nat list"
  ws_tables :: "nat list"
  ws_trapped :: bool

datatype growth =
    NewMemory nat "nat option" bool
  | GrowMemory nat nat "nat option" bool
  | NewTable nat "nat option" bool
  | GrowTable nat nat "nat option" bool

definition new_wasm_store :: wasm_store where
  "new_wasm_store = \<lparr>ws_limits = new_limits, ws_memories = [], ws_tables = [], ws_trapped = False\<rparr>"

definition limited_growth ::
  "resource_limits \<times> (cap_exceeded + bool) \<Rightarrow> bool \<Rightarrow> (wasm_store \<Rightarrow> wasm_store) \<Rightarrow> wasm_store \<Rightarrow> wasm_store" where
  "limited_growth answer allocated grow st =
     (case answer of
        (l, Err _) \<Rightarrow> st\<lparr>ws_limits := l, ws_trapped := True\<rparr>
      | (l, Ok ok) \<Rightarrow> if ok \<and> allocated then grow (st\<lparr>ws_limits := l\<rparr>) else st\<lparr>ws_limits := l\<rparr>)"

definition grow_step :: "growth \<Rightarrow> wasm_store \<Rightarrow> wasm_store" where
  "grow_step g st =
     (if ws_trapped st then st
      else case g of
        NewMemory n maximum ok \<Rightarrow>
          limited_growth (memory_growing 0 n maximum (ws_limits st)) ok
            (\<lambda>s. s\<lparr>ws_memories := ws_memories s @ [n]\<rparr>) st
      | GrowMemory i by_bytes maximum ok \<Rightarrow>
          (if i < length (ws_memories st) then
             let current = ws_memories st ! i in
             limited_growth (memory_growing current (current + by_bytes) maximum (ws_limits st)) ok
               (\<lambda>s. s\<lparr>ws_memories := (ws_memories s)[i := current + by_bytes]\<rparr>) st
           else st)
      | NewTable n maximum ok \<Rightarrow>
          limited_growth (table_growing 0 n maximum (ws_limits st)) ok
            (\<lambda>s. s\<lparr>ws_tables := ws_tables s @ [n]\<rparr>) st
      | GrowTable i by_elements maximum ok \<Rightarrow>
          (if i < length (ws_tables st) then
             let current = ws_tables st ! i in
             limited_growth (table_growing current (current + by_elements) maximum (ws_limits st)) ok
               (\<lambda>s. s\<lparr>ws_tables := (ws_tables s)[i := current + by_elements]\<rparr>) st
           else st))"

definition store_bounded :: "wasm_store \<Rightarrow> bool" where
  "store_bounded st \<longleftrightarrow>
     sum_list (ws_memories st) \<le> aggregate_memory_bytes (ws_limits st)
     \<and> aggregate_memory_bytes (ws_limits st) \<le> max_aggregate_memory_bytes (ws_limits st)
     \<and> sum_list (ws_tables st) \<le> aggregate_table_elements (ws_limits st)
     \<and> aggregate_table_elements (ws_limits st) \<le> max_aggregate_table_elements (ws_limits st)
     \<and> max_aggregate_memory_bytes (ws_limits st) = 128 * 1024 * 1024
     \<and> max_aggregate_table_elements (ws_limits st) = 100000"

lemma sum_list_grow: "i < length xs \<Longrightarrow> sum_list (xs[i := xs ! i + d]) = sum_list xs + (d :: nat)"
  by (simp add: sum_list_update member_le_sum_list)

lemma grow_step_bounded: "store_bounded st \<Longrightarrow> store_bounded (grow_step g st)"
  by (cases g)
    (auto simp: grow_step_def limited_growth_def memory_growing_def table_growing_def store_bounded_def saturating_add_def
      u64_top_def Let_def sum_list_grow min_def split: if_splits option.splits)


text \<open>
  Whatever an instance asks for, its memories together stay below 128 MiB and its tables below 100,000 elements.
\<close>

theorem plugin_memory_bounded:
  "sum_list (ws_memories (fold grow_step gs new_wasm_store)) \<le> 128 * 1024 * 1024
   \<and> sum_list (ws_tables (fold grow_step gs new_wasm_store)) \<le> 100000"
proof -
  have "store_bounded (fold grow_step gs st)" if "store_bounded st" for st
    using that by (induction gs arbitrary: st) (simp_all add: grow_step_bounded)
  moreover have "store_bounded new_wasm_store" by (simp add: store_bounded_def new_wasm_store_def new_limits_def)
  ultimately have "store_bounded (fold grow_step gs new_wasm_store)" by blast
  then show ?thesis unfolding store_bounded_def by linarith
qed

section \<open>Logging\<close>






text \<open>\<^verbatim>\<open>str::is_char_boundary\<close> on the bytes: the ends, and before a byte that does not continue a character.\<close>

definition is_char_boundary :: "string \<Rightarrow> nat \<Rightarrow> bool" where
  "is_char_boundary s i \<longleftrightarrow> i = 0 \<or> i = length s \<or> (i < length s \<and> \<not> ((0x80 :: nat) \<le> of_char (s ! i) \<and> of_char (s ! i) < (0xC0 :: nat)))"

fun floor_boundary :: "string \<Rightarrow> nat \<Rightarrow> nat" where
  "floor_boundary s 0 = 0"
| "floor_boundary s (Suc i) = (if is_char_boundary s (Suc i) then Suc i else floor_boundary s i)"









lemma floor_boundary_is: "is_char_boundary s (floor_boundary s i)"
  by (induction i) (simp_all add: is_char_boundary_def)








end
