(* ===== verification/Host_Config.thy ===== *)
theory Host_Config
  imports Config_Merge Slot_Fields
begin

text \<open>
  How a plugin reads its configuration (\<^verbatim>\<open>host_config::Host\<close> in \<^verbatim>\<open>crates/oxidhome-core/src/runtime/state.rs\<close>): a value by its
  dot-joined path, or the list of all of them.
\<close>

section \<open>The calls\<close>

fun config_value_to_wit :: "config_value \<Rightarrow> wit_value option" where
  "config_value_to_wit (VBool b) = Some (BoolVal b)"
| "config_value_to_wit (VInt n) = Some (IntVal n)"
| "config_value_to_wit (VFloat x) = Some (FloatVal x)"
| "config_value_to_wit (VString s) = Some (StringVal s)"
| "config_value_to_wit (VNested _) = None"

fun lookup_path :: "config_value \<Rightarrow> string list \<Rightarrow> config_value option" where
  "lookup_path v [] = Some v"
| "lookup_path (VNested inner) (k # ks) = (case map_of inner k of None \<Rightarrow> None | Some v \<Rightarrow> lookup_path v ks)"
| "lookup_path _ (k # ks) = None"

definition lookup_leaf :: "(string, config_value) btree \<Rightarrow> string list \<Rightarrow> config_value option" where
  "lookup_leaf cfg parts =
     (case parts of
        [] \<Rightarrow> None
      | k # ks \<Rightarrow> (case map_of cfg k of None \<Rightarrow> None | Some v \<Rightarrow> lookup_path v ks))"

definition get_config :: "string \<Rightarrow> (string, config_value) btree \<Rightarrow> wit_value option" where
  "get_config key cfg = Option.bind (lookup_leaf cfg (split_char CHR ''.'' key)) config_value_to_wit"

fun flatten_value :: "string \<Rightarrow> config_value \<Rightarrow> key_value list"
  and flatten_config :: "(string \<times> config_value) list \<Rightarrow> string \<Rightarrow> key_value list" where
  "flatten_value key (VNested inner) = flatten_config inner key"
| "flatten_value key leaf = (case config_value_to_wit leaf of Some w \<Rightarrow> [\<lparr>kv_key = key, kv_val = w\<rparr>] | None \<Rightarrow> [])"
| "flatten_config [] prefix = []"
| "flatten_config ((k, v) # cfg) prefix =
     flatten_value (if prefix = [] then k else prefix @ CHR ''.'' # k) v @ flatten_config cfg prefix"

definition list_config :: "(string, config_value) btree \<Rightarrow> key_value list" where
  "list_config cfg = flatten_config cfg []"

section \<open>The paths of the leaves\<close>


text \<open>The names of a configuration: free of dots, and different in each table.\<close>

fun names_ok :: "config_value \<Rightarrow> bool" where
  "names_ok (VNested vs) \<longleftrightarrow> distinct (map fst vs) \<and> list_all (\<lambda>kv. CHR ''.'' \<notin> set (fst kv) \<and> names_ok (snd kv)) vs"
| "names_ok _ \<longleftrightarrow> True"


text \<open>A path below a prefix, as \<^verbatim>\<open>flatten_config\<close> writes it.\<close>

definition below :: "string \<Rightarrow> string list \<Rightarrow> string" where
  "below key ks = join_char CHR ''.'' (key # ks)"

lemma below_Nil [simp]: "below key [] = key"
  by (simp add: below_def)




definition entries_ok :: "(string \<times> config_value) list \<Rightarrow> bool" where
  "entries_ok cfg \<longleftrightarrow> distinct (map fst cfg) \<and> list_all (\<lambda>kv. CHR ''.'' \<notin> set (fst kv) \<and> names_ok (snd kv)) cfg"

lemma entries_ok_simps [simp]:
  "entries_ok []"
  "entries_ok ((k, v) # cfg) \<longleftrightarrow> k \<notin> fst ` set cfg \<and> CHR ''.'' \<notin> set k \<and> names_ok v \<and> entries_ok cfg"
  by (auto simp: entries_ok_def)

lemma names_ok_nested: "names_ok (VNested vs) \<longleftrightarrow> entries_ok vs"
  by (simp add: entries_ok_def)

declare names_ok.simps(1) [simp del] names_ok_nested [simp]

text \<open>The leaf at a path.\<close>

definition leaf_at :: "config_value \<Rightarrow> string list \<Rightarrow> wit_value option" where
  "leaf_at v ks = Option.bind (lookup_path v ks) config_value_to_wit"

lemma leaf_at_nested [simp]:
  "leaf_at (VNested vs) [] = None"
  "leaf_at (VNested vs) (k # ks) = Option.bind (map_of vs k) (\<lambda>v. leaf_at v ks)"
  by (auto simp: leaf_at_def split: option.split)









section \<open>Both calls agree\<close>



text \<open>What the excluded case does: the list gives a key that no lookup accepts.\<close>

lemma empty_name_listed_without_dot:
  "let cfg = [([], VNested [(''k'', VBool True)])]
   in map kv_key (list_config cfg) = [''k''] \<and> get_config ''k'' cfg = None \<and> get_config ''.k'' cfg = Some (BoolVal True)"
  by (simp add: list_config_def get_config_def lookup_leaf_def)

end
