(* ===== verification/Host_Calls.thy ===== *)
theory Host_Calls
  imports Host_Devices Blob_Claims
begin

text \<open>
  The stores as a plugin calls them (\<^verbatim>\<open>crates/oxidhome-core/src/runtime/state.rs\<close>): \<^verbatim>\<open>storage::Host\<close>, \<^verbatim>\<open>blob_store::Host\<close> and
  \<^verbatim>\<open>host_services::Host\<close>.  A call acts under the identity of its instance and within the capabilities granted to it.  The
  tasks the calls are moved to do not panic; the outcomes of the database and the file system are arguments.
\<close>

section \<open>Storage\<close>

record service_details =
  sd_name :: string
  sd_commands :: "string list"

type_synonym wit_service_info = "service_details service_info"

record host_stores =
  hs_kv :: kv_db
  hs_blobs :: blob_store
  hs_services :: "service_details service_system"

definition ctx_owner :: "plugin_ctx \<Rightarrow> owner" where
  "ctx_owner pc = (pc_uuid pc, pc_instance pc)"

fun kv_error_to_wit :: "kv_error \<Rightarrow> wit_error" where
  "kv_error_to_wit (QuotaExceeded u i would_use allowed) = PermissionDenied ''quota exceeded''"
| "kv_error_to_wit (UnregisteredInstance u i) = InternalError i"
| "kv_error_to_wit (Encode k) = InternalError k"
| "kv_error_to_wit Sql = InternalError ''sqlite''"

definition map_err :: "('e \<Rightarrow> 'f) \<Rightarrow> 'e + 'a \<Rightarrow> 'f + 'a" where
  "map_err f r = (case r of Err e \<Rightarrow> Err (f e) | Ok x \<Rightarrow> Ok x)"

lemma map_err_simps [simp]: "map_err f (Err e) = Err (f e)" "map_err f (Ok x) = Ok x"
  by (simp_all add: map_err_def)

lemma map_err_Ok_iff [simp]: "map_err f r = Ok x \<longleftrightarrow> r = Ok x"
  by (cases r) simp_all

definition require_storage_enabled :: "plugin_ctx \<Rightarrow> wit_error + unit" where
  "require_storage_enabled pc =
     (if storage_quota_kb (pc_granted pc) = 0 then Err (PermissionDenied ''storage disabled'') else Ok ())"

text \<open>The stored form of a value (\<^verbatim>\<open>StoredValue\<close> in \<^verbatim>\<open>state/kv.rs\<close>) has the shape of the one in the event log.\<close>

definition encode_value :: "(jval \<Rightarrow> string) \<Rightarrow> wit_value \<Rightarrow> string option" where
  "encode_value to_text v = Some (to_text (ser_value v))"


definition stored_value_size :: "(jval \<Rightarrow> string) \<Rightarrow> wit_value \<Rightarrow> nat" where
  "stored_value_size to_text v = length (to_text (ser_value v))"

definition max_kv_value_bytes :: nat where
  "max_kv_value_bytes = 64 * 1024"


definition storage_set ::
  "(jval \<Rightarrow> string) \<Rightarrow> bool \<Rightarrow> plugin_ctx \<Rightarrow> string \<Rightarrow> wit_value \<Rightarrow> host_stores \<Rightarrow> host_stores \<times> (wit_error + unit)" where
  "storage_set to_text io pc k v h =
     (case require_storage_enabled pc of
        Err e \<Rightarrow> (h, Err e)
      | Ok _ \<Rightarrow>
          if stored_value_size to_text v > max_kv_value_bytes then (h, Err (PermissionDenied ''value exceeds per-write cap''))
          else (case kv_set (encode_value to_text) io (ctx_owner pc) k v (hs_kv h) of
                  (kv', r) \<Rightarrow> (h\<lparr>hs_kv := kv'\<rparr>, map_err kv_error_to_wit r)))"

definition storage_delete :: "bool \<Rightarrow> plugin_ctx \<Rightarrow> string \<Rightarrow> host_stores \<Rightarrow> host_stores \<times> (wit_error + unit)" where
  "storage_delete io pc k h =
     (case require_storage_enabled pc of
        Err e \<Rightarrow> (h, Err e)
      | Ok _ \<Rightarrow> (case kv_delete io (ctx_owner pc) k (hs_kv h) of (kv', r) \<Rightarrow> (h\<lparr>hs_kv := kv'\<rparr>, map_err kv_error_to_wit r)))"

definition storage_list_keys :: "bool \<Rightarrow> plugin_ctx \<Rightarrow> string \<Rightarrow> host_stores \<Rightarrow> wit_error + string list" where
  "storage_list_keys io pc pre h =
     bind_result (require_storage_enabled pc) (\<lambda>_. map_err kv_error_to_wit (list_keys io (ctx_owner pc) pre (hs_kv h)))"

section \<open>Blobs\<close>

definition require_blobs_enabled :: "plugin_ctx \<Rightarrow> wit_error + unit" where
  "require_blobs_enabled pc =
     (if blob_quota_mb (pc_granted pc) = 0 then Err (PermissionDenied ''blob store disabled'') else Ok ())"

fun blob_error_to_wit :: "blob_error \<Rightarrow> wit_error" where
  "blob_error_to_wit BlobUnavailable = Unavailable ''blob store''"
| "blob_error_to_wit (BlobUnregistered u i) = InternalError i"
| "blob_error_to_wit (UnsafeSegment s) = InternalError s"
| "blob_error_to_wit (BlobQuotaExceeded u i would_use allowed) = PermissionDenied ''blob quota exceeded''"
| "blob_error_to_wit (BlobNotFound what) = NotFound what"
| "blob_error_to_wit (BlobTooLarge n cap) = InternalError ''blob too large''"
| "blob_error_to_wit (MimeTooLarge n cap) = PermissionDenied ''blob mime too large''"
| "blob_error_to_wit BlobIo = InternalError ''filesystem''"
| "blob_error_to_wit BlobSql = InternalError ''sqlite''"

definition max_blob_write_bytes :: nat where
  "max_blob_write_bytes = 16 * 1024 * 1024"

definition host_write_blob ::
  "bool \<Rightarrow> blob_io \<Rightarrow> plugin_ctx \<Rightarrow> string \<Rightarrow> 8 word list \<Rightarrow> string option \<Rightarrow> host_stores \<Rightarrow> host_stores \<times> (wit_error + string)" where
  "host_write_blob root_set io pc name data mime h =
     (case require_blobs_enabled pc of
        Err e \<Rightarrow> (h, Err e)
      | Ok _ \<Rightarrow>
          if length data > max_blob_write_bytes then (h, Err (PermissionDenied ''payload exceeds per-call cap''))
          else (case write_blob root_set io (ctx_owner pc) name data mime (hs_blobs h) of
                  (bs, r) \<Rightarrow> (h\<lparr>hs_blobs := bs\<rparr>, map_err blob_error_to_wit r)))"

definition host_read_blob :: "bool \<Rightarrow> bool \<Rightarrow> bool \<Rightarrow> plugin_ctx \<Rightarrow> string \<Rightarrow> host_stores \<Rightarrow> wit_error + 8 word list" where
  "host_read_blob root_set sql io pc i h =
     bind_result (require_blobs_enabled pc)
       (\<lambda>_. map_err blob_error_to_wit (read_blob root_set sql io (ctx_owner pc) i (hs_blobs h)))"

definition host_read_blob_by_name ::
  "bool \<Rightarrow> bool \<Rightarrow> bool \<Rightarrow> plugin_ctx \<Rightarrow> string \<Rightarrow> host_stores \<Rightarrow> wit_error + 8 word list" where
  "host_read_blob_by_name root_set sql io pc name h =
     bind_result (require_blobs_enabled pc)
       (\<lambda>_. map_err blob_error_to_wit (read_by_name root_set sql io (ctx_owner pc) name (hs_blobs h)))"

definition host_get_blob_info :: "bool \<Rightarrow> plugin_ctx \<Rightarrow> string \<Rightarrow> host_stores \<Rightarrow> wit_error + blob_info" where
  "host_get_blob_info sql pc name h =
     bind_result (require_blobs_enabled pc) (\<lambda>_. map_err blob_error_to_wit (get_info sql (ctx_owner pc) name (hs_blobs h)))"

definition host_delete_blob ::
  "bool \<Rightarrow> blob_io \<Rightarrow> plugin_ctx \<Rightarrow> string \<Rightarrow> host_stores \<Rightarrow> host_stores \<times> (wit_error + unit)" where
  "host_delete_blob root_set io pc name h =
     (case require_blobs_enabled pc of
        Err e \<Rightarrow> (h, Err e)
      | Ok _ \<Rightarrow> (case delete_blob root_set io (ctx_owner pc) name (hs_blobs h) of
                  (bs, r) \<Rightarrow> (h\<lparr>hs_blobs := bs\<rparr>, map_err blob_error_to_wit r)))"

definition host_list_blobs :: "bool \<Rightarrow> plugin_ctx \<Rightarrow> string \<Rightarrow> host_stores \<Rightarrow> wit_error + blob_info list" where
  "host_list_blobs sql pc pre h =
     bind_result (require_blobs_enabled pc) (\<lambda>_. map_err blob_error_to_wit (list_blobs sql (ctx_owner pc) pre (hs_blobs h)))"

section \<open>Services\<close>

definition service_name_declared :: "string list \<Rightarrow> string \<Rightarrow> bool" where
  "service_name_declared declared name \<longleftrightarrow> name \<in> set declared"

definition check_no_wildcard_command_names :: "wit_service_info \<Rightarrow> wit_error + unit" where
  "check_no_wildcard_command_names info =
     (if grant_any \<in> set (sd_commands (service_rest info)) then Err (InvalidArgument grant_any) else Ok ())"

definition check_service_info :: "plugin_ctx \<Rightarrow> wit_service_info \<Rightarrow> wit_error + unit" where
  "check_service_info pc info =
     (if \<not> service_name_declared (declares_services (pc_granted pc)) (sd_name (service_rest info))
      then Err (PermissionDenied (sd_name (service_rest info)))
      else check_no_wildcard_command_names info)"

definition on_registry ::
  "(service_details service_registry \<Rightarrow> service_details service_registry \<times> 'r) \<Rightarrow> host_stores \<Rightarrow> host_stores \<times> 'r" where
  "on_registry f h =
     (case f (fst (hs_services h)) of (r, x) \<Rightarrow> (h\<lparr>hs_services := (r, snd (hs_services h))\<rparr>, x))"

definition host_register_service :: "plugin_ctx \<Rightarrow> wit_service_info \<Rightarrow> host_stores \<Rightarrow> host_stores \<times> (wit_error + string)" where
  "host_register_service pc info h =
     (case check_service_info pc info of
        Err e \<Rightarrow> (h, Err e)
      | Ok _ \<Rightarrow> on_registry (Services.register (pc_instance pc) (pc_plugin pc) info) h)"

definition host_update_service ::
  "plugin_ctx \<Rightarrow> string \<Rightarrow> wit_service_info \<Rightarrow> host_stores \<Rightarrow> host_stores \<times> (wit_error + unit)" where
  "host_update_service pc i info h =
     (case check_service_info pc info of
        Err e \<Rightarrow> (h, Err e)
      | Ok _ \<Rightarrow> on_registry (update_service (pc_instance pc) i info) h)"

definition host_remove_service :: "plugin_ctx \<Rightarrow> string \<Rightarrow> host_stores \<Rightarrow> host_stores \<times> (wit_error + unit)" where
  "host_remove_service pc i h = on_registry (remove_service (pc_instance pc) i) h"

definition host_get_service :: "plugin_ctx \<Rightarrow> string \<Rightarrow> host_stores \<Rightarrow> wit_error + wit_service_info" where
  "host_get_service pc i h = bind_result (get_service (pc_instance pc) i (fst (hs_services h))) (\<lambda>m. Ok (service_info m))"

definition host_resolve_service :: "string \<Rightarrow> string \<Rightarrow> string \<Rightarrow> host_stores \<Rightarrow> wit_error + string" where
  "host_resolve_service pid inst lid h =
     (case resolve_by_local_id pid inst lid (fst (hs_services h)) of Some i \<Rightarrow> Ok i | None \<Rightarrow> Err (NotFound lid))"


section \<open>What a call can change\<close>

definition blobs_wf :: "blob_store \<Rightarrow> bool" where
  "blobs_wf st \<longleftrightarrow> hm_wf (bs_rows st) \<and> hm_wf (bs_usage st) \<and> hm_wf (bs_files st)"

text \<open>The second store differs from the first in the part of one owner at most.\<close>

definition blobs_touch :: "owner \<Rightarrow> blob_store \<Rightarrow> blob_store \<Rightarrow> bool" where
  "blobs_touch ow st st' \<longleftrightarrow> blobs_wf st'
     \<and> (\<forall>ow'. ow' \<noteq> ow \<longrightarrow>
          (\<forall>n. map_of (bs_rows st') (ow', n) = map_of (bs_rows st) (ow', n))
          \<and> map_of (bs_usage st') ow' = map_of (bs_usage st) ow'
          \<and> (\<forall>i. map_of (bs_files st') (final_path ow' i) = map_of (bs_files st) (final_path ow' i)))"

lemma blobs_touch_trans: "blobs_touch ow st st' \<Longrightarrow> blobs_touch ow st' st'' \<Longrightarrow> blobs_touch ow st st''"
  by (simp add: blobs_touch_def)

lemma blobs_touch_refl: "blobs_wf st \<Longrightarrow> blobs_touch ow st st"
  by (simp add: blobs_touch_def)

lemma blobs_touch_wf: "blobs_touch ow st st' \<Longrightarrow> blobs_wf st'"
  by (simp add: blobs_touch_def)

lemma touch_remove:
  "blobs_touch ow st st' \<Longrightarrow> p = final_path ow i \<or> p = staged_path ow i \<Longrightarrow> blobs_touch ow st (remove_file io p st')"
  by (auto simp: blobs_touch_def remove_file_def blobs_wf_def hm_wf_drop hm.find_drop)

lemma touch_put:
  "blobs_touch ow st st' \<Longrightarrow> p = final_path ow i \<or> p = staged_path ow i \<Longrightarrow> blobs_touch ow st (put_file p bytes st')"
  by (auto simp: blobs_touch_def put_file_def blobs_wf_def hm_wf_put hm.find_put)

lemma touch_delete_row: "blobs_touch ow st st' \<Longrightarrow> blobs_touch ow st (delete_blob_row ow name st')"
  by (auto simp: blobs_touch_def delete_blob_row_def blobs_wf_def hm_wf_drop hm.find_drop add_usage_find split: option.splits)

lemma touch_insert_row: "blobs_touch ow st st' \<Longrightarrow> blobs_touch ow st (insert_blob_row ow name r st')"
  by (auto simp: blobs_touch_def insert_blob_row_def blobs_wf_def hm_wf_put hm.find_put add_usage_find)

lemma touch_counters:
  "blobs_touch ow st st' \<Longrightarrow> blobs_touch ow st (st'\<lparr>bs_counter := c\<rparr>)"
  "blobs_touch ow st st' \<Longrightarrow> blobs_touch ow st (st'\<lparr>bs_dirs := d\<rparr>)"
  by (simp_all add: blobs_touch_def blobs_wf_def)

lemmas touch_intros = touch_remove touch_put touch_delete_row touch_insert_row touch_counters

lemma touch_indexed:
  assumes "blobs_touch ow st st'" and "index_blob io ow name r st' = Ok st''"
  shows "blobs_touch ow st st''"
  using assms by (auto simp: index_blob_def Let_def touch_insert_row touch_delete_row split: if_splits option.splits)

lemma touch_commit:
  assumes "blobs_touch ow st st'"
  shows "blobs_touch ow st (fst (commit_blob io ow name data r st'))"
  using assms touch_indexed [OF assms]
  by (auto simp: commit_blob_def Let_def intro!: touch_intros split: sum.split option.split)

lemma touch_write:
  assumes "blobs_wf st"
  shows "blobs_touch ow st (fst (write_blob root_set io ow name data mime st))"
  using blobs_touch_refl [OF assms, of ow]
  by (auto simp: write_blob_def Let_def intro!: touch_commit touch_intros split: sum.split option.split)

lemma touch_delete:
  assumes "blobs_wf st"
  shows "blobs_touch ow st (fst (delete_blob root_set io ow name st))"
  using blobs_touch_refl [OF assms, of ow]
  by (auto simp: delete_blob_def intro!: touch_intros split: sum.split option.split)


section \<open>Runs of calls\<close>

text \<open>The calls that change a store, and the guards the dispatcher takes and drops between them.\<close>

datatype store_op =
    SetKey bool plugin_ctx string wit_value
  | DeleteKey bool plugin_ctx string
  | PutBlob bool blob_io plugin_ctx string "8 word list" "string option"
  | RemoveBlob bool blob_io plugin_ctx string
  | RegisterService plugin_ctx wit_service_info
  | UpdateService plugin_ctx string wit_service_info
  | RemoveService plugin_ctx string
  | TakeGuard string
  | ReleaseGuard nat

fun store_step :: "(jval \<Rightarrow> string) \<Rightarrow> store_op \<Rightarrow> host_stores \<Rightarrow> host_stores" where
  "store_step to_text (SetKey io pc k v) h = fst (storage_set to_text io pc k v h)"
| "store_step to_text (DeleteKey io pc k) h = fst (storage_delete io pc k h)"
| "store_step to_text (PutBlob root_set io pc name data mime) h = fst (host_write_blob root_set io pc name data mime h)"
| "store_step to_text (RemoveBlob root_set io pc name) h = fst (host_delete_blob root_set io pc name h)"
| "store_step to_text (RegisterService pc info) h = fst (host_register_service pc info h)"
| "store_step to_text (UpdateService pc i info) h = fst (host_update_service pc i info h)"
| "store_step to_text (RemoveService pc i) h = fst (host_remove_service pc i h)"
| "store_step to_text (TakeGuard i) h = h\<lparr>hs_services := service_step (Acquire i) (hs_services h)\<rparr>"
| "store_step to_text (ReleaseGuard n) h = h\<lparr>hs_services := service_step (DropGuard n) (hs_services h)\<rparr>"

fun store_actor :: "store_op \<Rightarrow> string option" where
  "store_actor (SetKey io pc k v) = Some (pc_instance pc)"
| "store_actor (DeleteKey io pc k) = Some (pc_instance pc)"
| "store_actor (PutBlob root_set io pc name data mime) = Some (pc_instance pc)"
| "store_actor (RemoveBlob root_set io pc name) = Some (pc_instance pc)"
| "store_actor (RegisterService pc info) = Some (pc_instance pc)"
| "store_actor (UpdateService pc i info) = Some (pc_instance pc)"
| "store_actor (RemoveService pc i) = Some (pc_instance pc)"
| "store_actor (TakeGuard i) = None"
| "store_actor (ReleaseGuard n) = None"

text \<open>Everything the stores hold for an instance, under whatever installation, and its services.\<close>

type_synonym host_part =
  "(string \<Rightarrow> string \<Rightarrow> string option) \<times> (string \<Rightarrow> (int \<times> int) option)
   \<times> (string \<Rightarrow> string \<Rightarrow> blob_row option) \<times> (string \<Rightarrow> (int \<times> int) option) \<times> (string \<Rightarrow> string \<Rightarrow> 8 word list option)
   \<times> (string \<Rightarrow> service_details service_meta option)"

definition store_view :: "host_stores \<Rightarrow> string \<Rightarrow> host_part" where
  "store_view h inst =
     (\<lambda>u k. map_of (kv (hs_kv h)) ((u, inst), k), \<lambda>u. map_of (kv_usage (hs_kv h)) (u, inst),
      \<lambda>u n. map_of (bs_rows (hs_blobs h)) ((u, inst), n), \<lambda>u. map_of (bs_usage (hs_blobs h)) (u, inst),
      \<lambda>u i. map_of (bs_files (hs_blobs h)) (final_path (u, inst) i), service_view (hs_services h) inst)"

definition stores_inv :: "nat \<Rightarrow> host_stores \<Rightarrow> bool" where
  "stores_inv n h \<longleftrightarrow> hm_wf (kv (hs_kv h)) \<and> hm_wf (kv_usage (hs_kv h)) \<and> blobs_wf (hs_blobs h) \<and> service_inv n (hs_services h)"

lemma service_inv_Suc: "service_inv n s \<Longrightarrow> service_inv (Suc n) s"
  by (simp add: service_inv_def split: prod.splits)

text \<open>A service call is a step of the registry or nothing.\<close>

lemma service_calls:
  "hs_services (fst (host_register_service pc info h)) \<in>
     {hs_services h, service_step (Services.Register (pc_instance pc) (pc_plugin pc) info) (hs_services h)}"
  "hs_services (fst (host_update_service pc i info h)) \<in>
     {hs_services h, service_step (Services.Update (pc_instance pc) i info) (hs_services h)}"
  "hs_services (fst (host_remove_service pc i h)) = service_step (Services.Remove (pc_instance pc) i) (hs_services h)"
  by (cases "hs_services h"; auto simp: host_register_service_def host_update_service_def host_remove_service_def on_registry_def
    split: prod.split sum.split)+

lemma service_calls_frame [simp]:
  "hs_kv (fst (host_register_service pc info h)) = hs_kv h" "hs_blobs (fst (host_register_service pc info h)) = hs_blobs h"
  "hs_kv (fst (host_update_service pc i info h)) = hs_kv h" "hs_blobs (fst (host_update_service pc i info h)) = hs_blobs h"
  "hs_kv (fst (host_remove_service pc i h)) = hs_kv h" "hs_blobs (fst (host_remove_service pc i h)) = hs_blobs h"
  by (simp_all add: host_register_service_def host_update_service_def host_remove_service_def on_registry_def split: prod.split sum.split)

text \<open>A call on keys or blobs leaves the other stores, and touches its owner's part of its own.\<close>

lemma kv_touch:
  assumes "hm_wf (kv db)" "hm_wf (kv_usage db)" and "db' \<in> {fst (kv_set enc io ow k v db), fst (kv_delete io ow k db)}"
  shows "hm_wf (kv db')" "hm_wf (kv_usage db')"
    and "ow' \<noteq> ow \<Longrightarrow> map_of (kv db') (ow', k') = map_of (kv db) (ow', k')"
    and "ow' \<noteq> ow \<Longrightarrow> map_of (kv_usage db') ow' = map_of (kv_usage db) ow'"
  using assms
  by (auto simp: kv_set_def kv_delete_def upsert_row_def delete_row_def Let_def hm_wf_put hm_wf_drop hm.find_put hm.find_drop
      add_usage_find split: option.splits if_splits)

lemma key_calls:
  "hs_kv (fst (storage_set to_text io pc k v h)) \<in> {hs_kv h, fst (kv_set (encode_value to_text) io (ctx_owner pc) k v (hs_kv h))}"
  "hs_kv (fst (storage_delete io pc k h)) \<in> {hs_kv h, fst (kv_delete io (ctx_owner pc) k (hs_kv h))}"
  by (auto simp: storage_set_def storage_delete_def split: prod.split sum.split)

lemma key_calls_frame [simp]:
  "hs_blobs (fst (storage_set to_text io pc k v h)) = hs_blobs h" "hs_services (fst (storage_set to_text io pc k v h)) = hs_services h"
  "hs_blobs (fst (storage_delete io pc k h)) = hs_blobs h" "hs_services (fst (storage_delete io pc k h)) = hs_services h"
  by (simp_all add: storage_set_def storage_delete_def split: prod.split sum.split)

lemma blob_calls:
  "hs_blobs (fst (host_write_blob root_set io pc name data mime h)) \<in>
     {hs_blobs h, fst (write_blob root_set io (ctx_owner pc) name data mime (hs_blobs h))}"
  "hs_blobs (fst (host_delete_blob root_set io pc name h)) \<in> {hs_blobs h, fst (delete_blob root_set io (ctx_owner pc) name (hs_blobs h))}"
  by (auto simp: host_write_blob_def host_delete_blob_def split: prod.split sum.split)

lemma blob_calls_frame [simp]:
  "hs_kv (fst (host_write_blob root_set io pc name data mime h)) = hs_kv h"
  "hs_services (fst (host_write_blob root_set io pc name data mime h)) = hs_services h"
  "hs_kv (fst (host_delete_blob root_set io pc name h)) = hs_kv h"
  "hs_services (fst (host_delete_blob root_set io pc name h)) = hs_services h"
  by (simp_all add: host_write_blob_def host_delete_blob_def split: prod.split sum.split)


lemma key_call_touch:
  assumes wf: "hm_wf (kv db)" "hm_wf (kv_usage db)"
    and db': "db' \<in> {db, fst (kv_set enc io ow k v db)} \<or> db' \<in> {db, fst (kv_delete io ow k db)}"
  shows "hm_wf (kv db') \<and> hm_wf (kv_usage db')
    \<and> (\<forall>ow'. ow' \<noteq> ow \<longrightarrow> (\<forall>k'. map_of (kv db') (ow', k') = map_of (kv db) (ow', k')) \<and> map_of (kv_usage db') ow' = map_of (kv_usage db) ow')"
proof (cases "db' = db")
  case True
  with wf show ?thesis by simp
next
  case False
  with db' have "db' \<in> {fst (kv_set enc io ow k v db), fst (kv_delete io ow k db)}" by blast
  from kv_touch [OF wf this] show ?thesis by simp
qed

lemma blob_call_touch:
  assumes wf: "blobs_wf st"
    and st': "st' \<in> {st, fst (write_blob root_set io ow name data mime st)} \<or> st' \<in> {st, fst (delete_blob root_set io ow name st)}"
  shows "blobs_touch ow st st'"
  using st' blobs_touch_refl [OF wf, of ow] touch_write [OF wf, of ow] touch_delete [OF wf, of ow] by auto

lemma store_step_keys:
  assumes "hm_wf (kv (hs_kv h))" "hm_wf (kv_usage (hs_kv h))"
  shows "hm_wf (kv (hs_kv (store_step to_text op h))) \<and> hm_wf (kv_usage (hs_kv (store_step to_text op h)))
    \<and> (\<forall>u inst. store_actor op \<noteq> Some inst \<longrightarrow>
         (\<forall>k. map_of (kv (hs_kv (store_step to_text op h))) ((u, inst), k) = map_of (kv (hs_kv h)) ((u, inst), k))
         \<and> map_of (kv_usage (hs_kv (store_step to_text op h))) (u, inst) = map_of (kv_usage (hs_kv h)) (u, inst))"
proof (cases op)
  case (SetKey io pc k v)
  note key_call_touch [OF assms disjI1 [OF key_calls(1)]]
  with SetKey show ?thesis by (simp add: ctx_owner_def)
next
  case (DeleteKey io pc k)
  note key_call_touch [OF assms disjI2 [OF key_calls(2)]]
  with DeleteKey show ?thesis by (simp add: ctx_owner_def)
qed (use assms in simp_all)

lemma store_step_blobs:
  assumes "blobs_wf (hs_blobs h)"
  shows "blobs_wf (hs_blobs (store_step to_text op h))
    \<and> (\<forall>u inst. store_actor op \<noteq> Some inst \<longrightarrow>
         (\<forall>n. map_of (bs_rows (hs_blobs (store_step to_text op h))) ((u, inst), n) = map_of (bs_rows (hs_blobs h)) ((u, inst), n))
         \<and> map_of (bs_usage (hs_blobs (store_step to_text op h))) (u, inst) = map_of (bs_usage (hs_blobs h)) (u, inst)
         \<and> (\<forall>i. map_of (bs_files (hs_blobs (store_step to_text op h))) (final_path (u, inst) i)
               = map_of (bs_files (hs_blobs h)) (final_path (u, inst) i)))"
proof (cases op)
  case (PutBlob root_set io pc name data mime)
  have "blobs_touch (ctx_owner pc) (hs_blobs h) (hs_blobs (store_step to_text op h))"
    unfolding PutBlob store_step.simps by (rule blob_call_touch [OF assms disjI1 [OF blob_calls(1)]])
  with PutBlob show ?thesis by (simp add: blobs_touch_def ctx_owner_def)
next
  case (RemoveBlob root_set io pc name)
  have "blobs_touch (ctx_owner pc) (hs_blobs h) (hs_blobs (store_step to_text op h))"
    unfolding RemoveBlob store_step.simps by (rule blob_call_touch [OF assms disjI2 [OF blob_calls(2)]])
  with RemoveBlob show ?thesis by (simp add: blobs_touch_def ctx_owner_def)
qed (use assms in simp_all)

lemma store_step_services:
  assumes inv: "service_inv n (hs_services h)" and room: "call_room n"
  shows "service_inv (Suc n) (hs_services (store_step to_text op h))
    \<and> (\<forall>inst. store_actor op \<noteq> Some inst \<longrightarrow> service_view (hs_services (store_step to_text op h)) inst = service_view (hs_services h) inst)"
proof -
  have ok: "service_inv (Suc n) s \<and> (\<forall>inst. a \<noteq> Some inst \<longrightarrow> service_view s inst = service_view (hs_services h) inst)"
    if "s = hs_services h \<or> s = service_step o' (hs_services h) \<and> service_actor o' = a" for s o' and a :: "string option"
    using that service_inv_Suc [OF inv] service_step_inv [OF inv room] service_local_respect [OF inv] by auto
  show ?thesis
  proof (cases op)
    case (RegisterService pc info)
    with ok [of "hs_services (store_step to_text op h)" "Services.Register (pc_instance pc) (pc_plugin pc) info" "store_actor op"]
      service_calls(1) [of pc info h] show ?thesis by simp
  next
    case (UpdateService pc i info)
    with ok [of "hs_services (store_step to_text op h)" "Services.Update (pc_instance pc) i info" "store_actor op"]
      service_calls(2) [of pc i info h] show ?thesis by simp
  next
    case (RemoveService pc i)
    with ok [of "hs_services (store_step to_text op h)" "Services.Remove (pc_instance pc) i" "store_actor op"]
      service_calls(3) [of pc i h] show ?thesis by simp
  next
    case (TakeGuard i)
    with ok [of "hs_services (store_step to_text op h)" "Acquire i" "store_actor op"] show ?thesis by simp
  next
    case (ReleaseGuard m)
    with ok [of "hs_services (store_step to_text op h)" "DropGuard m" "store_actor op"] show ?thesis by simp
  qed (use service_inv_Suc [OF inv] in simp_all)
qed

interpretation calls: owned_store stores_inv call_room "\<lambda>_. True" "store_step to_text" store_actor store_view for to_text
proof
  fix n h op assume inv: "stores_inv n h" and room: "call_room n"
  show "stores_inv (Suc n) (store_step to_text op h)"
    using inv store_step_keys store_step_blobs store_step_services [OF _ room] by (simp add: stores_inv_def)
  fix inst assume "store_actor op \<noteq> Some inst"
  then show "store_view (store_step to_text op h) inst = store_view h inst"
    using inv store_step_keys [of h to_text op] store_step_blobs [of h to_text op] store_step_services [OF _ room, of h to_text op]
    by (simp add: stores_inv_def store_view_def)
qed

definition new_stores :: host_stores where
  "new_stores = \<lparr>hs_kv = \<lparr>kv = [], kv_usage = []\<rparr>, hs_blobs = new_blobs, hs_services = (empty_services, [])\<rparr>"

lemma new_stores_inv: "stores_inv 0 new_stores"
  by (simp add: stores_inv_def new_stores_def blobs_wf_def new_blobs_def service_inv_empty)

text \<open>
  Claim C12.  A plugin cannot reach the data of another.  After any calls and then any calls of other instances, with any
  outcome of the database and the file system and with service calls coming and going, an instance has the keys, the
  blobs, their files, the recorded usage and the services it had before them.
\<close>

theorem calls_confined:
  assumes others: "\<forall>op \<in> set ops'. store_actor op \<noteq> Some inst" and room: "length ops + length ops' < 2 ^ 32"
    and start: "stores_inv 0 h"
  shows "store_view (fold (store_step to_text) (ops @ ops') h) inst = store_view (fold (store_step to_text) ops h) inst"
proof -
  have "calls.room_for 0 ops" "calls.room_for (length ops) ops'"
    using room by (simp_all add: calls.room_for_def call_room_def)
  with calls.inv_run [OF start, of ops to_text] have "stores_inv (length ops) (fold (store_step to_text) ops h)"
    by (simp add: list_all_iff)
  with calls.view_run [OF this \<open>calls.room_for (length ops) ops'\<close>, of inst to_text] others show ?thesis
    by (simp add: list_all_iff)
qed



section \<open>Samples\<close>

definition store_ctx :: "string \<Rightarrow> plugin_ctx" where
  "store_ctx inst =
     \<lparr>pc_instance = inst, pc_uuid = ''u'', pc_plugin = ''p'', pc_granted = \<lparr>network = [], storage_quota_kb = 1, blob_quota_mb = 0,
       declares_devices = [], declares_services = [], consumes_services = [], subscribes_events = False\<rparr>\<rparr>"

definition registered_stores :: host_stores where
  "registered_stores = new_stores\<lparr>hs_kv := fst (register_quota True (''u'', ''b'') 9 (fst (register_quota True (''u'', ''a'') 9 (hs_kv new_stores))))\<rparr>"

lemma registered_kv: "hs_kv registered_stores = \<lparr>kv = [], kv_usage = [((''u'', ''a''), 0, 9), ((''u'', ''b''), 0, 9)]\<rparr>"
  by (simp add: registered_stores_def new_stores_def register_quota_def i64_top_def)

lemma registered_stores_inv: "stores_inv 0 registered_stores"
  using new_stores_inv registered_kv by (simp add: stores_inv_def) (simp add: registered_stores_def hm_wf_def)

theorem calls_confined_witness:
  "let op = (\<lambda>inst t. SetKey True (store_ctx inst) t (StringVal t));
       h = fold (store_step (\<lambda>_. ''tt'')) [op ''a'' ''k'', op ''b'' ''k''] registered_stores
   in store_view h ''a'' = store_view (store_step (\<lambda>_. ''tt'') (op ''a'' ''k'') registered_stores) ''a''
      \<and> map_of (kv (hs_kv h)) ((''u'', ''a''), ''k'') = Some ''tt''"
proof -
  define op where "op = (\<lambda>inst t. SetKey True (store_ctx inst) t (StringVal t))"
  let ?step = "store_step (\<lambda>_. ''tt'')"
  have "store_view (fold ?step ([op ''a'' ''k''] @ [op ''b'' ''k'']) registered_stores) ''a''
      = store_view (fold ?step [op ''a'' ''k''] registered_stores) ''a''"
    by (rule calls_confined [OF _ _ registered_stores_inv]) (simp_all add: op_def store_ctx_def)
  moreover have "map_of (kv (hs_kv (?step (op ''a'' ''k'') registered_stores))) ((''u'', ''a''), ''k'') = Some ''tt''"
    by (simp add: op_def storage_set_def require_storage_enabled_def store_ctx_def stored_value_size_def max_kv_value_bytes_def
        kv_set_def encode_value_def registered_kv ctx_owner_def entry_bytes_def upsert_row_def Let_def)
  ultimately show ?thesis by (simp add: store_view_def op_def Let_def fun_eq_iff)
qed


end
