(* ===== verification/Dashboards.thy ===== *)
theory Dashboards
  imports Auth_Policy Maps Owned_Store
begin

text \<open>
  The dashboards (\<^verbatim>\<open>crates/oxidhome-core/src/state/dashboards.rs\<close>) and their handlers in \<^verbatim>\<open>api/server.rs\<close>.  The table is the list
  of its rows in the order of their keys; a call takes the clock and whether the database serves it.  The layout is a JSON
  value that the host does not look into: a type of its own, with \<^verbatim>\<open>serde_json\<close>'s writer and reader as parameters.
\<close>

section \<open>The store\<close>

record dashboard =
  db_id :: int
  db_name :: string
  db_owner :: string
  db_layout :: "8 word list"
  db_schema :: int
  db_created :: int
  db_updated :: int

record dashboard_input =
  di_name :: string
  di_owner :: string
  di_layout :: "8 word list"
  di_schema :: int

record dashboard_metadata =
  dm_id :: int
  dm_name :: string
  dm_owner :: string
  dm_schema :: int
  dm_created :: int
  dm_updated :: int
  dm_layout_bytes :: nat

datatype dashboard_error =
    DashboardNotFound int
  | DashboardTooLarge string nat nat
  | DashboardQuota nat nat
  | DashboardSql

definition max_dashboard_name_bytes :: nat where
  "max_dashboard_name_bytes = 256"

definition max_dashboard_layout_bytes :: nat where
  "max_dashboard_layout_bytes = 128 * 1024"

definition max_dashboards_per_owner :: nat where
  "max_dashboards_per_owner = 128"

definition check_caps :: "dashboard_input \<Rightarrow> dashboard_error + unit" where
  "check_caps input =
     (if length (di_name input) > max_dashboard_name_bytes
      then Err (DashboardTooLarge ''name'' (length (di_name input)) max_dashboard_name_bytes)
      else if length (di_layout input) > max_dashboard_layout_bytes
      then Err (DashboardTooLarge ''layout'' (length (di_layout input)) max_dashboard_layout_bytes)
      else Ok ())"

text \<open>The key of a new row is one above the highest key there is.\<close>

definition next_dashboard_id :: "dashboard list \<Rightarrow> int" where
  "next_dashboard_id rows = fold max (map db_id rows) 0 + 1"

definition owned_count :: "string \<Rightarrow> dashboard list \<Rightarrow> nat" where
  "owned_count owner rows = length (filter (\<lambda>d. db_owner d = owner) rows)"

definition create_dashboard_row ::
  "bool \<Rightarrow> int \<Rightarrow> dashboard_input \<Rightarrow> dashboard list \<Rightarrow> dashboard list \<times> (dashboard_error + dashboard)" where
  "create_dashboard_row io now input rows =
     (case check_caps input of
        Err e \<Rightarrow> (rows, Err e)
      | Ok _ \<Rightarrow>
          if \<not> io then (rows, Err DashboardSql)
          else if owned_count (di_owner input) rows \<ge> max_dashboards_per_owner
          then (rows, Err (DashboardQuota (owned_count (di_owner input) rows) max_dashboards_per_owner))
          else (let d = \<lparr>db_id = next_dashboard_id rows, db_name = di_name input, db_owner = di_owner input,
                  db_layout = di_layout input, db_schema = di_schema input, db_created = now, db_updated = now\<rparr>
                in (rows @ [d], Ok d)))"

definition metadata_of :: "dashboard \<Rightarrow> dashboard_metadata" where
  "metadata_of d =
     \<lparr>dm_id = db_id d, dm_name = db_name d, dm_owner = db_owner d, dm_schema = db_schema d, dm_created = db_created d,
      dm_updated = db_updated d, dm_layout_bytes = length (db_layout d)\<rparr>"

text \<open>Rows last updated at the same time come in some order, here by key.\<close>

definition list_metadata_by_owner :: "bool \<Rightarrow> string \<Rightarrow> dashboard list \<Rightarrow> dashboard_error + dashboard_metadata list" where
  "list_metadata_by_owner io owner rows =
     (if \<not> io then Err DashboardSql
      else Ok (map metadata_of (sort_key (\<lambda>d. - db_updated d) (filter (\<lambda>d. db_owner d = owner) rows))))"

definition addressed :: "int \<Rightarrow> string \<Rightarrow> dashboard \<Rightarrow> bool" where
  "addressed i owner d \<longleftrightarrow> db_id d = i \<and> db_owner d = owner"

definition rewritten :: "int \<Rightarrow> dashboard_input \<Rightarrow> dashboard \<Rightarrow> dashboard" where
  "rewritten now input d =
     d\<lparr>db_name := di_name input, db_layout := di_layout input, db_schema := di_schema input, db_updated := now\<rparr>"

definition update_owned ::
  "bool \<Rightarrow> int \<Rightarrow> int \<Rightarrow> string \<Rightarrow> dashboard_input \<Rightarrow> dashboard list \<Rightarrow> dashboard list \<times> (dashboard_error + dashboard)" where
  "update_owned io now i owner input rows =
     (case check_caps input of
        Err e \<Rightarrow> (rows, Err e)
      | Ok _ \<Rightarrow>
          if \<not> io then (rows, Err DashboardSql)
          else (map (\<lambda>d. if addressed i owner d then rewritten now input d else d) rows,
                case find (addressed i owner) rows of
                  Some d \<Rightarrow> Ok (rewritten now input d)
                | None \<Rightarrow> Err (DashboardNotFound i)))"

definition delete_owned :: "bool \<Rightarrow> int \<Rightarrow> string \<Rightarrow> dashboard list \<Rightarrow> dashboard list \<times> (dashboard_error + bool)" where
  "delete_owned io i owner rows =
     (if \<not> io then (rows, Err DashboardSql)
      else (filter (\<lambda>d. \<not> addressed i owner d) rows, Ok (list_ex (addressed i owner) rows)))"

definition get_owned :: "bool \<Rightarrow> int \<Rightarrow> string \<Rightarrow> dashboard list \<Rightarrow> dashboard_error + dashboard option" where
  "get_owned io i owner rows = (if \<not> io then Err DashboardSql else Ok (find (addressed i owner) rows))"

section \<open>The handlers\<close>

definition dashboard_admin_owner :: string where
  "dashboard_admin_owner = ''admin''"

record 'j wire_dashboard =
  wd_id :: int
  wd_name :: string
  wd_owner :: string
  wd_layout :: 'j
  wd_schema :: int
  wd_created :: int
  wd_updated :: int

record 'j dashboard_body =
  bd_name :: string
  bd_layout :: 'j
  bd_schema :: "int option"

datatype dashboards_error =
    DashboardsScope string
  | DashboardsNotFound
  | DashboardsTooLarge string nat nat
  | DashboardsQuota nat nat
  | CorruptRow
  | DashboardsInternal

fun dashboards_error_of :: "dashboard_error \<Rightarrow> dashboards_error" where
  "dashboards_error_of (DashboardNotFound i) = DashboardsNotFound"
| "dashboards_error_of (DashboardTooLarge f n cap) = DashboardsTooLarge f n cap"
| "dashboards_error_of (DashboardQuota n cap) = DashboardsQuota n cap"
| "dashboards_error_of DashboardSql = DashboardsInternal"

fun dashboards_status :: "dashboards_error \<Rightarrow> nat" where
  "dashboards_status (DashboardsScope s) = 403"
| "dashboards_status DashboardsNotFound = 404"
| "dashboards_status (DashboardsTooLarge f n cap) = 400"
| "dashboards_status (DashboardsQuota n cap) = 409"
| "dashboards_status CorruptRow = 500"
| "dashboards_status DashboardsInternal = 500"

definition wire_from_row :: "(8 word list \<Rightarrow> 'j option) \<Rightarrow> dashboard \<Rightarrow> dashboards_error + 'j wire_dashboard" where
  "wire_from_row of_text d =
     (case of_text (db_layout d) of
        None \<Rightarrow> Err CorruptRow
      | Some j \<Rightarrow> Ok \<lparr>wd_id = db_id d, wd_name = db_name d, wd_owner = db_owner d, wd_layout = j, wd_schema = db_schema d,
            wd_created = db_created d, wd_updated = db_updated d\<rparr>)"

definition input_of_body :: "('j \<Rightarrow> 8 word list) \<Rightarrow> 'j dashboard_body \<Rightarrow> dashboard_input" where
  "input_of_body to_text body =
     \<lparr>di_name = bd_name body, di_owner = dashboard_admin_owner, di_layout = to_text (bd_layout body),
      di_schema = (case bd_schema body of Some v \<Rightarrow> v | None \<Rightarrow> 1)\<rparr>"

definition answer_row ::
  "(8 word list \<Rightarrow> 'j option) \<Rightarrow> dashboard_error + dashboard \<Rightarrow> dashboards_error + 'j wire_dashboard" where
  "answer_row of_text r = (case r of Err e \<Rightarrow> Err (dashboards_error_of e) | Ok d \<Rightarrow> wire_from_row of_text d)"

definition list_dashboards :: "bool \<Rightarrow> actor \<Rightarrow> dashboard list \<Rightarrow> dashboards_error + dashboard_metadata list" where
  "list_dashboards io a rows =
     (case require_scope a ''dashboards:read'' of
        Err s \<Rightarrow> Err (DashboardsScope s)
      | Ok _ \<Rightarrow>
          (case list_metadata_by_owner io dashboard_admin_owner rows of
             Err e \<Rightarrow> Err (dashboards_error_of e)
           | Ok ms \<Rightarrow> Ok ms))"

definition create_dashboard ::
  "('j \<Rightarrow> 8 word list) \<Rightarrow> (8 word list \<Rightarrow> 'j option) \<Rightarrow> bool \<Rightarrow> int \<Rightarrow> actor \<Rightarrow> 'j dashboard_body \<Rightarrow> dashboard list
     \<Rightarrow> dashboard list \<times> (dashboards_error + 'j wire_dashboard)" where
  "create_dashboard to_text of_text io now a body rows =
     (case require_scope a ''dashboards:write'' of
        Err s \<Rightarrow> (rows, Err (DashboardsScope s))
      | Ok _ \<Rightarrow>
          (case create_dashboard_row io now (input_of_body to_text body) rows of
             (rows', r) \<Rightarrow> (rows', answer_row of_text r)))"

definition get_dashboard ::
  "(8 word list \<Rightarrow> 'j option) \<Rightarrow> bool \<Rightarrow> actor \<Rightarrow> int \<Rightarrow> dashboard list \<Rightarrow> dashboards_error + 'j wire_dashboard" where
  "get_dashboard of_text io a i rows =
     (case require_scope a ''dashboards:read'' of
        Err s \<Rightarrow> Err (DashboardsScope s)
      | Ok _ \<Rightarrow>
          (case get_owned io i dashboard_admin_owner rows of
             Err e \<Rightarrow> Err (dashboards_error_of e)
           | Ok None \<Rightarrow> Err DashboardsNotFound
           | Ok (Some d) \<Rightarrow> wire_from_row of_text d))"

definition update_dashboard ::
  "('j \<Rightarrow> 8 word list) \<Rightarrow> (8 word list \<Rightarrow> 'j option) \<Rightarrow> bool \<Rightarrow> int \<Rightarrow> actor \<Rightarrow> int \<Rightarrow> 'j dashboard_body \<Rightarrow> dashboard list
     \<Rightarrow> dashboard list \<times> (dashboards_error + 'j wire_dashboard)" where
  "update_dashboard to_text of_text io now a i body rows =
     (case require_scope a ''dashboards:write'' of
        Err s \<Rightarrow> (rows, Err (DashboardsScope s))
      | Ok _ \<Rightarrow>
          (case update_owned io now i dashboard_admin_owner (input_of_body to_text body) rows of
             (rows', r) \<Rightarrow> (rows', answer_row of_text r)))"

definition delete_dashboard ::
  "bool \<Rightarrow> actor \<Rightarrow> int \<Rightarrow> dashboard list \<Rightarrow> dashboard list \<times> (dashboards_error + unit)" where
  "delete_dashboard io a i rows =
     (case require_scope a ''dashboards:write'' of
        Err s \<Rightarrow> (rows, Err (DashboardsScope s))
      | Ok _ \<Rightarrow>
          (case delete_owned io i dashboard_admin_owner rows of
             (rows', Err e) \<Rightarrow> (rows', Err (dashboards_error_of e))
           | (rows', Ok removed) \<Rightarrow> (rows', if removed then Ok () else Err DashboardsNotFound)))"


section \<open>Runs\<close>

datatype dashboard_op =
    CreateRow bool int dashboard_input
  | UpdateRow bool int int string dashboard_input
  | DeleteRow bool int string

fun dashboard_step :: "dashboard_op \<Rightarrow> dashboard list \<Rightarrow> dashboard list" where
  "dashboard_step (CreateRow io now input) rows = fst (create_dashboard_row io now input rows)"
| "dashboard_step (UpdateRow io now i owner input) rows = fst (update_owned io now i owner input rows)"
| "dashboard_step (DeleteRow io i owner) rows = fst (delete_owned io i owner rows)"

fun dashboard_actor :: "dashboard_op \<Rightarrow> string option" where
  "dashboard_actor (CreateRow io now input) = Some (di_owner input)"
| "dashboard_actor (UpdateRow io now i owner input) = Some owner"
| "dashboard_actor (DeleteRow io i owner) = Some owner"

definition row_bounded :: "dashboard \<Rightarrow> bool" where
  "row_bounded d \<longleftrightarrow> length (db_name d) \<le> max_dashboard_name_bytes \<and> length (db_layout d) \<le> max_dashboard_layout_bytes"

definition dashboards_inv :: "dashboard list \<Rightarrow> bool" where
  "dashboards_inv rows \<longleftrightarrow> distinct (map db_id rows) \<and> list_all row_bounded rows
     \<and> (\<forall>owner. owned_count owner rows \<le> max_dashboards_per_owner)"

lemma next_dashboard_id_fresh: "d \<in> set rows \<Longrightarrow> db_id d < next_dashboard_id rows"
proof -
  have "x \<le> fold max xs n" if "x \<in> set xs \<or> x \<le> n" for x n :: int and xs
    using that by (induction xs arbitrary: n) fastforce+
  then show "d \<in> set rows \<Longrightarrow> db_id d < next_dashboard_id rows" by (simp add: next_dashboard_id_def zle_add1_eq_le)
qed

lemma check_caps_Ok: "check_caps input = Ok () \<longleftrightarrow>
    length (di_name input) \<le> max_dashboard_name_bytes \<and> length (di_layout input) \<le> max_dashboard_layout_bytes"
  by (simp add: check_caps_def)

lemma owned_count_owners: "owned_count owner rows = count_list (map db_owner rows) owner"
  by (induction rows) (simp_all add: owned_count_def)

lemma boards_create_inv:
  assumes inv: "dashboards_inv rows"
  shows "dashboards_inv (fst (create_dashboard_row io now input rows))"
proof (cases "is_ok (snd (create_dashboard_row io now input rows))")
  case True
  then obtain d where caps: "check_caps input = Ok ()" and room: "owned_count (di_owner input) rows < max_dashboards_per_owner"
    and rows: "fst (create_dashboard_row io now input rows) = rows @ [d]"
    and d: "db_id d = next_dashboard_id rows" "db_owner d = di_owner input" "db_name d = di_name input" "db_layout d = di_layout input"
    by (auto simp: create_dashboard_row_def Let_def split: sum.splits if_splits)
  have fresh: "next_dashboard_id rows \<notin> db_id ` set rows" using next_dashboard_id_fresh [of _ rows] by fastforce
  have "owned_count owner rows \<le> max_dashboards_per_owner" for owner using inv by (simp add: dashboards_inv_def)
  with room d(2) have "owned_count owner (rows @ [d]) \<le> max_dashboards_per_owner" for owner by (auto simp: owned_count_def)
  moreover have "distinct (map db_id (rows @ [d]))" "list_all row_bounded (rows @ [d])"
    using inv fresh d caps by (simp_all add: dashboards_inv_def row_bounded_def check_caps_Ok)
  ultimately show ?thesis by (simp add: rows dashboards_inv_def)
next
  case False
  with inv show ?thesis by (auto simp: create_dashboard_row_def Let_def split: sum.splits if_splits)
qed

lemma rewritten_sel [simp]:
  "db_id (rewritten now input d) = db_id d" "db_owner (rewritten now input d) = db_owner d"
  "row_bounded (rewritten now input d) \<longleftrightarrow> check_caps input = Ok ()"
  by (simp_all add: rewritten_def row_bounded_def check_caps_Ok)

lemma boards_update_inv: "dashboards_inv rows \<Longrightarrow> dashboards_inv (fst (update_owned io now i owner input rows))"
proof (cases "check_caps input")
  case (Inr u)
  assume inv: "dashboards_inv rows"
  let ?f = "\<lambda>d. if addressed i owner d then rewritten now input d else d"
  have same: "map db_id (map ?f rows) = map db_id rows" "map db_owner (map ?f rows) = map db_owner rows" by simp_all
  then have "owned_count o' (map ?f rows) = owned_count o' rows" for o' by (simp only: owned_count_owners)
  moreover have "list_all row_bounded (map ?f rows)" using inv Inr by (auto simp: dashboards_inv_def list_all_iff)
  ultimately have "dashboards_inv (map ?f rows)" using inv same(1) by (simp only: dashboards_inv_def) simp
  with inv Inr show ?thesis by (simp add: update_owned_def)
qed (simp add: update_owned_def)

lemma boards_delete_inv: "dashboards_inv rows \<Longrightarrow> dashboards_inv (fst (delete_owned io i owner rows))"
proof -
  assume inv: "dashboards_inv rows"
  have "owned_count o' (filter P rows) \<le> owned_count o' rows" for o' P
    unfolding owned_count_def filter_filter by (induction rows) auto
  then have "owned_count o' (filter P rows) \<le> max_dashboards_per_owner" for o' P
    using inv order_trans unfolding dashboards_inv_def by blast
  with inv show ?thesis by (auto simp: delete_owned_def dashboards_inv_def list_all_iff distinct_map_filter)
qed

lemma dashboard_step_inv: "dashboards_inv rows \<Longrightarrow> dashboards_inv (dashboard_step op rows)"
  by (cases op) (simp_all add: boards_create_inv boards_update_inv boards_delete_inv)

definition dashboard_view :: "dashboard list \<Rightarrow> string \<Rightarrow> dashboard list" where
  "dashboard_view rows owner = filter (\<lambda>d. db_owner d = owner) rows"

lemma dashboard_local_respect:
  assumes "dashboard_actor op \<noteq> Some owner"
  shows "dashboard_view (dashboard_step op rows) owner = dashboard_view rows owner"
proof (cases op)
  case (CreateRow io now input)
  with assms show ?thesis by (simp add: dashboard_view_def create_dashboard_row_def Let_def split: sum.split)
next
  case (UpdateRow io now i o' input)
  have "filter (\<lambda>d. db_owner d = owner) (map (\<lambda>d. if addressed i o' d then rewritten now input d else d) rows)
      = filter (\<lambda>d. db_owner d = owner) rows"
    using assms UpdateRow by (induction rows) (auto simp: addressed_def)
  with UpdateRow show ?thesis by (simp add: dashboard_view_def update_owned_def split: sum.split)
next
  case (DeleteRow io i o')
  with assms show ?thesis
    by (auto simp: dashboard_view_def delete_owned_def addressed_def intro!: filter_cong)
qed

interpretation boards: owned_store "\<lambda>_. dashboards_inv" "\<lambda>_. True" "\<lambda>_. True" dashboard_step dashboard_actor dashboard_view
  by unfold_locales (simp_all add: dashboard_step_inv dashboard_local_respect)

lemma dashboard_run_inv: "dashboards_inv (fold dashboard_step ops [])"
  using boards.inv_run [where n = 0 and s = "[]" and ops = ops]
  by (simp add: boards.room_for_def list_all_iff dashboards_inv_def owned_count_def)

lemma sum_list_le: "\<forall>x \<in> set xs. f x \<le> (m :: nat) \<Longrightarrow> sum_list (map f xs) \<le> length xs * m"
  by (induction xs) auto

lemma find_snoc: "find P xs = None \<Longrightarrow> P y \<Longrightarrow> find P (xs @ [y]) = Some y"
  by (induction xs) (auto split: if_splits)

text \<open>
  What an owner stores is bounded, and is not changed by other owners.
\<close>

theorem dashboards_bounded:
  "owned_count owner (fold dashboard_step ops []) \<le> 128
   \<and> sum_list (map (length \<circ> db_layout) (dashboard_view (fold dashboard_step ops []) owner)) \<le> 128 * (128 * 1024)"
proof -
  let ?rows = "fold dashboard_step ops []"
  have inv: "dashboards_inv ?rows" by (rule dashboard_run_inv)
  then have n: "length (dashboard_view ?rows owner) \<le> 128"
    by (simp add: dashboards_inv_def owned_count_def dashboard_view_def max_dashboards_per_owner_def)
  have "\<forall>d \<in> set (dashboard_view ?rows owner). (length \<circ> db_layout) d \<le> max_dashboard_layout_bytes"
    using inv by (simp add: dashboards_inv_def dashboard_view_def list_all_iff row_bounded_def)
  then have "sum_list (map (length \<circ> db_layout) (dashboard_view ?rows owner)) \<le> length (dashboard_view ?rows owner) * max_dashboard_layout_bytes"
    by (rule sum_list_le)
  also have "\<dots> \<le> 128 * max_dashboard_layout_bytes" using n by (rule mult_le_mono1)
  finally show ?thesis using n by (simp add: max_dashboard_layout_bytes_def owned_count_def dashboard_view_def)
qed

theorem dashboards_confined:
  assumes "\<forall>op \<in> set ops'. dashboard_actor op \<noteq> Some owner"
  shows "dashboard_view (fold dashboard_step (ops @ ops') []) owner = dashboard_view (fold dashboard_step ops []) owner"
  using boards.view_run [where n = 0 and ops = ops' and o' = owner, OF dashboard_run_inv [of ops]] assms
  by (simp add: boards.room_for_def list_all_iff)

text \<open>A dashboard that was written reads back as the writer was answered.\<close>

theorem dashboard_reads_back:
  assumes codec: "\<And>j. of_text (to_text j) = Some j" and inv: "dashboards_inv rows"
    and scope: "require_scope a ''dashboards:read'' = Ok ()"
    and written: "create_dashboard to_text of_text io now a' body rows = (rows', Ok w)
      \<or> update_dashboard to_text of_text io now a' i body rows = (rows', Ok w)"
  shows "get_dashboard of_text True a (wd_id w) rows' = Ok w \<and> wd_layout w = bd_layout body \<and> wd_name w = bd_name body"
  using written
proof
  let ?d = "\<lparr>db_id = next_dashboard_id rows, db_name = bd_name body, db_owner = dashboard_admin_owner,
    db_layout = to_text (bd_layout body), db_schema = di_schema (input_of_body to_text body), db_created = now, db_updated = now\<rparr>"
  assume "create_dashboard to_text of_text io now a' body rows = (rows', Ok w)"
  then have "rows' = rows @ [?d]" and w: "wire_from_row of_text ?d = Ok w"
    by (auto simp: create_dashboard_def create_dashboard_row_def answer_row_def input_of_body_def Let_def
        split: sum.splits if_splits)
  moreover have "find (addressed (next_dashboard_id rows) dashboard_admin_owner) rows = None"
    using next_dashboard_id_fresh [of _ rows] by (fastforce simp: find_None_iff addressed_def)
  then have "find (addressed (next_dashboard_id rows) dashboard_admin_owner) (rows @ [?d]) = Some ?d"
    by (rule find_snoc) (simp add: addressed_def)
  moreover have "wd_id w = next_dashboard_id rows" using w codec by (auto simp: wire_from_row_def)
  ultimately show ?thesis using w codec scope by (auto simp: get_dashboard_def get_owned_def wire_from_row_def)
next
  assume "update_dashboard to_text of_text io now a' i body rows = (rows', Ok w)"
  then obtain d where d: "find (addressed i dashboard_admin_owner) rows = Some d"
    and rows': "rows' = map (\<lambda>d. if addressed i dashboard_admin_owner d then rewritten now (input_of_body to_text body) d else d) rows"
    and w: "wire_from_row of_text (rewritten now (input_of_body to_text body) d) = Ok w"
    by (auto simp: update_dashboard_def update_owned_def answer_row_def split: sum.splits if_splits option.splits)
  let ?f = "\<lambda>d. if addressed i dashboard_admin_owner d then rewritten now (input_of_body to_text body) d else d"
  have "addressed i dashboard_admin_owner (?f x) = addressed i dashboard_admin_owner x" for x by (simp add: addressed_def)
  then have "find (addressed i dashboard_admin_owner) (map ?f rows) = map_option ?f (find (addressed i dashboard_admin_owner) rows)"
    by (induction rows) auto
  moreover have "addressed i dashboard_admin_owner d" using find_Some_in [OF d] by simp
  moreover from this have "wd_id w = i" using w codec by (auto simp: wire_from_row_def rewritten_def input_of_body_def addressed_def)
  ultimately show ?thesis using d rows' w codec scope
    by (auto simp: get_dashboard_def get_owned_def wire_from_row_def rewritten_def input_of_body_def)
qed

end
