(* ===== verification/Spec2Isabelle.thy ===== *)
theory Spec2Isabelle
  imports Prelude Numerals Ip_Addr F64 Maps Manifest Validate Config_Merge Network_Rules Base64 Auth_Token
    Audit_Log Auth_Policy Auth_Guard Owned_Store Services Devices Durations Lifecycle Token_Bucket Rate_Limit Event_Bus
    Registry Dispatcher Session_Admission Kv_Store
    Slot_Fields Device_State State_Evolution State_Limits Signed_Text Ui_Ticket State_Api State_Pages State_Client
    State_Catchup Event_Log Host_Devices Host_Invariant Host_Steps Host_Claims
    Plugin_Files Installed_Plugins Plugin_Scan Plugin_Registry Plugin_Claims Plugin_Approval Plugin_Loading
    Plugin_Data Blobs Blob_Claims Log_Store Host_Limits Host_Config Host_Calls Dashboards
begin

text \<open>
  Verification library for the OxidHome core, a home-automation daemon that runs untrusted plugins as WebAssembly
  components.  The theories model the Rust code under \<^verbatim>\<open>crates/oxidhome-manifest/src\<close> and \<^verbatim>\<open>crates/oxidhome-core/src\<close>
  (paths below are relative to the second), one group of definitions for each component, under the names of the
  source.

  \<^bold>\<open>The program.\<close>  A plugin is a directory with a \<^verbatim>\<open>manifest.toml\<close>.  The manifest crate reads, validates and merges it with
  the user's overrides.  The installed-plugin registry copies a package below the plugins root, records a row with its
  content digest and the capabilities granted to it, and at every boot rebuilds its index from the rows and the
  directories.  The loader admits a component under the identity and the grant of its row; the instance registry and
  the supervisor then start, restart and stop it.  A running plugin calls the host: it registers devices and services,
  publishes events and state changes, stores keys, and calls services of other plugins through the dispatcher.
  Events go to the in-memory bus, to the durable event log, and into the projection of the devices' current state,
  which API clients page through and then follow.  Clients authenticate with bearer tokens; every request passes the
  guard, which checks the token's policy and writes the audit ledger, and the MCP endpoint adds a rate limiter and a cap
  on sessions.

  \<^bold>\<open>Conventions.\<close>  A Rust \<^verbatim>\<open>String\<close> is its UTF-8 bytes, a HOL character each.  A \<^verbatim>\<open>HashMap\<close> is an association list with
  distinct keys in an unspecified order, a \<^verbatim>\<open>BTreeMap\<close> one sorted by key (Maps).  A table is the list of its rows in the
  order of their keys.  A machine integer is a word where it can wrap or is read bitwise (Base64, Numerals, the MACs
  and digests), and a number with the saturation or the range check of the code written out elsewhere; counters
  that grow by one for each operation (\<^verbatim>\<open>u64\<close> revisions, ids) are naturals.  An \<^verbatim>\<open>f64\<close> is a rounded rational (F64).
  \<^verbatim>\<open>Result\<close> is a sum, \<open>Err\<close> and \<open>Ok\<close>.  Every method that takes a lock for its whole body is one step; where the code
  releases the lock between two parts, the parts are separate steps.  The clock, random bytes and the outcome of
  every call to the database or the file system are arguments, so a theorem covers their failure at any point; a
  failed write leaves the table as it was.  Texts of errors and log lines are reduced to their subject.

  \<^bold>\<open>Parameters.\<close>  Code that is not in the repository is an argument: SHA-256 (\<open>sha\<close>; where it matters, that it returns 32
  bytes, or that the inputs at hand do not collide), \<^verbatim>\<open>serde_json\<close> (a printer and a reader, with the law that the
  reader undoes the printer), the TOML reader, the JSON Schema library, the CIDR parser of \<^verbatim>\<open>ipnet\<close> (\<open>net_laws\<close>), the types
  generated from the WIT interface files where a component does not read them, and the random generator (the identities
  a run draws differ).  Each law is a hypothesis of the theorems that use it, shown satisfiable by their witnesses.

  \<^bold>\<open>Shared theories.\<close>
  Prelude: results, string functions, collections of simplification rules.  Numerals: decimal, hexadecimal, big-endian
  bytes, Unicode white space.  Ip_Addr: the address reader and printer of the standard library.  F64: rounding to
  binary64.  Durations: \<^verbatim>\<open>Duration\<close> and \<^verbatim>\<open>Instant\<close>.  Maps: the two map types, with the contract \<open>keyed_map\<close> and its two
  interpretations.  Signed_Text: HMAC-signed texts.  Owned_Store: the contract of a store shared by owners (what one
  owner sees is not changed by the others), interpreted by the service and the device registry.  Token_Bucket: the
  contract of a rate limiter, interpreted by the event bus and three times by the MCP limiter.

  \<^bold>\<open>Manifest\<close> (manifest crate).
  Manifest models the data of \<^verbatim>\<open>manifest.rs\<close>, \<^verbatim>\<open>config.rs\<close> and the compatibility check; Validate \<^verbatim>\<open>validate.rs\<close>, each check a
  function that appends to the error list (the contract \<open>error_sink\<close>): \<open>validate\<close> accepts exactly the manifests that
  satisfy the declarative rules, and a validated component path stays below its package.  Config_Merge models
  \<^verbatim>\<open>config.rs\<close>: \<open>merge\<close> succeeds exactly on legal overrides and returns a value of every declared key, of its type and
  range.  Network_Rules models \<^verbatim>\<open>network.rs\<close>: the parser and the renderer of network rules, which round-trip.

  \<^bold>\<open>Access.\<close>
  Base64 and Auth_Token (\<^verbatim>\<open>state/auth_token.rs\<close>): the token table; a store verifies exactly the canonical text of a secret
  whose hash has a live row, and a revoked token stays refused.  Auth_Policy (\<^verbatim>\<open>auth.rs\<close>, \<^verbatim>\<open>auth/policy.rs\<close>, \<^verbatim>\<open>api/scopes.rs\<close>):
  constraints of a policy document survive its reading.  Audit_Log (\<^verbatim>\<open>state/audit_log.rs\<close>): the ledger and its pages.
  Auth_Guard (\<^verbatim>\<open>api/auth.rs\<close>): the guard fails closed, and every admitted request is in the ledger.  Rate_Limit
  (\<^verbatim>\<open>api/mcp/rate_limit.rs\<close>): bearers that do not verify share one budget, and the limiter does not change what
  authentication decides.  Session_Admission (\<^verbatim>\<open>api/mcp/session_store.rs\<close>): the cap on sessions.  Ui_Ticket
  (\<^verbatim>\<open>api/ui_ticket.rs\<close>): a ticket is accepted exactly until its lifetime ends.

  \<^bold>\<open>Stores.\<close>
  Services (\<^verbatim>\<open>state/services.rs\<close>) and Devices (\<^verbatim>\<open>state/devices.rs\<close>): the registries, with non-interference of owners.  Kv_Store
  (\<^verbatim>\<open>state/kv.rs\<close> and the usage triggers of \<^verbatim>\<open>state/db.rs\<close>): the recorded usage is exact and a write succeeds exactly within
  the quota.  Event_Bus (\<^verbatim>\<open>state/events.rs\<close>): a subscription is a lossy channel that reports its losses.  Event_Log
  (\<^verbatim>\<open>state/event_log.rs\<close>): events read back as they were published; the walk by \<^verbatim>\<open>before_id\<close> is complete while the clock does
  not step back, and ends with fuel above the number of rows.  Log_Store (\<^verbatim>\<open>state/log_store.rs\<close>): the layer, the channel and
  the writer of the host's log as steps of threads; what is logged reads back, and a flush waits for what was emitted.  Dashboards (\<^verbatim>\<open>state/dashboards.rs\<close> and its handlers): the bounds
  of an owner's dashboards, and that they read back.
  The projection of device state (\<^verbatim>\<open>state/device_state.rs\<close>): Slot_Fields (field lists), Device_State (the operations),
  State_Evolution (how any operation may change an entry), State_Limits (the caps), State_Api (the handlers of
  \<^verbatim>\<open>api/server.rs\<close> and the signed cursor), State_Pages, State_Client (a client of the API holds exactly the fresh entries
  after a short page of changes, whatever happened in between) and State_Catchup (it gets there within a number of
  requests linear in the entries).

  \<^bold>\<open>Plugins at work.\<close>
  Registry (\<^verbatim>\<open>runtime/registry.rs\<close>): singletons are exclusive.  Lifecycle (\<^verbatim>\<open>runtime/lifecycle.rs\<close>, the arithmetic of
  \<^verbatim>\<open>watchdog.rs\<close>): the supervisor as a function of the script of its calls; its transitions, the end of crash loops, and
  that a stop is final.  Dispatcher (\<^verbatim>\<open>runtime/dispatcher.rs\<close>): the authorisation of service calls and the chains of
  callers.  Host_Devices (\<^verbatim>\<open>runtime/state.rs\<close>, \<^verbatim>\<open>runtime/instance.rs\<close>): the device and event calls of a plugin over the four
  stores they share; Host_Invariant, Host_Steps and Host_Claims show that the stores agree after any interleaving of
  calls and sweeps, and what an accepted or a refused call changes.  Host_Calls: the calls on keys, blobs and services, each
  under the identity and the grant of its instance; no call reaches the data of another.  Host_Config: the configuration a
  plugin reads; its list and its lookups agree.  Host_Limits: the memory and the tables of an instance stay below their
  ceilings, and what it logs is bounded and attributed to it.

  \<^bold>\<open>Plugins on disk\<close> (\<^verbatim>\<open>state/installed_plugins.rs\<close>).
  Plugin_Files: files with links, the reads that do not follow them (at most 40 links, as the kernel), UI assets, the
  content digest, the copy, the rename and the removal of directories.  Installed_Plugins: the table, the scan, the
  installation and its activation, the uninstallation, the effective capabilities.  Plugin_Scan: what the scan leaves for
  each plugin, by an invariant for one plugin at a time.  Plugin_Registry: runs of scans, installations, removals and
  changes of the files by others; the invariant that the table and the index agree.  Plugin_Claims: an indexed plugin
  rests on its only live row; a scan accounts for every directory; an uninstallation is complete.

  \<^bold>\<open>Loading and removal\<close> (\<^verbatim>\<open>runtime.rs\<close>, \<^verbatim>\<open>runtime/instance.rs\<close>).
  Plugin_Approval: over any run the digest and the grant of an identity never change, and the digest separates contents.
  Plugin_Loading: the start of an instance and the load of its component; what is run under an identity are the bytes that
  were approved for it, under the capabilities granted.  Blobs (\<^verbatim>\<open>state/blobs.rs\<close>): the blob store, files with an index in
  the database; Blob_Claims: a write, whatever call of it fails, replaces the blob or leaves it, a read returns what was
  written last, and the quota is exact.  Plugin_Data: the quotas reserved by a load, and the removal of a plugin with the
  keys and blobs stored under its identity.

  \<^bold>\<open>Fuel and bounds.\<close>  Loops of the code that end by their data are structural recursions or have a termination proof
  (\<open>canonicalize\<close>: links, then names).  The supervisor consumes a script; clients and walks take their fuel as an
  argument, and the theorems give a bound that is enough: the length of the table for the walk of the event log, twice the
  number of entries plus five for the requests of a client.

  \<^bold>\<open>Not modelled.\<close>  The routing of \<^verbatim>\<open>api/server.rs\<close> over axum, the services of \<^verbatim>\<open>api/connect_rpc.rs\<close> and the MCP tools, resources,
  prompts and handler (conversions between protocol messages and the stores, over generated and third-party types); the
  protocol crate (generated); the wiring of wasmtime in \<^verbatim>\<open>runtime.rs\<close> and \<^verbatim>\<open>runtime/instance.rs\<close> and the guest side of the
  SDK; the migrations (SQL run by SQLite); the file lock, the command line and \<^verbatim>\<open>stdio\<close> (operating
  system calls).  Within modelled files, the log lines and the metrics are left out.
\<close>

end
